(* ===== verification/Dc1_Prelude.thy ===== *)
theory Dc1_Prelude
  imports Main "HOL-Library.Word" "HOL-Library.Sublist"
begin

text \<open>
  Shared vocabulary of the development: bytes, byte strings and their little-endian codecs
  (Go's \<^verbatim>\<open>encoding/binary\<close>), Go slices and \<^verbatim>\<open>copy\<close>, the wrap-around of Go's
  64-bit \<^verbatim>\<open>int\<close>, and the lemma collections the component theories use.

  Go's \<^verbatim>\<open>[]byte\<close> is a list of 8-bit words, Go's \<^verbatim>\<open>string\<close> a list of characters
  (both are sequences of octets; \<open>bytes_of\<close> and \<open>string_of\<close> convert).  A Go function
  that returns \<^verbatim>\<open>(T, error)\<close> returns a sum, \<open>Inl\<close> the error and \<open>Inr\<close> the value.
\<close>

section \<open>Names of the model's types\<close>

unbundle bit_operations_syntax

type_synonym byte = "8 word"
type_synonym bytes = "byte list"
type_synonym u16 = "16 word"
type_synonym u32 = "32 word"
type_synonym u64 = "64 word"

named_theorems codec_simps \<open>equations of the little-endian codecs\<close>
named_theorems slice_simps \<open>equations of slices and copies\<close>
named_theorems go_text \<open>equations of Go's string functions\<close>

section \<open>Text and bytes\<close>

definition bytes_of :: "string \<Rightarrow> bytes" where
  "bytes_of s = map (\<lambda>c. word_of_nat (of_char c)) s"

definition string_of :: "bytes \<Rightarrow> string" where
  "string_of bs = map (\<lambda>b. char_of (unat b)) bs"

lemma unat_of_char [simp]: "unat (word_of_nat (of_char c) :: byte) = of_char c"
proof -
  have "(of_char c :: nat) < 256" by (rule nat_of_char_less_256)
  then show ?thesis by (simp add: unat_of_nat)
qed

lemma string_of_bytes_of [simp]: "string_of (bytes_of s) = s"
  by (simp add: string_of_def bytes_of_def comp_def)

lemma bytes_of_string_of [simp]: "bytes_of (string_of bs) = bs"
proof -
  have "(word_of_nat (of_char (char_of (unat b))) :: byte) = b" for b :: byte
  proof -
    have "unat b < 2 ^ LENGTH(8)" by (rule unsigned_less)
    then show ?thesis by simp
  qed
  then show ?thesis by (simp add: string_of_def bytes_of_def comp_def)
qed

lemma length_bytes_of [simp]: "length (bytes_of s) = length s"
  by (simp add: bytes_of_def)

lemma length_string_of [simp]: "length (string_of bs) = length bs"
  by (simp add: string_of_def)

lemma bytes_of_append [simp]: "bytes_of (s @ t) = bytes_of s @ bytes_of t"
  by (simp add: bytes_of_def)

lemma bytes_of_eq_iff [simp]: "bytes_of s = bytes_of t \<longleftrightarrow> s = t"
  by (metis string_of_bytes_of)

section \<open>Slices and copy\<close>

text \<open>
  \<open>slice lo hi xs\<close> is Go's \<^verbatim>\<open>xs[lo:hi]\<close>; every use in the models has
  \<open>lo \<le> hi \<le> length xs\<close>, the condition under which Go does not panic.
  \<open>copy_at off src dst\<close> is \<^verbatim>\<open>copy(dst[off:], src)\<close>: it stops at the end of \<open>dst\<close>.
\<close>

definition slice :: "nat \<Rightarrow> nat \<Rightarrow> 'a list \<Rightarrow> 'a list" where
  "slice lo hi xs = take (hi - lo) (drop lo xs)"

definition copy_at :: "nat \<Rightarrow> 'a list \<Rightarrow> 'a list \<Rightarrow> 'a list" where
  "copy_at off src dst =
     take off dst @ take (length dst - off) src @ drop (off + length src) dst"

lemma length_slice [simp]: "hi \<le> length xs \<Longrightarrow> length (slice lo hi xs) = hi - lo"
  by (simp add: slice_def)

lemma slice_append_right [slice_simps]:
  "length xs \<le> lo \<Longrightarrow> slice lo hi (xs @ ys) = slice (lo - length xs) (hi - length xs) ys"
  by (simp add: slice_def)

lemma slice_append_exact [slice_simps]:
  "lo = length xs \<Longrightarrow> hi = length xs + length ys \<Longrightarrow> slice lo hi (xs @ ys @ zs) = ys"
  by (simp add: slice_def)

lemma length_copy_at [simp]: "off \<le> length dst \<Longrightarrow> length (copy_at off src dst) = length dst"
  by (auto simp: copy_at_def min_def)

lemma copy_at_fits:
  "off + length src \<le> length dst \<Longrightarrow>
   copy_at off src dst = take off dst @ src @ drop (off + length src) dst"
  by (simp add: copy_at_def)

lemma drop_copy_at_same [slice_simps]:
  "off + length src \<le> length dst \<Longrightarrow>
   drop off (copy_at off src dst) = src @ drop (off + length src) dst"
  by (simp add: copy_at_fits)

lemma take_copy_at_before [slice_simps]:
  "n \<le> off \<Longrightarrow> off \<le> length dst \<Longrightarrow> take n (copy_at off src dst) = take n dst"
  by (simp add: copy_at_def min_def)

lemma drop_copy_at_after [slice_simps]:
  assumes "off + length src \<le> n" and "off + length src \<le> length dst"
  shows "drop n (copy_at off src dst) = drop n dst"
proof -
  have "drop n (copy_at off src dst) =
        drop (n - (off + length src)) (drop (off + length src) dst)"
    using assms by (simp add: copy_at_fits)
  also have "\<dots> = drop n dst" using assms(1) by simp
  finally show ?thesis .
qed

lemma nth_copy_at:
  assumes "off + length src \<le> length dst" and "i < length dst"
  shows "copy_at off src dst ! i =
     (if off \<le> i \<and> i < off + length src then src ! (i - off) else dst ! i)"
  using assms by (auto simp: copy_at_fits nth_append min_def)

lemma slice_copy_at_same [slice_simps]:
  "off + length src \<le> length dst \<Longrightarrow> hi = off + length src \<Longrightarrow>
   slice off hi (copy_at off src dst) = src"
  by (simp add: slice_def drop_copy_at_same)

lemma slice_copy_at_before [slice_simps]:
  assumes "hi \<le> off" and "off + length src \<le> length dst" and "lo \<le> hi"
  shows "slice lo hi (copy_at off src dst) = slice lo hi dst"
proof -
  have "slice lo hi xs = drop lo (take hi xs)" for xs :: "'a list"
    using assms(3) by (simp add: slice_def drop_take)
  then show ?thesis using assms by (simp add: take_copy_at_before)
qed

lemma slice_copy_at_after [slice_simps]:
  "off + length src \<le> lo \<Longrightarrow> off + length src \<le> length dst \<Longrightarrow>
   slice lo hi (copy_at off src dst) = slice lo hi dst"
  by (simp add: slice_def drop_copy_at_after)

section \<open>Little-endian codecs\<close>

fun le_bytes :: "nat \<Rightarrow> 'a::len word \<Rightarrow> bytes" where
  "le_bytes 0 w = []"
| "le_bytes (Suc n) w = ucast w # le_bytes n (drop_bit 8 w)"

fun le_word :: "nat \<Rightarrow> bytes \<Rightarrow> 'a::len word" where
  "le_word 0 bs = 0"
| "le_word (Suc n) [] = 0"
| "le_word (Suc n) (b # bs) = ucast b OR push_bit 8 (le_word n bs)"

definition put16 :: "u16 \<Rightarrow> bytes" where "put16 w = le_bytes 2 w"
definition put32 :: "u32 \<Rightarrow> bytes" where "put32 w = le_bytes 4 w"
definition put64 :: "u64 \<Rightarrow> bytes" where "put64 w = le_bytes 8 w"
definition get16 :: "bytes \<Rightarrow> u16" where "get16 bs = le_word 2 bs"
definition get32 :: "bytes \<Rightarrow> u32" where "get32 bs = le_word 4 bs"
definition get64 :: "bytes \<Rightarrow> u64" where "get64 bs = le_word 8 bs"

lemma length_le_bytes [simp]: "length (le_bytes n w) = n"
  by (induction n arbitrary: w) auto

lemma bit_le_word:
  "bit (le_word n bs :: 'a::len word) k \<longleftrightarrow>
     k < LENGTH('a) \<and> k < 8 * n \<and> k div 8 < length bs \<and> bit (bs ! (k div 8)) (k mod 8)"
proof (induction n bs arbitrary: k rule: le_word.induct)
  case (3 n b bs)
  show ?case
  proof (cases "k < 8")
    case True
    then show ?thesis
      by (auto simp: bit_or_iff bit_push_bit_iff bit_unsigned_iff)
  next
    case False
    then obtain j where j: "k = 8 + j" using le_Suc_ex by (meson not_less)
    have hi: "\<not> bit b k" using False by (simp add: bit_word.rep_eq)
    have d: "(8 + j) div 8 = Suc (j div 8)" and m: "(8 + j) mod 8 = j mod 8" by simp_all
    show ?thesis
      using 3 [of j] hi unfolding j d m
      by (auto simp: bit_or_iff bit_push_bit_iff bit_unsigned_iff)
  qed
qed auto

lemma nth_le_bytes: "i < n \<Longrightarrow> le_bytes n w ! i = ucast (drop_bit (8 * i) w)"
proof (induction n arbitrary: w i)
  case (Suc n)
  then show ?case by (cases i) (auto simp: drop_bit_drop_bit add.commute)
qed simp

lemma le_word_le_bytes:
  assumes "LENGTH('a::len) = 8 * n"
  shows "le_word n (le_bytes n (w :: 'a word) @ rest) = w"
proof (rule bit_word_eqI)
  fix k assume k: "k < LENGTH('a)"
  have "k div 8 < n" using k assms by auto
  then show "bit (le_word n (le_bytes n w @ rest) :: 'a word) k \<longleftrightarrow> bit w k"
    using k assms by (auto simp: bit_le_word nth_append nth_le_bytes bit_unsigned_iff bit_drop_bit_eq)
qed

lemma le_bytes_le_word:
  assumes "LENGTH('a::len) = 8 * n" and "n \<le> length bs"
  shows "le_bytes n (le_word n bs :: 'a word) = take n bs"
proof (rule nth_equalityI)
  show "length (le_bytes n (le_word n bs :: 'a word)) = length (take n bs)"
    using assms by simp
next
  fix i assume "i < length (le_bytes n (le_word n bs :: 'a word))"
  then have i: "i < n" by simp
  have "ucast (drop_bit (8 * i) (le_word n bs :: 'a word)) = bs ! i"
  proof (rule bit_word_eqI)
    fix k assume k: "k < LENGTH(8)"
    then have "8 * i + k < 8 * n" and "(8 * i + k) div 8 = i" and "(8 * i + k) mod 8 = k"
      using i by auto
    then show "bit (ucast (drop_bit (8 * i) (le_word n bs :: 'a word)) :: byte) k \<longleftrightarrow> bit (bs ! i) k"
      using k i assms by (auto simp: bit_unsigned_iff bit_drop_bit_eq bit_le_word)
  qed
  then show "le_bytes n (le_word n bs :: 'a word) ! i = take n bs ! i"
    using i by (simp add: nth_le_bytes)
qed

text \<open>
  The contract of one fixed-width codec: what \<^verbatim>\<open>PutUint\<close> writes and \<^verbatim>\<open>Uint\<close> reads.
  The client lemmas say how a field behaves inside a buffer it is copied into.
\<close>

locale le_codec =
  fixes put :: "'w \<Rightarrow> bytes" and get :: "bytes \<Rightarrow> 'w" and width :: nat
  assumes length_put: "length (put v) = width"
    and get_put: "get (put v @ rest) = v"
    and put_get: "width \<le> length bs \<Longrightarrow> put (get bs) = take width bs"
begin

lemma get_take:
  assumes "width \<le> length bs"
  shows "get (take width bs) = get bs"
proof -
  have "get (put (get bs) @ []) = get bs" by (rule get_put)
  then show ?thesis using assms by (simp add: put_get)
qed

lemma get_cong:
  "width \<le> length bs \<Longrightarrow> width \<le> length cs \<Longrightarrow> take width bs = take width cs \<Longrightarrow> get bs = get cs"
  by (metis get_take)

lemma get_exact: "get (put v) = v"
  using get_put [of v "[]"] by simp

lemma put_inject: "put v = put w \<longleftrightarrow> v = w"
  by (metis get_exact)

lemma field_same:
  "off + width \<le> length buf \<Longrightarrow> get (drop off (copy_at off (put v) buf)) = v"
  by (simp add: drop_copy_at_same length_put get_put)

lemma field_after:
  "off + length src \<le> fld \<Longrightarrow> off + length src \<le> length buf \<Longrightarrow>
   get (drop fld (copy_at off src buf)) = get (drop fld buf)"
  by (simp add: drop_copy_at_after)

lemma field_before:
  assumes "fld + width \<le> off" and "off + length src \<le> length buf"
  shows "get (drop fld (copy_at off src buf)) = get (drop fld buf)"
proof (rule get_cong)
  show "take width (drop fld (copy_at off src buf)) = take width (drop fld buf)"
    using assms slice_copy_at_before [of "fld + width" off src buf fld]
    by (simp add: slice_def)
qed (use assms in auto)

lemma get_slice:
  assumes "off + width \<le> length buf"
  shows "get (slice off (off + width) buf) = get (drop off buf)"
  using assms by (simp add: slice_def get_take)

end

interpretation le16: le_codec put16 get16 2
  by unfold_locales
    (simp_all add: put16_def get16_def le_word_le_bytes le_bytes_le_word)

interpretation le32: le_codec put32 get32 4
  by unfold_locales
    (simp_all add: put32_def get32_def le_word_le_bytes le_bytes_le_word)

interpretation le64: le_codec put64 get64 8
  by unfold_locales
    (simp_all add: put64_def get64_def le_word_le_bytes le_bytes_le_word)

lemmas codec_lengths [simp] = le16.length_put le32.length_put le64.length_put
lemmas codec_get_put [simp] =
  le16.get_put le32.get_put le64.get_put le16.get_exact le32.get_exact le64.get_exact
lemmas codec_fields =
  le16.field_same le16.field_before le16.field_after
  le32.field_same le32.field_before le32.field_after
  le64.field_same le64.field_before le64.field_after

section \<open>Go's 64-bit int\<close>

text \<open>
  Go's \<^verbatim>\<open>int\<close> and \<^verbatim>\<open>int64\<close> are two's-complement 64-bit; \<open>wrap64\<close> is what an
  arithmetic result becomes.  Go's \<^verbatim>\<open>/\<close> truncates towards zero (\<open>quot\<close>).
\<close>

definition wrap64 :: "int \<Rightarrow> int" where
  "wrap64 x = (x + 2 ^ 63) mod 2 ^ 64 - 2 ^ 63"

definition in64 :: "int \<Rightarrow> bool" where
  "in64 x \<longleftrightarrow> - (2 ^ 63) \<le> x \<and> x < 2 ^ 63"

lemma wrap64_range: "in64 (wrap64 x)"
proof -
  have "0 \<le> (x + 2 ^ 63) mod 2 ^ 64" and "(x + 2 ^ 63) mod 2 ^ 64 < (2 ^ 64 :: int)"
    by simp_all
  then show ?thesis by (simp add: wrap64_def in64_def)
qed

lemma wrap64_id: "in64 x \<Longrightarrow> wrap64 x = x"
  by (simp add: wrap64_def in64_def)

definition quot :: "int \<Rightarrow> int \<Rightarrow> int" where
  "quot a b = sgn a * sgn b * (\<bar>a\<bar> div \<bar>b\<bar>)"

lemma quot_nonneg: "0 \<le> a \<Longrightarrow> 0 < b \<Longrightarrow> quot a b = a div b"
  by (cases "a = 0") (simp_all add: quot_def)

section \<open>Lists\<close>

lemma takeWhile_append_stop:
  "\<forall>x \<in> set xs. P x \<Longrightarrow> \<not> P y \<Longrightarrow> takeWhile P (xs @ y # ys) = xs"
  by (simp add: takeWhile_append2)

lemma dropWhile_append_stop:
  "\<forall>x \<in> set xs. P x \<Longrightarrow> \<not> P y \<Longrightarrow> dropWhile P (xs @ y # ys) = y # ys"
  by (simp add: dropWhile_append2)

lemma takeWhile_none: "\<forall>x \<in> set xs. P x \<Longrightarrow> takeWhile P xs = xs"
  by (simp add: takeWhile_eq_all_conv)

end
