(* ===== verification/Go_Strings.thy ===== *)
theory Go_Strings
  imports Dc1_Prelude
begin

text \<open>
  The parts of Go's \<^verbatim>\<open>strings\<close>, \<^verbatim>\<open>strconv\<close> and \<^verbatim>\<open>bufio\<close> packages the sources call, on
  octet strings.  \<^verbatim>\<open>strings.TrimSpace\<close> and \<^verbatim>\<open>strings.Fields\<close> are modelled for the ASCII white
  space; the sysfs and header texts they are applied to are ASCII.  The locale
  \<open>stream_reader\<close> states what a client of a buffered reader relies on: a successful read
  consumes a prefix, and what follows that prefix has no influence on it.
\<close>

section \<open>Trimming, cutting, splitting\<close>

definition trim_left :: "string \<Rightarrow> string \<Rightarrow> string" where
  "trim_left cutset s = dropWhile (\<lambda>c. c \<in> set cutset) s"

definition trim_right :: "string \<Rightarrow> string \<Rightarrow> string" where
  "trim_right cutset s = rev (dropWhile (\<lambda>c. c \<in> set cutset) (rev s))"

definition CR :: char where "CR = CHR 0x0D"
definition LF :: char where "LF = CHR 0x0A"
definition CRLF :: string where "CRLF = [CR, LF]"

definition is_space :: "char \<Rightarrow> bool" where
  "is_space c \<longleftrightarrow> c \<in> {CHR 0x09, CHR 0x0A, CHR 0x0B, CHR 0x0C, CHR 0x0D, CHR 0x20}"

definition trim_space :: "string \<Rightarrow> string" where
  "trim_space s = rev (dropWhile is_space (rev (dropWhile is_space s)))"

fun split_on :: "char \<Rightarrow> string \<Rightarrow> string list" where
  "split_on d [] = [[]]"
| "split_on d (c # cs) =
     (if c = d then [] # split_on d cs
      else (case split_on d cs of [] \<Rightarrow> [[c]] | w # ws \<Rightarrow> (c # w) # ws))"

definition cut :: "char \<Rightarrow> string \<Rightarrow> (string \<times> string) option" where
  "cut d s = (case dropWhile (\<lambda>c. c \<noteq> d) s of
                [] \<Rightarrow> None | _ # v \<Rightarrow> Some (takeWhile (\<lambda>c. c \<noteq> d) s, v))"

definition has_prefix :: "string \<Rightarrow> string \<Rightarrow> bool" where
  "has_prefix s p = (take (length p) s = p)"

definition has_suffix :: "string \<Rightarrow> string \<Rightarrow> bool" where
  "has_suffix s p = (length p \<le> length s \<and> drop (length s - length p) s = p)"

definition cut_prefix :: "string \<Rightarrow> string \<Rightarrow> string option" where
  "cut_prefix s p = (if has_prefix s p then Some (drop (length p) s) else None)"

fun contains :: "string \<Rightarrow> string \<Rightarrow> bool" where
  "contains [] p = (p = [])"
| "contains (c # cs) p = (has_prefix (c # cs) p \<or> contains cs p)"

function (sequential) fields :: "string \<Rightarrow> string list" where
  "fields s = (case dropWhile is_space s of
                 [] \<Rightarrow> []
               | c # cs \<Rightarrow> (c # takeWhile (\<lambda>d. \<not> is_space d) cs) # fields (dropWhile (\<lambda>d. \<not> is_space d) cs))"
  by pat_completeness auto

lemma dropWhile_Cons_shorter: "dropWhile P s = c # cs \<Longrightarrow> length (dropWhile Q cs) < length s"
proof -
  assume a: "dropWhile P s = c # cs"
  have "length (dropWhile Q cs) \<le> length cs" by (rule length_dropWhile_le)
  also have "\<dots> < length (dropWhile P s)" by (simp add: a)
  also have "\<dots> \<le> length s" by (rule length_dropWhile_le)
  finally show ?thesis .
qed

termination fields
  by (relation "measure length") (simp_all add: dropWhile_Cons_shorter)

declare fields.simps [simp del]

lemma trim_right_decomp: "\<exists>t. s = trim_right cs s @ t \<and> set t \<subseteq> set cs"
proof -
  have "rev s = takeWhile (\<lambda>c. c \<in> set cs) (rev s) @ dropWhile (\<lambda>c. c \<in> set cs) (rev s)"
    by simp
  then have "s = trim_right cs s @ rev (takeWhile (\<lambda>c. c \<in> set cs) (rev s))"
    unfolding trim_right_def by (metis rev_append rev_rev_ident)
  moreover have "set (rev (takeWhile (\<lambda>c. c \<in> set cs) (rev s))) \<subseteq> set cs"
    by (auto dest: set_takeWhileD)
  ultimately show ?thesis by blast
qed

lemma trim_right_append [go_text]:
  assumes "set t \<subseteq> set cs"
  shows "trim_right cs (s @ t) = trim_right cs s"
proof -
  have "\<forall>c\<in>set (rev t). c \<in> set cs" using assms by auto
  then show ?thesis by (simp add: trim_right_def dropWhile_append)
qed

lemma trim_right_id [go_text]:
  assumes "s = [] \<or> last s \<notin> set cs"
  shows "trim_right cs s = s"
proof (cases s rule: rev_cases)
  case Nil
  then show ?thesis by (simp add: trim_right_def)
next
  case (snoc ys y)
  then show ?thesis using assms by (simp add: trim_right_def)
qed

lemma trim_right_last: "trim_right cs s \<noteq> [] \<Longrightarrow> last (trim_right cs s) \<notin> set cs"
  unfolding trim_right_def last_rev rev_is_Nil_conv
  by (rule hd_dropWhile[of "\<lambda>c. c \<in> set cs"])

lemma trim_right_idem [simp]: "trim_right cs (trim_right cs s) = trim_right cs s"
  using trim_right_last trim_right_id by blast

lemma set_trim_right: "set (trim_right cs s) \<subseteq> set s"
  by (auto simp: trim_right_def dest: set_dropWhileD)

lemma trim_left_empty_iff: "trim_left cs s = [] \<longleftrightarrow> set s \<subseteq> set cs"
  by (auto simp: trim_left_def dropWhile_eq_Nil_conv)

lemma trim_space_id:
  assumes "\<forall>c\<in>set s. \<not> is_space c"
  shows "trim_space s = s"
proof -
  have *: "dropWhile is_space t = t" if "\<forall>c\<in>set t. \<not> is_space c" for t
    using that by (cases t) simp_all
  have "dropWhile is_space s = s" "dropWhile is_space (rev s) = rev s"
    using assms by (auto intro: *)
  then show ?thesis by (simp add: trim_space_def)
qed

lemma trim_space_append:
  assumes "\<forall>c\<in>set s. \<not> is_space c" "\<forall>c\<in>set t. is_space c"
  shows "trim_space (s @ t) = s"
proof (cases "s = []")
  case True
  then show ?thesis using assms by (simp add: trim_space_def dropWhile_eq_Nil_conv[THEN iffD2])
next
  case False
  then obtain c cs where s: "s = c # cs" by (cases s) auto
  have "dropWhile is_space (s @ t) = s @ t" using assms s by simp
  moreover have "dropWhile is_space (rev t @ rev s) = rev s"
  proof -
    have "dropWhile is_space (rev t @ rev s) = dropWhile is_space (rev s)"
      using assms by (simp add: dropWhile_append)
    also have "\<dots> = rev s"
    proof (cases "rev s")
      case (Cons d ds)
      then have "d \<in> set s" by (metis list.set_intros(1) set_rev)
      then show ?thesis using Cons assms by simp
    qed simp
    finally show ?thesis .
  qed
  ultimately show ?thesis by (simp add: trim_space_def)
qed

lemma split_on_ne [simp]: "split_on d s \<noteq> []"
  by (induction s) (auto split: list.splits)

lemma split_on_last [go_text]: "d \<notin> set s \<Longrightarrow> split_on d s = [s]"
  by (induction s) auto

lemma split_on_line [go_text]: "d \<notin> set l \<Longrightarrow> split_on d (l @ d # s) = l # split_on d s"
  by (induction l) auto

lemma split_on_no_sep: "w \<in> set (split_on d s) \<Longrightarrow> d \<notin> set w"
  by (induction s arbitrary: w) (auto split: list.splits if_splits)

lemma cut_line [go_text]: "d \<notin> set k \<Longrightarrow> cut d (k @ d # v) = Some (k, v)"
proof -
  assume "d \<notin> set k"
  then have *: "\<forall>c\<in>set k. c \<noteq> d" by auto
  have "takeWhile (\<lambda>c. c \<noteq> d) (k @ d # v) = k" "dropWhile (\<lambda>c. c \<noteq> d) (k @ d # v) = d # v"
    using * by (auto simp: takeWhile_append dropWhile_append)
  then show ?thesis by (simp add: cut_def)
qed

lemma cut_SomeD: "cut d s = Some (k, v) \<Longrightarrow> s = k @ d # v \<and> d \<notin> set k"
proof -
  assume a: "cut d s = Some (k, v)"
  then obtain c where d: "dropWhile (\<lambda>c. c \<noteq> d) s = c # v" and k: "k = takeWhile (\<lambda>c. c \<noteq> d) s"
    by (auto simp: cut_def split: list.splits)
  have "c = d" using d by (metis (mono_tags, lifting) hd_dropWhile list.discI list.sel(1))
  moreover have "s = k @ c # v" using d k by (metis takeWhile_dropWhile_id)
  ultimately show ?thesis using k by (auto dest: set_takeWhileD)
qed

lemma has_prefix_append [simp]: "has_prefix (p @ s) p"
  by (simp add: has_prefix_def)

lemma cut_prefix_append [go_text]: "cut_prefix (p @ s) p = Some s"
  by (simp add: cut_prefix_def)

lemma cut_prefix_iff: "cut_prefix s p = Some v \<longleftrightarrow> s = p @ v"
  by (auto simp: cut_prefix_def has_prefix_def) (metis append_take_drop_id)

section \<open>Decimal numbers\<close>

definition is_digit :: "char \<Rightarrow> bool" where
  "is_digit c \<longleftrightarrow> 48 \<le> (of_char c :: nat) \<and> (of_char c :: nat) \<le> 57"

definition dec_val :: "string \<Rightarrow> nat" where
  "dec_val s = foldl (\<lambda>a c. a * 10 + (of_char c - 48)) 0 s"

definition parse_uint64 :: "string \<Rightarrow> nat option" where
  "parse_uint64 s =
     (if s \<noteq> [] \<and> list_all is_digit s \<and> dec_val s < 2 ^ 64 then Some (dec_val s) else None)"

definition parse_int64 :: "string \<Rightarrow> int option" where
  "parse_int64 s =
     (let neg = (s \<noteq> [] \<and> hd s = CHR ''-'');
          body = (if s \<noteq> [] \<and> hd s \<in> {CHR ''-'', CHR ''+''} then tl s else s)
      in case parse_uint64 body of
           None \<Rightarrow> None
         | Some u \<Rightarrow> if \<not> neg \<and> 2 ^ 63 \<le> u then None
                     else if neg \<and> 2 ^ 63 < u then None
                     else Some (if neg then - int u else int u))"

function dec :: "nat \<Rightarrow> string" where
  "dec n = (if n < 10 then [char_of (48 + n)] else dec (n div 10) @ [char_of (48 + n mod 10)])"
  by pat_completeness auto
termination by (relation "measure id") auto

declare dec.simps [simp del]

definition dec_int :: "int \<Rightarrow> string" where
  "dec_int i = (if i < 0 then CHR ''-'' # dec (nat (- i)) else dec (nat i))"

lemma of_char_digit [simp]: "n < 10 \<Longrightarrow> (of_char (char_of (48 + n) :: char) :: nat) = 48 + n"
  by simp

lemma dec_digits: "list_all is_digit (dec n)"
proof (induction n rule: dec.induct)
  case (1 n)
  have "n mod 10 < 10" by simp
  then have "n mod 10 \<le> 9" by linarith
  with 1 show ?case
    by (subst dec.simps) (auto simp: is_digit_def[of "char_of (48 + _)"])
qed

lemma dec_ne [simp]: "dec n \<noteq> []"
  by (subst dec.simps) simp

lemma dec_val_dec [simp]: "dec_val (dec n) = n"
proof (induction n rule: dec.induct)
  case (1 n)
  show ?case
  proof (cases "n < 10")
    case True
    then show ?thesis by (subst dec.simps) (simp add: dec_val_def)
  next
    case False
    then have "foldl (\<lambda>a c. a * 10 + (of_char c - 48)) 0 (dec (n div 10)) = n div 10"
      using 1 by (simp add: dec_val_def)
    then have "dec_val (dec n) = n div 10 * 10 + (of_char (char_of (48 + n mod 10) :: char) - 48)"
      using False by (subst dec.simps) (simp add: dec_val_def)
    also have "\<dots> = n" by simp
    finally show ?thesis .
  qed
qed

lemma digit_not_special: "is_digit c \<Longrightarrow> c \<noteq> CHR ''-'' \<and> c \<noteq> CHR ''+'' \<and> \<not> is_space c \<and> c \<noteq> CR \<and> c \<noteq> LF"
  by (auto simp: is_digit_def is_space_def CR_def LF_def)

lemma dec_chars: "c \<in> set (dec n) \<Longrightarrow> is_digit c"
  using dec_digits[of n] by (simp add: list_all_iff)

lemma parse_uint64_dec [go_text]: "n < 2 ^ 64 \<Longrightarrow> parse_uint64 (dec n) = Some n"
  by (simp add: parse_uint64_def dec_digits)

lemma parse_int64_dec [go_text]: "n < 2 ^ 63 \<Longrightarrow> parse_int64 (dec n) = Some (int n)"
proof -
  assume n: "n < 2 ^ 63"
  have "is_digit (hd (dec n))" using dec_chars[of "hd (dec n)" n] by simp
  then have h: "hd (dec n) \<noteq> CHR ''-''" "hd (dec n) \<noteq> CHR ''+''" by (auto dest: digit_not_special)
  have "parse_uint64 (dec n) = Some n" using n by (simp add: parse_uint64_dec)
  with h n show ?thesis by (simp add: parse_int64_def)
qed

lemma parse_int64_range: "parse_int64 s = Some i \<Longrightarrow> - (2 ^ 63) \<le> i \<and> i < 2 ^ 63"
  by (auto simp: parse_int64_def Let_def split: option.splits if_splits)

lemma parse_int64_in64: "parse_int64 s = Some i \<Longrightarrow> in64 i"
  using parse_int64_range[of s i] by (simp add: in64_def)

section \<open>Buffered readers\<close>

locale stream_reader =
  fixes read :: "bytes \<Rightarrow> 'e + ('a \<times> bytes)"
  assumes read_consumes: "read s = Inr (a, rest) \<Longrightarrow> \<exists>p. s = p @ rest \<and> read p = Inr (a, [])"
      and read_extend: "read s = Inr (a, rest) \<Longrightarrow> read (s @ t) = Inr (a, rest @ t)"
begin

lemma read_body:
  assumes "read s = Inr (a, rest)"
  shows "\<exists>p. s = p @ rest \<and> (\<forall>body. read (p @ body) = Inr (a, body))"
proof -
  obtain p where p: "s = p @ rest" "read p = Inr (a, [])" using read_consumes[OF assms] by blast
  have "read (p @ body) = Inr (a, body)" for body using read_extend[OF p(2), of body] by simp
  with p(1) show ?thesis by blast
qed

lemma read_prefix_free:
  assumes "read p = Inr (a, [])" "read q = Inr (b, [])" "p @ s = q @ t"
  shows "p = q \<and> a = b"
proof -
  have "Inr (a, s) = read (q @ t)" using read_extend[OF assms(1), of s] assms(3) by simp
  also have "\<dots> = Inr (b, t)" using read_extend[OF assms(2), of t] by simp
  finally show ?thesis using assms(3) by simp
qed

end

definition ReadString :: "char \<Rightarrow> bytes \<Rightarrow> unit + (string \<times> bytes)" where
  "ReadString delim s =
     (case dropWhile (\<lambda>b. b \<noteq> hd (bytes_of [delim])) s of
        [] \<Rightarrow> Inl ()
      | d # rest \<Rightarrow> Inr (string_of (takeWhile (\<lambda>b. b \<noteq> hd (bytes_of [delim])) s @ [d]), rest))"

lemma ReadString_iff:
  "ReadString c s = Inr (l, rest) \<longleftrightarrow>
     (\<exists>p. l = p @ [c] \<and> c \<notin> set p \<and> s = bytes_of l @ rest)"
proof
  let ?P = "\<lambda>b. b \<noteq> hd (bytes_of [c])"
  assume a: "ReadString c s = Inr (l, rest)"
  then obtain d where d: "dropWhile ?P s = d # rest" and l: "l = string_of (takeWhile ?P s @ [d])"
    by (auto simp: ReadString_def split: list.splits)
  have dc: "d = hd (bytes_of [c])" using d by (metis (mono_tags, lifting) hd_dropWhile list.discI list.sel(1))
  have s: "s = takeWhile ?P s @ d # rest" using d by (metis takeWhile_dropWhile_id)
  define p where "p = string_of (takeWhile ?P s)"
  have p: "bytes_of p = takeWhile ?P s" by (simp add: p_def)
  have "l = p @ [c]" using l dc by (simp add: p_def string_of_def bytes_of_def)
  moreover have "c \<notin> set p"
  proof
    assume "c \<in> set p"
    then have "hd (bytes_of [c]) \<in> set (bytes_of p)" by (simp add: bytes_of_def)
    then show False unfolding p by (auto dest: set_takeWhileD)
  qed
  moreover have "s = bytes_of l @ rest" using s l by simp
  ultimately show "\<exists>p. l = p @ [c] \<and> c \<notin> set p \<and> s = bytes_of l @ rest" by blast
next
  let ?P = "\<lambda>b. b \<noteq> hd (bytes_of [c])"
  assume "\<exists>p. l = p @ [c] \<and> c \<notin> set p \<and> s = bytes_of l @ rest"
  then obtain p where p: "l = p @ [c]" "c \<notin> set p" "s = bytes_of l @ rest" by blast
  have inj: "(word_of_nat (of_char x) :: byte) = word_of_nat (of_char y) \<longleftrightarrow> x = y" for x y
    by (metis of_char_eq_iff unat_of_char)
  have *: "\<forall>b\<in>set (bytes_of p). ?P b" using p(2) by (auto simp: bytes_of_def inj)
  have s: "s = bytes_of p @ hd (bytes_of [c]) # rest" using p by (simp add: bytes_of_def)
  have "takeWhile ?P s = bytes_of p" "dropWhile ?P s = hd (bytes_of [c]) # rest"
    unfolding s using * by (simp_all add: takeWhile_append dropWhile_append)
  then show "ReadString c s = Inr (l, rest)"
    using p(1) by (simp add: ReadString_def) (simp add: string_of_def bytes_of_def comp_def)
qed

interpretation rs: stream_reader "ReadString c"
proof
  fix s a rest
  assume "ReadString c s = Inr (a, rest)"
  then show "\<exists>p. s = p @ rest \<and> ReadString c p = Inr (a, [])" by (auto simp: ReadString_iff)
next
  fix s a rest t
  assume "ReadString c s = Inr (a, rest)"
  then show "ReadString c (s @ t) = Inr (a, rest @ t)" by (auto simp: ReadString_iff)
qed

lemma ReadString_line [go_text]: "c \<notin> set l \<Longrightarrow> ReadString c (bytes_of (l @ [c]) @ rest) = Inr (l @ [c], rest)"
  by (auto simp: ReadString_iff)

lemma ReadString_shorter: "ReadString c s = Inr (l, rest) \<Longrightarrow> length rest < length s"
  by (auto simp: ReadString_iff)

end
