(* ===== verification/Go_Text.thy ===== *)
theory Go_Text
  imports Go_Strings "HOL-Library.List_Lexorder" "HOL-Library.Char_ord"
begin

text \<open>
  The text helpers of \<^verbatim>\<open>strings\<close>, \<^verbatim>\<open>fmt\<close>, \<^verbatim>\<open>path\<close> and \<^verbatim>\<open>sort\<close> the user interface code calls:
  joining, padded and quoted verbs, path cleaning and the order on strings.  Widths count octets, as
  \<^verbatim>\<open>fmt\<close> does for ASCII text, and octets above 127 are quoted as escapes.
\<close>

fun join_with :: "string \<Rightarrow> string list \<Rightarrow> string" where
  "join_with sep [] = []"
| "join_with sep [w] = w"
| "join_with sep (w # ws) = w @ sep @ join_with sep ws"

definition nl :: string where "nl = [LF]"

definition pad_right :: "nat \<Rightarrow> string \<Rightarrow> string" where
  "pad_right n s = s @ replicate (n - length s) CHR '' ''"

definition pad_left :: "nat \<Rightarrow> string \<Rightarrow> string" where
  "pad_left n s = replicate (n - length s) CHR '' '' @ s"

definition count_char :: "char \<Rightarrow> string \<Rightarrow> nat" where
  "count_char c s = length (filter (\<lambda>d. d = c) s)"

definition hex2 :: "nat \<Rightarrow> string" where
  "hex2 n = [''0123456789abcdef'' ! (n div 16), ''0123456789abcdef'' ! (n mod 16)]"

definition quote_char :: "char \<Rightarrow> string" where
  "quote_char c = (let n = of_char c :: nat in
     if n = 34 then [CHR 92, CHR 34]
     else if n = 92 then [CHR 92, CHR 92]
     else if n = 7 then [CHR 92, CHR ''a''] else if n = 8 then [CHR 92, CHR ''b'']
     else if n = 12 then [CHR 92, CHR ''f''] else if n = 10 then [CHR 92, CHR ''n'']
     else if n = 13 then [CHR 92, CHR ''r''] else if n = 9 then [CHR 92, CHR ''t'']
     else if n = 11 then [CHR 92, CHR ''v'']
     else if 32 \<le> n \<and> n < 127 then [c]
     else [CHR 92, CHR ''x''] @ hex2 n)"

definition quote :: "string \<Rightarrow> string" where
  "quote s = [CHR 34] @ concat (map quote_char s) @ [CHR 34]"

definition sort_strings :: "string list \<Rightarrow> string list" where
  "sort_strings = sort"

text \<open>\<^verbatim>\<open>path.Clean\<close>: empty and dot elements vanish, a double dot removes the element before it, and at
  the root it vanishes.\<close>

fun clean_step :: "bool \<Rightarrow> string list \<Rightarrow> string \<Rightarrow> string list" where
  "clean_step rooted st w =
     (if w = [] \<or> w = ''.'' then st
      else if w = ''..'' then
        (case st of
           [] \<Rightarrow> if rooted then [] else [w]
         | v # vs \<Rightarrow> if v = ''..'' then w # st else vs)
      else w # st)"

definition path_clean :: "string \<Rightarrow> string" where
  "path_clean p =
     (if p = [] then ''.''
      else let rooted = hd p = CHR ''/'';
               st = rev (foldl (clean_step rooted) [] (split_on CHR ''/'' p))
           in if rooted then ''/'' @ join_with ''/'' st
              else if st = [] then ''.'' else join_with ''/'' st)"

definition path_join :: "string \<Rightarrow> string \<Rightarrow> string" where
  "path_join a b =
     (let es = filter (\<lambda>e. e \<noteq> []) [a, b] in if es = [] then [] else path_clean (join_with ''/'' es))"

lemma set_join_with: "set (join_with sep ws) \<subseteq> set sep \<union> \<Union> (set ` set ws)"
  by (induction ws rule: join_with.induct) auto

lemma split_join: "ws \<noteq> [] \<Longrightarrow> \<forall>w\<in>set ws. d \<notin> set w \<Longrightarrow> split_on d (join_with [d] ws) = ws"
  by (induction "[d]" ws rule: join_with.induct) (auto simp: split_on_last split_on_line)

lemma join_split: "join_with [d] (split_on d s) = s"
proof (induction s)
  case (Cons c cs)
  obtain w ws where s: "split_on d cs = w # ws" by (cases "split_on d cs") auto
  then show ?case using Cons by (cases ws) auto
qed simp

text \<open>A relative name without special elements is appended to a clean absolute path.\<close>

lemma path_join_plain:
  assumes "ws \<noteq> []" "\<forall>w\<in>set ws. w \<noteq> [] \<and> w \<noteq> ''.'' \<and> w \<noteq> ''..'' \<and> CHR ''/'' \<notin> set w"
      and "n \<noteq> []" "n \<noteq> ''.''" "n \<noteq> ''..''" "CHR ''/'' \<notin> set n"
  shows "path_join (''/'' @ join_with ''/'' ws) n = ''/'' @ join_with ''/'' (ws @ [n])"
proof -
  have j: "join_with ''/'' ws @ ''/'' @ n = join_with ''/'' (ws @ [n])"
    using assms(1) by (induction "''/''" ws rule: join_with.induct) (auto simp: neq_Nil_conv)
  have s: "split_on CHR ''/'' (join_with ''/'' (ws @ [n])) = ws @ [n]"
    using assms by (intro split_join) auto
  have f: "foldl (clean_step True) st us = rev us @ st"
    if "\<forall>w\<in>set us. w \<noteq> [] \<and> w \<noteq> ''.'' \<and> w \<noteq> ''..'' \<and> CHR ''/'' \<notin> set w" for us st
    using that by (induction us arbitrary: st) auto
  have "foldl (clean_step True) [] (split_on CHR ''/'' (CHR ''/'' # join_with ''/'' (ws @ [n]))) = rev (ws @ [n])"
    using f[of "ws @ [n]" "[]"] assms by (simp add: s)
  then show ?thesis using assms(3) j by (simp add: path_join_def path_clean_def)
qed

text \<open>Cleaning an absolute path twice changes nothing.\<close>

definition plain_elem :: "string \<Rightarrow> bool" where
  "plain_elem w \<longleftrightarrow> w \<noteq> [] \<and> w \<noteq> ''.'' \<and> w \<noteq> ''..'' \<and> CHR ''/'' \<notin> set w"

lemma clean_step_plain: "list_all plain_elem st \<Longrightarrow> CHR ''/'' \<notin> set w \<Longrightarrow> list_all plain_elem (clean_step True st w)"
  by (auto simp: plain_elem_def split: list.split)

lemma clean_fold_plain:
  "list_all plain_elem st \<Longrightarrow> \<forall>w\<in>set ws. CHR ''/'' \<notin> set w \<Longrightarrow> list_all plain_elem (foldl (clean_step True) st ws)"
proof (induction ws arbitrary: st)
  case (Cons w ws)
  then show ?case using clean_step_plain[of st w] by (simp del: clean_step.simps)
qed simp

lemma clean_fold_id: "list_all plain_elem ws \<Longrightarrow> foldl (clean_step True) st ws = rev ws @ st"
  by (induction ws arbitrary: st) (auto simp: plain_elem_def)

lemma path_clean_plain:
  assumes "list_all plain_elem ws"
  shows "path_clean (''/'' @ join_with ''/'' ws) = ''/'' @ join_with ''/'' ws"
proof (cases "ws = []")
  case False
  have "split_on CHR ''/'' (join_with ''/'' ws) = ws"
    using split_join[OF False, of "CHR ''/''"] assms by (simp add: list_all_iff plain_elem_def)
  then show ?thesis using clean_fold_id[OF assms, of "[]"] by (simp add: path_clean_def)
qed (simp add: path_clean_def)

lemma path_clean_rooted:
  assumes "p \<noteq> []" "hd p = CHR ''/''"
  shows "\<exists>ws. list_all plain_elem ws \<and> path_clean p = ''/'' @ join_with ''/'' ws"
proof -
  let ?st = "foldl (clean_step True) [] (split_on CHR ''/'' p)"
  have "list_all plain_elem ?st"
    by (rule clean_fold_plain) (auto dest: split_on_no_sep)
  then have "list_all plain_elem (rev ?st)" by (simp add: list_all_iff)
  moreover have "path_clean p = ''/'' @ join_with ''/'' (rev ?st)" using assms by (simp add: path_clean_def Let_def)
  ultimately show ?thesis by blast
qed

lemma path_clean_idem: "p \<noteq> [] \<Longrightarrow> hd p = CHR ''/'' \<Longrightarrow> path_clean (path_clean p) = path_clean p"
  using path_clean_rooted[of p] path_clean_plain by auto

text \<open>\<^verbatim>\<open>filepath.Base\<close>.\<close>

definition Base :: "string \<Rightarrow> string" where
  "Base p =
     (if p = [] then ''.''
      else let q = trim_right ''/'' p in
        if q = [] then ''/'' else rev (takeWhile (\<lambda>c. c \<noteq> CHR ''/'') (rev q)))"

lemma Base_plain:
  assumes "n \<noteq> []" "CHR ''/'' \<notin> set n"
  shows "Base n = n" "Base (d @ CHR ''/'' # n) = n"
proof -
  have t: "trim_right ''/'' (d @ n) = d @ n" for d
  proof -
    obtain m l where "n = m @ [l]" using assms(1) by (metis rev_exhaust)
    then show ?thesis using assms(2) by (auto simp: trim_right_def)
  qed
  have w1: "takeWhile (\<lambda>c. c \<noteq> CHR ''/'') (rev n @ CHR ''/'' # r) = rev n" for r
    by (subst takeWhile_append2) (use assms(2) in auto)
  have w2: "takeWhile (\<lambda>c. c \<noteq> CHR ''/'') (rev n) = rev n"
    using assms(2) by (auto simp: takeWhile_eq_all_conv)
  note w = w1 w2
  show "Base n = n" using assms(1) by (simp add: Base_def Let_def t[of "[]", simplified] w2)
  show "Base (d @ CHR ''/'' # n) = n" using t[of "d @ [CHR ''/'']"] assms w by (simp add: Base_def Let_def)
qed

end
