(* ===== verification/Go_Float.thy ===== *)
theory Go_Float
  imports Go_Text Complex_Main
begin

text \<open>
  Go's \<^verbatim>\<open>float64\<close> as far as the hardware tests use it: the finite values as rational numbers, rounding to
  nearest with ties to even at 53 bits with gradual underflow, the operations as the rounded exact
  results, comparison, and the fixed-point verb of \<^verbatim>\<open>fmt\<close>.  The sign of zero is not kept; it is visible
  only in the text of a value that underflowed to zero.  Rounding is monotone and keeps every value
  that has at most 53 significant bits, so a comparison of a rounded quotient with such a value is a
  comparison of integers.
\<close>

datatype f64 = Fin rat | PInf | NInf | NaN

definition round_half_even :: "rat \<Rightarrow> int" where
  "round_half_even x =
     (let n = \<lfloor>x\<rfloor>; d = x - of_int n in
      if d < 1 / 2 then n else if 1 / 2 < d then n + 1 else if even n then n else n + 1)"

definition pow2 :: "int \<Rightarrow> rat" where
  "pow2 e = (if 0 \<le> e then 2 ^ nat e else 1 / 2 ^ nat (- e))"

function bit_length :: "int \<Rightarrow> int" where
  "bit_length n = (if n \<le> 0 then 0 else bit_length (n div 2) + 1)"
  by pat_completeness auto
termination by (relation "measure nat") auto

declare bit_length.simps [simp del]

definition expo :: "rat \<Rightarrow> int" where
  "expo x =
     (let (p, q) = quotient_of x;
          k = bit_length p - bit_length q
      in if pow2 k \<le> x then k else k - 1)"

definition ulp_exp :: "rat \<Rightarrow> int" where
  "ulp_exp x = max (expo x - 52) (- 1074)"

definition fl_pos :: "rat \<Rightarrow> rat" where
  "fl_pos x = (let u = pow2 (ulp_exp x) in of_int (round_half_even (x / u)) * u)"

definition fl :: "rat \<Rightarrow> f64" where
  "fl x =
     (if x = 0 then Fin 0
      else let r = fl_pos \<bar>x\<bar> in
        if 2 ^ 1024 \<le> r then (if 0 < x then PInf else NInf)
        else Fin (if 0 < x then r else - r))"

definition of_int64 :: "int \<Rightarrow> f64" where
  "of_int64 n = fl (of_int n)"

fun f_neg :: "f64 \<Rightarrow> f64" where
  "f_neg (Fin x) = Fin (- x)"
| "f_neg PInf = NInf"
| "f_neg NInf = PInf"
| "f_neg NaN = NaN"

fun f_add :: "f64 \<Rightarrow> f64 \<Rightarrow> f64" where
  "f_add (Fin x) (Fin y) = fl (x + y)"
| "f_add NaN _ = NaN"
| "f_add _ NaN = NaN"
| "f_add PInf NInf = NaN"
| "f_add NInf PInf = NaN"
| "f_add PInf _ = PInf"
| "f_add NInf _ = NInf"
| "f_add _ PInf = PInf"
| "f_add _ NInf = NInf"

definition f_sub :: "f64 \<Rightarrow> f64 \<Rightarrow> f64" where
  "f_sub x y = f_add x (f_neg y)"

definition sign_of :: "f64 \<Rightarrow> int" where
  "sign_of x = (case x of Fin r \<Rightarrow> if r < 0 then - 1 else if 0 < r then 1 else 0 | PInf \<Rightarrow> 1 | NInf \<Rightarrow> - 1 | NaN \<Rightarrow> 0)"

definition inf_of :: "int \<Rightarrow> f64" where
  "inf_of s = (if s < 0 then NInf else if 0 < s then PInf else NaN)"

fun f_mul :: "f64 \<Rightarrow> f64 \<Rightarrow> f64" where
  "f_mul (Fin x) (Fin y) = fl (x * y)"
| "f_mul NaN _ = NaN"
| "f_mul _ NaN = NaN"
| "f_mul x y = inf_of (sign_of x * sign_of y)"

fun f_div :: "f64 \<Rightarrow> f64 \<Rightarrow> f64" where
  "f_div (Fin x) (Fin y) = (if y = 0 then inf_of (sign_of (Fin x)) else fl (x / y))"
| "f_div NaN _ = NaN"
| "f_div _ NaN = NaN"
| "f_div (Fin x) _ = Fin 0"
| "f_div x (Fin y) = inf_of (sign_of x * (if y < 0 then - 1 else 1))"
| "f_div _ _ = NaN"

fun f_lt :: "f64 \<Rightarrow> f64 \<Rightarrow> bool" where
  "f_lt (Fin x) (Fin y) = (x < y)"
| "f_lt NaN _ = False"
| "f_lt _ NaN = False"
| "f_lt NInf y = (y \<noteq> NInf)"
| "f_lt x PInf = (x \<noteq> PInf)"
| "f_lt _ _ = False"

definition f_le :: "f64 \<Rightarrow> f64 \<Rightarrow> bool" where
  "f_le x y = (f_lt x y \<or> x = y \<and> x \<noteq> NaN)"

definition f_abs :: "f64 \<Rightarrow> f64" where
  "f_abs x = (case x of Fin r \<Rightarrow> Fin \<bar>r\<bar> | NaN \<Rightarrow> NaN | _ \<Rightarrow> PInf)"

text \<open>\<^verbatim>\<open>math.Max\<close>: an infinity wins over NaN.\<close>

definition f_max :: "f64 \<Rightarrow> f64 \<Rightarrow> f64" where
  "f_max x y =
     (if x = PInf \<or> y = PInf then PInf else if x = NaN \<or> y = NaN then NaN
      else if f_lt y x then x else y)"

definition nonfinite :: "f64 \<Rightarrow> bool" where
  "nonfinite x = (case x of Fin _ \<Rightarrow> False | _ \<Rightarrow> True)"

text \<open>The square root: an integer square root of the argument scaled to at least 110 bits, with a last
  bit that says whether the root was exact, rounded.\<close>

function isqrt :: "int \<Rightarrow> int" where
  "isqrt n =
     (if n \<le> 0 then 0
      else let r = 2 * isqrt (n div 4) in if (r + 1) * (r + 1) \<le> n then r + 1 else r)"
  by pat_completeness auto
termination by (relation "measure nat") auto

declare isqrt.simps [simp del]

definition f_sqrt :: "f64 \<Rightarrow> f64" where
  "f_sqrt x =
     (case x of
        Fin r \<Rightarrow>
          (if r < 0 then NaN else if r = 0 then Fin 0
           else let k = max 0 (60 - (expo r) div 2);
                    s = isqrt \<lfloor>r * pow2 (2 * k)\<rfloor>;
                    exact = (of_int (s * s) = r * pow2 (2 * k))
                in fl ((of_int (2 * s) + (if exact then 0 else 1)) / pow2 (k + 1)))
      | PInf \<Rightarrow> PInf
      | _ \<Rightarrow> NaN)"

text \<open>The fixed-point verb: the exact value rounded half to even at the last printed digit.\<close>

definition fmt_fixed :: "nat \<Rightarrow> f64 \<Rightarrow> string" where
  "fmt_fixed n x =
     (case x of
        NaN \<Rightarrow> ''NaN'' | PInf \<Rightarrow> ''+Inf'' | NInf \<Rightarrow> ''-Inf''
      | Fin r \<Rightarrow>
          (let m = nat (round_half_even (\<bar>r\<bar> * 10 ^ n));
               frac = dec (m mod 10 ^ n)
           in (if r < 0 then ''-'' else '''') @ dec (m div 10 ^ n) @
              (if n = 0 then '''' else ''.'' @ replicate (n - length frac) CHR ''0'' @ frac)))"

section \<open>Rounding\<close>

lemma round_half_even_int [simp]: "round_half_even (of_int n) = n"
  by (simp add: round_half_even_def)

lemma round_half_even_bounds: "of_int (round_half_even x) - x \<le> 1 / 2" "x - of_int (round_half_even x) \<le> 1 / 2"
  unfolding round_half_even_def Let_def by (auto simp: linorder_not_less) linarith+

lemma round_half_even_mono:
  assumes "x \<le> y"
  shows "round_half_even x \<le> round_half_even y"
proof (cases "\<lfloor>x\<rfloor> = \<lfloor>y\<rfloor>")
  case True
  then show ?thesis using assms by (auto simp: round_half_even_def Let_def)
next
  case False
  then have "\<lfloor>x\<rfloor> + 1 \<le> \<lfloor>y\<rfloor>" using floor_mono[OF assms] by simp
  moreover have "round_half_even x \<le> \<lfloor>x\<rfloor> + 1" "\<lfloor>y\<rfloor> \<le> round_half_even y"
    by (auto simp: round_half_even_def Let_def)
  ultimately show ?thesis by simp
qed

lemma pow2_pos [simp]: "0 < pow2 e"
  by (simp add: pow2_def)

lemma pow2_powi: "pow2 e = 2 powi e"
  by (simp add: pow2_def power_int_def field_simps)

lemma pow2_add: "pow2 (a + b) = pow2 a * pow2 b"
  by (simp add: pow2_powi power_int_add)

lemma pow2_mono: "a \<le> b \<Longrightarrow> pow2 a \<le> pow2 b"
  by (simp add: pow2_powi power_int_increasing)

lemma pow2_less: "pow2 a < pow2 b \<Longrightarrow> a < b"
  using pow2_mono[of b a] by (meson leD leI)

lemma pow2_div: "b \<le> a \<Longrightarrow> pow2 a / pow2 b = of_int (2 ^ nat (a - b))"
  using pow2_add[of b "a - b"] by (simp add: field_simps) (simp add: pow2_def)

lemma bit_length_nonneg: "0 \<le> bit_length n"
  by (induction n rule: bit_length.induct) (subst bit_length.simps, simp)

lemma bit_length_bounds:
  assumes "0 < n"
  shows "pow2 (bit_length n - 1) \<le> of_int n" "of_int n < pow2 (bit_length n)"
proof -
  have "0 < n \<Longrightarrow> pow2 (bit_length n - 1) \<le> of_int n \<and> of_int n < pow2 (bit_length n)"
  proof (induction n rule: bit_length.induct)
    case (1 n)
    let ?h = "bit_length (n div 2)"
    show ?case
    proof (cases "n div 2 = 0")
      case True
      then have "n = 1" using 1(2) by presburger
      then show ?thesis by (simp add: bit_length.simps pow2_def)
    next
      case False
      then have h: "pow2 (?h - 1) \<le> of_int (n div 2)" "of_int (n div 2) < pow2 ?h" using 1 by auto
      have b: "bit_length n = ?h + 1" using 1(2) by (subst bit_length.simps) simp
      have H: "0 \<le> ?h" by (rule bit_length_nonneg)
      have two: "pow2 (?h + 1) = 2 * pow2 ?h" "pow2 ?h = 2 * pow2 (?h - 1)"
        using pow2_add[of ?h 1] pow2_add[of "?h - 1" 1] by (simp_all add: pow2_def[of 1])
      have "n div 2 < 2 ^ nat ?h" using h(2) H by (simp add: pow2_def)
      then have "(of_int (n div 2 + 1) :: rat) \<le> of_int (2 ^ nat ?h)" by (subst of_int_le_iff) simp
      then have "of_int (n div 2) + 1 \<le> pow2 ?h" using H by (simp add: pow2_def)
      moreover have "(of_int n :: rat) < of_int (2 * (n div 2) + 2)" "(of_int (2 * (n div 2)) :: rat) \<le> of_int n"
        unfolding of_int_less_iff of_int_le_iff by presburger+
      ultimately show ?thesis using h(1) two b by simp
    qed
  qed
  then show "pow2 (bit_length n - 1) \<le> of_int n" "of_int n < pow2 (bit_length n)" using assms by auto
qed

lemma expo_bounds:
  assumes "0 < x"
  shows "pow2 (expo x) \<le> x" "x < pow2 (expo x + 1)"
proof -
  obtain p q where pq: "quotient_of x = (p, q)" by fastforce
  have q: "0 < q" using quotient_of_denom_pos[OF pq] .
  have x: "x = of_int p / of_int q" using quotient_of_div[OF pq] .
  have p: "0 < p" using assms x q by (simp add: zero_less_divide_iff)
  let ?a = "bit_length p" and ?b = "bit_length q"
  note P = bit_length_bounds[OF p] and Q = bit_length_bounds[OF q]
  let ?k = "?a - ?b"
  have "x * pow2 (?b - 1) \<le> x * of_int q" using assms Q(1) by simp
  also have "\<dots> < pow2 ?a" using x P(2) q by simp
  also have "\<dots> = pow2 (?k + 1) * pow2 (?b - 1)" by (simp flip: pow2_add)
  finally have up: "x < pow2 (?k + 1)" by simp
  have "pow2 (?k - 1) * pow2 ?b = pow2 (?a - 1)" by (simp flip: pow2_add)
  also have "\<dots> \<le> of_int p" by (rule P(1))
  also have "\<dots> = x * of_int q" using x q by simp
  also have "\<dots> \<le> x * pow2 ?b" using assms Q(2) by simp
  finally have lo: "pow2 (?k - 1) \<le> x" by simp
  show "pow2 (expo x) \<le> x" "x < pow2 (expo x + 1)"
    using up lo by (auto simp: expo_def pq Let_def)
qed

lemma expo_mono: "0 < x \<Longrightarrow> x \<le> y \<Longrightarrow> expo x \<le> expo y"
  using expo_bounds(1)[of x] expo_bounds(2)[of y] pow2_less[of "expo x" "expo y + 1"] by simp

lemma fl_pos_ge:
  assumes "of_int m * pow2 (ulp_exp x) \<le> x"
  shows "of_int m * pow2 (ulp_exp x) \<le> fl_pos x"
  using round_half_even_mono[of "of_int m" "x / pow2 (ulp_exp x)"] assms
  by (simp add: fl_pos_def Let_def pos_le_divide_eq)

lemma fl_pos_le:
  assumes "x \<le> of_int m * pow2 (ulp_exp x)"
  shows "fl_pos x \<le> of_int m * pow2 (ulp_exp x)"
  using round_half_even_mono[of "x / pow2 (ulp_exp x)" "of_int m"] assms
  by (simp add: fl_pos_def Let_def pos_divide_le_eq)

lemma fl_pos_mono:
  assumes "0 < x" "x \<le> y"
  shows "fl_pos x \<le> fl_pos y"
proof (cases "ulp_exp x = ulp_exp y")
  case True
  then show ?thesis
    using round_half_even_mono[of "x / pow2 (ulp_exp x)" "y / pow2 (ulp_exp y)"] assms
    by (simp add: fl_pos_def Let_def divide_right_mono less_imp_le)
next
  case False
  have e: "expo x < expo y" "ulp_exp y = expo y - 52" "ulp_exp x \<le> ulp_exp y"
    using False expo_mono[OF assms] by (auto simp: ulp_exp_def max_def split: if_splits)
  have B: "pow2 (expo y) = of_int (2 ^ nat (expo y - k)) * pow2 k" if "k \<le> expo y" for k
    using pow2_div[OF that] pow2_pos[of k] by (simp add: divide_eq_eq mult.commute)
  have "x \<le> pow2 (expo y)"
    using expo_bounds(2)[OF assms(1)] pow2_mono[of "expo x + 1" "expo y"] e(1) by simp
  then have "fl_pos x \<le> pow2 (expo y)"
    using fl_pos_le[of x "2 ^ nat (expo y - ulp_exp x)"] B[of "ulp_exp x"] e by simp
  moreover have "pow2 (expo y) \<le> fl_pos y"
    using fl_pos_ge[of "2 ^ nat (expo y - ulp_exp y)" y] B[of "ulp_exp y"] e(2) expo_bounds(1)[of y] assms
    by simp
  ultimately show ?thesis by simp
qed

lemma fl_pos_nonneg: "0 < x \<Longrightarrow> 0 \<le> fl_pos x"
  using fl_pos_ge[of 0 x] by simp

text \<open>Rounding is monotone on every pair of rationals that stay finite.\<close>

lemma fl_mono:
  assumes "x \<le> y" "fl x = Fin a" "fl y = Fin b"
  shows "a \<le> b"
proof (cases "0 < x \<or> y < 0")
  case True
  then show ?thesis
    using assms fl_pos_mono[of x y] fl_pos_mono[of "- y" "- x"]
    by (auto simp: fl_def Let_def split: if_splits)
next
  case False
  then have "a \<le> 0" "0 \<le> b"
    using assms fl_pos_nonneg[of "- x"] fl_pos_nonneg[of y]
    by (auto simp: fl_def Let_def split: if_splits)
  then show ?thesis by simp
qed

lemma isqrt_spec: "0 \<le> n \<Longrightarrow> 0 \<le> isqrt n \<and> isqrt n * isqrt n \<le> n \<and> n < (isqrt n + 1) * (isqrt n + 1)"
proof (induction n rule: isqrt.induct)
  case (1 n)
  show ?case
  proof (cases "n = 0")
    case False
    define r where "r = isqrt (n div 4)"
    have r: "0 \<le> r" "r * r \<le> n div 4" "n div 4 < (r + 1) * (r + 1)"
      unfolding r_def using 1 False by auto
    have "4 * (r * r) \<le> n" "n < 4 * ((r + 1) * (r + 1))" using r(2,3) by linarith+
    moreover have "isqrt n = (if (2 * r + 1) * (2 * r + 1) \<le> n then 2 * r + 1 else 2 * r)"
      using False 1(2) by (subst isqrt.simps) (simp add: Let_def r_def)
    ultimately show ?thesis using r(1) by (auto simp: algebra_simps)
  qed (simp add: isqrt.simps)
qed

end
