(* ===== verification/Go_Flag.thy ===== *)
theory Go_Flag
  imports Go_Strings
begin

text \<open>
  The parser of Go's \<^verbatim>\<open>flag\<close> package as the applets use it: string and boolean flags, one or two
  dashes, \<^verbatim>\<open>-name=value\<close> or \<^verbatim>\<open>-name value\<close>, \<^verbatim>\<open>--\<close> as terminator, and the first argument that is
  no flag ends the flags.  The parser returns the assignments in the order they were made, so that
  two flags bound to one variable are resolved as in the program: the last one wins.
\<close>

datatype flag_kind = StringFlag | BoolFlag

datatype flag_val = SVal string | BVal bool

datatype flag_error =
    BadFlagSyntax string | FlagHelp | FlagUndefined string | FlagNeedsArg string | FlagBadBool string string

type_synonym flag_decls = "(string \<times> flag_kind) list"
type_synonym flag_sets = "(string \<times> flag_val) list"

definition parse_bool :: "string \<Rightarrow> bool option" where
  "parse_bool s =
     (if s \<in> set [''1'', ''t'', ''T'', ''TRUE'', ''true'', ''True''] then Some True
      else if s \<in> set [''0'', ''f'', ''F'', ''FALSE'', ''false'', ''False''] then Some False
      else None)"

text \<open>The name of a flag argument and its inline value; an \<open>=\<close> cannot be the first character.\<close>

definition flag_name :: "string \<Rightarrow> string \<times> string option" where
  "flag_name n = (case cut CHR ''='' (tl n) of
                    None \<Rightarrow> (n, None) | Some (k, v) \<Rightarrow> (hd n # k, Some v))"

fun parse_flags :: "flag_decls \<Rightarrow> string list \<Rightarrow> flag_error + (flag_sets \<times> string list)" where
  "parse_flags ds [] = Inr ([], [])"
| "parse_flags ds (s # args) =
     (if length s < 2 \<or> s ! 0 \<noteq> CHR ''-'' then Inr ([], s # args)
      else if s = ''--'' then Inr ([], args)
      else let n = drop (if s ! 1 = CHR ''-'' then 2 else 1) s in
      if n = [] \<or> hd n = CHR ''-'' \<or> hd n = CHR ''='' then Inl (BadFlagSyntax s)
      else (case flag_name n of (name, inl) \<Rightarrow>
        (case map_of ds name of
           None \<Rightarrow> Inl (if name = ''help'' \<or> name = ''h'' then FlagHelp else FlagUndefined name)
         | Some BoolFlag \<Rightarrow>
             (case (case inl of None \<Rightarrow> Some True | Some v \<Rightarrow> parse_bool v) of
                None \<Rightarrow> Inl (FlagBadBool name (the inl))
              | Some b \<Rightarrow>
                  (case parse_flags ds args of
                     Inl e \<Rightarrow> Inl e | Inr (sets, rest) \<Rightarrow> Inr ((name, BVal b) # sets, rest)))
         | Some StringFlag \<Rightarrow>
             (case inl of
                Some v \<Rightarrow>
                  (case parse_flags ds args of
                     Inl e \<Rightarrow> Inl e | Inr (sets, rest) \<Rightarrow> Inr ((name, SVal v) # sets, rest))
              | None \<Rightarrow>
                  (case args of
                     [] \<Rightarrow> Inl (FlagNeedsArg name)
                   | v # args' \<Rightarrow>
                       (case parse_flags ds args' of
                          Inl e \<Rightarrow> Inl e | Inr (sets, rest) \<Rightarrow> Inr ((name, SVal v) # sets, rest)))))))"

declare parse_flags.simps [simp del]

text \<open>Every assignment is to a declared flag and has the declared type.\<close>

definition well_typed :: "flag_decls \<Rightarrow> flag_sets \<Rightarrow> bool" where
  "well_typed ds sets = list_all (\<lambda>(n, v). map_of ds n = Some (case v of SVal _ \<Rightarrow> StringFlag | BVal _ \<Rightarrow> BoolFlag)) sets"

lemma parse_flags_typed: "parse_flags ds args = Inr (sets, rest) \<Longrightarrow> well_typed ds sets"
proof (induction ds args arbitrary: sets rest rule: parse_flags.induct)
  case (1 ds)
  then show ?case by (simp add: parse_flags.simps well_typed_def)
next
  case (2 ds s args)
  show ?case
    using 2(4) 2(1-3)
    by (subst (asm) parse_flags.simps)
       (auto simp: Let_def well_typed_def split: if_splits option.splits prod.splits sum.splits flag_kind.splits list.splits)
qed

lemma parse_flags_rest: "parse_flags ds args = Inr (sets, rest) \<Longrightarrow> \<exists>pre. args = pre @ rest"
proof (induction ds args arbitrary: sets rest rule: parse_flags.induct)
  case (1 ds)
  then show ?case by (simp add: parse_flags.simps)
next
  case (2 ds s args)
  have "rest = s # args \<or> (\<exists>pre. args = pre @ rest)"
    using 2(4) 2(1-3)
    by (subst (asm) parse_flags.simps)
       (fastforce simp: Let_def split: if_splits option.splits prod.splits sum.splits flag_kind.splits list.splits)
  then show ?case by (metis append_Cons append_Nil)
qed

text \<open>The common shape: flags with separate values, then positional arguments.\<close>

lemma parse_flags_string:
  assumes "map_of ds n = Some StringFlag" "n \<noteq> []" "hd n \<noteq> CHR ''-''" "CHR ''='' \<notin> set n"
  shows "parse_flags ds ((CHR ''-'' # n) # v # args) =
    (case parse_flags ds args of Inl e \<Rightarrow> Inl e | Inr (sets, rest) \<Rightarrow> Inr ((n, SVal v) # sets, rest))"
proof -
  obtain c cs where n: "n = c # cs" using assms(2) by (cases n) auto
  have "dropWhile (\<lambda>c. c \<noteq> CHR ''='') cs = []"
    using assms(4) n by (auto simp: dropWhile_eq_Nil_conv)
  then have "cut CHR ''='' cs = None" by (simp only: cut_def list.case)
  then have "flag_name n = (n, None)" by (simp add: flag_name_def n)
  moreover have "c \<noteq> CHR ''=''" using assms(4) n by auto
  ultimately show ?thesis using assms unfolding n by (subst parse_flags.simps) simp
qed

end
