(* ===== verification/Net_Addr.thy ===== *)
theory Net_Addr
  imports Go_Text
begin

text \<open>
  Network targets of \<^verbatim>\<open>tools/hwtest\<close> (\<^verbatim>\<open>wifiNetworkTarget\<close> in \<^verbatim>\<open>connect.go\<close>) with the functions of Go's
  \<^verbatim>\<open>net\<close> package they rest on: splitting and joining host and port, and the parser of literal addresses
  (\<^verbatim>\<open>net.ParseIP\<close>, which yields sixteen octets, and \<^verbatim>\<open>net.ParseCIDR\<close>).  A target that is accepted is a literal
  address and a port from 1 to 65535, and the canonical text is a fixed point of the check.
\<close>

definition before_last :: "char \<Rightarrow> string \<Rightarrow> (string \<times> string) option" where
  "before_last c s = (case cut c (rev s) of None \<Rightarrow> None | Some (a, b) \<Rightarrow> Some (rev b, rev a))"

definition SplitHostPort :: "string \<Rightarrow> (string \<times> string) option" where
  "SplitHostPort s =
     (case before_last CHR '':'' s of
        None \<Rightarrow> None
      | Some (pre, port) \<Rightarrow>
          if hd s = CHR ''['' then
            (case cut CHR '']'' s of
               None \<Rightarrow> None
             | Some (a, rest) \<Rightarrow>
                 if rest = CHR '':'' # port \<and> CHR ''['' \<notin> set (tl s) \<and> CHR '']'' \<notin> set rest
                 then Some (tl a, port) else None)
          else if CHR '':'' \<notin> set pre \<and> CHR ''['' \<notin> set s \<and> CHR '']'' \<notin> set s
          then Some (pre, port) else None)"

definition JoinHostPort :: "string \<Rightarrow> string \<Rightarrow> string" where
  "JoinHostPort host port =
     (if CHR '':'' \<in> set host then ''['' @ host @ '']:'' @ port else host @ '':'' @ port)"

definition v4_octet :: "string \<Rightarrow> byte option" where
  "v4_octet s =
     (if s \<noteq> [] \<and> list_all is_digit s \<and> (hd s = CHR ''0'' \<longrightarrow> tl s = []) \<and> dec_val s \<le> 255
      then Some (of_nat (dec_val s)) else None)"

definition parseIPv4 :: "string \<Rightarrow> bytes option" where
  "parseIPv4 s =
     (case map v4_octet (split_on CHR ''.'' s) of
        [Some a, Some b, Some c, Some d] \<Rightarrow> Some [a, b, c, d]
      | _ \<Rightarrow> None)"

definition hex_digit_val :: "char \<Rightarrow> nat option" where
  "hex_digit_val c =
     (let n = of_char c :: nat in
      if 48 \<le> n \<and> n \<le> 57 then Some (n - 48)
      else if 97 \<le> n \<and> n \<le> 102 then Some (n - 87)
      else if 65 \<le> n \<and> n \<le> 70 then Some (n - 55) else None)"

definition hex_nat :: "string \<Rightarrow> nat" where
  "hex_nat ds = foldl (\<lambda>a c. a * 16 + (case hex_digit_val c of Some v \<Rightarrow> v | None \<Rightarrow> 0)) 0 ds"

function v6_loop :: "bytes \<Rightarrow> nat option \<Rightarrow> string \<Rightarrow> (bytes \<times> nat option \<times> string) option" where
  "v6_loop ip ell s =
     (if 16 \<le> length ip then Some (ip, ell, s)
      else let ds = takeWhile (\<lambda>c. hex_digit_val c \<noteq> None) s;
               rest = drop (length ds) s;
               v = hex_nat ds;
               ip' = ip @ [of_nat (v div 256), of_nat (v mod 256)]
           in if ds = [] \<or> 4 < length ds then None
              else if rest \<noteq> [] \<and> hd rest = CHR ''.'' then
                (if ell = None \<and> length ip \<noteq> 12 \<or> 16 < length ip + 4 then None
                 else map_option (\<lambda>f. (ip @ f, ell, [])) (parseIPv4 s))
              else (case rest of
                      [] \<Rightarrow> Some (ip', ell, [])
                    | c # s1 \<Rightarrow>
                        if c \<noteq> CHR '':'' \<or> s1 = [] then None
                        else if hd s1 = CHR '':'' then
                          (if ell \<noteq> None then None
                           else if tl s1 = [] then Some (ip', Some (length ip'), [])
                           else v6_loop ip' (Some (length ip')) (tl s1))
                        else v6_loop ip' ell s1))"
  by pat_completeness auto
termination by (relation "measure (\<lambda>(ip, _, _). 16 - length ip)") auto

declare v6_loop.simps [simp del]

definition parseIPv6 :: "string \<Rightarrow> bytes option" where
  "parseIPv6 s =
     (if CHR ''%'' \<in> set s then None
      else if s = ''::'' then Some (replicate 16 0)
      else (case (if has_prefix s ''::'' then v6_loop [] (Some 0) (drop 2 s) else v6_loop [] None s) of
              None \<Rightarrow> None
            | Some (ip, ell, rest) \<Rightarrow>
                if rest \<noteq> [] then None
                else if length ip < 16 then
                  (case ell of
                     None \<Rightarrow> None
                   | Some k \<Rightarrow> Some (take k ip @ replicate (16 - length ip) 0 @ drop k ip))
                else if ell \<noteq> None then None else Some ip))"

definition v4_in_v6 :: "bytes \<Rightarrow> bytes" where
  "v4_in_v6 b = replicate 10 0 @ [0xff, 0xff] @ b"

definition ParseIP :: "string \<Rightarrow> bytes option" where
  "ParseIP s =
     (case filter (\<lambda>c. c \<in> {CHR ''.'', CHR '':'', CHR ''%''}) s of
        [] \<Rightarrow> None
      | c # _ \<Rightarrow>
          if c = CHR ''.'' then map_option v4_in_v6 (parseIPv4 s)
          else if c = CHR '':'' then parseIPv6 s
          else None)"

definition is_v4 :: "bytes \<Rightarrow> bool" where
  "is_v4 ip = (take 12 ip = replicate 10 0 @ [0xff, 0xff])"

text \<open>\<^verbatim>\<open>net.ParseCIDR\<close>: the address and a prefix length that fits the family of its text.\<close>

definition ParseCIDR :: "string \<Rightarrow> bytes option" where
  "ParseCIDR s =
     (case cut CHR ''/'' s of
        None \<Rightarrow> None
      | Some (addr, plen) \<Rightarrow>
          (case ParseIP addr of
             None \<Rightarrow> None
           | Some ip \<Rightarrow>
               if plen \<noteq> [] \<and> list_all is_digit plen \<and>
                  dec_val plen \<le> (if CHR '':'' \<in> set addr then 128 else 32)
               then Some ip else None))"

definition wifiNetworkTarget :: "string \<Rightarrow> string option" where
  "wifiNetworkTarget target =
     (case SplitHostPort target of
        None \<Rightarrow> None
      | Some (host, port) \<Rightarrow>
          if ParseIP host = None then None
          else if \<not> list_all is_digit port then None
          else (case parse_int64 port of
                  None \<Rightarrow> None
                | Some p \<Rightarrow> if p < 1 \<or> 65535 < p then None else Some (JoinHostPort host (dec_int p))))"

lemma before_last_iff: "before_last c s = Some (pre, post) \<longleftrightarrow> s = pre @ c # post \<and> c \<notin> set post"
proof
  assume "before_last c s = Some (pre, post)"
  then have "cut c (rev s) = Some (rev post, rev pre)"
    by (auto simp: before_last_def split: option.splits prod.splits)
  then have "rev s = rev post @ c # rev pre" "c \<notin> set post" using cut_SomeD by fastforce+
  then have "rev (rev s) = pre @ c # post" by simp
  then show "s = pre @ c # post \<and> c \<notin> set post" using \<open>c \<notin> set post\<close> by simp
next
  assume "s = pre @ c # post \<and> c \<notin> set post"
  then show "before_last c s = Some (pre, post)"
    using cut_line[of c "rev post" "rev pre"] by (simp add: before_last_def)
qed

lemma split_host_chars:
  assumes "SplitHostPort s = Some (host, port)"
  shows "CHR ''['' \<notin> set host \<and> CHR '']'' \<notin> set host"
proof (cases "hd s = CHR ''[''")
  case True
  then obtain a rest where c: "cut CHR '']'' s = Some (a, rest)" "CHR ''['' \<notin> set (tl s)" "host = tl a"
    using assms by (auto simp: SplitHostPort_def split: option.splits prod.splits if_splits)
  then have "s = a @ CHR '']'' # rest" "CHR '']'' \<notin> set a" using cut_SomeD by fastforce+
  then show ?thesis using c(2,3) by (cases a) auto
next
  case False
  then show ?thesis
    using assms by (auto simp: SplitHostPort_def before_last_iff split: option.splits prod.splits if_splits)
qed

lemma split_join_host_port:
  assumes "host \<noteq> []" "CHR ''['' \<notin> set host" "CHR '']'' \<notin> set host" "list_all is_digit port"
  shows "SplitHostPort (JoinHostPort host port) = Some (host, port)"
proof -
  have p: "c \<notin> set port" if "c \<in> {CHR '':'', CHR ''['', CHR '']''}" for c
    using assms(4) that by (auto simp: list_all_iff is_digit_def)
  show ?thesis
  proof (cases "CHR '':'' \<in> set host")
    case True
    have "before_last CHR '':'' (''['' @ host @ '']:'' @ port) = Some (''['' @ host @ '']'', port)"
      using p[of "CHR '':''"] by (simp add: before_last_iff)
    moreover have "cut CHR '']'' (''['' @ host @ '']:'' @ port) = Some (''['' @ host, '':'' @ port)"
      using cut_line[of "CHR '']''" "''['' @ host" "'':'' @ port"] assms(3) by simp
    ultimately show ?thesis using True assms p by (simp add: JoinHostPort_def SplitHostPort_def)
  next
    case False
    then have "before_last CHR '':'' (host @ '':'' @ port) = Some (host, port)"
      using p[of "CHR '':''"] by (simp add: before_last_iff)
    moreover have "hd (host @ '':'' @ port) \<noteq> CHR ''[''" using assms(1,2) by (cases host) auto
    ultimately show ?thesis using False assms p by (simp add: JoinHostPort_def SplitHostPort_def)
  qed
qed

lemma dec_int_digits: "0 \<le> p \<Longrightarrow> list_all is_digit (dec_int p)"
  by (simp add: dec_int_def dec_digits)

lemma wifiNetworkTarget_Some:
  assumes "wifiNetworkTarget t = Some u"
  obtains host p where "u = JoinHostPort host (dec_int p)" "1 \<le> p" "p \<le> 65535"
    "ParseIP host \<noteq> None" "SplitHostPort u = Some (host, dec_int p)"
proof -
  obtain host port p where t: "SplitHostPort t = Some (host, port)" "ParseIP host \<noteq> None"
    "parse_int64 port = Some p" "1 \<le> p" "p \<le> 65535" "u = JoinHostPort host (dec_int p)"
    using assms by (auto simp: wifiNetworkTarget_def split: option.splits prod.splits if_splits)
  have "host \<noteq> []" using t(2) by (auto simp: ParseIP_def)
  then have "SplitHostPort u = Some (host, dec_int p)"
    using split_join_host_port split_host_chars[OF t(1)] dec_int_digits t(4,6) by simp
  then show ?thesis using that t by blast
qed

text \<open>An accepted target is accepted again, unchanged: the address that was checked is the one dialled.\<close>

lemma wifiNetworkTarget_canonical:
  assumes "wifiNetworkTarget t = Some u"
  shows "wifiNetworkTarget u = Some u"
proof -
  obtain host p where u: "u = JoinHostPort host (dec_int p)" "1 \<le> p" "p \<le> 65535"
    "ParseIP host \<noteq> None" "SplitHostPort u = Some (host, dec_int p)"
    using wifiNetworkTarget_Some[OF assms] .
  have "parse_int64 (dec_int p) = Some p"
    using parse_int64_dec[of "nat p"] u(2,3) by (simp add: dec_int_def)
  then show ?thesis using u dec_int_digits[of p] by (simp add: wifiNetworkTarget_def)
qed

end
