(* ===== verification/Trace.thy ===== *)
theory Trace
  imports Dc1_Prelude "HOL-Library.State_Monad"
begin

text \<open>
  Effectful code as programs over a trace.  The two init programs do all their effects through an
  interface of operations; here an operation is a value, the environment is a function from the
  history of operations and answers to the next answer, and running a program appends to the
  history.  A theorem that holds for every environment therefore holds for every behaviour of the
  kernel, the hardware and the other processes.  \<open>emits m Q\<close> says that whatever the environment
  answers, the result of \<open>m\<close> and the events it appends satisfy \<open>Q\<close>.
\<close>

type_synonym ('op, 'r) events = "('op \<times> 'r) list"
type_synonym ('op, 'r) env = "('op, 'r) events \<Rightarrow> 'op \<Rightarrow> 'r"
type_synonym ('op, 'r, 'a) prog = "(('op, 'r) events, 'a) state"

definition act :: "('op, 'r) env \<Rightarrow> 'op \<Rightarrow> ('op, 'r, 'r) prog" where
  "act env oper = State (\<lambda>tr. (env tr oper, tr @ [(oper, env tr oper)]))"

abbreviation ret :: "'a \<Rightarrow> ('op, 'r, 'a) prog" where
  "ret \<equiv> State_Monad.return"

abbreviation unit_prog :: "('op, 'r, unit) prog" where
  "unit_prog \<equiv> ret ()"

fun foreach :: "('b \<Rightarrow> ('op, 'r, unit) prog) \<Rightarrow> 'b list \<Rightarrow> ('op, 'r, unit) prog" where
  "foreach f [] = unit_prog"
| "foreach f (x # xs) = do { f x; foreach f xs }"

fun foldp :: "('s \<Rightarrow> 'b \<Rightarrow> ('op, 'r, 's) prog) \<Rightarrow> 's \<Rightarrow> 'b list \<Rightarrow> ('op, 'r, 's) prog" where
  "foldp f s [] = ret s"
| "foldp f s (x # xs) = do { s' \<leftarrow> f s x; foldp f s' xs }"

definition emits :: "('op, 'r, 'a) prog \<Rightarrow> ('a \<Rightarrow> ('op, 'r) events \<Rightarrow> bool) \<Rightarrow> bool" where
  "emits m Q \<longleftrightarrow> (\<forall>tr. \<exists>new. snd (run_state m tr) = tr @ new \<and> Q (fst (run_state m tr)) new)"

named_theorems emits_rules \<open>what the programs of a component emit\<close>

lemma emits_run:
  assumes "emits m Q" "run_state m tr = (a, tr')"
  shows "\<exists>new. tr' = tr @ new \<and> Q a new"
  using assms by (auto simp: emits_def dest!: spec[of _ tr])

lemma emits_return: "Q a [] \<Longrightarrow> emits (ret a) Q"
  by (simp add: emits_def)

lemma emits_act: "(\<And>r. Q r [(oper, r)]) \<Longrightarrow> emits (act env oper) Q"
  by (simp add: emits_def act_def)

lemma emits_weaken: "emits m R \<Longrightarrow> (\<And>a new. R a new \<Longrightarrow> Q a new) \<Longrightarrow> emits m Q"
  unfolding emits_def by blast

lemma emits_conj: "emits m P \<Longrightarrow> emits m Q \<Longrightarrow> emits m (\<lambda>a new. P a new \<and> Q a new)"
  unfolding emits_def by (metis same_append_eq)

lemma emits_bind:
  assumes "emits m R" "\<And>a new. R a new \<Longrightarrow> emits (f a) (\<lambda>b new'. Q b (new @ new'))"
  shows "emits (m \<bind> f) Q"
  unfolding emits_def
proof
  fix tr
  obtain a tr1 where m: "run_state m tr = (a, tr1)" by fastforce
  obtain new where new: "tr1 = tr @ new" "R a new" using emits_run[OF assms(1) m] by blast
  obtain b tr2 where f: "run_state (f a) tr1 = (b, tr2)" by fastforce
  obtain new' where n': "tr2 = tr1 @ new'" "Q b (new @ new')"
    using emits_run[OF assms(2)[OF new(2)] f] by blast
  show "\<exists>new. snd (run_state (m \<bind> f) tr) = tr @ new \<and> Q (fst (run_state (m \<bind> f) tr)) new"
    using m f new(1) n' by (intro exI[of _ "new @ new'"]) simp
qed

lemma emits_act_bind:
  assumes "\<And>r. emits (f r) (\<lambda>b new'. Q b ((oper, r) # new'))"
  shows "emits (act env oper \<bind> f) Q"
  by (rule emits_bind[where R = "\<lambda>r new. new = [(oper, r)]"]) (auto intro: emits_act assms)

lemma emits_if: "(b \<Longrightarrow> emits m Q) \<Longrightarrow> (\<not> b \<Longrightarrow> emits n Q) \<Longrightarrow> emits (if b then m else n) Q"
  by simp

lemma emits_option:
  "(x = None \<Longrightarrow> emits m Q) \<Longrightarrow> (\<And>y. x = Some y \<Longrightarrow> emits (f y) Q) \<Longrightarrow> emits (case x of None \<Rightarrow> m | Some y \<Rightarrow> f y) Q"
  by (cases x) auto

lemma emits_sum:
  "(\<And>y. x = Inl y \<Longrightarrow> emits (f y) Q) \<Longrightarrow> (\<And>y. x = Inr y \<Longrightarrow> emits (g y) Q) \<Longrightarrow> emits (case x of Inl y \<Rightarrow> f y | Inr y \<Rightarrow> g y) Q"
  by (cases x) auto

text \<open>Programs all of whose events satisfy a predicate.\<close>

definition only :: "('op \<times> 'r \<Rightarrow> bool) \<Rightarrow> ('op, 'r, 'a) prog \<Rightarrow> bool" where
  "only P m \<longleftrightarrow> emits m (\<lambda>_ new. \<forall>e\<in>set new. P e)"

lemma only_return [simp]: "only P (ret a)"
  by (simp add: only_def emits_return)

lemma only_act: "(\<And>tr. P (oper, env tr oper)) \<Longrightarrow> only P (act env oper)"
  by (simp add: only_def emits_def act_def)

lemma only_bind:
  fixes m :: "('op, 'r, 'a) prog"
  assumes "only P m" "\<And>a. only P (f a)"
  shows "only P (m \<bind> f)"
  unfolding only_def
proof (rule emits_bind[OF assms(1)[unfolded only_def]])
  fix a and new :: "('op, 'r) events"
  assume "\<forall>e\<in>set new. P e"
  then show "emits (f a) (\<lambda>b new'. \<forall>e\<in>set (new @ new'). P e)"
    by (intro emits_weaken[OF assms(2)[of a, unfolded only_def]]) auto
qed

lemma only_act_bind:
  assumes "\<And>tr. P (oper, env tr oper)" "\<And>tr. only P (f (env tr oper))"
  shows "only P (act env oper \<bind> f)"
  unfolding only_def emits_def
proof
  fix tr
  let ?r = "env tr oper" and ?tr = "tr @ [(oper, env tr oper)]"
  have "\<exists>new. snd (run_state (f ?r) ?tr) = ?tr @ new \<and> (\<forall>e\<in>set new. P e)"
    using assms(2)[of tr] unfolding only_def emits_def by blast
  then obtain new where "snd (run_state (f ?r) ?tr) = tr @ (oper, ?r) # new" "\<forall>e\<in>set new. P e" by auto
  then show "\<exists>new. snd (run_state (act env oper \<bind> f) tr) = tr @ new \<and> (\<forall>e\<in>set new. P e)"
    using assms(1)[of tr] by (intro exI[of _ "(oper, ?r) # new"]) (simp add: act_def)
qed

lemma only_if: "(b \<Longrightarrow> only P m) \<Longrightarrow> (\<not> b \<Longrightarrow> only P n) \<Longrightarrow> only P (if b then m else n)"
  by simp

lemma only_option:
  "only P m \<Longrightarrow> (\<And>y. only P (f y)) \<Longrightarrow> only P (case x of None \<Rightarrow> m | Some y \<Rightarrow> f y)"
  by (cases x) auto

lemma only_sum:
  "(\<And>y. only P (f y)) \<Longrightarrow> (\<And>y. only P (g y)) \<Longrightarrow> only P (case x of Inl y \<Rightarrow> f y | Inr y \<Rightarrow> g y)"
  by (cases x) auto

lemma only_prod: "(\<And>a b. only P (f a b)) \<Longrightarrow> only P (case x of (a, b) \<Rightarrow> f a b)"
  by (cases x) auto

lemma only_nat: "only P m \<Longrightarrow> (\<And>y. only P (f y)) \<Longrightarrow> only P (case x of 0 \<Rightarrow> m | Suc y \<Rightarrow> f y)"
  by (cases x) auto

lemma only_foreach: "(\<And>x. x \<in> set xs \<Longrightarrow> only P (f x)) \<Longrightarrow> only P (foreach f xs)"
  by (induction xs) (auto intro!: only_bind)

lemmas only_intros = only_bind only_return only_act only_if only_option only_sum only_prod only_nat only_foreach

lemma only_weaken: "only P m \<Longrightarrow> (\<And>x. P x \<Longrightarrow> Q x) \<Longrightarrow> only Q m"
  unfolding only_def by (erule emits_weaken) blast

lemma onlyD: "only P m \<Longrightarrow> emits m (\<lambda>_ new. \<forall>e\<in>set new. P e)"
  by (simp add: only_def)

lemma emits_only: "emits m Q \<Longrightarrow> only P m \<Longrightarrow> emits m (\<lambda>a new. Q a new \<and> (\<forall>e\<in>set new. P e))"
  by (rule emits_conj) (simp_all add: only_def)

text \<open>Events that are always preceded by others: each event whose operation satisfies \<open>A\<close> is
  preceded by a history that satisfies \<open>P\<close>.\<close>

definition guarded :: "('op \<Rightarrow> bool) \<Rightarrow> (('op, 'r) events \<Rightarrow> bool) \<Rightarrow> ('op, 'r) events \<Rightarrow> bool" where
  "guarded A P xs \<longleftrightarrow> (\<forall>pre e post. xs = pre @ e # post \<longrightarrow> A (fst e) \<longrightarrow> P pre)"

lemma guarded_none: "\<forall>e\<in>set xs. \<not> A (fst e) \<Longrightarrow> guarded A P xs"
  unfolding guarded_def by auto

lemma guarded_append:
  assumes "guarded A P xs" "guarded A P ys" "\<And>q p. P p \<Longrightarrow> P (q @ p)"
  shows "guarded A P (xs @ ys)"
  unfolding guarded_def
proof (intro allI impI)
  fix pre e post
  assume e: "xs @ ys = pre @ e # post" "A (fst e)"
  then consider us where "xs = pre @ e # us" | us where "pre = xs @ us" "ys = us @ e # post"
    by (auto simp: append_eq_append_conv2 append_eq_Cons_conv Cons_eq_append_conv)
  then show "P pre"
  proof cases
    case 1
    then show ?thesis using assms(1) e(2) unfolding guarded_def by blast
  next
    case 2
    then show ?thesis using assms(2,3) e(2) unfolding guarded_def by blast
  qed
qed

lemma guarded_later:
  assumes "P xs" "\<And>q p. P p \<Longrightarrow> P (p @ q)" "guarded A P xs"
  shows "guarded A P (xs @ ys)"
  unfolding guarded_def
proof (intro allI impI)
  fix pre e post
  assume e: "xs @ ys = pre @ e # post" "A (fst e)"
  then consider us where "xs = pre @ e # us" | us where "pre = xs @ us"
    by (auto simp: append_eq_append_conv2 append_eq_Cons_conv Cons_eq_append_conv)
  then show "P pre"
    using assms e(2) unfolding guarded_def by cases blast+
qed

text \<open>Properties of histories that hold of the empty history and of two histories put one after the
  other: a program all of whose parts keep such a property keeps it.\<close>

definition keeps :: "(('op, 'r) events \<Rightarrow> bool) \<Rightarrow> ('op, 'r, 'a) prog \<Rightarrow> bool" where
  "keeps T m \<longleftrightarrow> emits m (\<lambda>_. T)"

locale trace_property =
  fixes T :: "('op, 'r) events \<Rightarrow> bool"
  assumes empty: "T []"
      and append: "T xs \<Longrightarrow> T ys \<Longrightarrow> T (xs @ ys)"
begin

lemma keeps_return: "keeps T (ret a)"
  unfolding keeps_def by (rule emits_return) (rule empty)

lemma keeps_bind: "keeps T m \<Longrightarrow> (\<And>a. keeps T (f a)) \<Longrightarrow> keeps T (m \<bind> f)"
  unfolding keeps_def by (rule emits_bind, assumption) (metis append emits_weaken)

lemma keeps_foreach: "(\<And>x. x \<in> set xs \<Longrightarrow> keeps T (f x)) \<Longrightarrow> keeps T (foreach f xs)"
  by (induction xs) (auto intro!: keeps_return keeps_bind)

lemma keeps_foldp: "(\<And>s x. x \<in> set xs \<Longrightarrow> keeps T (f s x)) \<Longrightarrow> keeps T (foldp f s xs)"
  by (induction xs arbitrary: s) (auto intro!: keeps_return keeps_bind)

end

lemma keeps_act: "(\<And>r. T [(oper, r)]) \<Longrightarrow> keeps T (act env oper)"
  unfolding keeps_def by (rule emits_act)

lemma keeps_if: "(b \<Longrightarrow> keeps T m) \<Longrightarrow> (\<not> b \<Longrightarrow> keeps T n) \<Longrightarrow> keeps T (if b then m else n)"
  by simp

lemma keeps_option:
  "(x = None \<Longrightarrow> keeps T m) \<Longrightarrow> (\<And>y. x = Some y \<Longrightarrow> keeps T (f y)) \<Longrightarrow> keeps T (case x of None \<Rightarrow> m | Some y \<Rightarrow> f y)"
  by (cases x) auto

lemma keeps_sum:
  "(\<And>y. x = Inl y \<Longrightarrow> keeps T (f y)) \<Longrightarrow> (\<And>y. x = Inr y \<Longrightarrow> keeps T (g y)) \<Longrightarrow> keeps T (case x of Inl y \<Rightarrow> f y | Inr y \<Rightarrow> g y)"
  by (cases x) auto

lemma keeps_prod: "(\<And>a b. x = (a, b) \<Longrightarrow> keeps T (f a b)) \<Longrightarrow> keeps T (case x of (a, b) \<Rightarrow> f a b)"
  by (cases x) auto

lemma keeps_list:
  "(x = [] \<Longrightarrow> keeps T m) \<Longrightarrow> (\<And>y ys. x = y # ys \<Longrightarrow> keeps T (f y ys)) \<Longrightarrow> keeps T (case x of [] \<Rightarrow> m | y # ys \<Rightarrow> f y ys)"
  by (cases x) auto

lemmas keeps_cases = keeps_if keeps_option keeps_sum keeps_prod keeps_list

lemma keeps_run: "keeps T m \<Longrightarrow> run_state m [] = (a, tr) \<Longrightarrow> T tr"
  using emits_run[of m "\<lambda>_. T" "[]"] by (auto simp: keeps_def)

lemma keeps_weaken: "keeps T m \<Longrightarrow> (\<And>tr. T tr \<Longrightarrow> U tr) \<Longrightarrow> keeps U m"
  unfolding keeps_def by (erule emits_weaken) blast

lemma keeps_conj: "keeps T m \<Longrightarrow> keeps U m \<Longrightarrow> keeps (\<lambda>tr. T tr \<and> U tr) m"
  unfolding keeps_def by (rule emits_conj)

lemma keeps_only: "keeps (\<lambda>tr. \<forall>e\<in>set tr. P e) m \<longleftrightarrow> only P m"
  by (simp add: keeps_def only_def)

end
