(* ===== verification/Hw_Core.thy ===== *)
theory Hw_Core
  imports Go_Float Go_Flag Net_Addr Trace
begin

text \<open>
  The frame of \<^verbatim>\<open>tools/hwtest\<close> (\<^verbatim>\<open>report.go\<close>): results, the run context and its helpers.  Everything the
  program asks of the machine is an operation of \<open>hop\<close>, answered by an arbitrary environment, and a
  reported result is the operation \<open>HAdd\<close>, so the results of a run are read off its trace.  A file is
  answered with its whole content and the error that follows it, a command with its writes and its
  outcome; limits and trimming are the program's.  A read is split into the resolution of the path
  and the access, which is what keeps a relocated run inside its root.
\<close>

abbreviation Fields :: "string \<Rightarrow> string list" where
  "Fields \<equiv> Go_Strings.fields"

section \<open>Results and errors\<close>

datatype Status = Pass | Warn | Fail | Skip | Info

record Result =
  Group :: string
  Name :: string
  RStatus :: Status
  Detail :: string

datatype errkind = ENotExist | EPermission | ECanceled | EDeadline | ERefused | EOther

record herr =
  kind :: errkind
  etext :: string

definition mkerr :: "string \<Rightarrow> herr" where
  "mkerr t = \<lparr>kind = EOther, etext = t\<rparr>"

record Ctx =
  Root :: string
  Active :: bool
  Interactive :: bool
  Sound :: bool
  Microphone :: bool
  NetworkTarget :: string
  has_Cancel :: bool
  has_In :: bool

section \<open>Operations\<close>

record event =
  e_dev :: string
  e_typ :: u16
  e_code :: u16
  e_value :: int

text \<open>What one iteration of \<^verbatim>\<open>session.until\<close> sees: the session error at its head, whether the deadline has
  passed, the case the select takes, and the session error after that case.\<close>

datatype sel = SelEvent event | SelErr herr | SelDone | SelTimer

record iter =
  it_err :: "herr option"
  it_late :: bool
  it_sel :: sel
  it_after :: "herr option"

datatype hop =
    HEvalSymlinks string | HStat string | HReadAll string | HGunzip string | HGlob string | HReadlink string
  | HAdd Result | HSay string | HCtxErr | HNow | HPause nat | HReadLine
  | HExec nat string "string list" | HLookPath string | HGeteuid | HTermios | HGetwd | HJson "Result list"
  | HLoadStart | HLoadStop
  | HOpenDev string bool | HAbsInfo nat | HCloseDev
  | HOpenEvent string | HFstatEvent | HGrab | HSpawnReader string | HSessionErr | HDrain | HUntil nat | HSessionClose
  | HIfaceAddrs string | HDial string | HHciInfo
  | HStatfs | HExecutable | HEnviron | HWorkerStart string "string list" "string list" | HWorkerWait nat
  | HRecordStart string "string list" | HRecordWait nat | HRecordErr

datatype hresp =
    HOk | HErr herr | HText string | HData string "herr option" | HChunks "string list" "herr option"
  | HNames "string list" | HInt int | HBool bool | HTime int int | HAbs int int int
  | HIters "iter list" "herr option" | HHci u32 bytes | HFs int u64 | HFinished "string list" "herr option" int | HExpired

type_synonym henv = "(hop, hresp) env"
type_synonym 'a hprog = "(hop, hresp, 'a) prog"

text \<open>The error of an answer; an answer that does not fit the question counts as a failure.\<close>

definition h_error :: "hresp \<Rightarrow> herr" where
  "h_error r = (case r of HErr e \<Rightarrow> e | _ \<Rightarrow> mkerr ''input/output error'')"

definition h_ok :: "hresp \<Rightarrow> herr option" where
  "h_ok r = (case r of HOk \<Rightarrow> None | _ \<Rightarrow> Some (h_error r))"

definition h_text :: "hresp \<Rightarrow> herr + string" where
  "h_text r = (case r of HText s \<Rightarrow> Inr s | _ \<Rightarrow> Inl (h_error r))"

definition h_names :: "hresp \<Rightarrow> string list" where
  "h_names r = (case r of HNames ns \<Rightarrow> ns | _ \<Rightarrow> [])"

definition h_true :: "hresp \<Rightarrow> bool" where
  "h_true r = (case r of HBool b \<Rightarrow> b | _ \<Rightarrow> False)"

definition h_cancelled :: "hresp \<Rightarrow> herr option" where
  "h_cancelled r = (case r of HErr e \<Rightarrow> Some e | _ \<Rightarrow> None)"

definition h_int :: "hresp \<Rightarrow> int" where
  "h_int r = (case r of HInt i \<Rightarrow> i | _ \<Rightarrow> 0)"

definition h_time :: "hresp \<Rightarrow> int \<times> int" where
  "h_time r = (case r of HTime a b \<Rightarrow> (a, b) | _ \<Rightarrow> (0, 0))"

section \<open>Paths\<close>

definition path_elems :: "string \<Rightarrow> string list" where
  "path_elems p = (if path_clean p = ''.'' then [] else filter (\<lambda>w. w \<noteq> []) (split_on CHR ''/'' (path_clean p)))"

definition slashed :: "string \<Rightarrow> bool" where
  "slashed p = (hd (path_clean p) = CHR ''/'')"

fun strip_common :: "string list \<Rightarrow> string list \<Rightarrow> string list \<times> string list" where
  "strip_common (b # bs) (t # ts) = (if b = t then strip_common bs ts else (b # bs, t # ts))"
| "strip_common bs ts = (bs, ts)"

definition Rel :: "string \<Rightarrow> string \<Rightarrow> string option" where
  "Rel base targ =
     (if path_clean base = path_clean targ then Some ''.''
      else if slashed base \<noteq> slashed targ then None
      else (case strip_common (path_elems base) (path_elems targ) of
              (bs, ts) \<Rightarrow> if bs \<noteq> [] \<and> hd bs = ''..'' then None
                         else Some (join_with ''/'' (replicate (length bs) ''..'' @ ts))))"

section \<open>The context\<close>

text \<open>Durations are in nanoseconds.\<close>

definition live :: "Ctx \<Rightarrow> bool" where
  "live c = (path_clean (Root c) = ''/'')"

definition filepathRootIsSlash :: "Ctx \<Rightarrow> bool" where
  "filepathRootIsSlash c = (Root c = [] \<or> path_clean (Root c) = ''/'')"

definition cpath :: "Ctx \<Rightarrow> string \<Rightarrow> string" where
  "cpath c p = path_join (Root c) p"

definition escapes :: "string option \<Rightarrow> bool" where
  "escapes rel = (case rel of None \<Rightarrow> True | Some r \<Rightarrow> r = ''..'' \<or> has_prefix r ''../'')"

definition readPath :: "henv \<Rightarrow> Ctx \<Rightarrow> string \<Rightarrow> (herr + string) hprog" where
  "readPath env c p =
     (if live c then ret (Inr (cpath c p))
      else do {
        r \<leftarrow> act env (HEvalSymlinks (cpath c p));
        (case h_text r of
           Inl e \<Rightarrow> ret (Inl e)
         | Inr target \<Rightarrow> do {
             rt \<leftarrow> act env (HEvalSymlinks (Root c));
             (case h_text rt of
                Inl e \<Rightarrow> ret (Inl e)
              | Inr rdir \<Rightarrow>
                  if escapes (Rel rdir target) then ret (Inl (mkerr (''fixture path escapes root: '' @ p)))
                  else ret (Inr target)) }) })"

definition read_limit :: nat where "read_limit = 2 ^ 20"

definition read_result :: "string \<Rightarrow> string \<Rightarrow> herr option \<Rightarrow> string \<times> herr option" where
  "read_result p d e =
     (if read_limit < length d then ([], Some (mkerr (p @ '': exceeds 1 MiB read limit'')))
      else (trim_space (trim_right [CHR 0x00] d), e))"

definition Ctx_read :: "henv \<Rightarrow> Ctx \<Rightarrow> string \<Rightarrow> (string \<times> herr option) hprog" where
  "Ctx_read env c p = do {
     q \<leftarrow> readPath env c p;
     (case q of
        Inl e \<Rightarrow> ret ([], Some e)
      | Inr path \<Rightarrow> do {
          r \<leftarrow> act env (HReadAll path);
          ret (case r of HData d e \<Rightarrow> read_result p d e | _ \<Rightarrow> ([], Some (h_error r))) }) }"

text \<open>\<^verbatim>\<open>strconv.ParseInt\<close> with its error: a syntax error yields 0, a range error the nearest bound.\<close>

definition ParseInt :: "string \<Rightarrow> int \<times> herr option" where
  "ParseInt s =
     (case parse_int64 s of
        Some i \<Rightarrow> (i, None)
      | None \<Rightarrow>
          let neg = (s \<noteq> [] \<and> hd s = CHR ''-'');
              body = (if s \<noteq> [] \<and> hd s \<in> {CHR ''-'', CHR ''+''} then tl s else s);
              range = (body \<noteq> [] \<and> list_all is_digit body)
          in (if range then (if neg then - (2 ^ 63) else 2 ^ 63 - 1) else 0,
              Some (mkerr (''strconv.ParseInt: parsing '' @ quote s @
                           (if range then '': value out of range'' else '': invalid syntax'')))))"

definition readInt :: "henv \<Rightarrow> Ctx \<Rightarrow> string \<Rightarrow> (int \<times> herr option) hprog" where
  "readInt env c p = do {
     r \<leftarrow> Ctx_read env c p;
     ret (case snd r of
            Some e \<Rightarrow> (0, Some e)
          | None \<Rightarrow>
              (case Fields (fst r) of
                 [w] \<Rightarrow> ParseInt w
               | _ \<Rightarrow> (0, Some (mkerr (p @ '': expected one integer, got '' @ quote (fst r)))))) }"

definition Ctx_exists :: "henv \<Rightarrow> Ctx \<Rightarrow> string \<Rightarrow> bool hprog" where
  "Ctx_exists env c p = do {
     q \<leftarrow> readPath env c p;
     (case q of
        Inl e \<Rightarrow> ret False
      | Inr path \<Rightarrow> do { r \<leftarrow> act env (HStat path); ret (h_ok r = None) }) }"

definition glob :: "henv \<Rightarrow> Ctx \<Rightarrow> string \<Rightarrow> string list hprog" where
  "glob env c pattern = do {
     r \<leftarrow> act env (HGlob (cpath c pattern));
     ret (sort_strings (map (\<lambda>rel. ''/'' @ rel) (List.map_filter (Rel (Root c)) (h_names r)))) }"

definition linkBase :: "henv \<Rightarrow> Ctx \<Rightarrow> string \<Rightarrow> string hprog" where
  "linkBase env c p = do {
     r \<leftarrow> act env (HReadlink (cpath c p));
     ret (case h_text r of Inl _ \<Rightarrow> [] | Inr t \<Rightarrow> Base t) }"

definition linkTarget :: "henv \<Rightarrow> Ctx \<Rightarrow> string \<Rightarrow> string hprog" where
  "linkTarget env c p = do {
     r \<leftarrow> act env (HReadlink (cpath c p));
     ret (case h_text r of Inl _ \<Rightarrow> [] | Inr t \<Rightarrow> t) }"

text \<open>Command output is kept up to one MiB; the rest is counted as overflow.\<close>

record limitedOutput =
  ldata :: string
  overflow :: bool

definition limited_Write :: "limitedOutput \<Rightarrow> string \<Rightarrow> limitedOutput" where
  "limited_Write b p =
     (let room = read_limit - length (ldata b) in
      if room < length p then \<lparr>ldata = ldata b @ take room p, overflow = True\<rparr>
      else b\<lparr>ldata := ldata b @ p\<rparr>)"

definition Ctx_run :: "henv \<Rightarrow> Ctx \<Rightarrow> nat \<Rightarrow> string \<Rightarrow> string list \<Rightarrow> (string \<times> herr option) hprog" where
  "Ctx_run env c timeout name args =
     (if \<not> live c then ret ([], Some (mkerr ''external commands disabled for a relocated root''))
      else do {
        r \<leftarrow> act env (HExec timeout name args);
        ret (case r of
               HChunks ws e \<Rightarrow>
                 (let out = foldl limited_Write \<lparr>ldata = [], overflow = False\<rparr> ws in
                  if overflow out then ([], Some (mkerr ''command output exceeds 1 MiB''))
                  else (ldata out, e))
             | _ \<Rightarrow> ([], Some (h_error r))) })"

definition have_cmd :: "henv \<Rightarrow> Ctx \<Rightarrow> string \<Rightarrow> bool hprog" where
  "have_cmd env c name =
     (if \<not> live c then ret False else do { r \<leftarrow> act env (HLookPath name); ret (h_ok r = None) })"

definition say :: "henv \<Rightarrow> string \<Rightarrow> unit hprog" where
  "say env t = do { _ \<leftarrow> act env (HSay t); unit_prog }"

text \<open>The reader of one line; with a cancellation context nothing is read once it is cancelled.\<close>

definition inputLine :: "henv \<Rightarrow> Ctx \<Rightarrow> (string \<times> bool) hprog" where
  "inputLine env c =
     (let line = do {
        r \<leftarrow> act env HReadLine;
        ret (case r of HData s e \<Rightarrow> (s, e = None) | _ \<Rightarrow> ([], False)) }
      in if \<not> has_In c then ret ([], False)
         else if \<not> has_Cancel c then line
         else do {
           e \<leftarrow> act env HCtxErr;
           if h_cancelled e \<noteq> None then ret ([], False) else line })"

definition Ctx_wait :: "henv \<Rightarrow> Ctx \<Rightarrow> string \<Rightarrow> bool hprog" where
  "Ctx_wait env c msg = do {
     say env (''>> '' @ msg @ '' [Enter] '');
     l \<leftarrow> inputLine env c;
     ret (snd l) }"

definition to_lower :: "string \<Rightarrow> string" where
  "to_lower = map (\<lambda>c. if 65 \<le> (of_char c :: nat) \<and> (of_char c :: nat) \<le> 90 then char_of ((of_char c :: nat) + 32) else c)"

definition Ctx_confirm :: "henv \<Rightarrow> Ctx \<Rightarrow> string \<Rightarrow> bool hprog" where
  "Ctx_confirm env c msg = do {
     say env (''>> '' @ msg @ '' [y/N] '');
     l \<leftarrow> inputLine env c;
     ret (snd l \<and> (let s = to_lower (trim_space (fst l)) in s = ''y'' \<or> s = ''yes'')) }"

definition ms :: nat where "ms = 1000000"

definition paused :: "henv \<Rightarrow> Ctx \<Rightarrow> nat \<Rightarrow> bool hprog" where
  "paused env c d = do {
     r \<leftarrow> act env (HPause d);
     ret (\<not> has_Cancel c \<or> h_cancelled r = None) }"

definition permHint :: "herr \<Rightarrow> string" where
  "permHint e = (if kind e = EPermission then ''permission denied (re-run as root)'' else etext e)"

text \<open>\<^verbatim>\<open>strings.Count\<close> for a nonempty pattern, and the lines of a \<^verbatim>\<open>bufio.Scanner\<close> with a token limit: a line
  that does not fit ends the scan with an error.\<close>

function count_sub :: "string \<Rightarrow> string \<Rightarrow> nat" where
  "count_sub s p =
     (if s = [] \<or> p = [] then 0
      else if has_prefix s p then Suc (count_sub (drop (length p) s) p)
      else count_sub (tl s) p)"
  by pat_completeness auto
termination by (relation "measure (\<lambda>(s, _). length s)") (auto simp: neq_Nil_conv)

declare count_sub.simps [simp del]

definition text_lines :: "string \<Rightarrow> string list" where
  "text_lines d = (let ls = split_on LF d in if last ls = [] then butlast ls else ls)"

definition drop_cr :: "string \<Rightarrow> string" where
  "drop_cr l = (if l \<noteq> [] \<and> last l = CR then butlast l else l)"

definition scan_lines :: "nat \<Rightarrow> string \<Rightarrow> herr option \<Rightarrow> string list \<times> herr option" where
  "scan_lines m d e =
     (let ls = text_lines d; fit = takeWhile (\<lambda>l. length l < m) ls
      in (map drop_cr fit, if fit = ls then e else Some (mkerr ''bufio.Scanner: token too long'')))"

section \<open>The reporter\<close>

definition add :: "henv \<Rightarrow> string \<Rightarrow> Status \<Rightarrow> string \<Rightarrow> string \<Rightarrow> unit hprog" where
  "add env g s name det = do {
     _ \<leftarrow> act env (HAdd \<lparr>Group = g, Name = name, RStatus = s, Detail = det\<rparr>);
     unit_prog }"

abbreviation r_Pass where "r_Pass env g \<equiv> add env g Pass"
abbreviation r_Warn where "r_Warn env g \<equiv> add env g Warn"
abbreviation r_Fail where "r_Fail env g \<equiv> add env g Fail"
abbreviation r_Skip where "r_Skip env g \<equiv> add env g Skip"
abbreviation r_Info where "r_Info env g \<equiv> add env g Info"

section \<open>What a run may do\<close>

text \<open>The commands of the program, all of them queries.\<close>

definition query_command :: "string \<Rightarrow> string list \<Rightarrow> bool" where
  "query_command name args \<longleftrightarrow>
     name = ''dmesg'' \<and> args = []
   \<or> name = ''systemctl'' \<and> args = [''--failed'', ''--no-legend'', ''--plain'']
   \<or> name = ''systemctl'' \<and> take 4 args = [''--user'', ''show'', ''--property=ActiveState'', ''--value'']"

text \<open>What the options of a context consent to.  Nothing but reads, links, listings, messages and the
  clock is possible on a relocated root; the CPU load and the storage worker need \<^verbatim>\<open>-active\<close>, the recorder
  \<^verbatim>\<open>-allow-microphone\<close>, input sessions and prompts \<^verbatim>\<open>-interactive\<close>, and a connection is made only to
  the checked target.\<close>

fun allowed :: "Ctx \<Rightarrow> hop \<Rightarrow> bool" where
  "allowed c (HExec _ name args) = (live c \<and> query_command name args)"
| "allowed c (HLookPath _) = live c"
| "allowed c HGeteuid = live c"
| "allowed c HTermios = False"
| "allowed c HGetwd = False"
| "allowed c (HPause _) = (live c \<or> Interactive c)"
| "allowed c HReadLine = Interactive c"
| "allowed c HLoadStart = (live c \<and> Active c)"
| "allowed c HLoadStop = (live c \<and> Active c)"
| "allowed c (HOpenDev _ _) = filepathRootIsSlash c"
| "allowed c HCloseDev = filepathRootIsSlash c"
| "allowed c (HAbsInfo _) = live c"
| "allowed c (HOpenEvent p) = (live c \<and> Interactive c)"
| "allowed c HFstatEvent = (live c \<and> Interactive c)"
| "allowed c HGrab = (live c \<and> Interactive c)"
| "allowed c (HSpawnReader _) = (live c \<and> Interactive c)"
| "allowed c HSessionErr = (live c \<and> Interactive c)"
| "allowed c HDrain = (live c \<and> Interactive c)"
| "allowed c HSessionClose = (live c \<and> Interactive c)"
| "allowed c (HUntil _) = (live c \<and> Interactive c)"
| "allowed c (HIfaceAddrs _) = filepathRootIsSlash c"
| "allowed c (HDial t) = (filepathRootIsSlash c \<and> NetworkTarget c \<noteq> [] \<and> wifiNetworkTarget (NetworkTarget c) = Some t)"
| "allowed c HHciInfo = filepathRootIsSlash c"
| "allowed c HStatfs = live c"
| "allowed c HExecutable = (live c \<and> Active c)"
| "allowed c HEnviron = (live c \<and> Active c)"
| "allowed c (HWorkerWait _) = (live c \<and> Active c)"
| "allowed c (HWorkerStart _ args _) = (live c \<and> Active c \<and> args = [''--dc1-storage-worker''])"
| "allowed c (HRecordStart _ _) = (live c \<and> Microphone c)"
| "allowed c (HRecordWait _) = (live c \<and> Microphone c)"
| "allowed c HRecordErr = (live c \<and> Microphone c)"
| "allowed c _ = True"

text \<open>Contents and existence of a file are asked for only below the resolved root.\<close>

definition opens :: "string \<Rightarrow> hop \<Rightarrow> bool" where
  "opens q op \<longleftrightarrow> op = HReadAll q \<or> op = HStat q \<or> op = HGunzip q"

definition below :: "string \<Rightarrow> string \<Rightarrow> bool" where
  "below rt q \<longleftrightarrow> take (length (path_elems rt)) (path_elems q) = path_elems rt"

definition resolved :: "Ctx \<Rightarrow> string \<Rightarrow> (hop, hresp) events \<Rightarrow> bool" where
  "resolved c q pre \<longleftrightarrow>
     live c \<or> (\<exists>p rt. (HEvalSymlinks p, HText q) \<in> set pre \<and> (HEvalSymlinks (Root c), HText rt) \<in> set pre \<and> below rt q)"

definition hw_allowed :: "Ctx \<Rightarrow> (hop, hresp) events \<Rightarrow> bool" where
  "hw_allowed c tr \<longleftrightarrow> (\<forall>e\<in>set tr. allowed c (fst e)) \<and> (\<forall>q. guarded (opens q) (resolved c q) tr)"

text \<open>A group reports under its own name.\<close>

definition own_group :: "string \<Rightarrow> hop \<Rightarrow> bool" where
  "own_group g oper = (case oper of HAdd r \<Rightarrow> Group r = g | _ \<Rightarrow> True)"

definition hw_safe :: "Ctx \<Rightarrow> string \<Rightarrow> (hop, hresp) events \<Rightarrow> bool" where
  "hw_safe c g tr \<longleftrightarrow> hw_allowed c tr \<and> (\<forall>e\<in>set tr. own_group g (fst e))"

lemma strip_common_prefix: "strip_common bs ts = ([], us) \<Longrightarrow> ts = bs @ us"
  by (induction bs ts rule: strip_common.induct) (auto split: if_splits)

lemma join_with_Cons: "join_with sep (w # ws) = w @ (if ws = [] then [] else sep @ join_with sep ws)"
  by (cases ws) auto

text \<open>A relative path that does not lead out means that the elements of the root come first.\<close>

lemma Rel_below:
  assumes "\<not> escapes (Rel rdir q)"
  shows "below rdir q"
proof (cases "path_clean rdir = path_clean q")
  case True
  then show ?thesis by (simp add: below_def path_elems_def)
next
  case False
  obtain bs ts where s: "strip_common (path_elems rdir) (path_elems q) = (bs, ts)" by fastforce
  have r: "Rel rdir q = Some (join_with ''/'' (replicate (length bs) ''..'' @ ts))"
    using assms False s by (auto simp: Rel_def escapes_def split: if_splits)
  have "bs = []"
  proof (rule ccontr)
    assume "bs \<noteq> []"
    then obtain n where "length bs = Suc n" by (cases bs) auto
    then show False
      using assms r by (auto simp: escapes_def join_with_Cons has_prefix_def split: if_splits)
  qed
  then have "path_elems q = path_elems rdir @ ts" using strip_common_prefix s by blast
  then show ?thesis by (simp add: below_def)
qed

lemma resolved_later: "resolved c q p \<Longrightarrow> resolved c q (r @ p)"
  by (auto simp: resolved_def)

interpretation hwa: trace_property "hw_allowed c" for c
proof
  show "hw_allowed c []" by (simp add: hw_allowed_def guarded_def)
next
  fix xs ys
  assume "hw_allowed c xs" "hw_allowed c ys"
  then show "hw_allowed c (xs @ ys)"
    by (auto simp: hw_allowed_def intro!: guarded_append resolved_later)
qed

interpretation hwt: trace_property "hw_safe c g" for c g
  by unfold_locales (auto simp: hw_safe_def hwa.empty hwa.append)

named_theorems hw_ok \<open>programs of hwtest that do only what their context allows\<close>

lemma hw_safe_single:
  "allowed c (fst e) \<Longrightarrow> (\<And>q. opens q (fst e) \<Longrightarrow> live c) \<Longrightarrow> own_group g (fst e) \<Longrightarrow> hw_safe c g [e]"
  by (auto simp: hw_safe_def hw_allowed_def guarded_def resolved_def Cons_eq_append_conv)

lemma act_ok [hw_ok]:
  "allowed c oper \<Longrightarrow> (case oper of HReadAll _ \<Rightarrow> False | HStat _ \<Rightarrow> False | HGunzip _ \<Rightarrow> False | HAdd r \<Rightarrow> Group r = g | _ \<Rightarrow> True) \<Longrightarrow> keeps (hw_safe c g) (act env oper)"
  by (rule keeps_act, rule hw_safe_single) (auto simp: opens_def own_group_def split: hop.splits)

lemmas hw_intros = hwt.keeps_return hwt.keeps_bind hwt.keeps_foreach hwt.keeps_foldp keeps_cases

text \<open>A path that \<open>readPath\<close> returns may be opened in the continuation.\<close>

lemma emits_readPath:
  "emits (readPath env c p)
     (\<lambda>x new. hw_safe c g new \<and> (\<forall>q. x = Inr q \<longrightarrow> resolved c q new))"
proof (cases "live c")
  case True
  then show ?thesis
    using hwt.empty[of c g] by (auto simp: readPath_def resolved_def intro!: emits_return)
next
  case False
  have one: "hw_safe c g [(HEvalSymlinks a, r)]" for a r
    by (rule hw_safe_single) (auto simp: opens_def own_group_def)
  have two: "hw_safe c g [(HEvalSymlinks a, r), (HEvalSymlinks b, r')]" for a b r r'
    using hwt.append[OF one one] by simp
  show ?thesis
    unfolding readPath_def using False
    by (auto simp: one two h_text_def resolved_def split: hresp.splits
             intro!: emits_act_bind emits_return emits_sum emits_if Rel_below)
qed

lemma open_ok:
  assumes "\<And>q. opens q (oper q)" "\<And>q. allowed c (oper q)"
      and "\<And>e. keeps (hw_safe c g) (f e)" "\<And>q r. keeps (hw_safe c g) (h q r)"
  shows "keeps (hw_safe c g) (readPath env c p \<bind>
           (\<lambda>x. case x of Inl e \<Rightarrow> f e | Inr q \<Rightarrow> act env (oper q) \<bind> h q))"
  unfolding keeps_def
proof (rule emits_bind[OF emits_readPath])
  fix x :: "herr + string" and new :: "(hop, hresp) events"
  assume n: "hw_safe c g new \<and> (\<forall>q. x = Inr q \<longrightarrow> resolved c q new)"
  have "hw_safe c g (new @ [(oper q, r)])" if "x = Inr q" for q r
  proof -
    have u: "opens q' (oper q) \<Longrightarrow> q' = q" for q' using assms(1)[of q] by (auto simp: opens_def)
    have "guarded (opens q') (resolved c q') (new @ [(oper q, r)])" for q'
      unfolding guarded_def
    proof (intro allI impI)
      fix pre e post
      assume e: "new @ [(oper q, r)] = pre @ e # post" "opens q' (fst e)"
      consider "pre = new" "e = (oper q, r)" | ps where "new = pre @ e # ps"
        using e(1) by (cases post rule: rev_cases) auto
      then show "resolved c q' pre"
      proof cases
        case 1
        then show ?thesis using n e(2) that u by auto
      next
        case 2
        have "guarded (opens q') (resolved c q') new" using n by (simp add: hw_safe_def hw_allowed_def)
        then show ?thesis using 2 e(2) unfolding guarded_def by blast
      qed
    qed
    moreover have "own_group g (oper q)" using assms(1)[of q] by (auto simp: opens_def own_group_def)
    ultimately show ?thesis using n assms(2) by (auto simp: hw_safe_def hw_allowed_def)
  qed
  then have "emits (h q r) (\<lambda>_ new'. hw_safe c g (new @ (oper q, r) # new'))" if "x = Inr q" for q r
    using that hwt.append[of c g "new @ [(oper q, r)]"] assms(4)[of q r]
    unfolding keeps_def by (auto elim!: emits_weaken)
  moreover have "emits (f e) (\<lambda>_ new'. hw_safe c g (new @ new'))" for e
    using n hwt.append[of c g new] assms(3)[of e] unfolding keeps_def by (auto elim!: emits_weaken)
  ultimately show "emits (case x of Inl e \<Rightarrow> f e | Inr q \<Rightarrow> act env (oper q) \<bind> h q)
               (\<lambda>_ new'. hw_safe c g (new @ new'))"
    by (auto intro!: emits_sum emits_act_bind)
qed

lemma Ctx_read_ok [hw_ok]: "keeps (hw_safe c g) (Ctx_read env c p)"
  unfolding Ctx_read_def by (rule open_ok) (auto simp: opens_def intro!: hw_intros)

lemma Ctx_exists_ok [hw_ok]: "keeps (hw_safe c g) (Ctx_exists env c p)"
  unfolding Ctx_exists_def by (rule open_ok) (auto simp: opens_def intro!: hw_intros)

lemma readPath_ok [hw_ok]: "keeps (hw_safe c g) (readPath env c p)"
  unfolding keeps_def by (rule emits_weaken[OF emits_readPath]) blast

lemma readInt_ok [hw_ok]: "keeps (hw_safe c g) (readInt env c p)"
  unfolding readInt_def by (intro hw_intros hw_ok)

lemma glob_ok [hw_ok]: "keeps (hw_safe c g) (glob env c p)"
  unfolding glob_def by (intro hw_intros hw_ok) auto

lemma links_ok [hw_ok]: "keeps (hw_safe c g) (linkBase env c p)" "keeps (hw_safe c g) (linkTarget env c p)"
  unfolding linkBase_def linkTarget_def by (intro hw_intros hw_ok; simp)+

lemma Ctx_run_ok [hw_ok]: "query_command n args \<Longrightarrow> keeps (hw_safe c g) (Ctx_run env c t n args)"
  unfolding Ctx_run_def by (intro hw_intros hw_ok) auto

lemma have_cmd_ok [hw_ok]: "keeps (hw_safe c g) (have_cmd env c n)"
  unfolding have_cmd_def by (intro hw_intros hw_ok) auto

lemma report_ok [hw_ok]: "keeps (hw_safe c g) (add env g s n d)" "keeps (hw_safe c g) (say env t)"
  unfolding add_def say_def by (intro hw_intros hw_ok; simp)+

lemma paused_ok [hw_ok]: "live c \<or> Interactive c \<Longrightarrow> keeps (hw_safe c g) (paused env c d)"
  unfolding paused_def by (intro hw_intros hw_ok) auto

lemma inputLine_ok [hw_ok]: "Interactive c \<Longrightarrow> keeps (hw_safe c g) (inputLine env c)"
  unfolding inputLine_def Let_def by (intro hw_intros hw_ok) auto

lemma Ctx_wait_ok [hw_ok]: "Interactive c \<Longrightarrow> keeps (hw_safe c g) (Ctx_wait env c msg)"
  unfolding Ctx_wait_def by (intro hw_intros hw_ok) auto

section \<open>The results of a trace\<close>

definition results :: "(hop, hresp) events \<Rightarrow> Result list" where
  "results tr = List.map_filter (\<lambda>e. case fst e of HAdd res \<Rightarrow> Some res | _ \<Rightarrow> None) tr"

lemma results_append [simp]: "results (xs @ ys) = results xs @ results ys" "results [] = []"
  by (simp_all add: results_def List.map_filter_def)

lemma results_Cons [simp]:
  "results (e # xs) = (case fst e of HAdd res \<Rightarrow> res # results xs | _ \<Rightarrow> results xs)"
  by (cases "fst e") (simp_all add: results_def List.map_filter_def)

text \<open>The output of a command is kept exactly when it fits the limit, however it is cut into writes.\<close>

lemma limited_output:
  "foldl limited_Write \<lparr>ldata = [], overflow = False\<rparr> ws =
     \<lparr>ldata = take read_limit (concat ws), overflow = read_limit < length (concat ws)\<rparr>"
proof (induction ws rule: rev_induct)
  case (snoc w ws)
  show ?case
  proof (cases "length (concat ws) \<le> read_limit")
    case True
    then show ?thesis using snoc by (auto simp: limited_Write_def Let_def)
  next
    case False
    then show ?thesis using snoc by (cases w) (auto simp: limited_Write_def Let_def)
  qed
qed simp

end
