(* ===== verification/Hw_Platform.thy ===== *)
theory Hw_Platform
  imports Hw_Core
begin

text \<open>
  The platform and thermal groups of \<^verbatim>\<open>tools/hwtest\<close> (\<^verbatim>\<open>platform.go\<close>): identity, modules, CPUs, frequency
  policies with the bounded CPU load, memory, the kernel configuration contract, log and unit
  health, thermal zones and cooling devices.  The load is the only stimulus: it is started after a
  preflight over every thermal zone, watched every 300 ms and stopped on every path.
\<close>

section \<open>Platform\<close>

text \<open>\<^verbatim>\<open>fmt.Sscanf\<close> with a word and a decimal number.\<close>

definition scan_word_int :: "string \<Rightarrow> (string \<times> int) option" where
  "scan_word_int l =
     (let a = dropWhile is_space l;
          k = takeWhile (\<lambda>c. \<not> is_space c) a;
          b = dropWhile is_space (dropWhile (\<lambda>c. \<not> is_space c) a);
          sg = takeWhile (\<lambda>c. c \<in> {CHR ''+'', CHR ''-''}) (take 1 b);
          ds = takeWhile is_digit (drop (length sg) b)
      in if k = [] \<or> ds = [] then None
         else (case parse_int64 (sg @ ds) of None \<Rightarrow> None | Some v \<Rightarrow> Some (k, v)))"

fun mem_find :: "string \<Rightarrow> string list \<Rightarrow> int" where
  "mem_find key [] = 0"
| "mem_find key (l # ls) =
     (case scan_word_int l of
        Some (k, v) \<Rightarrow> if k = key @ '':'' then v else mem_find key ls
      | None \<Rightarrow> mem_find key ls)"

definition memKB :: "henv \<Rightarrow> Ctx \<Rightarrow> string \<Rightarrow> int hprog" where
  "memKB env c key = do {
     q \<leftarrow> readPath env c ''/proc/meminfo'';
     (case q of
        Inl e \<Rightarrow> ret 0
      | Inr path \<Rightarrow> do {
          r \<leftarrow> act env (HReadAll path);
          ret (case r of HData d e \<Rightarrow> mem_find key (fst (scan_lines 65536 d e)) | _ \<Rightarrow> 0) }) }"

definition mhz :: "int \<Rightarrow> string" where "mhz f = dec_int (quot f 1000)"

definition cpufreq_policy :: "henv \<Rightarrow> Ctx \<Rightarrow> string \<Rightarrow> (string \<times> int) list \<Rightarrow> string \<Rightarrow> (string \<times> int) list hprog" where
  "cpufreq_policy env c g baseline p = do {
     (cpus, err) \<leftarrow> Ctx_read env c (p @ ''/related_cpus'');
     (lo, elo) \<leftarrow> readInt env c (p @ ''/cpuinfo_min_freq'');
     (hi, ehi) \<leftarrow> readInt env c (p @ ''/cpuinfo_max_freq'');
     (cur, ecur) \<leftarrow> readInt env c (p @ ''/scaling_cur_freq'');
     (gov, egov) \<leftarrow> Ctx_read env c (p @ ''/scaling_governor'');
     let name = Base p;
     if err \<noteq> None \<or> elo \<noteq> None \<or> ehi \<noteq> None \<or> ecur \<noteq> None \<or> egov \<noteq> None \<or> cpus = [] \<or> gov = [] then do {
       r_Fail env g name ''unreadable frequency policy'';
       ret baseline }
     else if hi \<le> lo \<or> cur < lo \<or> hi < cur then do {
       r_Fail env g name (''cpus ['' @ cpus @ ''] range '' @ dec_int lo @ ''-'' @ dec_int hi @ '' kHz, current '' @ dec_int cur);
       ret baseline }
     else do {
       r_Pass env g name (''cpus ['' @ cpus @ ''] '' @ mhz lo @ ''-'' @ mhz hi @ '' MHz, now '' @ mhz cur @ '' MHz, governor '' @ gov);
       ret (baseline @ [(p, cur)]) } }"

definition loadTemperatureSafe :: "int \<times> herr option \<Rightarrow> bool" where
  "loadTemperatureSafe te = (snd te = None \<and> - 20000 \<le> fst te \<and> fst te < 65000)"

definition load_cool :: "int \<times> herr option \<Rightarrow> bool" where
  "load_cool te = (snd te = None \<and> - 20000 \<le> fst te \<and> fst te < 60000)"

fun zones_all :: "henv \<Rightarrow> Ctx \<Rightarrow> (int \<times> herr option \<Rightarrow> bool) \<Rightarrow> string list \<Rightarrow> bool hprog" where
  "zones_all env c ok [] = ret True"
| "zones_all env c ok (z # zs) = do {
     te \<leftarrow> readInt env c (z @ ''/temp'');
     if ok te then zones_all env c ok zs else ret False }"

definition peak_step :: "henv \<Rightarrow> Ctx \<Rightarrow> (string \<times> int) list \<Rightarrow> string \<times> int \<Rightarrow> (string \<times> int) list hprog" where
  "peak_step env c acc pv = do {
     (f, e) \<leftarrow> readInt env c (fst pv @ ''/scaling_cur_freq'');
     ret (acc @ [(fst pv, if e = None then max (snd pv) f else snd pv)]) }"

text \<open>One round every 300 ms: the temperatures first, then the frequency of every policy.\<close>

fun load_rounds :: "henv \<Rightarrow> Ctx \<Rightarrow> string \<Rightarrow> string list \<Rightarrow> nat \<Rightarrow> (string \<times> int) list \<Rightarrow> (string \<times> int) list option hprog" where
  "load_rounds env c g zones 0 peak = ret (Some peak)"
| "load_rounds env c g zones (Suc n) peak = do {
     ok \<leftarrow> paused env c (300 * ms);
     if \<not> ok then do { r_Skip env g ''dvfs-load'' ''interrupted''; ret None }
     else do {
       safe \<leftarrow> zones_all env c loadTemperatureSafe zones;
       if \<not> safe then do {
         r_Warn env g ''dvfs-load'' ''aborted: temperature unreadable, invalid or >=65 C'';
         ret None }
       else do {
         peak' \<leftarrow> foldp (peak_step env c) [] peak;
         load_rounds env c g zones n peak' } } }"

definition load_report :: "henv \<Rightarrow> string \<Rightarrow> (string \<times> int) list \<Rightarrow> (string \<times> int) list \<Rightarrow> string \<Rightarrow> unit hprog" where
  "load_report env g baseline peak p =
     (case map_of baseline p of
        None \<Rightarrow> unit_prog
      | Some before \<Rightarrow>
          let top = (case map_of peak p of Some f \<Rightarrow> f | None \<Rightarrow> 0) in
          if before < top then
            r_Pass env g (Base p @ ''-load'') (''same-cluster frequency rose '' @ mhz before @ '' -> '' @ mhz top @ '' MHz'')
          else
            r_Info env g (Base p @ ''-load'') (''peak '' @ mhz top @ '' MHz, baseline '' @ mhz before @
              '' MHz; no transition observed (possibly already boosted)''))"

definition cpu_load :: "henv \<Rightarrow> Ctx \<Rightarrow> string \<Rightarrow> string list \<Rightarrow> string list \<Rightarrow> (string \<times> int) list \<Rightarrow> unit hprog" where
  "cpu_load env c g pol zones baseline = do {
     _ \<leftarrow> act env HLoadStart;
     res \<leftarrow> load_rounds env c g zones 10 baseline;
     (case res of
        None \<Rightarrow> unit_prog
      | Some peak \<Rightarrow> foreach (load_report env g baseline peak) pol);
     _ \<leftarrow> act env HLoadStop;
     unit_prog }"

definition checkCPUFreq :: "henv \<Rightarrow> Ctx \<Rightarrow> string \<Rightarrow> unit hprog" where
  "checkCPUFreq env c g = do {
     pol \<leftarrow> glob env c ''/sys/devices/system/cpu/cpufreq/policy*'';
     if length pol \<noteq> 2 then
       r_Fail env g ''cpufreq'' (''found '' @ dec (length pol) @ '' cpufreq policies, expected 2'')
     else do {
       baseline \<leftarrow> foldp (cpufreq_policy env c g) [] pol;
       if \<not> Active c \<or> \<not> filepathRootIsSlash c then
         r_Skip env g ''dvfs-load'' ''needs -active on the live root (3 s bounded CPU load)''
       else do {
         zones \<leftarrow> glob env c ''/sys/class/thermal/thermal_zone*'';
         if zones = [] then r_Skip env g ''dvfs-load'' ''no thermal telemetry''
         else do {
           cool \<leftarrow> zones_all env c load_cool zones;
           if \<not> cool then r_Skip env g ''dvfs-load'' ''thermal telemetry unavailable or >=60 C''
           else cpu_load env c g pol zones baseline } } } }"

section \<open>The kernel configuration\<close>

definition kconfig :: "(string \<times> bool) list" where
  "kconfig =
    [(''HIGH_RES_TIMERS'', False), (''BINFMT_SCRIPT'', False), (''EPOLL'', False),
     (''SIGNALFD'', False), (''TIMERFD'', False), (''EVENTFD'', False),
     (''FUSE_FS'', False), (''SECURITYFS'', False), (''DEBUG_INFO_BTF'', False),
     (''INPUT_UINPUT'', True), (''UHID'', True), (''BT_RFCOMM'', True), (''BT_BNEP'', True),
     (''SECURITY_LANDLOCK'', True), (''BPF_LSM'', True)]"

definition cfg_line :: "(string \<rightharpoonup> string) \<Rightarrow> string \<Rightarrow> (string \<rightharpoonup> string)" where
  "cfg_line cfg l =
     (case cut CHR ''='' l of
        Some (k, v) \<Rightarrow> (case cut_prefix k ''CONFIG_'' of Some n \<Rightarrow> cfg(n \<mapsto> v) | None \<Rightarrow> cfg)
      | None \<Rightarrow> cfg)"

definition cfg_value :: "(string \<rightharpoonup> string) \<Rightarrow> string \<Rightarrow> string" where
  "cfg_value cfg n = (case cfg n of Some v \<Rightarrow> v | None \<Rightarrow> [])"

definition cfg_bad :: "(string \<rightharpoonup> string) \<Rightarrow> string list" where
  "cfg_bad cfg =
     map (\<lambda>(n, ym). n @ ''='' @ quote (cfg_value cfg n))
       (filter (\<lambda>(n, ym). \<not> (cfg_value cfg n = ''y'' \<or> ym \<and> cfg_value cfg n = ''m'')) kconfig)"

definition checkBPF :: "henv \<Rightarrow> Ctx \<Rightarrow> string \<Rightarrow> unit hprog" where
  "checkBPF env c g = do {
     (v, err) \<leftarrow> readInt env c ''/proc/sys/kernel/unprivileged_bpf_disabled'';
     if err \<noteq> None then r_Skip env g ''bpf-unpriv'' ''policy unreadable''
     else if v = 1 \<or> v = 2 then r_Pass env g ''bpf-unpriv'' (''unprivileged BPF disabled ('' @ dec_int v @ '')'')
     else if v = 0 then r_Fail env g ''bpf-unpriv'' ''unprivileged BPF is enabled''
     else r_Fail env g ''bpf-unpriv'' (''invalid policy '' @ dec_int v) }"

text \<open>What opening and decompressing the configuration yields: no file, no archive, or its text.\<close>

definition judge_config :: "henv \<Rightarrow> string \<Rightarrow> hresp \<Rightarrow> unit hprog" where
  "judge_config env g r =
     (case r of
        HText bad \<Rightarrow> r_Fail env g ''kconfig'' (''bad /proc/config.gz: '' @ bad)
      | HData d e \<Rightarrow>
          (case scan_lines (2 ^ 20) d e of
             (ls, Some err) \<Rightarrow> r_Fail env g ''kconfig'' (''read config: '' @ etext err)
           | (ls, None) \<Rightarrow>
               let bad = cfg_bad (foldl cfg_line Map.empty ls) in
               if bad \<noteq> [] then r_Fail env g ''kconfig'' (''contract options wrong: '' @ join_with '', '' bad)
               else r_Pass env g ''kconfig'' (dec (length kconfig) @ '' contract options present in the running kernel''))
      | _ \<Rightarrow> r_Skip env g ''kconfig'' (''/proc/config.gz unavailable: '' @ etext (h_error r)))"

definition read_config :: "henv \<Rightarrow> Ctx \<Rightarrow> string \<Rightarrow> unit hprog" where
  "read_config env c g = do {
     q \<leftarrow> readPath env c ''/proc/config.gz'';
     (case q of
        Inl e \<Rightarrow> r_Skip env g ''kconfig'' (''config unavailable: '' @ etext e)
      | Inr path \<Rightarrow> do { r \<leftarrow> act env (HGunzip path); judge_config env g r }) }"

text \<open>The deferred policy check runs after every outcome.\<close>

definition checkKernelConfig :: "henv \<Rightarrow> Ctx \<Rightarrow> string \<Rightarrow> unit hprog" where
  "checkKernelConfig env c g = do { read_config env c g; checkBPF env c g }"

section \<open>Log and unit health\<close>

definition signatures :: "string list" where
  "signatures = [''Oops'', ''Call trace'', ''Kernel panic'', ''BUG:'', ''WARNING: CPU'', ''timeout'', ''failed'']"

definition scan_signature :: "henv \<Rightarrow> string \<Rightarrow> string \<Rightarrow> string \<Rightarrow> unit hprog" where
  "scan_signature env g out sig =
     (let n = count_sub out sig in
      if n = 0 then unit_prog
      else if sig = ''timeout'' \<or> sig = ''failed'' then
        r_Warn env g ''dmesg'' (dec n @ '' occurrences of '' @ quote sig @ '' (not necessarily current faults)'')
      else r_Fail env g ''dmesg-crash'' (dec n @ '' occurrences of '' @ quote sig))"

definition nonEmpty :: "string \<Rightarrow> string list" where
  "nonEmpty s = filter (\<lambda>l. l \<noteq> []) (map trim_space (split_on LF s))"

definition checkHealth :: "henv \<Rightarrow> Ctx \<Rightarrow> string \<Rightarrow> unit hprog" where
  "checkHealth env c g = do {
     (out, err) \<leftarrow> Ctx_run env c (5000 * ms) ''dmesg'' [];
     (if err \<noteq> None then r_Skip env g ''dmesg'' ''kernel log unavailable; no raw log is included''
      else do {
        foreach (scan_signature env g out) signatures;
        r_Info env g ''dmesg'' ''signature scan is not a complete kernel health check'' });
     h \<leftarrow> have_cmd env c ''systemctl'';
     if \<not> h then r_Skip env g ''systemd'' ''systemctl unavailable''
     else do {
       (units, uerr) \<leftarrow> Ctx_run env c (10000 * ms) ''systemctl'' [''--failed'', ''--no-legend'', ''--plain''];
       if uerr \<noteq> None then r_Skip env g ''systemd'' ''failed-unit query did not complete''
       else if nonEmpty units = [] then r_Pass env g ''systemd'' ''no failed units reported''
       else r_Warn env g ''systemd'' (dec (length (nonEmpty units)) @ '' failed units reported; inspect systemctl --failed locally'') } }"

definition gib :: "int \<Rightarrow> string" where
  "gib kb = fmt_fixed 1 (f_div (of_int64 kb) (Fin 1048576))"

definition checkPlatform :: "henv \<Rightarrow> Ctx \<Rightarrow> string \<Rightarrow> unit hprog" where
  "checkPlatform env c g = do {
     (m, err) \<leftarrow> Ctx_read env c ''/proc/device-tree/model'';
     (case err of
        Some e \<Rightarrow> r_Fail env g ''model'' (''cannot read device-tree model: '' @ etext e)
      | None \<Rightarrow> if contains m ''DC-1'' then r_Pass env g ''model'' (quote m)
                else r_Fail env g ''model'' (quote m @ '' does not identify a DC-1''));
     (rel, _) \<leftarrow> Ctx_read env c ''/proc/sys/kernel/osrelease'';
     r_Info env g ''kernel'' rel;
     (if rel = [] then unit_prog
      else do {
        ex \<leftarrow> Ctx_exists env c (''/lib/modules/'' @ rel);
        if ex then r_Pass env g ''modules'' (''/lib/modules/'' @ rel @ '' present'')
        else r_Fail env g ''modules'' (''/lib/modules/'' @ rel @ '' missing: running kernel has no matching modules'') });
     (on, oerr) \<leftarrow> Ctx_read env c ''/sys/devices/system/cpu/online'';
     (case oerr of
        Some e \<Rightarrow> r_Skip env g ''cpus'' (etext e)
      | None \<Rightarrow> if on = ''0-7'' then r_Pass env g ''cpus'' ''all 8 CPUs online''
                else r_Fail env g ''cpus'' (''online='' @ quote on @ '', expected 0-7''));
     checkCPUFreq env c g;
     kb \<leftarrow> memKB env c ''MemTotal'';
     (if kb = 0 then r_Skip env g ''memory'' ''cannot read /proc/meminfo''
      else if 7000000 \<le> kb then r_Pass env g ''memory'' (gib kb @ '' GiB total'')
      else r_Warn env g ''memory'' (gib kb @ '' GiB total, expected about 8 GiB''));
     checkKernelConfig env c g;
     checkHealth env c g }"

section \<open>Thermal\<close>

definition celsius :: "int \<Rightarrow> f64" where
  "celsius t = f_div (of_int64 t) (Fin 1000)"

record thermal_acc =
  hot :: f64
  hotName :: string
  badRead :: "string list"

definition zone_step :: "henv \<Rightarrow> Ctx \<Rightarrow> string \<Rightarrow> thermal_acc \<Rightarrow> string \<Rightarrow> thermal_acc hprog" where
  "zone_step env c g a z = do {
     (ty, err) \<leftarrow> Ctx_read env c (z @ ''/type'');
     if err \<noteq> None \<or> ty = [] then do { r_Fail env g (Base z) ''zone type unreadable''; ret a }
     else do {
       (t, terr) \<leftarrow> readInt env c (z @ ''/temp'');
       if terr \<noteq> None then ret (a\<lparr>badRead := badRead a @ [ty]\<rparr>)
       else let deg = celsius t in
         if f_lt deg (Fin (- 20)) \<or> f_lt (Fin 105) deg then do {
           r_Fail env g ty (''implausible reading '' @ fmt_fixed 1 deg @ '' C'');
           ret a }
         else ret (if f_lt (hot a) deg then a\<lparr>hot := deg, hotName := ty\<rparr> else a) } }"

definition hottest :: "henv \<Rightarrow> string \<Rightarrow> thermal_acc \<Rightarrow> unit hprog" where
  "hottest env g a =
     (let txt = hotName a @ '' at '' @ fmt_fixed 1 (hot a) @ '' C'' in
      if hotName a = [] then r_Fail env g ''hottest'' ''no readable thermal zones''
      else if f_lt (Fin 80) (hot a) then r_Fail env g ''hottest'' txt
      else if f_lt (Fin 60) (hot a) then r_Warn env g ''hottest'' txt
      else r_Pass env g ''hottest'' txt)"

definition cooling_step :: "henv \<Rightarrow> Ctx \<Rightarrow> string \<Rightarrow> string list \<times> bool \<Rightarrow> string \<Rightarrow> (string list \<times> bool) hprog" where
  "cooling_step env c g a d = do {
     (t, et) \<leftarrow> Ctx_read env c (d @ ''/type'');
     (cur, ec) \<leftarrow> readInt env c (d @ ''/cur_state'');
     (mx, em) \<leftarrow> readInt env c (d @ ''/max_state'');
     if et \<noteq> None \<or> ec \<noteq> None \<or> em \<noteq> None \<or> t = [] \<or> cur < 0 \<or> mx \<le> 0 \<or> mx < cur then do {
       r_Fail env g (Base d) ''invalid or unreadable cooling state'';
       ret (fst a, False) }
     else ret (fst a @ [t @ '' '' @ dec_int cur @ ''/'' @ dec_int mx], snd a) }"

definition checkThermal :: "henv \<Rightarrow> Ctx \<Rightarrow> string \<Rightarrow> unit hprog" where
  "checkThermal env c g = do {
     zones \<leftarrow> glob env c ''/sys/class/thermal/thermal_zone*'';
     (if length zones < 15 then r_Warn env g ''zones'' (dec (length zones) @ '' thermal zones, expected 15 (13 LVTS + 2 NTC)'')
      else r_Pass env g ''zones'' (dec (length zones) @ '' thermal zones''));
     a \<leftarrow> foldp (zone_step env c g) \<lparr>hot = Fin (- 100), hotName = [], badRead = []\<rparr> zones;
     (if badRead a \<noteq> [] then r_Fail env g ''readable'' (''unreadable zones: '' @ join_with '', '' (badRead a)) else unit_prog);
     hottest env g a;
     cd \<leftarrow> glob env c ''/sys/class/thermal/cooling_device*'';
     (parts, valid) \<leftarrow> foldp (cooling_step env c g) ([], True) cd;
     if length cd < 3 then
       r_Warn env g ''cooling'' (dec (length cd) @ '' cooling devices ('' @ join_with ''; '' parts @ ''), expected cpu0, cpu6 and gpu'')
     else if valid then
       r_Pass env g ''cooling'' (join_with ''; '' parts @ '' (readback, not a thermal throttling test)'')
     else unit_prog }"

section \<open>Consent\<close>

lemma memKB_ok [hw_ok]: "keeps (hw_safe c g) (memKB env c key)"
  unfolding memKB_def by (rule open_ok) (auto simp: opens_def intro!: hw_intros)

lemma zones_all_ok [hw_ok]: "keeps (hw_safe c g) (zones_all env c ok zs)"
  by (induction zs) (auto intro!: hw_intros hw_ok)

lemma load_rounds_ok [hw_ok]: "live c \<Longrightarrow> keeps (hw_safe c g) (load_rounds env c g zones n peak)"
  by (induction n arbitrary: peak) (auto simp: peak_step_def intro!: hw_intros hw_ok)

lemma load_report_ok [hw_ok]: "keeps (hw_safe c g) (load_report env g b pk p)"
  unfolding load_report_def Let_def by (intro hw_intros hw_ok)

lemma cpu_load_ok [hw_ok]: "live c \<Longrightarrow> Active c \<Longrightarrow> keeps (hw_safe c g) (cpu_load env c g pol zones b)"
  unfolding cpu_load_def by (intro hw_intros hw_ok) auto

lemma checkCPUFreq_ok [hw_ok]: "(Active c \<longrightarrow> Root c \<noteq> []) \<Longrightarrow> keeps (hw_safe c g) (checkCPUFreq env c g)"
  unfolding checkCPUFreq_def cpufreq_policy_def Let_def
  by (intro hw_intros hw_ok) (auto simp: filepathRootIsSlash_def live_def)

lemma judge_config_ok [hw_ok]: "keeps (hw_safe c g) (judge_config env g r)"
  unfolding judge_config_def Let_def by (cases r) (auto intro!: hw_intros hw_ok split: prod.split)

lemma read_config_ok [hw_ok]: "keeps (hw_safe c g) (read_config env c g)"
  unfolding read_config_def by (rule open_ok) (auto simp: opens_def intro!: hw_ok)

lemma checkKernelConfig_ok [hw_ok]: "keeps (hw_safe c g) (checkKernelConfig env c g)"
  unfolding checkKernelConfig_def checkBPF_def by (intro hw_intros hw_ok)

lemma checkHealth_ok [hw_ok]: "keeps (hw_safe c g) (checkHealth env c g)"
  unfolding checkHealth_def scan_signature_def Let_def
  by (intro hw_intros hw_ok) (auto simp: query_command_def)

lemma checkPlatform_ok [hw_ok]: "(Active c \<longrightarrow> Root c \<noteq> []) \<Longrightarrow> keeps (hw_safe c g) (checkPlatform env c g)"
  unfolding checkPlatform_def by (intro hw_intros hw_ok)

lemma checkThermal_ok [hw_ok]: "keeps (hw_safe c g) (checkThermal env c g)"
  unfolding checkThermal_def zone_step_def hottest_def cooling_step_def Let_def
  by (intro hw_intros hw_ok)

end
