(* ===== verification/Hw_Display.thy ===== *)
theory Hw_Display
  imports Hw_Core
begin

text \<open>
  The display group of \<^verbatim>\<open>tools/hwtest\<close> (\<^verbatim>\<open>display.go\<close>): DSI connectors and their mode, DRM drivers and render
  nodes, GPU frequencies and the frontlight, all of them readbacks; only a render node is opened, on
  the live root.
\<close>

definition check_mode :: "henv \<Rightarrow> Ctx \<Rightarrow> string \<Rightarrow> string \<Rightarrow> string \<Rightarrow> unit hprog" where
  "check_mode env c g cn name = do {
     (modes, err) \<leftarrow> Ctx_read env c (cn @ ''/modes'');
     if err \<noteq> None then r_Fail env g (name @ ''-mode'') ''modes unreadable''
     else if ''1200x1600'' \<in> set (Fields modes) then r_Pass env g (name @ ''-mode'') ''1200x1600 offered''
     else r_Fail env g (name @ ''-mode'') ''1200x1600 not offered'' }"

definition check_connector :: "henv \<Rightarrow> Ctx \<Rightarrow> string \<Rightarrow> string \<Rightarrow> unit hprog" where
  "check_connector env c g cn = do {
     let name = Base cn;
     (st, err) \<leftarrow> Ctx_read env c (cn @ ''/status'');
     if err \<noteq> None then r_Fail env g name ''status unreadable''
     else if st \<noteq> ''connected'' then r_Fail env g name (''status '' @ quote st)
     else do {
       r_Pass env g name ''connector reports connected'';
       check_mode env c g cn name;
       (en, ee) \<leftarrow> Ctx_read env c (cn @ ''/enabled'');
       (dpms, ed) \<leftarrow> Ctx_read env c (cn @ ''/dpms'');
       if ee \<noteq> None \<or> ed \<noteq> None then r_Warn env g (name @ ''-state'') ''enabled/DPMS unreadable''
       else r_Info env g (name @ ''-state'')
              (''connector '' @ en @ '', DPMS '' @ dpms @ ''; this does not establish panel emission'') } }"

definition check_card :: "henv \<Rightarrow> Ctx \<Rightarrow> string \<Rightarrow> string \<Rightarrow> unit hprog" where
  "check_card env c g node = do {
     d \<leftarrow> linkBase env c (node @ ''/device/driver'');
     if d \<noteq> [] then r_Info env g (Base node) (''driver '' @ d) else unit_prog }"

definition check_render_node :: "henv \<Rightarrow> Ctx \<Rightarrow> string \<Rightarrow> string \<Rightarrow> unit hprog" where
  "check_render_node env c g node = do {
     d \<leftarrow> linkBase env c (node @ ''/device/driver'');
     if d \<noteq> ''panfrost'' then
       r_Fail env g ''render-node'' (Base node @ '' driver '' @ quote d @ '', expected panfrost'')
     else do {
       r_Pass env g ''render-node'' (Base node @ '' driven by panfrost'');
       if \<not> filepathRootIsSlash c then r_Skip env g ''render-open'' ''device opens disabled for fixtures''
       else do {
         f \<leftarrow> act env (HOpenDev (cpath c (''/dev/dri/'' @ Base node)) True);
         (case h_ok f of
            Some e \<Rightarrow> r_Skip env g ''render-open'' (permHint e)
          | None \<Rightarrow> do {
              _ \<leftarrow> act env HCloseDev;
              r_Pass env g ''render-open'' ''node opens; no render workload submitted'' }) } } }"

definition opp_step :: "int \<Rightarrow> bool \<times> bool \<Rightarrow> string \<Rightarrow> bool \<times> bool" where
  "opp_step cur a f =
     (let (v, err) = ParseInt f
      in (fst a \<and> err = None \<and> 0 < v, snd a \<or> v = cur))"

definition check_devfreq :: "henv \<Rightarrow> Ctx \<Rightarrow> string \<Rightarrow> string \<Rightarrow> unit hprog" where
  "check_devfreq env c g d = do {
     (cur, ec) \<leftarrow> readInt env c (d @ ''/cur_freq'');
     (mn, en) \<leftarrow> readInt env c (d @ ''/min_freq'');
     (mx, ex) \<leftarrow> readInt env c (d @ ''/max_freq'');
     (gov, eg) \<leftarrow> Ctx_read env c (d @ ''/governor'');
     (avail, ea) \<leftarrow> Ctx_read env c (d @ ''/available_frequencies'');
     if ec \<noteq> None \<or> en \<noteq> None \<or> ex \<noteq> None \<or> eg \<noteq> None \<or> ea \<noteq> None \<or> gov = [] then
       r_Fail env g ''gpu-devfreq'' ''frequency telemetry unreadable or incomplete''
     else let (valid, offered) = foldl (opp_step cur) (True, False) (Fields avail) in
       if \<not> valid \<or> \<not> offered \<or> mn < 0 \<or> mx \<le> 0 \<or> mx < mn then
         r_Fail env g ''gpu-devfreq'' (''invalid OPP/window telemetry (current '' @ dec_int cur @ '', min '' @
           dec_int mn @ '', max '' @ dec_int mx @ '' Hz)'')
       else do {
         r_Pass env g ''gpu-devfreq'' (''current '' @ dec_int (quot cur 1000000) @ '' MHz is an advertised OPP; window '' @
           dec_int (quot mn 1000000) @ ''-'' @ dec_int (quot mx 1000000) @ '' MHz, governor '' @ gov);
         if cur < mn \<or> mx < cur then
           r_Warn env g ''gpu-window'' ''current readback outside policy window; device may be idle or samples raced''
         else unit_prog } }"

definition checkGPUFreq :: "henv \<Rightarrow> Ctx \<Rightarrow> string \<Rightarrow> unit hprog" where
  "checkGPUFreq env c g = do {
     devs \<leftarrow> glob env c ''/sys/class/devfreq/*gpu*'';
     if devs = [] then r_Fail env g ''gpu-devfreq'' ''no GPU devfreq device''
     else foreach (check_devfreq env c g) devs }"

definition check_backlight :: "henv \<Rightarrow> Ctx \<Rightarrow> string \<Rightarrow> string \<Rightarrow> unit hprog" where
  "check_backlight env c g b = do {
     let name = Base b;
     (cur, ec) \<leftarrow> readInt env c (b @ ''/brightness'');
     (mx, em) \<leftarrow> readInt env c (b @ ''/max_brightness'');
     (power, ep) \<leftarrow> readInt env c (b @ ''/bl_power'');
     if ec \<noteq> None \<or> em \<noteq> None \<or> ep \<noteq> None then r_Fail env g name ''brightness/max/bl_power unreadable''
     else if mx \<le> 0 \<or> cur < 0 \<or> mx < cur \<or> power < 0 \<or> 4 < power then
       r_Fail env g name (''invalid brightness '' @ dec_int cur @ ''/'' @ dec_int mx @ '', bl_power '' @ dec_int power)
     else do {
       r_Pass env g name (''brightness setting '' @ dec_int cur @ ''/'' @ dec_int mx @ '', bl_power '' @ dec_int power @
         '' (not emitted-light measurement)'');
       (actual, err) \<leftarrow> readInt env c (b @ ''/actual_brightness'');
       if err = None then r_Info env g (name @ ''-actual'') (''driver readback '' @ dec_int actual) else unit_prog } }"

definition checkFrontlight :: "henv \<Rightarrow> Ctx \<Rightarrow> string \<Rightarrow> string list \<Rightarrow> unit hprog" where
  "checkFrontlight env c g bls = do {
     (if length bls < 2 then
        r_Fail env g ''frontlight'' (dec (length bls) @ '' backlight devices, expected white and amber'')
      else unit_prog);
     foreach (check_backlight env c g) bls;
     r_Skip env g ''frontlight-sweep'' ''brightness has a live policy owner; no automatic writes'';
     r_Skip env g ''panel-visible''
       ''no physical observation/TE measurement; DCS reads avoided because a timeout can wedge the panel'' }"

definition checkDisplay :: "henv \<Rightarrow> Ctx \<Rightarrow> string \<Rightarrow> unit hprog" where
  "checkDisplay env c g = do {
     conns \<leftarrow> glob env c ''/sys/class/drm/card*-DSI-*'';
     (if conns = [] then r_Fail env g ''dsi'' ''no DSI connector registered'' else unit_prog);
     bls \<leftarrow> glob env c ''/sys/class/backlight/*'';
     foreach (check_connector env c g) conns;
     cards \<leftarrow> glob env c ''/sys/class/drm/card[0-9]*'';
     foreach (check_card env c g) cards;
     nodes \<leftarrow> glob env c ''/sys/class/drm/renderD*'';
     (if nodes = [] then r_Fail env g ''render-node'' ''no DRM render node'' else unit_prog);
     foreach (check_render_node env c g) nodes;
     checkGPUFreq env c g;
     checkFrontlight env c g bls;
     r_Skip env g ''gpu-render'' ''render node/state is not a GPU correctness or frame-pacing test'' }"

lemma checkGPUFreq_ok [hw_ok]: "keeps (hw_safe c g) (checkGPUFreq env c g)"
  unfolding checkGPUFreq_def check_devfreq_def Let_def by (intro hw_intros hw_ok)

lemma checkFrontlight_ok [hw_ok]: "keeps (hw_safe c g) (checkFrontlight env c g bls)"
  unfolding checkFrontlight_def check_backlight_def Let_def by (intro hw_intros hw_ok)

lemma check_render_node_ok [hw_ok]: "keeps (hw_safe c g) (check_render_node env c g node)"
  unfolding check_render_node_def by (intro hw_intros hw_ok) auto

lemma checkDisplay_ok [hw_ok]: "keeps (hw_safe c g) (checkDisplay env c g)"
  unfolding checkDisplay_def check_connector_def check_mode_def check_card_def Let_def
  by (intro hw_intros hw_ok)

end
