(* ===== verification/Hw_Power.thy ===== *)
theory Hw_Power
  imports Hw_Core
begin

text \<open>
  The power group of \<^verbatim>\<open>tools/hwtest\<close> (\<^verbatim>\<open>power.go\<close>): fuel gauge, charger, Type-C port, real-time clocks,
  suspend interfaces and the holders of the watchdog.  An answer of the clock is a pair of the
  monotonic and the wall reading in nanoseconds.  \<^verbatim>\<open>checkWatchdog\<close> indexes the elements of a path, which
  can panic; its result is the text of the panic, if any.
\<close>

section \<open>Required attributes\<close>

definition powerText :: "henv \<Rightarrow> Ctx \<Rightarrow> string \<Rightarrow> string \<Rightarrow> string \<Rightarrow> (string \<times> bool) hprog" where
  "powerText env c g name path = do {
     (v, err) \<leftarrow> Ctx_read env c path;
     (case err of
        Some e \<Rightarrow> do { r_Fail env g name (''read '' @ path @ '': '' @ etext e); ret ([], False) }
      | None \<Rightarrow>
          if v = [] then do { r_Fail env g name (path @ '' is empty''); ret ([], False) }
          else ret (v, True)) }"

definition powerInt :: "henv \<Rightarrow> Ctx \<Rightarrow> string \<Rightarrow> string \<Rightarrow> string \<Rightarrow> (int \<times> bool) hprog" where
  "powerInt env c g name path = do {
     (v, err) \<leftarrow> readInt env c path;
     (case err of
        Some e \<Rightarrow> do { r_Fail env g name (''read '' @ path @ '': '' @ etext e); ret (0, False) }
      | None \<Rightarrow> ret (v, True)) }"

definition powerStatus :: "henv \<Rightarrow> Ctx \<Rightarrow> string \<Rightarrow> string \<Rightarrow> string \<Rightarrow> (string \<times> bool) hprog" where
  "powerStatus env c g name path = do {
     (v, ok) \<leftarrow> powerText env c g name path;
     if \<not> ok then ret ([], False)
     else if v \<in> set [''Charging'', ''Discharging'', ''Not charging'', ''Full'', ''Unknown''] then ret (v, True)
     else do {
       r_Fail env g name (''invalid power-supply status '' @ quote v @ '' at '' @ path);
       ret ([], False) } }"

section \<open>Fuel gauge and charger\<close>

definition volts :: "int \<Rightarrow> f64" where
  "volts uv = f_div (of_int64 uv) (Fin 1000000)"

definition ma :: "int \<Rightarrow> string" where "ma ua = dec_int (quot ua 1000)"

definition gauge_range :: "henv \<Rightarrow> string \<Rightarrow> int \<Rightarrow> int \<Rightarrow> int \<Rightarrow> string \<Rightarrow> unit hprog" where
  "gauge_range env g uv capacity ua st = do {
     let v = volts uv;
     (if uv < 3000000 \<or> 4450000 < uv then
        r_Fail env g ''fuel-gauge'' (fmt_fixed 3 v @ '' V is outside the cell range'')
      else if capacity < 0 \<or> 100 < capacity then
        r_Fail env g ''fuel-gauge'' (''capacity '' @ dec_int capacity @ ''% is outside 0..100'')
      else if st = ''Unknown'' then
        r_Warn env g ''fuel-gauge'' (fmt_fixed 3 v @ '' V, '' @ dec_int capacity @ ''%, '' @ ma ua @ '' mA; status Unknown'')
      else
        r_Pass env g ''fuel-gauge'' (''readable telemetry: '' @ fmt_fixed 3 v @ '' V, '' @ dec_int capacity @ ''%, '' @
          ma ua @ '' mA, '' @ st @ '' (not pack protection validation)''));
     if capacity = 0 \<or> capacity = 100 \<and> st = ''Discharging'' \<and> f_lt v (Fin 4) then
       r_Warn env g ''gauge-plausible'' (''capacity '' @ dec_int capacity @ ''% at '' @ fmt_fixed 2 v @ '' V looks stale'')
     else unit_prog }"

definition gauge_sign :: "henv \<Rightarrow> string \<Rightarrow> int \<Rightarrow> string \<Rightarrow> unit hprog" where
  "gauge_sign env g ua st =
     (if st \<noteq> ''Charging'' \<and> st \<noteq> ''Discharging'' then
        r_Skip env g ''gauge-sign'' (''status '' @ st @ '' does not establish a current direction'')
      else if ua = 0 then
        r_Warn env g ''gauge-sign'' (''zero current does not establish the '' @ st @ '' direction'')
      else if st = ''Charging'' \<and> ua < 0 \<or> st = ''Discharging'' \<and> 0 < ua then
        r_Warn env g ''gauge-sign'' (''status '' @ st @ '' but current '' @ ma ua @ '' mA has the wrong sign'')
      else r_Pass env g ''gauge-sign'' (''current sign consistent with '' @ st))"

definition ps :: string where "ps = ''/sys/class/power_supply/''"

definition check_gauge :: "henv \<Rightarrow> Ctx \<Rightarrow> string \<Rightarrow> string hprog" where
  "check_gauge env c g = do {
     ex \<leftarrow> Ctx_exists env c (ps @ ''mt6358-fg'');
     if \<not> ex then do { r_Fail env g ''fuel-gauge'' ''mt6358-fg missing''; ret [] }
     else do {
       (uv, okV) \<leftarrow> powerInt env c g ''fuel-gauge'' (ps @ ''mt6358-fg/voltage_now'');
       (capacity, okC) \<leftarrow> powerInt env c g ''fuel-gauge'' (ps @ ''mt6358-fg/capacity'');
       (ua, okA) \<leftarrow> powerInt env c g ''fuel-gauge'' (ps @ ''mt6358-fg/current_now'');
       (st, okS) \<leftarrow> powerStatus env c g ''fuel-gauge'' (ps @ ''mt6358-fg/status'');
       (if okV \<and> okC \<and> okA \<and> okS then gauge_range env g uv capacity ua st else unit_prog);
       (if okA \<and> okS then gauge_sign env g ua st else unit_prog);
       ret (if okS then st else []) } }"

definition source_limit :: "henv \<Rightarrow> Ctx \<Rightarrow> string \<Rightarrow> string \<Rightarrow> unit hprog" where
  "source_limit env c g f = do {
     (v, ok) \<leftarrow> powerInt env c g (''source-'' @ f) (ps @ ''tcpm-source-psy-mt6375-tcpc/'' @ f);
     if \<not> ok then unit_prog
     else if v < 0 then r_Fail env g (''source-'' @ f) (''negative source telemetry '' @ dec_int v)
     else r_Info env g (''source-'' @ f) (dec_int v @ '' (kernel power-supply units)'') }"

definition charger_verdict :: "henv \<Rightarrow> string \<Rightarrow> int \<Rightarrow> string \<Rightarrow> string \<Rightarrow> unit hprog" where
  "charger_verdict env g on st battStatus =
     (if on = 0 \<and> (st = ''Charging'' \<or> battStatus = ''Charging'') then
        r_Fail env g ''charger'' (''no input online but status Charging (charger '' @ quote st @ '', gauge '' @ quote battStatus @ '')'')
      else if battStatus = [] \<or> battStatus = ''Unknown'' \<or> st = ''Unknown'' then
        r_Warn env g ''charger'' (''online='' @ dec_int on @ '', charger '' @ quote st @ '', gauge '' @ quote battStatus @
          ''; consistency unavailable'')
      else if on = 1 \<and> battStatus = ''Discharging'' then
        r_Warn env g ''charger'' (''input online but pack discharging (charger '' @ quote st @ '')'')
      else
        r_Pass env g ''charger'' (''online='' @ dec_int on @ '', charger '' @ quote st @ '', gauge '' @ quote battStatus @
          ''; status consistency only, not charge/protection proof''))"

definition checkCharger :: "henv \<Rightarrow> Ctx \<Rightarrow> string \<Rightarrow> string \<Rightarrow> unit hprog" where
  "checkCharger env c g battStatus = do {
     ex \<leftarrow> Ctx_exists env c (ps @ ''mt6375-charger'');
     if \<not> ex then r_Fail env g ''charger'' ''mt6375-charger missing''
     else do {
       (on, okOn) \<leftarrow> powerInt env c g ''charger'' (ps @ ''mt6375-charger/online'');
       (st, okS) \<leftarrow> powerStatus env c g ''charger'' (ps @ ''mt6375-charger/status'');
       let odd_on = (okOn \<and> on \<noteq> 0 \<and> on \<noteq> 1);
       (if odd_on then r_Fail env g ''charger'' (''online='' @ dec_int on @ '' is not boolean'') else unit_prog);
       if \<not> okOn \<or> odd_on \<or> \<not> okS then unit_prog
       else do {
         charger_verdict env g on st battStatus;
         if on = 1 then do {
           foreach (source_limit env c g) [''voltage_max'', ''current_max''];
           (v, ok) \<leftarrow> powerText env c g ''source-usb_type'' (ps @ ''tcpm-source-psy-mt6375-tcpc/usb_type'');
           if ok then r_Info env g ''source-usb_type'' (v @ ''; advertised/selected types, not physical charging proof'')
           else unit_prog }
         else unit_prog } } }"

section \<open>Type-C\<close>

fun role_fields :: "string list \<Rightarrow> string list \<Rightarrow> bool \<Rightarrow> bool" where
  "role_fields allowed_roles [] selected = selected"
| "role_fields allowed_roles (f # fs) selected =
     (if has_prefix f ''['' \<and> has_suffix f '']'' then
        slice 1 (length f - 1) f \<in> set allowed_roles \<and> role_fields allowed_roles fs True
      else f \<in> set allowed_roles \<and> role_fields allowed_roles fs selected)"

definition selectedPowerRole :: "string \<Rightarrow> string list \<Rightarrow> bool" where
  "selectedPowerRole v roles =
     (if CHR ''['' \<notin> set v \<and> CHR '']'' \<notin> set v then v \<in> set roles
      else if count_char CHR ''['' v \<noteq> 1 \<or> count_char CHR '']'' v \<noteq> 1 then False
      else role_fields roles (Fields v) False)"

definition role_ok :: "henv \<Rightarrow> string \<Rightarrow> string \<Rightarrow> string list \<Rightarrow> string \<times> bool \<Rightarrow> bool hprog" where
  "role_ok env g what roles vo =
     (if snd vo \<and> \<not> selectedPowerRole (fst vo) roles then do {
        r_Fail env g ''typec'' (''unrecognized '' @ what @ '' '' @ quote (fst vo));
        ret False }
      else ret (snd vo))"

definition checkTypeC :: "henv \<Rightarrow> Ctx \<Rightarrow> string \<Rightarrow> unit hprog" where
  "checkTypeC env c g = do {
     let p = ''/sys/class/typec/port0'';
     ex \<leftarrow> Ctx_exists env c p;
     if \<not> ex then r_Fail env g ''typec'' ''port0 missing''
     else do {
       dr \<leftarrow> powerText env c g ''typec'' (p @ ''/data_role'');
       pr \<leftarrow> powerText env c g ''typec'' (p @ ''/power_role'');
       om \<leftarrow> powerText env c g ''typec'' (p @ ''/power_operation_mode'');
       okD \<leftarrow> role_ok env g ''data role'' [''host'', ''device''] dr;
       okP \<leftarrow> role_ok env g ''power role'' [''source'', ''sink''] pr;
       okO \<leftarrow> role_ok env g ''operation mode'' [''default'', ''1.5A'', ''3.0A'', ''usb_power_delivery''] om;
       (if okD \<and> okP \<and> okO then
          r_Pass env g ''typec'' (''readable role telemetry: data '' @ fst dr @ '', power '' @ fst pr @ '', mode '' @ fst om)
        else unit_prog);
       partner \<leftarrow> Ctx_exists env c (p @ ''-partner'');
       (if partner then r_Info env g ''typec-partner'' ''a partner is registered'' else unit_prog);
       pd \<leftarrow> Ctx_exists env c ''/sys/class/usb_power_delivery/pd0'';
       if pd then r_Pass env g ''pd'' ''pd0 registered; no contract or electrical validation implied''
       else r_Warn env g ''pd'' ''no usb_power_delivery device'' } }"

section \<open>Real-time clocks\<close>

definition second :: int where "second = 1000000000"

text \<open>\<^verbatim>\<open>Duration.Seconds\<close>: whole seconds and the rest, added as floating-point numbers.\<close>

definition seconds :: "int \<Rightarrow> f64" where
  "seconds d = f_add (of_int64 (quot d second)) (f_div (of_int64 (d - quot d second * second)) (Fin 1000000000))"

definition rtcAdvanceValid :: "int \<Rightarrow> int \<Rightarrow> bool" where
  "rtcAdvanceValid advance elapsed =
     (let delta = f_sub (of_int64 advance) (seconds elapsed)
      in 0 < advance \<and> f_le (Fin (- 3 / 2)) delta \<and> f_le delta (Fin (3 / 2)))"

definition rtcSeconds :: "henv \<Rightarrow> Ctx \<Rightarrow> string \<Rightarrow> (int \<times> herr option) hprog" where
  "rtcSeconds env c rtc = readInt env c (rtc @ ''/since_epoch'')"

record rtc_sample =
  first_t :: int
  rtc_name :: string
  at_mono :: int
  at_wall :: int

definition rtc_first :: "henv \<Rightarrow> Ctx \<Rightarrow> string \<Rightarrow> (string \<times> rtc_sample) list \<Rightarrow> string \<Rightarrow> (string \<times> rtc_sample) list hprog" where
  "rtc_first env c g acc d = do {
     let short = Base d;
     (name, ok) \<leftarrow> powerText env c g short (d @ ''/name'');
     (t, err) \<leftarrow> rtcSeconds env c d;
     (case err of
        Some e \<Rightarrow> do { r_Fail env g short (''read since_epoch: '' @ etext e); ret acc }
      | None \<Rightarrow>
          if t < 0 then do { r_Fail env g short (''negative since_epoch '' @ dec_int t); ret acc }
          else if \<not> ok then ret acc
          else do {
            now \<leftarrow> act env HNow;
            let acc' = (d, \<lparr>first_t = t, rtc_name = name, at_mono = fst (h_time now), at_wall = snd (h_time now)\<rparr>) # acc;
            (alarm, aerr) \<leftarrow> Ctx_read env c (d @ ''/wakealarm'');
            (case aerr of
               None \<Rightarrow> r_Info env g (short @ ''-alarm'') (''wakealarm interface readable ('' @ quote alarm @ ''); not modified or tested'')
             | Some e \<Rightarrow> r_Skip env g (short @ ''-alarm'') (''wakealarm unavailable: '' @ etext e @ ''; not modified''));
            ret acc' }) }"

definition rtc_fixture :: "henv \<Rightarrow> string \<Rightarrow> (string \<times> rtc_sample) list \<Rightarrow> string \<Rightarrow> unit hprog" where
  "rtc_fixture env g samples d =
     (case map_of samples d of
        None \<Rightarrow> unit_prog
      | Some s \<Rightarrow> do {
          r_Info env g (Base d @ ''-sample'') (rtc_name s @ '' since_epoch='' @ dec_int (first_t s) @ '' (fixture)'');
          r_Skip env g (Base d @ ''-tick'')
            ''relocated root: static fixture cannot establish RTC ticking or system-time skew'' })"

definition rtc_verdict :: "henv \<Rightarrow> string \<Rightarrow> string \<Rightarrow> rtc_sample \<Rightarrow> int \<Rightarrow> int \<times> int \<Rightarrow> unit hprog" where
  "rtc_verdict env g short s t1 now =
     (let elapsed = fst now - at_mono s;
          wallElapsed = f_div (of_int64 (snd now - at_wall s)) (Fin 1000000000);
          adv = t1 - first_t s;
          skew = t1 - snd now div second
      in if f_lt (Fin 2) (f_sub wallElapsed (seconds elapsed)) \<or> f_lt (Fin 2) (f_sub (seconds elapsed) wallElapsed) then
           r_Warn env g short (rtc_name s @ '' tick comparison inconclusive: suspend or system-clock adjustment between samples'')
         else if \<not> rtcAdvanceValid adv elapsed then
           r_Fail env g short (rtc_name s @ '' advanced '' @ dec_int adv @ '' s in '' @ fmt_fixed 2 (seconds elapsed) @ '' s measured interval'')
         else if 60 < skew \<or> skew < - 60 then
           r_Warn env g short (rtc_name s @ '' ticks but is '' @ dec_int skew @ '' s from system time'')
         else
           r_Pass env g short (rtc_name s @ '' ticks, within '' @ dec_int skew @ '' s of system time; alarm/wake not tested''))"

definition rtc_second :: "henv \<Rightarrow> Ctx \<Rightarrow> string \<Rightarrow> (string \<times> rtc_sample) list \<Rightarrow> string \<Rightarrow> unit hprog" where
  "rtc_second env c g samples d =
     (case map_of samples d of
        None \<Rightarrow> unit_prog
      | Some s \<Rightarrow> do {
          (t1, err) \<leftarrow> rtcSeconds env c d;
          (case err of
             Some e \<Rightarrow> r_Fail env g (Base d) (''second since_epoch read: '' @ etext e)
           | None \<Rightarrow>
               if t1 < 0 then r_Fail env g (Base d) (''negative second since_epoch '' @ dec_int t1)
               else do {
                 now \<leftarrow> act env HNow;
                 rtc_verdict env g (Base d) s t1 (h_time now) }) })"

definition checkRTC :: "henv \<Rightarrow> Ctx \<Rightarrow> string \<Rightarrow> unit hprog" where
  "checkRTC env c g = do {
     rtcs \<leftarrow> glob env c ''/sys/class/rtc/rtc*'';
     (if length rtcs < 2 then r_Warn env g ''rtc'' (dec (length rtcs) @ '' RTC devices, expected PMIC plus s35390a'') else unit_prog);
     samples \<leftarrow> foldp (rtc_first env c g) [] rtcs;
     if \<not> live c then foreach (rtc_fixture env g samples) rtcs
     else if samples = [] then unit_prog
     else do {
       ok \<leftarrow> paused env c (2100 * ms);
       if \<not> ok then r_Skip env g ''rtc-tick'' ''cancelled before the second sample''
       else foreach (rtc_second env c g samples) rtcs } }"

section \<open>Suspend and watchdog\<close>

definition check_states :: "henv \<Rightarrow> Ctx \<Rightarrow> string \<Rightarrow> unit hprog" where
  "check_states env c g = do {
     (st, okS) \<leftarrow> powerText env c g ''suspend-state'' ''/sys/power/state'';
     (ms, okM) \<leftarrow> powerText env c g ''suspend-state'' ''/sys/power/mem_sleep'';
     let odd_mem = (okM \<and> \<not> selectedPowerRole ms [''s2idle'', ''shallow'', ''deep'']);
     (if odd_mem then r_Fail env g ''suspend-state'' (''unrecognized mem_sleep '' @ quote ms) else unit_prog);
     if okS \<and> okM \<and> \<not> odd_mem then
       (if ''freeze'' \<in> set (Fields st) then
          r_Pass env g ''suspend-state'' (''freeze offered; states '' @ quote st @ '', mem_sleep '' @ quote ms @ ''; no suspend/resume proof'')
        else r_Fail env g ''suspend-state'' (''freeze not offered ('' @ quote st @ '')''))
     else unit_prog }"

definition checkSuspend :: "henv \<Rightarrow> Ctx \<Rightarrow> string \<Rightarrow> unit hprog" where
  "checkSuspend env c g = do {
     check_states env c g;
     let p = ''/sys/power/suspend_stats/'';
     ex \<leftarrow> Ctx_exists env c p;
     (if \<not> ex then r_Skip env g ''suspend-stats'' ''suspend statistics interface absent''
      else do {
        (ok, okSuccess) \<leftarrow> powerInt env c g ''suspend-stats'' (p @ ''success'');
        (nfail, okFail) \<leftarrow> powerInt env c g ''suspend-stats'' (p @ ''fail'');
        if okSuccess \<and> okFail then
          (if ok < 0 \<or> nfail < 0 then
             r_Fail env g ''suspend-stats'' (''negative counters: success='' @ dec_int ok @ '' fail='' @ dec_int nfail)
           else
             r_Info env g ''suspend-stats'' (dec_int ok @ '' successful, '' @ dec_int nfail @ '' failed suspends since boot''))
        else unit_prog });
     r_Skip env g ''suspend-cycle''
       ''never run automatically: a failed resume removes the recovery channel; use docs/hw/suspend.md'' }"

definition watchdog_node :: "string \<Rightarrow> bool" where
  "watchdog_node t = (case cut_prefix t ''/dev/watchdog'' of None \<Rightarrow> False | Some sfx \<Rightarrow> list_all is_digit sfx)"

text \<open>The process behind a descriptor; the result is a panic text or the names so far.\<close>

fun watchdog_holders :: "henv \<Rightarrow> Ctx \<Rightarrow> string \<Rightarrow> string list \<Rightarrow> string list \<Rightarrow> (string + string list) hprog" where
  "watchdog_holders env c g [] holders = ret (Inr holders)"
| "watchdog_holders env c g (fd # fds) holders = do {
     t \<leftarrow> linkTarget env c fd;
     if \<not> watchdog_node t then watchdog_holders env c g fds holders
     else let parts = split_on CHR ''/'' fd in
       if length parts \<le> 2 then
         ret (Inl (''runtime error: index out of range [2] with length '' @ dec (length parts)))
       else do {
         (comm, err) \<leftarrow> Ctx_read env c (''/proc/'' @ parts ! 2 @ ''/comm'');
         if err \<noteq> None \<or> comm = [] then do {
           r_Warn env g ''watchdog-holder'' (''PID '' @ parts ! 2 @ '' has '' @ t @ '' open, but process name unavailable'');
           watchdog_holders env c g fds holders }
         else watchdog_holders env c g fds (List.insert comm holders) } }"

definition watchdog_verdict :: "henv \<Rightarrow> Ctx \<Rightarrow> string \<Rightarrow> nat \<Rightarrow> string list \<Rightarrow> unit hprog" where
  "watchdog_verdict env c g n names =
     (if names \<noteq> [] then
        r_Pass env g ''watchdog'' (dec n @ '' registered device(s); a watchdog descriptor held by '' @ join_with '','' names @
          ''; pinging/recovery not proven and device never opened'')
      else do {
        root_user \<leftarrow> (if \<not> live c then ret False else do { u \<leftarrow> act env HGeteuid; ret (h_int u = 0) });
        if \<not> root_user then
          r_Skip env g ''watchdog'' (dec n @ '' registered device(s); fixture or restricted /proc cannot establish holders; device never opened'')
        else
          r_Warn env g ''watchdog'' (dec n @ '' registered device(s); no visible holder (restricted/racing /proc is possible); device never opened'') })"

definition checkWatchdog :: "henv \<Rightarrow> Ctx \<Rightarrow> string \<Rightarrow> string option hprog" where
  "checkWatchdog env c g = do {
     wd \<leftarrow> glob env c ''/sys/class/watchdog/watchdog*'';
     if wd = [] then do { r_Fail env g ''watchdog'' ''no watchdog device registered''; ret None }
     else do {
       fds \<leftarrow> glob env c ''/proc/[0-9]*/fd/*'';
       res \<leftarrow> watchdog_holders env c g fds [];
       (case res of
          Inl p \<Rightarrow> ret (Some p)
        | Inr holders \<Rightarrow> do {
            watchdog_verdict env c g (length wd) (sort_strings holders);
            ret None }) } }"

definition checkPower :: "henv \<Rightarrow> Ctx \<Rightarrow> string \<Rightarrow> string option hprog" where
  "checkPower env c g = do {
     status \<leftarrow> check_gauge env c g;
     checkCharger env c g status;
     checkTypeC env c g;
     checkRTC env c g;
     checkSuspend env c g;
     checkWatchdog env c g }"

section \<open>Consent\<close>

lemma power_attributes_ok [hw_ok]:
  "keeps (hw_safe c g) (powerText env c g n p)" "keeps (hw_safe c g) (powerInt env c g n p)"
  unfolding powerText_def powerInt_def by (intro hw_intros hw_ok)+

lemma powerStatus_ok [hw_ok]: "keeps (hw_safe c g) (powerStatus env c g n p)"
  unfolding powerStatus_def by (intro hw_intros hw_ok)

lemma check_gauge_ok [hw_ok]: "keeps (hw_safe c g) (check_gauge env c g)"
  unfolding check_gauge_def gauge_range_def gauge_sign_def Let_def by (intro hw_intros hw_ok)

lemma checkCharger_ok [hw_ok]: "keeps (hw_safe c g) (checkCharger env c g b)"
  unfolding checkCharger_def charger_verdict_def source_limit_def Let_def by (intro hw_intros hw_ok)

lemma checkTypeC_ok [hw_ok]: "keeps (hw_safe c g) (checkTypeC env c g)"
  unfolding checkTypeC_def role_ok_def Let_def by (intro hw_intros hw_ok)

lemma rtc_parts_ok [hw_ok]:
  "keeps (hw_safe c g) (rtc_first env c g acc d)" "keeps (hw_safe c g) (rtc_second env c g acc d)"
  "keeps (hw_safe c g) (rtc_fixture env g acc d)"
  unfolding rtc_first_def rtc_second_def rtc_fixture_def rtc_verdict_def rtcSeconds_def Let_def
  by (intro hw_intros hw_ok; simp)+

lemma checkRTC_ok [hw_ok]: "keeps (hw_safe c g) (checkRTC env c g)"
  unfolding checkRTC_def by (intro hw_intros hw_ok) simp

lemma checkSuspend_ok [hw_ok]: "keeps (hw_safe c g) (checkSuspend env c g)"
  unfolding checkSuspend_def check_states_def Let_def by (intro hw_intros hw_ok)

lemma watchdog_holders_ok [hw_ok]: "keeps (hw_safe c g) (watchdog_holders env c g fds hs)"
  by (induction fds arbitrary: hs) (auto simp: Let_def intro!: hw_intros hw_ok)

lemma checkWatchdog_ok [hw_ok]: "keeps (hw_safe c g) (checkWatchdog env c g)"
  unfolding checkWatchdog_def watchdog_verdict_def by (intro hw_intros hw_ok) auto

lemma checkPower_ok [hw_ok]: "keeps (hw_safe c g) (checkPower env c g)"
  unfolding checkPower_def by (intro hw_intros hw_ok)

end
