(* ===== verification/Hw_Sensors.thy ===== *)
theory Hw_Sensors
  imports Hw_Core
begin

text \<open>
  The sensors group of \<^verbatim>\<open>tools/hwtest\<close> (\<^verbatim>\<open>sensors.go\<close>): the accelerometer with the operator's pose test, ADC
  channels and the I2C inventory with the parts that must stay unbound.  \<^verbatim>\<open>strconv.ParseFloat\<close> is modelled
  for decimal and hexadecimal numbers (without digit separators), infinities and NaN; the sum of
  squares is rounded after every operation, without fused multiply-adds.
\<close>

section \<open>Reading numbers\<close>

definition mant_value :: "nat \<Rightarrow> string \<Rightarrow> nat" where
  "mant_value b ds = foldl (\<lambda>a c. a * b + (case hex_digit_val c of Some v \<Rightarrow> v | None \<Rightarrow> 0)) 0 ds"

definition mant_digit :: "nat \<Rightarrow> char \<Rightarrow> bool" where
  "mant_digit b c = (case hex_digit_val c of Some v \<Rightarrow> v < b | None \<Rightarrow> False)"

definition pow_of :: "nat \<Rightarrow> int \<Rightarrow> rat" where
  "pow_of b e = (if 0 \<le> e then of_nat b ^ nat e else 1 / of_nat b ^ nat (- e))"

text \<open>The exponent part: absent (only for decimals), or a marker, a sign and digits.\<close>

definition exp_part :: "char \<Rightarrow> string \<Rightarrow> int option" where
  "exp_part mark s =
     (if s = [] then (if mark = CHR ''e'' then Some 0 else None)
      else if to_lower [hd s] \<noteq> [mark] then None
      else let neg = (tl s \<noteq> [] \<and> hd (tl s) = CHR ''-'');
               ds = (if tl s \<noteq> [] \<and> hd (tl s) \<in> {CHR ''+'', CHR ''-''} then tl (tl s) else tl s)
           in if ds = [] \<or> \<not> list_all is_digit ds then None
              else Some (let e = int (min 10000 (dec_val ds)) in if neg then - e else e))"

definition read_float :: "nat \<Rightarrow> char \<Rightarrow> nat \<Rightarrow> nat \<Rightarrow> string \<Rightarrow> rat option" where
  "read_float b mark eb per s =
     (let ip = takeWhile (mant_digit b) s;
          r = drop (length ip) s;
          dot = (r \<noteq> [] \<and> hd r = CHR ''.'');
          fp = (if dot then takeWhile (mant_digit b) (tl r) else []);
          r' = (if dot then drop (length fp) (tl r) else r)
      in if ip @ fp = [] then None
         else (case exp_part mark r' of
                 None \<Rightarrow> None
               | Some e \<Rightarrow> Some (of_nat (mant_value b (ip @ fp)) * pow_of eb (e - int (per * length fp)))))"

definition finite_or_none :: "f64 \<Rightarrow> f64 option" where
  "finite_or_none x = (if nonfinite x then None else Some x)"

definition ParseFloat :: "string \<Rightarrow> f64 option" where
  "ParseFloat s =
     (let neg = (s \<noteq> [] \<and> hd s = CHR ''-'');
          body = (if s \<noteq> [] \<and> hd s \<in> {CHR ''-'', CHR ''+''} then tl s else s);
          low = to_lower body
      in if low = ''inf'' \<or> low = ''infinity'' then Some (if neg then NInf else PInf)
         else if to_lower s = ''nan'' then Some NaN
         else (case (if has_prefix low ''0x'' then read_float 16 CHR ''p'' 2 4 (drop 2 body)
                     else read_float 10 CHR ''e'' 10 1 body) of
                 None \<Rightarrow> None
               | Some q \<Rightarrow> finite_or_none (fl (if neg then - q else q))))"

section \<open>The accelerometer\<close>

definition readOr :: "henv \<Rightarrow> Ctx \<Rightarrow> string \<Rightarrow> string \<Rightarrow> string hprog" where
  "readOr env c p def = do {
     (s, err) \<leftarrow> Ctx_read env c p;
     ret (if err = None then s else def) }"

fun accel_find :: "henv \<Rightarrow> Ctx \<Rightarrow> string list \<Rightarrow> string hprog" where
  "accel_find env c [] = ret []"
| "accel_find env c (d # ds) = do {
     (n, _) \<leftarrow> Ctx_read env c (d @ ''/name'');
     if n = ''mc3416'' then ret d else accel_find env c ds }"

definition accelDevice :: "henv \<Rightarrow> Ctx \<Rightarrow> string hprog" where
  "accelDevice env c = do {
     ds \<leftarrow> glob env c ''/sys/bus/iio/devices/iio:device*'';
     accel_find env c ds }"

fun accel_axes :: "henv \<Rightarrow> Ctx \<Rightarrow> string \<Rightarrow> f64 \<Rightarrow> string list \<Rightarrow> f64 list \<Rightarrow> (herr + f64 list) hprog" where
  "accel_axes env c dev scale [] acc = ret (Inr acc)"
| "accel_axes env c dev scale (a # as) acc = do {
     (raw, err) \<leftarrow> readInt env c (dev @ ''/in_accel_'' @ a @ ''_raw'');
     (case err of
        Some e \<Rightarrow> ret (Inl e)
      | None \<Rightarrow>
          let v = f_mul (of_int64 raw) scale in
          if nonfinite v then ret (Inl (mkerr ''nonfinite acceleration''))
          else accel_axes env c dev scale as (acc @ [v])) }"

definition accelSample :: "henv \<Rightarrow> Ctx \<Rightarrow> string \<Rightarrow> (herr + f64 list) hprog" where
  "accelSample env c dev = do {
     s \<leftarrow> readOr env c (dev @ ''/in_accel_scale'') ''0'';
     (case ParseFloat s of
        None \<Rightarrow> ret (Inl (mkerr ''bad in_accel_scale''))
      | Some scale \<Rightarrow>
          if f_le scale (Fin 0) \<or> nonfinite scale then ret (Inl (mkerr ''bad in_accel_scale''))
          else accel_axes env c dev scale [''x'', ''y'', ''z''] []) }"

definition norm3 :: "f64 list \<Rightarrow> f64" where
  "norm3 v = f_sqrt (f_add (f_add (f_mul (v ! 0) (v ! 0)) (f_mul (v ! 1) (v ! 1))) (f_mul (v ! 2) (v ! 2)))"

definition best_axis :: "f64 list \<Rightarrow> nat" where
  "best_axis v = foldl (\<lambda>best i. if f_lt (f_abs (v ! best)) (f_abs (v ! i)) then i else best) 0 [0, 1, 2]"

definition dominant :: "f64 list \<Rightarrow> string" where
  "dominant v =
     (let best = best_axis v
      in (if f_lt (v ! best) (Fin 0) then ''-'' else ''+'') @ [''xyz'' ! best])"

definition poseAxis :: "f64 list \<Rightarrow> string \<times> bool" where
  "poseAxis v =
     (let n = norm3 v in
      if f_le n (Fin 0) \<or> nonfinite n then ([], False)
      else let largest = f_max (f_abs (v ! 0)) (f_max (f_abs (v ! 1)) (f_abs (v ! 2)))
           in (dominant v, f_le (fl (8 / 10)) (f_div largest n)))"

section \<open>Poses\<close>

definition poses :: "string list" where
  "poses =
    [''upright portrait (the side with the buttons up)'',
     ''rotated a quarter turn clockwise (landscape)'',
     ''upside down portrait'',
     ''rotated a quarter turn counter-clockwise (landscape)'',
     ''flat on a table, screen up'']"

fun pose_samples :: "henv \<Rightarrow> Ctx \<Rightarrow> string \<Rightarrow> string \<Rightarrow> nat \<Rightarrow> f64 list \<Rightarrow> f64 list option hprog" where
  "pose_samples env c g dev 0 total3 = ret (Some total3)"
| "pose_samples env c g dev (Suc n) total3 = do {
     r \<leftarrow> accelSample env c dev;
     (case r of
        Inl e \<Rightarrow> do { r_Fail env g ''poses'' (etext e); ret None }
      | Inr s \<Rightarrow> do {
          let total3' = map2 (\<lambda>a x. f_add a (f_div x (Fin 10))) total3 s;
          ok \<leftarrow> paused env c (50 * ms);
          if \<not> ok then do { r_Skip env g ''poses'' ''interrupted''; ret None }
          else pose_samples env c g dev n total3' }) }"

definition xyz_text :: "nat \<Rightarrow> string \<Rightarrow> f64 list \<Rightarrow> string" where
  "xyz_text n sep v = join_with sep (map (fmt_fixed n) v)"

definition gravity_odd :: "f64 \<Rightarrow> bool" where
  "gravity_odd m = (f_lt m (fl (83 / 10)) \<or> f_lt (fl (113 / 10)) m)"

definition slice_text :: "string list \<Rightarrow> string" where
  "slice_text ws = ''['' @ join_with '' '' ws @ '']''"

fun pose_loop :: "henv \<Rightarrow> Ctx \<Rightarrow> string \<Rightarrow> string \<Rightarrow> string list \<Rightarrow> (string \<times> string) list \<Rightarrow> unit hprog" where
  "pose_loop env c g dev [] got =
     r_Pass env g ''poses'' (''5 poses give 5 distinct gravity axes '' @ slice_text (sort_strings (map fst got)) @
       '' (compare with the mount matrix and GNOME's rotation separately)'')"
| "pose_loop env c g dev (p # rest) got = do {
     ready \<leftarrow> Ctx_wait env c (''Hold the tablet '' @ p @ '' and keep it still'');
     if \<not> ready then r_Skip env g ''poses'' ''operator input ended''
     else do {
       ok \<leftarrow> paused env c (700 * ms);
       if \<not> ok then r_Skip env g ''poses'' ''interrupted''
       else do {
         res \<leftarrow> pose_samples env c g dev 10 [Fin 0, Fin 0, Fin 0];
         (case res of
            None \<Rightarrow> unit_prog
          | Some total3 \<Rightarrow>
              (case poseAxis total3 of
                 (axis, clear) \<Rightarrow>
                   if \<not> clear then
                     r_Fail env g ''poses'' (''no clear nonzero gravity axis in '' @ quote p @ ''; hold an axis-aligned stationary pose'')
                   else do {
                     r_Info env g ''pose'' (p @ '' -> gravity on '' @ axis @ '' ('' @ xyz_text 1 '', '' total3 @ '')'');
                     (case map_of got axis of
                        Some prev \<Rightarrow>
                          r_Fail env g ''poses'' (quote prev @ '' and '' @ quote p @ '' both read gravity on '' @ axis @ '': poses not distinguishable'')
                      | None \<Rightarrow> do {
                          (if gravity_odd (norm3 total3) then
                             r_Warn env g ''pose-magnitude'' (''|a| = '' @ fmt_fixed 2 (norm3 total3) @ '' in '' @ quote p @
                               ''; magnitude calibration is not established, direction test continues'')
                           else unit_prog);
                          pose_loop env c g dev rest ((axis, p) # got) }) })) } } }"

definition poseTest :: "henv \<Rightarrow> Ctx \<Rightarrow> string \<Rightarrow> string \<Rightarrow> unit hprog" where
  "poseTest env c g dev = pose_loop env c g dev poses []"

section \<open>The group\<close>

definition mustStayUnbound :: "string list" where
  "mustStayUnbound = [''rt9471'', ''bq78z100'', ''bq27'']"

definition after_slash :: "string \<Rightarrow> string" where
  "after_slash d = rev (takeWhile (\<lambda>c. c \<noteq> CHR ''/'') (rev d))"

definition i2c_step :: "henv \<Rightarrow> Ctx \<Rightarrow> string \<Rightarrow> string list \<times> string list \<Rightarrow> string \<Rightarrow> (string list \<times> string list) hprog" where
  "i2c_step env c g acc d = do {
     let i = after_slash d;
     (name, _) \<leftarrow> Ctx_read env c (d @ ''/name'');
     drv \<leftarrow> linkBase env c (d @ ''/driver'');
     (if i = ''1-0049'' \<and> drv \<noteq> [] then
        r_Fail env g (''i2c-'' @ i) (''unidentified ambient-light/proximity part is bound to '' @ drv @ ''; it must remain unbound'')
      else unit_prog);
     foreach (\<lambda>bad. if contains (to_lower name) bad \<and> drv \<noteq> [] then
                r_Fail env g (''i2c-'' @ i) (name @ '' is bound to '' @ drv @ ''; it must stay disabled until validated'')
              else unit_prog) mustStayUnbound;
     ret (if drv = [] then (fst acc, snd acc @ [i @ '':'' @ name])
          else (fst acc @ [i @ '':'' @ name @ ''->'' @ drv], snd acc)) }"

definition checkI2C :: "henv \<Rightarrow> Ctx \<Rightarrow> string \<Rightarrow> unit hprog" where
  "checkI2C env c g = do {
     ds \<leftarrow> glob env c ''/sys/bus/i2c/devices/[0-9]*-00*'';
     (bound, unbound) \<leftarrow> foldp (i2c_step env c g) ([], []) ds;
     r_Info env g ''i2c-bound'' (dec (length bound) @ '' clients: '' @ join_with '', '' bound);
     (if unbound \<noteq> [] then r_Info env g ''i2c-unbound'' (join_with '', '' unbound) else unit_prog);
     r_Skip env g ''light-sensor''
       ''no ambient-light protocol probe implemented; I2C enumeration does not prove lux/proximity sensing'' }"

definition adc_step :: "henv \<Rightarrow> Ctx \<Rightarrow> nat \<times> nat \<Rightarrow> string \<Rightarrow> (nat \<times> nat) hprog" where
  "adc_step env c a p = do {
     (_, err) \<leftarrow> readInt env c p;
     ret (if err \<noteq> None then (fst a, snd a + 1) else (fst a + 1, snd a)) }"

definition replace_nl :: "string \<Rightarrow> string" where
  "replace_nl = map (\<lambda>ch. if ch = LF then CHR '' '' else ch)"

definition check_accel :: "henv \<Rightarrow> Ctx \<Rightarrow> string \<Rightarrow> string \<Rightarrow> unit hprog" where
  "check_accel env c g dev = do {
     s \<leftarrow> accelSample env c dev;
     (case s of
        Inl e \<Rightarrow> r_Fail env g ''accelerometer'' (etext e)
      | Inr v \<Rightarrow>
          if gravity_odd (norm3 v) then
            r_Warn env g ''accelerometer'' (''|a| = '' @ fmt_fixed 2 (norm3 v) @ '' m/s^2, expected about 9.81 if stationary ('' @
              xyz_text 2 '','' v @ ''); motion or calibration can explain this'')
          else
            r_Pass env g ''accelerometer'' (''|a| = '' @ fmt_fixed 2 (norm3 v) @ '' m/s^2 ('' @ xyz_text 2 '', '' v @ '')''));
     (mm, merr) \<leftarrow> Ctx_read env c (dev @ ''/in_mount_matrix'');
     (if merr = None then r_Info env g ''mount-matrix'' (replace_nl mm) else unit_prog);
     (case s of
        Inr _ \<Rightarrow> if Interactive c then poseTest env c g dev else r_Skip env g ''poses'' ''needs -interactive''
      | Inl _ \<Rightarrow> if \<not> Interactive c then r_Skip env g ''poses'' ''needs -interactive'' else unit_prog) }"

definition checkSensors :: "henv \<Rightarrow> Ctx \<Rightarrow> string \<Rightarrow> unit hprog" where
  "checkSensors env c g = do {
     dev \<leftarrow> accelDevice env c;
     (if dev = [] then r_Fail env g ''accelerometer'' ''mc3416 IIO device absent''
      else check_accel env c g dev);
     chans \<leftarrow> glob env c ''/sys/bus/iio/devices/iio:device*/in_voltage*_input'';
     (ok, bad) \<leftarrow> foldp (adc_step env c) (0, 0) chans;
     (if ok + bad = 0 then r_Warn env g ''adc'' ''no auxadc channels''
      else if 0 < bad then r_Warn env g ''adc'' (dec ok @ ''/'' @ dec (ok + bad) @ '' channels readable'')
      else r_Pass env g ''adc'' (dec ok @ '' auxadc channels readable''));
     checkI2C env c g }"

section \<open>Consent\<close>

lemma accel_axes_ok [hw_ok]: "keeps (hw_safe c g) (accel_axes env c dev scale as acc)"
  by (induction as arbitrary: acc) (auto simp: Let_def intro!: hw_intros hw_ok)

lemma accel_find_ok [hw_ok]: "keeps (hw_safe c g) (accel_find env c ds)"
  by (induction ds) (auto intro!: hw_intros hw_ok)

lemma accelSample_ok [hw_ok]: "keeps (hw_safe c g) (accelSample env c dev)"
  unfolding accelSample_def readOr_def by (intro hw_intros hw_ok)

lemma pose_samples_ok [hw_ok]: "Interactive c \<Longrightarrow> keeps (hw_safe c g) (pose_samples env c g dev n total3)"
  by (induction n arbitrary: total3) (auto simp: Let_def intro!: hw_intros hw_ok)

lemma pose_loop_ok [hw_ok]: "Interactive c \<Longrightarrow> keeps (hw_safe c g) (pose_loop env c g dev ps got)"
  by (induction ps arbitrary: got) (auto intro!: hw_intros hw_ok)

lemma check_accel_ok [hw_ok]: "keeps (hw_safe c g) (check_accel env c g dev)"
  unfolding check_accel_def poseTest_def by (intro hw_intros hw_ok)

lemma checkI2C_ok [hw_ok]: "keeps (hw_safe c g) (checkI2C env c g)"
  unfolding checkI2C_def i2c_step_def Let_def by (intro hw_intros hw_ok)

lemma checkSensors_ok [hw_ok]: "keeps (hw_safe c g) (checkSensors env c g)"
  unfolding checkSensors_def accelDevice_def adc_step_def by (intro hw_intros hw_ok)

end
