(* ===== verification/Hw_Connect.thy ===== *)
theory Hw_Connect
  imports Hw_Core
begin

text \<open>
  The Wi-Fi, Bluetooth and USB groups of \<^verbatim>\<open>tools/hwtest\<close> (\<^verbatim>\<open>connect.go\<close>).  The dialler of the probe is the
  operation \<open>HDial\<close>: a TCP connection bound to \<^verbatim>\<open>wlan0\<close> that sends nothing; its failures are classified by
  \<open>errkind\<close>.  The wait for a USB host polls until a deadline of the monotonic clock; the number of polls
  is bounded by a parameter of the model, and \<open>wait_usb_enough\<close> shows from which bound on it is never
  reached while the clock advances.
\<close>

section \<open>Shared reads\<close>

definition inspect :: "henv \<Rightarrow> Ctx \<Rightarrow> string \<Rightarrow> herr option hprog" where
  "inspect env c p = do {
     q \<leftarrow> readPath env c p;
     (case q of
        Inl e \<Rightarrow> ret (Some e)
      | Inr target \<Rightarrow> do { r \<leftarrow> act env (HStat target); ret (h_ok r) }) }"

definition connectivityPresent :: "henv \<Rightarrow> Ctx \<Rightarrow> string \<Rightarrow> string \<Rightarrow> string \<Rightarrow> bool hprog" where
  "connectivityPresent env c g name path = do {
     err \<leftarrow> inspect env c path;
     (case err of
        None \<Rightarrow> ret True
      | Some e \<Rightarrow> do {
          (if kind e = ENotExist then r_Fail env g name ''required interface missing''
           else if kind e = EPermission then r_Skip env g name ''interface inspection denied''
           else r_Warn env g name ''could not inspect interface'');
          ret False }) }"

definition connectivityRead :: "henv \<Rightarrow> Ctx \<Rightarrow> string \<Rightarrow> string \<Rightarrow> string \<Rightarrow> (string \<times> bool) hprog" where
  "connectivityRead env c g name path = do {
     (v, err) \<leftarrow> Ctx_read env c path;
     (case err of
        None \<Rightarrow> ret (v, True)
      | Some e \<Rightarrow> do {
          (if kind e = EPermission then r_Skip env g name ''read permission denied''
           else r_Fail env g name (''could not read '' @ path));
          ret ([], False) }) }"

definition connectivityCounter :: "henv \<Rightarrow> Ctx \<Rightarrow> string \<Rightarrow> string \<Rightarrow> string \<Rightarrow> (int \<times> bool) hprog" where
  "connectivityCounter env c g name path = do {
     (v, err) \<leftarrow> readInt env c path;
     if err = None \<and> 0 \<le> v then ret (v, True)
     else do {
       (if (case err of Some e \<Rightarrow> kind e = EPermission | None \<Rightarrow> False) then r_Skip env g name ''read permission denied''
        else r_Fail env g name (''could not read a nonnegative counter from '' @ path));
       ret (0, False) } }"

section \<open>Wi-Fi\<close>

definition wl :: string where "wl = ''/sys/class/net/wlan0''"

definition check_driver :: "henv \<Rightarrow> Ctx \<Rightarrow> string \<Rightarrow> unit hprog" where
  "check_driver env c g = do {
     r \<leftarrow> act env (HReadlink (cpath c (wl @ ''/device/driver'')));
     (case h_text r of
        Inl e \<Rightarrow> if kind e = EPermission then r_Skip env g ''driver'' ''driver inspection denied''
                 else r_Warn env g ''driver'' ''could not read driver symlink''
      | Inr driver \<Rightarrow>
          if Base driver \<noteq> ''mt7921s'' then r_Fail env g ''driver'' ''wlan0 is not bound to mt7921s''
          else r_Pass env g ''driver'' ''mt7921s'') }"

definition check_link :: "henv \<Rightarrow> Ctx \<Rightarrow> string \<Rightarrow> bool hprog" where
  "check_link env c g = do {
     (opst, readable) \<leftarrow> connectivityRead env c g ''link'' (wl @ ''/operstate'');
     (if \<not> readable then unit_prog
      else if opst = ''up'' then r_Pass env g ''link'' ''operstate up (does not prove peer reachability)''
      else if opst \<in> set [''unknown'', ''notpresent'', ''down'', ''lowerlayerdown'', ''testing'', ''dormant''] then
        r_Warn env g ''link'' ''interface is not operationally up''
      else r_Fail env g ''link'' ''unrecognized operstate value'');
     ret (readable \<and> opst = ''up'') }"

text \<open>The addresses of the interface as texts; an error means that there is no such interface, any
  other answer that its addresses could not be read.\<close>

definition addr_verdict :: "henv \<Rightarrow> string \<Rightarrow> hresp \<Rightarrow> unit hprog" where
  "addr_verdict env g r =
     (case r of
        HNames as \<Rightarrow>
          let ips = List.map_filter ParseCIDR as;
              v4 = length (filter is_v4 ips)
          in r_Info env g ''addresses'' (dec v4 @ '' IPv4 and '' @ dec (length ips - v4) @
               '' IPv6 address(es) assigned; identifiers omitted'')
      | HErr e \<Rightarrow> r_Warn env g ''addresses'' ''could not inspect wlan0 addresses''
      | _ \<Rightarrow> r_Warn env g ''addresses'' ''could not read wlan0 addresses'')"

definition check_addresses :: "henv \<Rightarrow> Ctx \<Rightarrow> string \<Rightarrow> unit hprog" where
  "check_addresses env c g =
     (if \<not> filepathRootIsSlash c then
        r_Skip env g ''addresses'' ''live interface inspection disabled for a relocated root''
      else do { r \<leftarrow> act env (HIfaceAddrs ''wlan0''); addr_verdict env g r })"

definition check_counter :: "henv \<Rightarrow> Ctx \<Rightarrow> string \<Rightarrow> string \<Rightarrow> unit hprog" where
  "check_counter env c g n = do {
     (v, ok) \<leftarrow> connectivityCounter env c g n (wl @ ''/statistics/'' @ n);
     if ok then r_Info env g n (dec_int v @ '' since boot'') else unit_prog }"

definition wifiDial :: "henv \<Rightarrow> string \<Rightarrow> herr option hprog" where
  "wifiDial env target = do { r \<leftarrow> act env (HDial target); ret (h_ok r) }"

definition dial_verdict :: "henv \<Rightarrow> string \<Rightarrow> herr option \<Rightarrow> unit hprog" where
  "dial_verdict env g err =
     (case map_option kind err of
        None \<Rightarrow> r_Pass env g ''reachability'' ''explicit TCP target accepted a connection via wlan0 (no payload)''
      | Some EPermission \<Rightarrow> r_Skip env g ''reachability'' ''insufficient privilege to bind the probe to wlan0; no unbound retry''
      | Some ECanceled \<Rightarrow> r_Skip env g ''reachability'' ''probe cancelled''
      | Some ERefused \<Rightarrow> r_Pass env g ''reachability'' ''TCP refusal received via wlan0; service availability not established''
      | _ \<Rightarrow> r_Warn env g ''reachability''
               ''explicit TCP probe via wlan0 did not complete within its limit or encountered a socket error'')"

definition target_error :: "string \<Rightarrow> string" where
  "target_error target =
     (case SplitHostPort target of
        Some (host, port) \<Rightarrow>
          if ParseIP host = None then ''network target must be a literal IP:port (IPv6 in brackets); DNS is not used''
          else ''network target must use a numeric TCP port from 1 to 65535''
      | None \<Rightarrow> ''network target must be a literal IP:port (IPv6 in brackets); DNS is not used'')"

definition check_reachability :: "henv \<Rightarrow> Ctx \<Rightarrow> string \<Rightarrow> bool \<Rightarrow> unit hprog" where
  "check_reachability env c g up =
     (if NetworkTarget c = [] then
        r_Skip env g ''reachability'' ''requires an explicit -network-target; -active never probes the network''
      else if \<not> filepathRootIsSlash c then
        r_Skip env g ''reachability'' ''network probes disabled for a relocated root''
      else (case wifiNetworkTarget (NetworkTarget c) of
              None \<Rightarrow> r_Skip env g ''reachability'' (target_error (NetworkTarget c))
            | Some target \<Rightarrow>
                if \<not> up then r_Skip env g ''reachability'' ''wlan0 link is unavailable''
                else do { err \<leftarrow> wifiDial env target; dial_verdict env g err }))"

definition checkWiFi :: "henv \<Rightarrow> Ctx \<Rightarrow> string \<Rightarrow> unit hprog" where
  "checkWiFi env c g = do {
     p \<leftarrow> connectivityPresent env c g ''wlan0'' wl;
     if \<not> p then unit_prog
     else do {
       check_driver env c g;
       up \<leftarrow> check_link env c g;
       check_addresses env c g;
       foreach (check_counter env c g) [''rx_bytes'', ''tx_bytes'', ''rx_errors'', ''tx_errors''];
       check_reachability env c g up } }"

section \<open>Bluetooth\<close>

definition rfkill_step :: "henv \<Rightarrow> Ctx \<Rightarrow> string \<Rightarrow> bool \<Rightarrow> string \<Rightarrow> bool hprog" where
  "rfkill_step env c g found rf = do {
     (t, ok) \<leftarrow> connectivityRead env c g ''rfkill-type'' (rf @ ''/type'');
     if \<not> ok \<or> t \<noteq> ''bluetooth'' then ret found
     else do {
       (soft, softOK) \<leftarrow> connectivityCounter env c g ''rfkill-soft'' (rf @ ''/soft'');
       (hard, hardOK) \<leftarrow> connectivityCounter env c g ''rfkill-hard'' (rf @ ''/hard'');
       (if \<not> softOK \<or> \<not> hardOK then unit_prog
        else if 1 < soft \<or> 1 < hard then r_Fail env g ''rfkill'' ''invalid block-state value''
        else if soft \<noteq> 0 \<or> hard \<noteq> 0 then
          r_Warn env g ''rfkill'' (''blocked (soft='' @ dec_int soft @ '' hard='' @ dec_int hard @
            ''); blocking does not establish a malfunction'')
        else r_Pass env g ''rfkill'' ''not blocked'');
       ret True } }"

definition bool_text :: "bool \<Rightarrow> string" where
  "bool_text b = (if b then ''true'' else ''false'')"

definition hci_verdict :: "henv \<Rightarrow> string \<Rightarrow> hresp \<Rightarrow> unit hprog" where
  "hci_verdict env g r =
     (case r of
        HHci flags bdaddr \<Rightarrow>
          let up = bit flags 0; running = bit flags 2 in
          if \<not> up \<or> \<not> running then
            r_Warn env g ''hci-state'' (''UP='' @ bool_text up @ '' RUNNING='' @ bool_text running @
              ''; administratively down or setup incomplete (not malfunction proof)'')
          else if list_all (\<lambda>b. b = 0) bdaddr then
            r_Fail env g ''hci-state'' ''controller address is unset (possible firmware setup failure)''
          else r_Pass env g ''hci-state'' ''UP and RUNNING; controller address set (identifier omitted)''
      | _ \<Rightarrow> if kind (h_error r) = EPermission then
               r_Skip env g ''hci-state'' ''permission denied for read-only controller ioctl''
             else r_Warn env g ''hci-state'' ''read-only controller ioctl failed'')"

definition check_hci :: "henv \<Rightarrow> Ctx \<Rightarrow> string \<Rightarrow> unit hprog" where
  "check_hci env c g =
     (if \<not> filepathRootIsSlash c then
        r_Skip env g ''hci-state'' ''live controller ioctl disabled for a relocated root''
      else do { r \<leftarrow> act env HHciInfo; hci_verdict env g r })"

definition checkBluetooth :: "henv \<Rightarrow> Ctx \<Rightarrow> string \<Rightarrow> unit hprog" where
  "checkBluetooth env c g = do {
     let hci = ''/sys/class/bluetooth/hci0'';
     p \<leftarrow> connectivityPresent env c g ''hci0'' hci;
     if \<not> p then unit_prog
     else do {
       r \<leftarrow> act env (HReadlink (cpath c hci));
       (case h_text r of
          Inl _ \<Rightarrow> r_Warn env g ''transport'' ''could not read controller symlink''
        | Inr target \<Rightarrow>
            if contains target ''mmc'' then r_Pass env g ''transport'' ''controller sits on the SDIO bus''
            else r_Warn env g ''transport'' ''controller symlink does not identify an SDIO transport'');
       rfs \<leftarrow> glob env c ''/sys/class/rfkill/rfkill*'';
       found \<leftarrow> foldp (rfkill_step env c g) False rfs;
       (if \<not> found then r_Fail env g ''rfkill'' ''no readable Bluetooth rfkill entry'' else unit_prog);
       check_hci env c g;
       r_Skip env g ''discovery'' ''not performed: read-only checks never change Bluetooth discovery state'';
       r_Skip env g ''pairing'' ''pairing and A2DP require a separately authorized peer test'' } }"

section \<open>USB\<close>

definition knownUDCState :: "string \<Rightarrow> bool" where
  "knownUDCState s =
     (s \<in> set [''not attached'', ''attached'', ''powered'', ''reconnecting'', ''unauthenticated'', ''default'',
               ''addressed'', ''configured'', ''suspended''])"

definition check_udc :: "henv \<Rightarrow> Ctx \<Rightarrow> string \<Rightarrow> string list \<Rightarrow> unit hprog" where
  "check_udc env c g udc =
     (case udc of
        [] \<Rightarrow> r_Fail env g ''udc'' ''no UDC registered''
      | u # _ \<Rightarrow> do {
          (st, ok) \<leftarrow> connectivityRead env c g ''udc'' (u @ ''/state'');
          if \<not> ok then unit_prog
          else if knownUDCState st then r_Info env g ''udc'' (''state '' @ st)
          else r_Fail env g ''udc'' ''unrecognized UDC state'' })"

definition check_gadget :: "henv \<Rightarrow> Ctx \<Rightarrow> string \<Rightarrow> unit hprog" where
  "check_gadget env c g = do {
     let p = ''/sys/kernel/config/usb_gadget/g1'';
     err \<leftarrow> inspect env c p;
     (case err of
        Some e \<Rightarrow> if kind e = EPermission then r_Skip env g ''gadget'' ''gadget inspection denied''
                  else r_Warn env g ''gadget'' ''g1 unavailable (configfs unmounted or gadget not created)''
      | None \<Rightarrow> do {
          (u, ok) \<leftarrow> connectivityRead env c g ''gadget'' (p @ ''/UDC'');
          if \<not> ok then unit_prog
          else if u = [] then r_Fail env g ''gadget'' ''g1 exists but is unbound: it must stay bound, including in host mode''
          else r_Pass env g ''gadget'' ''g1 bound (including in host mode)'' }) }"

definition check_carrier :: "henv \<Rightarrow> Ctx \<Rightarrow> string \<Rightarrow> unit hprog" where
  "check_carrier env c g = do {
     (car, ok) \<leftarrow> connectivityRead env c g ''usb0'' ''/sys/class/net/usb0/carrier'';
     if \<not> ok then unit_prog
     else if car = ''0'' then r_Info env g ''usb0'' ''present, no carrier''
     else if car = ''1'' then r_Info env g ''usb0'' ''present, carrier detected''
     else r_Fail env g ''usb0'' ''unrecognized carrier value'' }"

definition check_role :: "henv \<Rightarrow> Ctx \<Rightarrow> string \<Rightarrow> unit hprog" where
  "check_role env c g = do {
     (dr, ok) \<leftarrow> connectivityRead env c g ''data-role'' ''/sys/class/typec/port0/data_role'';
     if \<not> ok then unit_prog
     else if dr = ''host'' \<or> contains dr ''[host]'' then r_Info env g ''data-role'' ''host''
     else if dr = ''device'' \<or> contains dr ''[device]'' then r_Info env g ''data-role'' ''device''
     else r_Fail env g ''data-role'' ''active role unavailable'' }"

text \<open>The polling loop: two reads, a verdict or a pause of at most half a second.  \<open>None\<close> means that
  the bound on the polls was reached.\<close>

fun wait_loop :: "henv \<Rightarrow> Ctx \<Rightarrow> string \<Rightarrow> string \<Rightarrow> string \<Rightarrow> string \<Rightarrow> int \<Rightarrow> nat \<Rightarrow> unit option hprog" where
  "wait_loop env c g statePath carrierPath limit deadline 0 = ret None"
| "wait_loop env c g statePath carrierPath limit deadline (Suc n) = do {
     now \<leftarrow> act env HNow;
     if \<not> fst (h_time now) < deadline then do {
       r_Fail env g ''host-link'' (''no configured gadget with ECM carrier observed within '' @ limit);
       ret (Some ()) }
     else do {
       e \<leftarrow> act env HCtxErr;
       if has_Cancel c \<and> h_cancelled e \<noteq> None then do {
         r_Skip env g ''host-link'' ''interactive wait cancelled'';
         ret (Some ()) }
       else do {
         (st, stateOK) \<leftarrow> connectivityRead env c g ''host-link-state'' statePath;
         (car, carrierOK) \<leftarrow> connectivityRead env c g ''host-link-carrier'' carrierPath;
         if \<not> stateOK \<or> \<not> carrierOK then do {
           r_Skip env g ''host-link'' ''cannot observe UDC state and ECM carrier'';
           ret (Some ()) }
         else if \<not> knownUDCState st \<or> car \<noteq> ''0'' \<and> car \<noteq> ''1'' then do {
           r_Fail env g ''host-link'' ''invalid UDC state or carrier value; link not established'';
           ret (Some ()) }
         else if st = ''configured'' \<and> car = ''1'' then do {
           r_Pass env g ''host-link'' ''host configured the gadget and ECM has carrier; SSH still needs an independent PC-side test'';
           ret (Some ()) }
         else do {
           now2 \<leftarrow> act env HNow;
           ok \<leftarrow> paused env c (nat (min (deadline - fst (h_time now2)) (int (500 * ms))));
           if \<not> ok then do {
             r_Skip env g ''host-link'' ''interactive wait cancelled'';
             ret (Some ()) }
           else wait_loop env c g statePath carrierPath limit deadline n } } } }"

definition waitUSBHost :: "henv \<Rightarrow> Ctx \<Rightarrow> string \<Rightarrow> string \<Rightarrow> string \<Rightarrow> nat \<Rightarrow> string \<Rightarrow> nat \<Rightarrow> unit option hprog" where
  "waitUSBHost env c g statePath carrierPath timeout limit polls = do {
     e \<leftarrow> act env HCtxErr;
     if has_Cancel c \<and> h_cancelled e \<noteq> None then do {
       r_Skip env g ''host-link'' ''interactive wait cancelled'';
       ret (Some ()) }
     else do {
       now \<leftarrow> act env HNow;
       wait_loop env c g statePath carrierPath limit (fst (h_time now) + int (timeout * ms)) polls } }"

definition usb_devices :: "string list \<Rightarrow> nat" where
  "usb_devices ds = length (filter (\<lambda>d. CHR '':'' \<notin> set (Base d)) ds)"

definition usb_polls :: nat where "usb_polls = 92"

definition checkUSB :: "henv \<Rightarrow> Ctx \<Rightarrow> string \<Rightarrow> unit hprog" where
  "checkUSB env c g = do {
     udc \<leftarrow> glob env c ''/sys/class/udc/*'';
     check_udc env c g udc;
     check_gadget env c g;
     check_carrier env c g;
     check_role env c g;
     ds \<leftarrow> glob env c ''/sys/bus/usb/devices/[0-9]*-[0-9]*'';
     r_Info env g ''usb-devices'' (dec (usb_devices ds) @ '' enumerated device(s); peer identifiers omitted'');
     if \<not> Interactive c then r_Skip env g ''host-link'' ''requires -interactive (plug a PC to observe ECM)''
     else if \<not> filepathRootIsSlash c then r_Skip env g ''host-link'' ''interactive wait disabled for a relocated root''
     else (case udc of
             [] \<Rightarrow> r_Skip env g ''host-link'' ''no UDC to observe''
           | u # _ \<Rightarrow> do {
               e \<leftarrow> act env HCtxErr;
               if has_Cancel c \<and> h_cancelled e \<noteq> None then r_Skip env g ''host-link'' ''interactive wait cancelled''
               else do {
                 say env ''Connect the tablet to a PC with a USB data cable now (45 s, Ctrl-C cancels)...'';
                 _ \<leftarrow> waitUSBHost env c g (u @ ''/state'') ''/sys/class/net/usb0/carrier'' 45000 ''45s'' usb_polls;
                 unit_prog } }) }"

section \<open>Consent\<close>

lemma connectivity_ok [hw_ok]:
  "keeps (hw_safe c g) (connectivityRead env c g n p)" "keeps (hw_safe c g) (connectivityCounter env c g n p)"
  unfolding connectivityRead_def connectivityCounter_def by (intro hw_intros hw_ok)+

lemma inspect_ok [hw_ok]: "keeps (hw_safe c g) (inspect env c p)"
  unfolding inspect_def by (rule open_ok) (auto simp: opens_def intro!: hw_intros)

lemma connectivityPresent_ok [hw_ok]: "keeps (hw_safe c g) (connectivityPresent env c g n p)"
  unfolding connectivityPresent_def by (intro hw_intros hw_ok)

lemma check_reachability_ok [hw_ok]: "keeps (hw_safe c g) (check_reachability env c g up)"
proof -
  have "keeps (hw_safe c g) (dial_verdict env g err)" for err
    unfolding dial_verdict_def by (auto intro!: hw_ok split: option.split errkind.split)
  then show ?thesis
    unfolding check_reachability_def wifiDial_def by (intro hw_intros hw_ok) auto
qed

lemma verdicts_ok [hw_ok]: "keeps (hw_safe c g) (addr_verdict env g r)" "keeps (hw_safe c g) (hci_verdict env g r)"
  unfolding addr_verdict_def hci_verdict_def Let_def by (cases r; auto intro!: hw_ok)+

lemma check_addresses_ok [hw_ok]: "keeps (hw_safe c g) (check_addresses env c g)"
  unfolding check_addresses_def by (intro hw_intros hw_ok) auto

lemma check_hci_ok [hw_ok]: "keeps (hw_safe c g) (check_hci env c g)"
  unfolding check_hci_def by (intro hw_intros hw_ok) auto

lemma checkWiFi_ok [hw_ok]: "keeps (hw_safe c g) (checkWiFi env c g)"
  unfolding checkWiFi_def check_driver_def check_link_def check_counter_def
  by (intro hw_intros hw_ok) auto

lemma checkBluetooth_ok [hw_ok]: "keeps (hw_safe c g) (checkBluetooth env c g)"
  unfolding checkBluetooth_def rfkill_step_def Let_def by (intro hw_intros hw_ok) auto

lemma wait_loop_ok [hw_ok]: "Interactive c \<Longrightarrow> keeps (hw_safe c g) (wait_loop env c g sp cp l d n)"
  by (induction n) (auto intro!: hw_intros hw_ok)

lemma checkUSB_ok [hw_ok]: "keeps (hw_safe c g) (checkUSB env c g)"
  unfolding checkUSB_def check_udc_def check_gadget_def check_carrier_def check_role_def waitUSBHost_def Let_def
  by (intro hw_intros hw_ok) auto

section \<open>The wait ends\<close>

text \<open>What the history says of the monotonic clock: no later reading is below an earlier one, and a pause
  that was not interrupted lets its duration pass.\<close>

definition clock_step :: "int \<Rightarrow> hop \<times> hresp \<Rightarrow> int" where
  "clock_step t e =
     (case fst e of
        HNow \<Rightarrow> (case snd e of HTime a b \<Rightarrow> max t a | _ \<Rightarrow> t)
      | HPause d \<Rightarrow> (if h_cancelled (snd e) = None then t + int d else t)
      | _ \<Rightarrow> t)"

definition clock :: "(hop, hresp) events \<Rightarrow> int" where
  "clock tr = foldl clock_step 0 tr"

definition steady :: "henv \<Rightarrow> bool" where
  "steady env \<longleftrightarrow> (\<forall>tr. \<exists>a b. env tr HNow = HTime a b \<and> clock tr \<le> a)"

lemma clock_step_mono: "t \<le> clock_step t e"
  by (auto simp: clock_step_def split: hop.split hresp.split)

lemma clock_append: "clock tr \<le> clock (tr @ new)"
proof -
  have "t \<le> foldl clock_step t new" for t
  proof (induction new arbitrary: t)
    case (Cons e new)
    then show ?case using clock_step_mono[of t e] order_trans[OF _ Cons.IH] by simp
  qed simp
  then show ?thesis by (simp add: clock_def)
qed

lemma clock_snoc: "clock (tr @ [e]) = clock_step (clock tr) e"
  by (simp add: clock_def)

lemma clock_keeps: "keeps T m \<Longrightarrow> clock tr \<le> clock (snd (run_state m tr))"
  using clock_append unfolding keeps_def emits_def by metis

definition returns :: "('a option) hprog \<Rightarrow> (hop, hresp) events \<Rightarrow> bool" where
  "returns m tr \<longleftrightarrow> fst (run_state m tr) \<noteq> None"

lemma returns_some: "returns (ret (Some a)) tr" "returns (add env g s n d \<bind> (\<lambda>_. ret (Some a))) tr"
  by (simp_all add: returns_def add_def act_def)

lemma returns_after:
  assumes "keeps (hw_safe c g) m" "\<And>a tr'. clock tr \<le> clock tr' \<Longrightarrow> returns (f a) tr'"
  shows "returns (m \<bind> f) tr"
proof -
  obtain a tr' where r: "run_state m tr = (a, tr')" by fastforce
  then have "clock tr \<le> clock tr'" using clock_keeps[OF assms(1), of tr] by simp
  then show ?thesis using assms(2)[of tr' a] r by (simp add: returns_def)
qed

lemma returns_now:
  assumes "steady env" "\<And>a b tr'. clock tr \<le> a \<Longrightarrow> a \<le> clock tr' \<Longrightarrow> returns (f (HTime a b)) tr'"
  shows "returns (act env HNow \<bind> f) tr"
proof -
  obtain a b where "env tr HNow = HTime a b" "clock tr \<le> a" using assms(1) unfolding steady_def by blast
  then show ?thesis using assms(2)[of a "tr @ [(HNow, HTime a b)]" b] by (simp add: returns_def act_def clock_snoc clock_step_def)
qed

lemma returns_pause:
  assumes "has_Cancel c" "returns (f False) (tr @ [(HPause d, env tr (HPause d))])"
    "\<And>tr'. clock tr + int d \<le> clock tr' \<Longrightarrow> returns (f True) tr'"
  shows "returns (paused env c d \<bind> f) tr"
proof -
  define r where "r = env tr (HPause d)"
  show ?thesis
  proof (cases "h_cancelled r")
    case None
    then have "clock tr + int d \<le> clock (tr @ [(HPause d, r)])" by (simp add: clock_snoc clock_step_def)
    then show ?thesis using assms(1) assms(3)[of "tr @ [(HPause d, r)]"] None by (simp add: returns_def paused_def act_def r_def)
  next
    case (Some e)
    then show ?thesis using assms(1,2) by (simp add: returns_def paused_def act_def r_def)
  qed
qed

lemma returns_if: "(b \<Longrightarrow> returns m tr) \<Longrightarrow> (\<not> b \<Longrightarrow> returns n tr) \<Longrightarrow> returns (if b then m else n) tr"
  by simp

lemma returns_prod: "(\<And>a b. returns (f a b) tr) \<Longrightarrow> returns (case x of (a, b) \<Rightarrow> f a b) tr"
  by (cases x) simp

lemma wait_loop_returns:
  assumes "steady env" "has_Cancel c"
  shows "D - clock tr \<le> int n * int (500 * ms) \<Longrightarrow> returns (wait_loop env c g sp cp l D (Suc n)) tr"
proof (induction n arbitrary: tr)
  case 0
  show ?case
    unfolding wait_loop.simps
    by (rule returns_now[OF assms(1)], rule returns_if) (use 0 in \<open>auto simp: h_time_def intro: returns_some\<close>)
next
  case (Suc n)
  have step: "returns (wait_loop env c g sp cp l D (Suc n)) tr'"
    if "t + (if a2 \<le> D then min (D - a2) (500 * int ms) else 0) \<le> clock tr'" "a2 \<le> t" "clock tr \<le> a2" for a2 t tr'
    using that Suc.prems by (intro Suc.IH) (auto simp: ms_def min_def split: if_splits)
  show ?case
    unfolding wait_loop.simps(2)[of _ _ _ _ _ _ _ "Suc n"]
    by (intro returns_now[OF assms(1)] returns_if returns_prod returns_some returns_pause[OF assms(2)] returns_after[of c g] hw_ok hw_intros;
        simp add: h_time_def del: wait_loop.simps) (erule step; linarith)
qed

text \<open>With 91 polls or more the wait never runs out of them: it takes at most 45 seconds of the clock, half a
  second a poll.\<close>

lemma wait_usb_enough:
  assumes "steady env" "has_Cancel c" "91 \<le> polls"
  shows "returns (waitUSBHost env c g sp cp 45000 l polls) tr"
proof -
  obtain n where n: "polls = Suc n" "90 \<le> n" using assms(3) by (cases polls) auto
  have "returns (wait_loop env c g sp cp l (a + int (45000 * ms)) (Suc n)) tr'" if "a \<le> clock tr'" for a tr'
    by (rule wait_loop_returns[OF assms(1,2)]) (use that n in \<open>auto simp: ms_def\<close>)
  then show ?thesis
    unfolding waitUSBHost_def n
    by (intro returns_after[of c g] returns_if returns_some returns_now[OF assms(1)] hw_ok hw_intros)
       (auto simp: h_time_def)
qed

section \<open>The verdict of the wait\<close>

definition link_results :: "(hop, hresp) events \<Rightarrow> nat" where
  "link_results tr = length (filter (\<lambda>r. Name r = ''host-link'') (results tr))"

lemma link_append [simp]: "link_results (xs @ ys) = link_results xs + link_results ys" "link_results [] = 0"
  by (simp_all add: link_results_def)

interpretation nl: trace_property "\<lambda>tr. link_results tr = 0"
  by unfold_locales auto

lemmas nl_intros = nl.keeps_return nl.keeps_bind keeps_cases keeps_act

lemma no_link_act: "(\<And>res. oper \<noteq> HAdd res) \<Longrightarrow> link_results [(oper, r)] = 0"
  by (auto simp: link_results_def split: hop.split)

lemma no_link_read:
  assumes "n \<noteq> ''host-link''"
  shows "keeps (\<lambda>tr. link_results tr = 0) (connectivityRead env c g n p)"
proof -
  have "keeps (\<lambda>tr. link_results tr = 0) (add env g s n d)" for s d
    unfolding add_def by (intro nl_intros) (simp_all add: link_results_def assms)
  then show ?thesis
    unfolding connectivityRead_def Ctx_read_def readPath_def
    by (intro nl_intros no_link_act) simp_all
qed

text \<open>One verdict: a wait that returns has reported exactly one result of its own.\<close>

definition one_verdict :: "unit option \<Rightarrow> (hop, hresp) events \<Rightarrow> bool" where
  "one_verdict res tr \<longleftrightarrow> link_results tr = (if res = None then 0 else 1)"

lemma verdict_add: "emits (add env g s ''host-link'' d \<bind> (\<lambda>_. ret (Some ()))) one_verdict"
  unfolding add_def by (auto simp: one_verdict_def link_results_def intro!: emits_act_bind emits_return)

lemma verdict_after:
  assumes "keeps (\<lambda>tr. link_results tr = 0) m" "\<And>a. emits (f a) one_verdict"
  shows "emits (m \<bind> f) one_verdict"
  by (rule emits_bind[OF assms(1)[unfolded keeps_def]], rule emits_weaken[OF assms(2)]) (simp add: one_verdict_def)

lemma verdict_prod: "(\<And>a b. emits (f a b) one_verdict) \<Longrightarrow> emits (case x of (a, b) \<Rightarrow> f a b) one_verdict"
  by (cases x) simp

lemma wait_loop_verdict: "emits (wait_loop env c g sp cp l D n) one_verdict"
proof (induction n)
  case 0
  then show ?case by (auto simp: one_verdict_def intro: emits_return)
next
  case (Suc n)
  have a: "keeps (\<lambda>tr. link_results tr = 0) (act env oper)" if "\<And>res. oper \<noteq> HAdd res" for oper
    using that by (intro keeps_act no_link_act)
  have p: "keeps (\<lambda>tr. link_results tr = 0) (paused env c d)" for d
    unfolding paused_def by (intro nl_intros no_link_act) simp_all
  show ?case
    unfolding wait_loop.simps
    by (intro verdict_after emits_if verdict_prod verdict_add no_link_read a p Suc.IH) simp_all
qed

lemma wait_verdict: "emits (waitUSBHost env c g sp cp t l n) one_verdict"
proof -
  have a: "keeps (\<lambda>tr. link_results tr = 0) (act env oper)" if "\<And>res. oper \<noteq> HAdd res" for oper
    using that by (intro keeps_act no_link_act)
  show ?thesis
    unfolding waitUSBHost_def by (intro verdict_after emits_if verdict_add wait_loop_verdict a) simp_all
qed

section \<open>Properties\<close>

text \<open>C40: The wait for a USB host ends.  On a machine whose clock does not run backwards and whose pauses last as long
  as asked, the wait of 45 seconds returns within the bounded number of polls of the model, and it has
  then reported exactly one verdict on the host link.\<close>

theorem wait_usb_returns:
  assumes "steady env" "has_Cancel c" "run_state (waitUSBHost env c g statePath carrierPath 45000 limit usb_polls) tr = (res, tr')"
  shows "res = Some () \<and> link_results tr' = link_results tr + 1"
proof -
  have "returns (waitUSBHost env c g statePath carrierPath 45000 limit usb_polls) tr"
    by (rule wait_usb_enough[OF assms(1,2)]) (simp add: usb_polls_def)
  then have "res = Some ()" using assms(3) by (cases res) (simp_all add: returns_def)
  then show ?thesis using emits_run[OF wait_verdict assms(3)] by (auto simp: one_verdict_def)
qed

text \<open>A machine on which every file says \<^verbatim>\<open>0\<close> and time passes only while it waits.\<close>

definition waiting :: henv where
  "waiting tr oper = (case oper of HNow \<Rightarrow> HTime (clock tr) 0 | HReadAll _ \<Rightarrow> HData ''0'' None | _ \<Rightarrow> HOk)"

definition usb_ctx :: Ctx where
  "usb_ctx =
     \<lparr>Root = ''/'', Active = False, Interactive = True, Sound = False, Microphone = False, NetworkTarget = [],
      has_Cancel = True, has_In = True\<rparr>"

theorem wait_usb_returns_witness:
  "steady waiting \<and>
   fst (run_state (waitUSBHost waiting usb_ctx ''usb'' ''/state'' ''/carrier'' 45000 ''45s'' usb_polls) []) = Some () \<and>
   link_results (snd (run_state (waitUSBHost waiting usb_ctx ''usb'' ''/state'' ''/carrier'' 45000 ''45s'' usb_polls) [])) = 1"
proof -
  have s: "steady waiting" by (simp add: steady_def waiting_def)
  have "has_Cancel usb_ctx" by (simp add: usb_ctx_def)
  from wait_usb_returns[OF s this prod.collapse[symmetric], of "''usb''" "''/state''" "''/carrier''" "''45s''" "[]"] s
  show ?thesis by simp
qed

end
