(* ===== verification/Hw_Storage.thy ===== *)
theory Hw_Storage
  imports Hw_Core Sha256
begin

text \<open>
  The storage group of \<^verbatim>\<open>tools/hwtest\<close> (\<^verbatim>\<open>storage.go\<close>): the mount evidence and the bounded worker process
  that writes an unnamed temporary file, syncs it, reads it back and compares digests.  The worker is
  a program over its own operations \<open>wop\<close>; it answers with an exit code and one line, which is all the
  parent process sees.
\<close>

definition storageBytes :: nat where "storageBytes = 2 ^ 20"
definition storageWorkerEnv :: string where "storageWorkerEnv = ''DC1_HWTEST_STORAGE_WORKER''"

datatype werr = Unavailable | Failed

definition storageWorkerExitCode :: "werr option \<Rightarrow> nat" where
  "storageWorkerExitCode e = (case e of None \<Rightarrow> 0 | Some Unavailable \<Rightarrow> 2 | Some Failed \<Rightarrow> 1)"

definition storageWorkerRequested :: "string list \<Rightarrow> string \<Rightarrow> bool" where
  "storageWorkerRequested args marker =
     (marker = ''roundtrip-v1'' \<and> length args = 2 \<and> args ! 1 = ''--dc1-storage-worker'')"

section \<open>Mount evidence\<close>

record storageMount =
  fs :: string
  writable :: bool

text \<open>\<^verbatim>\<open>strings.SplitN\<close> with two parts: the text before and after the first separator.\<close>

fun cut_text :: "string \<Rightarrow> string \<Rightarrow> (string \<times> string) option" where
  "cut_text sep [] = (if sep = [] then Some ([], []) else None)"
| "cut_text sep (ch # cs) =
     (if has_prefix (ch # cs) sep then Some ([], drop (length sep) (ch # cs))
      else map_option (\<lambda>(a, b). (ch # a, b)) (cut_text sep cs))"

definition storageOption :: "string \<Rightarrow> string \<Rightarrow> bool" where
  "storageOption options want = (want \<in> set (split_on CHR '','' options))"

definition mount_line :: "storageMount option \<Rightarrow> string \<Rightarrow> storageMount option" where
  "mount_line acc l =
     (case cut_text '' - '' l of
        None \<Rightarrow> acc
      | Some (a, b) \<Rightarrow>
          let left = Fields a; right = Fields b in
          if length left < 6 \<or> length right < 3 \<or> left ! 4 \<noteq> ''/'' then acc
          else Some \<lparr>fs = right ! 0, writable = storageOption (left ! 5) ''rw'' \<and> storageOption (right ! 2) ''rw''\<rparr>)"

definition storageRootMount :: "string \<Rightarrow> storageMount option" where
  "storageRootMount s = foldl mount_line None (split_on LF s)"

definition storageFreeBytes :: "int \<Rightarrow> u64 \<Rightarrow> u64" where
  "storageFreeBytes bsize bavail =
     (if bsize \<le> 0 then 0
      else let blockSize = word_of_int bsize :: u64 in
        if (- 1) div blockSize < bavail then - 1 else bavail * blockSize)"

section \<open>The worker\<close>

datatype wop =
    WOpenRoot | WStatRoot | WCloseRoot | WOpenDir string | WStatDir | WFstatfs | WTmpfile | WStatFile
  | WWrite bytes | WSync | WSeek | WReadBack nat | WCloseFile | WCloseDir

datatype wresp = WOk | WErr | WDev u64 | WDir bool u64 | WFs u64 u64 int u64 | WRegular bool | WCount nat bool | WBytes bytes bool

type_synonym wenv = "(wop, wresp) env"
type_synonym 'a wprog = "(wop, wresp, 'a) prog"

definition w_ok :: "wresp \<Rightarrow> bool" where
  "w_ok r = (r = WOk)"

definition storage_data :: bytes where
  "storage_data = map (\<lambda>i. of_nat (i * 131 + i div 251)) [0..<storageBytes]"

text \<open>The temporary file: write, sync, rewind, read back and close; it is closed on every path.\<close>

definition storage_write :: "wenv \<Rightarrow> werr option wprog" where
  "storage_write env = do {
     st \<leftarrow> act env WStatFile;
     if st \<noteq> WRegular True then do { _ \<leftarrow> act env WCloseFile; ret (Some Failed) }
     else do {
       w \<leftarrow> act env (WWrite storage_data);
       if w \<noteq> WCount (length storage_data) True then do { _ \<leftarrow> act env WCloseFile; ret (Some Failed) }
       else do {
         sy \<leftarrow> act env WSync;
         if \<not> w_ok sy then do { _ \<leftarrow> act env WCloseFile; ret (Some Failed) }
         else do {
           sk \<leftarrow> act env WSeek;
           if \<not> w_ok sk then do { _ \<leftarrow> act env WCloseFile; ret (Some Failed) }
           else do {
             r \<leftarrow> act env (WReadBack (storageBytes + 1));
             cl \<leftarrow> act env WCloseFile;
             ret (case r of
                    WBytes got True \<Rightarrow>
                      if length got \<noteq> storageBytes \<or> sha256 got \<noteq> sha256 storage_data then Some Failed
                      else if w_ok cl then None else Some Failed
                  | _ \<Rightarrow> Some Failed) } } } } }"

text \<open>At least the test file and 16 MiB are free.\<close>

definition roomy :: "int \<Rightarrow> u64 \<Rightarrow> bool" where
  "roomy bsize bavail = (\<not> storageFreeBytes bsize bavail < of_nat (storageBytes + 2 ^ 24))"

definition storageInDirectory :: "wenv \<Rightarrow> u64 \<Rightarrow> werr option wprog" where
  "storageInDirectory env rootDev = do {
     info \<leftarrow> act env WStatDir;
     if info \<noteq> WDir True rootDev then ret (Some Unavailable)
     else do {
       f \<leftarrow> act env WFstatfs;
       (case f of
          WFs ty flags bsize bavail \<Rightarrow>
            if ty \<noteq> 0xef53 \<or> bit flags 0 \<or> \<not> roomy bsize bavail
            then ret (Some Unavailable)
            else do {
              t \<leftarrow> act env WTmpfile;
              if \<not> w_ok t then ret (Some Unavailable) else storage_write env }
        | _ \<Rightarrow> ret (Some Unavailable)) } }"

fun storage_dirs :: "wenv \<Rightarrow> u64 \<Rightarrow> string list \<Rightarrow> werr option wprog" where
  "storage_dirs env rootDev [] = ret (Some Unavailable)"
| "storage_dirs env rootDev (p # ps) = do {
     d \<leftarrow> act env (WOpenDir p);
     if \<not> w_ok d then storage_dirs env rootDev ps
     else do {
       err \<leftarrow> storageInDirectory env rootDev;
       _ \<leftarrow> act env WCloseDir;
       if err = Some Unavailable then storage_dirs env rootDev ps else ret err } }"

definition storageRoundTrip :: "wenv \<Rightarrow> werr option wprog" where
  "storageRoundTrip env = do {
     rt \<leftarrow> act env WOpenRoot;
     if \<not> w_ok rt then ret (Some Unavailable)
     else do {
       info \<leftarrow> act env WStatRoot;
       res \<leftarrow> (case info of
                WDev rootDev \<Rightarrow> storage_dirs env rootDev [''/var/tmp'', ''/var/cache'', ''/'']
              | _ \<Rightarrow> ret (Some Unavailable));
       _ \<leftarrow> act env WCloseRoot;
       ret res } }"

text \<open>What the worker process prints and its exit status.\<close>

definition storage_worker :: "wenv \<Rightarrow> (string \<times> nat) wprog" where
  "storage_worker env = do {
     err \<leftarrow> storageRoundTrip env;
     ret ((if err = None then ''OK'' else ''storage round trip unavailable or failed'') @ nl, storageWorkerExitCode err) }"

section \<open>The group\<close>

definition worker_env :: "string list \<Rightarrow> string list" where
  "worker_env es = filter (\<lambda>e. \<not> has_prefix e (storageWorkerEnv @ ''='')) es @ [storageWorkerEnv @ ''=roundtrip-v1'']"

definition rt_name :: string where "rt_name = ''root file round trip''"

definition worker_verdict :: "henv \<Rightarrow> string \<Rightarrow> hresp \<Rightarrow> unit hprog" where
  "worker_verdict env g w =
     (case w of
        HFinished out err exit \<Rightarrow>
          if err \<noteq> None then
            (if exit = 2 then
               r_Skip env g rt_name ''preflight or unnamed-file creation unavailable (space, permission, unsupported filesystem)''
             else
               r_Fail env g rt_name ''bounded worker failed its write, sync, read-back digest or close; no raw error output retained'')
          else if trim_space (concat out) \<noteq> ''OK'' then r_Fail env g rt_name ''unexpected worker result''
          else r_Pass env g rt_name (''1 MiB unnamed private regular file on root filesystem: sync, read-back SHA-256 match, '' @
                 ''close/remove; cancellation-safe cleanup (not a durability or block-device test)'')
      | _ \<Rightarrow> r_Warn env g rt_name (''worker cancelled or exceeded 8 seconds; uninterruptible kernel I/O may delay termination '' @
               ''and space release, but no named file remains''))"

definition storageActive :: "henv \<Rightarrow> string \<Rightarrow> unit hprog" where
  "storageActive env g = do {
     x \<leftarrow> act env HExecutable;
     (case h_text x of
        Inl _ \<Rightarrow> r_Skip env g rt_name ''cannot locate bounded worker executable''
      | Inr exe \<Rightarrow> do {
          es \<leftarrow> act env HEnviron;
          s \<leftarrow> act env (HWorkerStart exe [''--dc1-storage-worker''] (worker_env (h_names es)));
          if h_ok s \<noteq> None then r_Skip env g rt_name ''cannot start bounded worker''
          else do { w \<leftarrow> act env (HWorkerWait (8000 * ms)); worker_verdict env g w } }) }"

definition whole_mmc :: "string \<Rightarrow> bool" where
  "whole_mmc name =
     (let rest = (case cut_prefix name ''mmcblk'' of Some r \<Rightarrow> r | None \<Rightarrow> name)
      in \<not> contains rest ''p'' \<and> \<not> contains name ''boot'' \<and> \<not> contains name ''rpmb'')"

definition card_step :: "henv \<Rightarrow> Ctx \<Rightarrow> nat \<Rightarrow> string \<Rightarrow> nat hprog" where
  "card_step env c n block =
     (if \<not> whole_mmc (Base block) then ret n
      else do {
        (sz, err) \<leftarrow> readInt env c (block @ ''/size'');
        ret (if err = None \<and> 0 < sz then n + 1 else n) })"

definition check_mount :: "henv \<Rightarrow> string \<Rightarrow> storageMount \<Rightarrow> unit hprog" where
  "check_mount env g m = do {
     (if fs m = ''ext4'' then
        r_Pass env g ''root filesystem'' ''root is ext4; this does not verify the root label or boot partition mapping''
      else r_Warn env g ''root filesystem'' ''root is not the expected ext4 filesystem (mount source omitted)'');
     if writable m then r_Pass env g ''root mount mode'' ''root mount reports read-write''
     else r_Warn env g ''root mount mode'' ''root mount reports read-only'' }"

definition space_verdict :: "henv \<Rightarrow> string \<Rightarrow> hresp \<Rightarrow> unit hprog" where
  "space_verdict env g r =
     (case r of
        HFs bsize bavail \<Rightarrow>
          r_Info env g ''root free space'' (dec (unat (storageFreeBytes bsize bavail) div 2 ^ 20) @ '' MiB available to this user'')
      | _ \<Rightarrow> r_Skip env g ''root free space'' ''filesystem space unavailable'')"

definition checkStorage :: "henv \<Rightarrow> Ctx \<Rightarrow> string \<Rightarrow> unit hprog" where
  "checkStorage env c g = do {
     (mounts, err) \<leftarrow> Ctx_read env c ''/proc/self/mountinfo'';
     let m = storageRootMount mounts;
     (case m of
        Some mt \<Rightarrow> if err \<noteq> None then r_Skip env g ''root mount'' ''root mount information unavailable'' else check_mount env g mt
      | None \<Rightarrow> r_Skip env g ''root mount'' ''root mount information unavailable'');
     (if live c then do { st \<leftarrow> act env HStatfs; space_verdict env g st }
      else r_Skip env g ''root free space'' ''fixture mode: host filesystem space is not device evidence'');
     hosts \<leftarrow> glob env c ''/sys/class/mmc_host/mmc*'';
     (if hosts \<noteq> [] then r_Pass env g ''MMC hosts'' (dec (length hosts) @ '' host(s) registered; registration does not prove card I/O'')
      else r_Skip env g ''MMC hosts'' ''no MMC hosts visible'');
     blocks \<leftarrow> glob env c ''/sys/class/block/mmcblk*'';
     cards \<leftarrow> foldp (card_step env c) 0 blocks;
     (if 0 < cards then
        r_Pass env g ''MMC media'' (dec cards @ '' whole MMC block device(s) report nonzero capacity; no mount or read/write test performed'')
      else r_Skip env g ''MMC media'' ''no whole MMC media with readable nonzero capacity; insert a card to test enumeration'');
     if \<not> Active c then r_Skip env g rt_name ''requires -active; no block devices are opened''
     else if \<not> live c then r_Skip env g rt_name ''disabled for fixtures''
     else if \<not> (case m of Some mt \<Rightarrow> fs mt = ''ext4'' \<and> writable mt | None \<Rightarrow> False) then
       r_Skip env g rt_name ''requires a verified read-write ext4 root mount''
     else storageActive env g }"

section \<open>Consent\<close>

lemma storage_verdicts_ok [hw_ok]: "keeps (hw_safe c g) (worker_verdict env g w)" "keeps (hw_safe c g) (space_verdict env g r)"
  unfolding worker_verdict_def space_verdict_def by (cases w; auto intro!: hw_intros hw_ok) (cases r; auto intro!: hw_ok)

lemma storageActive_ok [hw_ok]: "live c \<Longrightarrow> Active c \<Longrightarrow> keeps (hw_safe c g) (storageActive env g)"
  unfolding storageActive_def by (intro hw_intros hw_ok) auto

lemma checkStorage_ok [hw_ok]: "keeps (hw_safe c g) (checkStorage env c g)"
  unfolding checkStorage_def check_mount_def card_step_def Let_def by (intro hw_intros hw_ok) auto

section \<open>What the worker establishes\<close>

text \<open>The events of a round trip that counts as a success, from the filesystem check to the close.\<close>

definition round_trip :: "(wop, wresp) events \<Rightarrow> bool" where
  "round_trip tr \<longleftrightarrow>
     (\<exists>flags bsize bavail got.
        tr = [(WFstatfs, WFs 0xef53 flags bsize bavail), (WTmpfile, WOk), (WStatFile, WRegular True),
              (WWrite storage_data, WCount storageBytes True), (WSync, WOk), (WSeek, WOk),
              (WReadBack (storageBytes + 1), WBytes got True), (WCloseFile, WOk)] \<and>
        \<not> bit flags 0 \<and> roomy bsize bavail \<and>
        length got = storageBytes \<and> sha256 got = sha256 storage_data)"

definition is_write :: "wop \<times> wresp \<Rightarrow> bool" where
  "is_write e \<longleftrightarrow> (case fst e of WWrite _ \<Rightarrow> True | _ \<Rightarrow> False)"

lemma length_storage_data [simp]: "length storage_data = storageBytes"
  by (simp add: storage_data_def)

lemma roomy_iff: "roomy a b \<longleftrightarrow> 17 * 2 ^ 20 \<le> unat (storageFreeBytes a b)"
  by (simp add: roomy_def storageBytes_def word_less_nat_alt not_less)

lemma emits_storage_write:
  "emits (storage_write env) (\<lambda>e new.
     e \<noteq> Some Unavailable \<and>
     (e = None \<longrightarrow> (\<exists>got. new = [(WStatFile, WRegular True), (WWrite storage_data, WCount storageBytes True),
        (WSync, WOk), (WSeek, WOk), (WReadBack (storageBytes + 1), WBytes got True), (WCloseFile, WOk)] \<and>
        length got = storageBytes \<and> sha256 got = sha256 storage_data)))"
  unfolding storage_write_def
  by (auto simp: w_ok_def intro!: emits_act_bind emits_return split: wresp.splits bool.splits if_splits)

text \<open>An outcome of a directory, or of all of them: an unavailable directory has not been written to.\<close>

definition trip :: "u64 \<Rightarrow> (wop, wresp) events \<Rightarrow> bool" where
  "trip d new \<longleftrightarrow> (\<exists>pre rt post. new = pre @ (WStatDir, WDir True d) # rt @ post \<and> round_trip rt)"

definition attempt :: "u64 \<Rightarrow> werr option \<Rightarrow> (wop, wresp) events \<Rightarrow> bool" where
  "attempt d e new \<longleftrightarrow> (e = Some Unavailable \<longrightarrow> (\<forall>x\<in>set new. \<not> is_write x)) \<and> (e = None \<longrightarrow> trip d new)"

lemma trip_around:
  assumes "trip d new"
  shows "trip d (xs @ new @ ys)"
proof -
  obtain pre rt post where "new = pre @ (WStatDir, WDir True d) # rt @ post" "round_trip rt"
    using assms by (auto simp: trip_def)
  then have "xs @ new @ ys = (xs @ pre) @ (WStatDir, WDir True d) # rt @ (post @ ys) \<and> round_trip rt" by simp
  then show ?thesis unfolding trip_def by blast
qed

lemma attempt_around:
  assumes "\<forall>x\<in>set (xs @ ys). \<not> is_write x" "attempt d e new"
  shows "attempt d e (xs @ new @ ys)"
  using assms trip_around by (auto simp: attempt_def)

lemma emits_storageInDirectory: "emits (storageInDirectory env d) (attempt d)"
proof -
  have fs: "emits (case f of
        WFs ty flags bsize bavail \<Rightarrow>
          if ty \<noteq> 0xef53 \<or> bit flags 0 \<or> \<not> roomy bsize bavail
          then ret (Some Unavailable)
          else do { t \<leftarrow> act env WTmpfile; if \<not> w_ok t then ret (Some Unavailable) else storage_write env }
      | _ \<Rightarrow> ret (Some Unavailable))
      (\<lambda>e new. attempt d e ((WStatDir, WDir True d) # (WFstatfs, f) # new))" for f
  proof (cases "\<exists>flags bsize bavail. f = WFs 0xef53 flags bsize bavail \<and> \<not> bit flags 0 \<and> roomy bsize bavail")
    case False
    then show ?thesis
      by (cases f) (auto simp: attempt_def is_write_def w_ok_def intro!: emits_return)
  next
    case True
    then obtain flags bsize bavail where f: "f = WFs 0xef53 flags bsize bavail" "\<not> bit flags 0"
      "roomy bsize bavail" by blast
    have "emits (storage_write env) (\<lambda>e new. attempt d e ((WStatDir, WDir True d) # (WFstatfs, f) # (WTmpfile, WOk) # new))"
    proof (rule emits_weaken[OF emits_storage_write], clarsimp simp: attempt_def)
      fix got :: bytes
      assume "length got = storageBytes" "sha256 got = sha256 storage_data"
      then have "round_trip ((WFstatfs, f) # (WTmpfile, WOk) # (WStatFile, WRegular True) # (WWrite storage_data, WCount storageBytes True) #
          (WSync, WOk) # (WSeek, WOk) # (WReadBack (Suc storageBytes), WBytes got True) # [(WCloseFile, WOk)])" (is "round_trip ?rt")
        using f by (auto simp: round_trip_def)
      then have "(WStatDir, WDir True d) # ?rt = [] @ (WStatDir, WDir True d) # ?rt @ [] \<and> round_trip ?rt" by simp
      then show "trip d ((WStatDir, WDir True d) # ?rt)" unfolding trip_def by blast
    qed
    then show ?thesis using f
      by (auto simp: w_ok_def attempt_def is_write_def intro!: emits_act_bind emits_return)
  qed
  have no: "attempt d (Some Unavailable) [(WStatDir, r)]" for r by (simp add: attempt_def is_write_def)
  show ?thesis
    unfolding storageInDirectory_def by (intro emits_act_bind emits_if emits_return no) (use fs in simp)
qed

lemma emits_storage_dirs: "emits (storage_dirs env d ps) (attempt d)"
proof (induction ps)
  case Nil
  show ?case by (simp add: emits_return attempt_def)
next
  case (Cons p ps)
  have later: "emits (storage_dirs env d ps) (\<lambda>e new. attempt d e (xs @ new))"
    if "\<forall>x\<in>set xs. \<not> is_write x" for xs
    using Cons.IH by (rule emits_weaken) (use attempt_around[of xs "[]"] that in simp)
  have inside: "emits (storageInDirectory env d \<bind> (\<lambda>err. act env WCloseDir \<bind> (\<lambda>_. if err = Some Unavailable then storage_dirs env d ps else ret err)))
      (\<lambda>e new. attempt d e ((WOpenDir p, r) # new))" for r
  proof (rule emits_bind[OF emits_storageInDirectory], rule emits_act_bind)
    fix err new q
    assume a: "attempt d err new"
    have o: "\<not> is_write (WOpenDir p, r)" "\<not> is_write (WCloseDir, q)" by (simp_all add: is_write_def)
    show "emits (if err = Some Unavailable then storage_dirs env d ps else ret err)
            (\<lambda>b new'. attempt d b ((WOpenDir p, r) # new @ (WCloseDir, q) # new'))"
    proof (cases "err = Some Unavailable")
      case True
      then have "\<forall>x\<in>set ((WOpenDir p, r) # new @ [(WCloseDir, q)]). \<not> is_write x" using a o by (auto simp: attempt_def)
      from later[OF this] True show ?thesis by simp
    next
      case False
      have "attempt d err ([(WOpenDir p, r)] @ new @ [(WCloseDir, q)])"
        by (rule attempt_around[OF _ a]) (use o in simp)
      then show ?thesis using False by (simp add: emits_return)
    qed
  qed
  show ?case
    using later[of "[(WOpenDir p, r)]" for r] inside
    by (auto simp: is_write_def intro!: emits_act_bind)
qed

definition rooted :: "werr option \<Rightarrow> (wop, wresp) events \<Rightarrow> bool" where
  "rooted e new \<longleftrightarrow>
     (e = Some Unavailable \<longrightarrow> (\<forall>x\<in>set new. \<not> is_write x)) \<and>
     (e = None \<longrightarrow> (\<exists>d pre post. new = pre @ (WStatRoot, WDev d) # post \<and> trip d post))"

lemma emits_storageRoundTrip: "emits (storageRoundTrip env) rooted"
proof -
  have dirs: "emits (storage_dirs env d ps \<bind> (\<lambda>res. act env WCloseRoot \<bind> (\<lambda>_. ret res)))
      (\<lambda>e new. rooted e ((WOpenRoot, a) # (WStatRoot, WDev d) # new))" for d ps a
  proof (rule emits_bind[OF emits_storage_dirs], intro emits_act_bind emits_return)
    fix e new q
    assume "attempt d e new"
    then have at: "attempt d e (new @ [(WCloseRoot, q)])"
      using attempt_around[of "[]" "[(WCloseRoot, q)]"] by (simp add: is_write_def)
    have "\<exists>d' pre post. (WOpenRoot, a) # (WStatRoot, WDev d) # new @ [(WCloseRoot, q)] =
        pre @ (WStatRoot, WDev d') # post \<and> trip d' post" if "trip d (new @ [(WCloseRoot, q)])"
      using that by (intro exI[of _ d] exI[of _ "[(WOpenRoot, a)]"] exI[of _ "new @ [(WCloseRoot, q)]"]) simp
    with at show "rooted e ((WOpenRoot, a) # (WStatRoot, WDev d) # new @ [(WCloseRoot, q)])"
      unfolding rooted_def attempt_def by (simp add: is_write_def)
  qed
  have stat: "emits ((case info of WDev d \<Rightarrow> storage_dirs env d ps | _ \<Rightarrow> ret (Some Unavailable))
      \<bind> (\<lambda>res. act env WCloseRoot \<bind> (\<lambda>_. ret res))) (\<lambda>e new. rooted e ((WOpenRoot, a) # (WStatRoot, info) # new))" for info ps a
    using dirs by (cases info) (auto simp: is_write_def rooted_def intro!: emits_act_bind emits_return)
  have "rooted (Some Unavailable) [(WOpenRoot, a)]" for a by (simp add: rooted_def is_write_def)
  then show ?thesis
    unfolding storageRoundTrip_def using stat by (intro emits_act_bind emits_if emits_return) auto
qed

section \<open>Properties\<close>

text \<open>C16: The storage worker tells the truth: it prints \<^verbatim>\<open>OK\<close> with exit status 0 only after it wrote the whole
  test data to an unnamed regular file on the read-write ext4 filesystem of the root with at least
  17 MiB free, synced it, read back as many bytes with the same SHA-256 and closed it without an error;
  and exit status 2, which the parent reports as a skip, means that nothing was written.\<close>

theorem storage_worker_sound:
  assumes "run_state (storage_worker env) [] = ((out, code), tr)"
  shows "(out = ''OK'' @ nl \<longleftrightarrow> code = 0) \<and>
    (code = 0 \<longrightarrow> (\<exists>d pre mid rt post. tr = pre @ (WStatRoot, WDev d) # mid @ (WStatDir, WDir True d) # rt @ post \<and> round_trip rt)) \<and>
    (code = 2 \<longrightarrow> (\<forall>x\<in>set tr. \<not> is_write x))"
proof -
  obtain e where r: "run_state (storageRoundTrip env) [] = (e, tr)"
    and oc: "out = (if e = None then ''OK'' else ''storage round trip unavailable or failed'') @ nl" "code = storageWorkerExitCode e"
    using assms by (auto simp: storage_worker_def split: prod.splits)
  have c: "code = 0 \<longleftrightarrow> e = None" "code = 2 \<longleftrightarrow> e = Some Unavailable"
    by (auto simp: oc storageWorkerExitCode_def split: option.splits werr.splits)
  have "rooted e tr" using emits_run[OF emits_storageRoundTrip r] by simp
  then show ?thesis using oc(1) c by (fastforce simp: rooted_def trip_def)
qed

text \<open>Free space saturates instead of wrapping: the reported number of bytes is the product of block size
  and available blocks, capped at the largest 64-bit value, and 0 for a block size that is not positive.\<close>

theorem storage_free_saturates:
  assumes "bsize < 2 ^ 63"
  shows "int (unat (storageFreeBytes bsize bavail)) = (if bsize \<le> 0 then 0 else min (2 ^ 64 - 1) (bsize * int (unat bavail)))"
proof (cases "bsize \<le> 0")
  case False
  define b where "b = nat bsize"
  have b: "0 < b" "b < 2 ^ 64" "bsize = int b" using False assms by (auto simp: b_def)
  have w: "unat (word_of_int bsize :: u64) = b" using b by (simp add: unat_of_nat)
  have m: "unat (- 1 :: u64) = 2 ^ 64 - 1" by (simp add: unsigned_minus_1_eq_mask mask_eq_exp_minus_1)
  have q: "(- 1 :: u64) div word_of_int bsize < bavail \<longleftrightarrow> (2 ^ 64 - 1) div b < unat bavail"
    by (simp add: word_less_nat_alt unat_div w m)
  show ?thesis
  proof (cases "(2 ^ 64 - 1) div b < unat bavail")
    case True
    then have "2 ^ 64 - 1 < unat bavail * b" using b(1) by (simp add: div_less_iff_less_mult)
    then have "int (2 ^ 64 - 1) < int (unat bavail * b)" by (simp only: of_nat_less_iff)
    then have "2 ^ 64 - 1 < bsize * int (unat bavail)" using b(3) by (simp add: mult.commute)
    then show ?thesis using True False q m by (simp add: storageFreeBytes_def Let_def)
  next
    case f: False
    then have "unat bavail \<le> (2 ^ 64 - 1) div b" by simp
    then have le: "unat bavail * b \<le> 2 ^ 64 - 1" using b(1) by (simp add: less_eq_div_iff_mult_less_eq)
    then have u: "unat (bavail * word_of_int bsize) = unat bavail * b"
      by (subst unat_mult_lem[THEN iffD1]) (auto simp: w)
    have i: "bsize * int (unat bavail) = int (unat bavail * b)" using b(3) by (simp add: mult.commute)
    have "int (unat bavail * b) \<le> int (2 ^ 64 - 1)" using le by (simp only: of_nat_le_iff)
    then have "min (2 ^ 64 - 1) (bsize * int (unat bavail)) = int (unat (bavail * word_of_int bsize))" unfolding i u by simp
    then show ?thesis using f False q by (simp add: storageFreeBytes_def Let_def)
  qed
qed (simp add: storageFreeBytes_def)

text \<open>A filesystem that returns what was written.\<close>

definition good_fs :: wenv where
  "good_fs tr oper =
     (case oper of
        WStatRoot \<Rightarrow> WDev 7
      | WStatDir \<Rightarrow> WDir True 7
      | WFstatfs \<Rightarrow> WFs 0xef53 0 4096 5000000
      | WStatFile \<Rightarrow> WRegular True
      | WWrite d \<Rightarrow> WCount (length d) True
      | WReadBack n \<Rightarrow> WBytes storage_data True
      | _ \<Rightarrow> WOk)"

lemma good_fs_room: "roomy 4096 5000000"
  by (simp add: roomy_def storageFreeBytes_def storageBytes_def word_less_nat_alt unat_div unsigned_minus_1_eq_mask mask_eq_exp_minus_1)

lemma good_fs_run: "fst (run_state (storage_worker good_fs) []) = (''OK'' @ nl, 0)"
  by (simp add: storage_worker_def storageRoundTrip_def storageInDirectory_def storage_write_def storageWorkerExitCode_def
      act_def good_fs_def w_ok_def good_fs_room)

theorem storage_worker_sound_witness:
  "\<exists>d pre mid rt post. snd (run_state (storage_worker good_fs) []) = pre @ (WStatRoot, WDev d) # mid @ (WStatDir, WDir True d) # rt @ post \<and> round_trip rt"
  using storage_worker_sound[of good_fs "''OK'' @ nl" 0 "snd (run_state (storage_worker good_fs) [])"] good_fs_run
  by (metis prod.collapse)

theorem storage_free_saturates_witness:
  "int (unat (storageFreeBytes 4096 5000000)) = 20480000000 \<and> int (unat (storageFreeBytes 4096 (- 1))) = 2 ^ 64 - 1"
  using storage_free_saturates[of 4096 5000000] storage_free_saturates[of 4096 "- 1"] by (simp add: unsigned_minus_1_eq_mask mask_eq_exp_minus_1)

end
