(* ===== verification/Hw_Audio.thy ===== *)
theory Hw_Audio
  imports Hw_Core
begin

text \<open>
  The audio group of \<^verbatim>\<open>tools/hwtest\<close> (\<^verbatim>\<open>audio.go\<close>): the PCM devices in procfs, the user services of the
  desktop, and the opt-in microphone capture with its bounded buffer and signal metrics.
\<close>

section \<open>PCM and services\<close>

definition pcm_field :: "(string \<rightharpoonup> string) \<Rightarrow> string \<Rightarrow> (string \<rightharpoonup> string)" where
  "pcm_field m l = (case cut CHR '':'' l of Some (k, v) \<Rightarrow> m(trim_space k \<mapsto> trim_space v) | None \<Rightarrow> m)"

definition trim_suffix :: "string \<Rightarrow> string \<Rightarrow> string" where
  "trim_suffix s p = (if has_suffix s p then take (length s - length p) s else s)"

definition audioPCMMatches :: "string \<Rightarrow> nat \<Rightarrow> string \<Rightarrow> string \<Rightarrow> bool" where
  "audioPCMMatches s device strm pid =
     (let m = foldl pcm_field Map.empty (split_on LF s);
          val = (\<lambda>k. case m k of Some v \<Rightarrow> v | None \<Rightarrow> [])
      in val ''card'' = ''0'' \<and> val ''device'' = dec device \<and> val ''stream'' = strm \<and>
         trim_suffix (val ''id'') '' (*)'' = pid)"

definition audioPCM :: "henv \<Rightarrow> Ctx \<Rightarrow> string \<Rightarrow> string \<Rightarrow> string \<Rightarrow> nat \<Rightarrow> string \<Rightarrow> string \<Rightarrow> unit hprog" where
  "audioPCM env c g name path device strm pid = do {
     (s, err) \<leftarrow> Ctx_read env c path;
     if err \<noteq> None then r_Skip env g name ''procfs PCM information unavailable''
     else if audioPCMMatches s device strm pid then
       r_Pass env g name ''expected PCM device, direction and frontend registered; enumeration does not prove sound or microphone signal''
     else r_Warn env g name ''procfs PCM information does not match the expected frontend (identifiers omitted)'' }"

definition service_verdict :: "henv \<Rightarrow> string \<Rightarrow> string \<Rightarrow> string \<Rightarrow> unit hprog" where
  "service_verdict env g name st =
     (if st = ''active'' then
        r_Pass env g name ''owner user manager reports active; this does not prove an audio route or audible output''
      else if st \<in> set [''inactive'', ''failed'', ''activating'', ''deactivating'', ''reloading''] then
        r_Warn env g name ''owner user manager does not report active''
      else r_Skip env g name ''unrecognized or missing service state'')"

definition check_service :: "henv \<Rightarrow> Ctx \<Rightarrow> string \<Rightarrow> string \<Rightarrow> unit hprog" where
  "check_service env c g service = do {
     let name = ''user service '' @ service;
     if \<not> live c then r_Skip env g name ''fixture mode: user service commands disabled''
     else do {
       u \<leftarrow> act env HGeteuid;
       if h_int u = 0 then r_Skip env g name ''run as the desktop owner; root's user manager is not desktop evidence''
       else do {
         h \<leftarrow> have_cmd env c ''systemctl'';
         if \<not> h then r_Skip env g name ''systemctl unavailable''
         else do {
           (out, err) \<leftarrow> Ctx_run env c (2000 * ms) ''systemctl''
                          [''--user'', ''show'', ''--property=ActiveState'', ''--value'', service];
           if err \<noteq> None then r_Skip env g name ''desktop owner user manager unavailable; no service changes attempted''
           else service_verdict env g name (trim_space out) } } } }"

section \<open>The capture buffer\<close>

definition audioCaptureBytes :: nat where "audioCaptureBytes = 48000 * 2 * 2 * 2"

record audioCaptureBuffer =
  adata :: bytes
  limit :: nat
  aoverflow :: bool
  closed :: bool

definition discard :: "audioCaptureBuffer \<Rightarrow> audioCaptureBuffer" where
  "discard b = b\<lparr>closed := True, adata := []\<rparr>"

text \<open>One write and whether it reports an error (which also cancels the recorder).\<close>

definition audio_Write :: "audioCaptureBuffer \<Rightarrow> bytes \<Rightarrow> audioCaptureBuffer \<times> bool" where
  "audio_Write b p =
     (if closed b then (b, False)
      else let room = limit b - length (adata b) in
        if room < length p then (b\<lparr>adata := adata b @ take room p, aoverflow := True\<rparr>, True)
        else (b\<lparr>adata := adata b @ p\<rparr>, False))"

text \<open>The copying stops at the first write that fails.\<close>

fun audio_writes :: "audioCaptureBuffer \<Rightarrow> bytes list \<Rightarrow> audioCaptureBuffer" where
  "audio_writes b [] = b"
| "audio_writes b (p # ps) = (case audio_Write b p of (b', bad) \<Rightarrow> if bad then b' else audio_writes b' ps)"

section \<open>Signal metrics\<close>

record audioSignal =
  samples :: nat
  nonzero :: nat
  clipped :: nat
  rms :: f64

fun pcm_samples :: "bytes \<Rightarrow> int list" where
  "pcm_samples (a # b # r) = sint (get16 [a, b]) # pcm_samples r"
| "pcm_samples _ = []"

definition is_clipped :: "int \<Rightarrow> bool" where
  "is_clipped s = (32760 \<le> s \<or> s \<le> - 32760)"

definition square_sum :: "int list \<Rightarrow> f64" where
  "square_sum ss = foldl (\<lambda>a s. let v = f_div (of_int64 s) (Fin 32768) in f_add a (f_mul v v)) (Fin 0) ss"

definition audioSignalMetrics :: "bytes \<Rightarrow> audioSignal option" where
  "audioSignalMetrics d =
     (if d = [] \<or> length d mod 4 \<noteq> 0 \<or> audioCaptureBytes < length d then None
      else let ss = pcm_samples d in
        Some \<lparr>samples = length ss, nonzero = length (filter (\<lambda>s. s \<noteq> 0) ss), clipped = length (filter is_clipped ss),
              rms = f_sqrt (f_div (square_sum ss) (of_int64 (int (length ss))))\<rparr>)"

definition mic :: string where "mic = ''microphone signal''"

definition mic_report :: "henv \<Rightarrow> string \<Rightarrow> bytes \<Rightarrow> unit hprog" where
  "mic_report env g d =
     (case audioSignalMetrics d of
        None \<Rightarrow> r_Warn env g mic ''no complete bounded stereo PCM frames returned''
      | Some m \<Rightarrow> do {
          r_Info env g ''microphone metrics''
            (fmt_fixed 3 (f_div (of_int64 (int (samples m))) (Fin 96000)) @ '' seconds, RMS '' @ fmt_fixed 6 (rms m) @
             '' full-scale, '' @ dec (nonzero m) @ ''/'' @ dec (samples m) @ '' nonzero samples, '' @ dec (clipped m) @
             '' clipping samples; PCM only in memory, not saved or played; not an intelligibility test'');
          (if length d \<noteq> audioCaptureBytes then
             r_Warn env g ''microphone duration'' ''recorder returned less than the requested 2-second window''
           else unit_prog);
          if nonzero m = 0 then r_Warn env g mic ''digital silence; mixer state is untouched''
          else if 0 < clipped m then
            r_Warn env g mic ''nonzero signal includes near-full-scale clipping; this is not an intelligibility test''
          else r_Pass env g mic (''nonzero bounded PCM without near-full-scale clipping; this proves signal only, '' @
                 ''not intelligibility or acoustic provenance'') })"

section \<open>The group\<close>

definition arecord_args :: "string list" where
  "arecord_args = [''-q'', ''-N'', ''-D'', ''hw:0,9'', ''-t'', ''raw'', ''-f'', ''S16_LE'', ''-r'', ''48000'', ''-c'', ''2'', ''-d'', ''2'', ''-'']"

definition mic_outcome :: "henv \<Rightarrow> string \<Rightarrow> hresp \<Rightarrow> unit hprog" where
  "mic_outcome env g w =
     (case w of
        HFinished chunks err _ \<Rightarrow>
          (let b = audio_writes \<lparr>adata = [], limit = audioCaptureBytes, aoverflow = False, closed = False\<rparr> (map bytes_of chunks) in
           if aoverflow b then
             r_Warn env g mic ''recorder exceeded 2-second PCM byte bound; cancelled and discarded''
           else if err \<noteq> None then do {
             x \<leftarrow> act env HRecordErr;
             if h_cancelled x \<noteq> None then r_Skip env g mic ''recorder cancelled or timed out; in-memory PCM discarded''
             else r_Skip env g mic ''capture unavailable (busy, permission, unsupported format or device); no mixer changes'' }
           else mic_report env g (adata b))
      | _ \<Rightarrow> r_Skip env g mic ''recorder cancelled or timed out; in-memory PCM discarded'')"

definition audioMicrophone :: "henv \<Rightarrow> Ctx \<Rightarrow> string \<Rightarrow> unit hprog" where
  "audioMicrophone env c g = do {
     h \<leftarrow> have_cmd env c ''arecord'';
     if \<not> h then r_Skip env g mic ''arecord unavailable; no capture performed''
     else do {
       s \<leftarrow> act env (HRecordStart ''arecord'' arecord_args);
       if h_ok s \<noteq> None then r_Skip env g mic ''cannot start recorder; no capture performed''
       else do { w \<leftarrow> act env (HRecordWait (3000 * ms)); mic_outcome env g w } } }"

definition checkAudio :: "henv \<Rightarrow> Ctx \<Rightarrow> string \<Rightarrow> unit hprog" where
  "checkAudio env c g = do {
     audioPCM env c g ''PCM0 playback'' ''/proc/asound/card0/pcm0p/info'' 0 ''PLAYBACK'' ''Playback_1'';
     audioPCM env c g ''PCM9 DMIC frontend'' ''/proc/asound/card0/pcm9c/info'' 9 ''CAPTURE'' ''Capture_1'';
     foreach (check_service env c g) [''pipewire.service'', ''pipewire-pulse.service'', ''wireplumber.service''];
     (if \<not> Microphone c then r_Skip env g mic ''requires -allow-microphone; no capture performed''
      else if \<not> live c then r_Skip env g mic ''disabled for fixtures''
      else audioMicrophone env c g);
     if \<not> Sound c \<or> \<not> Interactive c then
       r_Skip env g ''speaker listening'' ''requires -interactive, -allow-sound and owner confirmation; no sound generated''
     else
       r_Skip env g ''speaker listening''
         ''unsupported: no validated quiet playback path without mixer changes; no sound generated or confirmation requested'' }"

section \<open>Consent and bounds\<close>

lemma mic_outcome_ok [hw_ok]: "live c \<Longrightarrow> Microphone c \<Longrightarrow> keeps (hw_safe c g) (mic_outcome env g w)"
  unfolding mic_outcome_def mic_report_def Let_def by (cases w) (auto intro!: hw_intros hw_ok)

lemma audioMicrophone_ok [hw_ok]: "live c \<Longrightarrow> Microphone c \<Longrightarrow> keeps (hw_safe c g) (audioMicrophone env c g)"
  unfolding audioMicrophone_def by (intro hw_intros hw_ok) auto

lemma check_service_ok [hw_ok]: "keeps (hw_safe c g) (check_service env c g s)"
  unfolding check_service_def service_verdict_def Let_def
  by (intro hw_intros hw_ok) (auto simp: query_command_def)

lemma checkAudio_ok [hw_ok]: "keeps (hw_safe c g) (checkAudio env c g)"
  unfolding checkAudio_def audioPCM_def by (intro hw_intros hw_ok) auto

text \<open>The buffer never holds more than the consented window, and nothing after it was discarded.\<close>

definition buffer_ok :: "audioCaptureBuffer \<Rightarrow> bool" where
  "buffer_ok b \<longleftrightarrow> length (adata b) \<le> limit b \<and> (closed b \<longrightarrow> adata b = [])"

lemma audio_Write_ok: "buffer_ok b \<Longrightarrow> buffer_ok (fst (audio_Write b p)) \<and> limit (fst (audio_Write b p)) = limit b"
  by (auto simp: buffer_ok_def audio_Write_def Let_def)

lemma discard_ok: "buffer_ok (discard b)"
  by (simp add: buffer_ok_def discard_def)

lemma audio_writes_spec:
  assumes "\<not> closed b" "length (adata b) \<le> limit b" "\<not> aoverflow b"
  shows "aoverflow (audio_writes b ps) \<longleftrightarrow> limit b < length (adata b @ concat ps)"
    and "adata (audio_writes b ps) = take (limit b) (adata b @ concat ps)"
proof -
  have "aoverflow (audio_writes b ps) = (limit b < length (adata b @ concat ps)) \<and>
        adata (audio_writes b ps) = take (limit b) (adata b @ concat ps)"
    using assms
  proof (induction ps arbitrary: b)
    case (Cons p ps)
    then show ?case by (auto simp: audio_Write_def Let_def)
  qed auto
  then show "aoverflow (audio_writes b ps) \<longleftrightarrow> limit b < length (adata b @ concat ps)"
    "adata (audio_writes b ps) = take (limit b) (adata b @ concat ps)" by auto
qed

lemma length_pcm_samples: "length (pcm_samples d) = length d div 2"
  by (induction d rule: pcm_samples.induct) auto

lemma pcm_samples_range: "s \<in> set (pcm_samples d) \<Longrightarrow> - 32768 \<le> s \<and> s \<le> 32767"
proof (induction d rule: pcm_samples.induct)
  case (1 a b r)
  then show ?case using sint_range_size[of "get16 [a, b]"] by (auto simp: word_size)
qed auto

end
