(* ===== verification/Hw_Input.thy ===== *)
theory Hw_Input
  imports Hw_Core "HOL-Library.AList"
begin

text \<open>
  The input group of \<^verbatim>\<open>tools/hwtest\<close> (\<^verbatim>\<open>input.go\<close>): discovery of the built-in devices and their
  capabilities, the axis ranges, the trackers that turn events into evidence, and the operator tests.
  The concurrent session behind them is modelled in \<^verbatim>\<open>Hw_Session\<close>; here \<open>HDrain\<close> answers with its error
  and \<open>HUntil\<close> with the finite sequence of what the iterations of \<^verbatim>\<open>session.until\<close> see before its deadline.
\<close>

section \<open>Codes\<close>

definition evSyn :: u16 where "evSyn = 0"
definition evKey :: u16 where "evKey = 1"
definition evAbs :: u16 where "evAbs = 3"
definition evSW :: u16 where "evSW = 5"
definition synReport :: u16 where "synReport = 0"
definition synDropped :: u16 where "synDropped = 3"
definition absX :: u16 where "absX = 0"
definition absY :: u16 where "absY = 1"
definition absPressure :: u16 where "absPressure = 24"
definition absMTSlot :: u16 where "absMTSlot = 47"
definition absMTX :: u16 where "absMTX = 53"
definition absMTY :: u16 where "absMTY = 54"
definition absMTID :: u16 where "absMTID = 57"
definition btnToolPen :: u16 where "btnToolPen = 0x140"
definition btnToolRubber :: u16 where "btnToolRubber = 0x141"
definition btnTouch :: u16 where "btnTouch = 0x14a"
definition btnStylus :: u16 where "btnStylus = 0x14b"
definition keyVolDown :: u16 where "keyVolDown = 114"
definition keyVolUp :: u16 where "keyVolUp = 115"
definition keyPower :: u16 where "keyPower = 116"
definition keyProg1 :: u16 where "keyProg1 = 148"
definition keyProg2 :: u16 where "keyProg2 = 149"

definition pen_dev :: string where "pen_dev = ''Wacom I2C Digitizer''"

definition boardInputNames :: "string list" where
  "boardInputNames = [''ilitek_ts'', pen_dev, ''mtk-pmic-keys'', ''mt6779-keypad'', ''hall-switch'']"

section \<open>Devices and capabilities\<close>

record inputDev =
  d_name :: string
  d_sys :: string
  d_event :: string
  d_problem :: string
  absMax :: "(u16 \<times> int \<times> int) list"

type_synonym devs = "(string \<times> inputDev) list"

definition event_node :: "string list \<Rightarrow> string" where
  "event_node ev =
     (case ev of
        [e] \<Rightarrow>
          let base = Base e;
              n = (case cut_prefix base ''event'' of Some r \<Rightarrow> r | None \<Rightarrow> base)
          in if n \<noteq> [] \<and> list_all is_digit n \<and> dec_val n < 2 ^ 32 then ''/dev/input/'' @ base else []
      | _ \<Rightarrow> [])"

definition input_step :: "henv \<Rightarrow> Ctx \<Rightarrow> devs \<Rightarrow> string \<Rightarrow> devs hprog" where
  "input_step env c m s = do {
     (name, err) \<leftarrow> Ctx_read env c (s @ ''/name'');
     if err \<noteq> None \<or> name = [] then ret m
     else do {
       ev \<leftarrow> glob env c (s @ ''/event[0-9]*'');
       ret (case map_of m name of
              Some previous \<Rightarrow>
                AList.update name (previous\<lparr>d_problem := ''multiple input devices have this board device name; refusing ambiguous selection''\<rparr>) m
            | None \<Rightarrow>
                AList.update name \<lparr>d_name = name, d_sys = s, d_event = event_node ev, d_problem = [], absMax = []\<rparr> m) } }"

definition inputDevices :: "henv \<Rightarrow> Ctx \<Rightarrow> devs hprog" where
  "inputDevices env c = do {
     ss \<leftarrow> glob env c ''/sys/class/input/input[0-9]*'';
     foldp (input_step env c) [] ss }"

definition ParseHex :: "string \<Rightarrow> nat option" where
  "ParseHex w =
     (if w \<noteq> [] \<and> list_all (\<lambda>ch. hex_digit_val ch \<noteq> None) w \<and> hex_nat w < 2 ^ 64 then Some (hex_nat w) else None)"

definition cap_bit :: "string \<Rightarrow> u16 \<Rightarrow> bool" where
  "cap_bit bitmap n =
     (let w = Fields bitmap; k = unat n div 64 in
      if length w \<le> k then False
      else (case ParseHex (w ! (length w - 1 - k)) of None \<Rightarrow> False | Some v \<Rightarrow> odd (v div 2 ^ (unat n mod 64))))"

definition hex_error :: "string \<Rightarrow> string" where
  "hex_error w =
     ''strconv.ParseUint: parsing '' @ quote w @
     (if w \<noteq> [] \<and> list_all (\<lambda>ch. hex_digit_val ch \<noteq> None) w then '': value out of range'' else '': invalid syntax'')"

definition inputCaps :: "henv \<Rightarrow> Ctx \<Rightarrow> inputDev \<Rightarrow> string \<Rightarrow> (herr + string) hprog" where
  "inputCaps env c d kd = do {
     (s, err) \<leftarrow> Ctx_read env c (d_sys d @ ''/capabilities/'' @ kd);
     ret (case err of
            Some e \<Rightarrow> Inl e
          | None \<Rightarrow>
              if s = [] then Inl (mkerr (''empty '' @ kd @ '' capabilities''))
              else (case filter (\<lambda>w. ParseHex w = None) (Fields s) of
                      w # _ \<Rightarrow> Inl (mkerr (''malformed '' @ kd @ '' capabilities: '' @ hex_error w))
                    | [] \<Rightarrow> Inr s)) }"

definition expected_codes :: "string \<Rightarrow> string \<times> u16 list" where
  "expected_codes name =
     (if name = ''ilitek_ts'' then (''abs'', [absMTX, absMTY, absMTSlot, absMTID])
      else if name = pen_dev then (''abs'', [absX, absY, absPressure])
      else if name = ''mtk-pmic-keys'' then (''key'', [keyPower, keyVolUp])
      else if name = ''mt6779-keypad'' then (''key'', [keyVolDown])
      else if name = ''hall-switch'' then (''ev'', [evSW])
      else ([], []))"

definition missing_codes :: "string \<Rightarrow> string \<Rightarrow> u16 list \<Rightarrow> string list" where
  "missing_codes kd caps codes = map (\<lambda>n. kd @ '':'' @ dec (unat n)) (filter (\<lambda>n. \<not> cap_bit caps n) codes)"

definition caps_verdict :: "henv \<Rightarrow> string \<Rightarrow> string \<Rightarrow> inputDev \<Rightarrow> string list \<Rightarrow> unit hprog" where
  "caps_verdict env g name d missing =
     (if missing \<noteq> [] then r_Fail env g name (''missing '' @ join_with '','' missing @ '' ('' @ d_event d @ '')'')
      else r_Pass env g name (''present as '' @ d_event d @ '' with expected capabilities; no event functionality implied''))"

definition check_device :: "henv \<Rightarrow> Ctx \<Rightarrow> string \<Rightarrow> devs \<Rightarrow> string \<Rightarrow> unit hprog" where
  "check_device env c g dv name =
     (case map_of dv name of
        None \<Rightarrow> r_Fail env g name ''input device absent''
      | Some d \<Rightarrow>
          if d_problem d \<noteq> [] then r_Fail env g name (d_problem d)
          else if d_event d = [] then r_Fail env g name ''no unique event node''
          else do {
            let (kd, codes) = expected_codes name;
            caps \<leftarrow> inputCaps env c d kd;
            (case caps of
               Inl e \<Rightarrow> r_Fail env g name (''capabilities: '' @ etext e)
             | Inr s \<Rightarrow>
                 if name = pen_dev then do {
                   keys \<leftarrow> inputCaps env c d ''key'';
                   (case keys of
                      Inl e \<Rightarrow> r_Fail env g name (''key capabilities: '' @ etext e)
                    | Inr ks \<Rightarrow>
                        caps_verdict env g name d (missing_codes kd s codes @
                          missing_codes ''key'' ks [btnToolPen, btnToolRubber, btnTouch, btnStylus])) }
                 else caps_verdict env g name d (missing_codes kd s codes)) })"

definition spare_keys :: "henv \<Rightarrow> Ctx \<Rightarrow> string \<Rightarrow> devs \<Rightarrow> unit hprog" where
  "spare_keys env c g dv =
     (case map_of dv ''mt6779-keypad'' of
        None \<Rightarrow> unit_prog
      | Some d \<Rightarrow>
          if d_problem d \<noteq> [] then unit_prog
          else do {
            kb \<leftarrow> inputCaps env c d ''key'';
            (case kb of
               Inl e \<Rightarrow> r_Fail env g ''spare-keys'' (etext e)
             | Inr ks \<Rightarrow>
                 if cap_bit ks keyProg1 \<and> cap_bit ks keyProg2 then
                   r_Pass env g ''spare-keys'' ''kernel exposes KEY_PROG1/KEY_PROG2; physical mapping not yet tested''
                 else if cap_bit ks 87 \<and> cap_bit ks 88 then
                   r_Info env g ''spare-keys'' ''kernel exposes KEY_F11/F12; hwdb remap is above raw evdev, verify desktop mapping separately''
                 else r_Warn env g ''spare-keys'' ''keypad exposes neither F11/F12 nor PROG1/PROG2'') })"

section \<open>Axis ranges\<close>

record axes_acc =
  ranges :: "(u16 \<times> int \<times> int) list"
  parts :: "string list"
  valid :: bool

definition axis_verdict :: "henv \<Rightarrow> string \<Rightarrow> string \<Rightarrow> axes_acc \<Rightarrow> u16 \<Rightarrow> hresp \<Rightarrow> axes_acc hprog" where
  "axis_verdict env g name acc a info =
     (case info of
        HAbs mn mx res \<Rightarrow>
          if mx \<le> mn \<or> res < 0 \<or> a = absMTSlot \<and> mn \<noteq> 0 then do {
            r_Fail env g (name @ ''-axes'') (''axis '' @ dec (unat a) @ '' has invalid range '' @ dec_int mn @ ''..'' @ dec_int mx @
              '' or resolution '' @ dec_int res);
            ret (acc\<lparr>valid := False\<rparr>) }
          else do {
            let flat = (name = pen_dev \<and> (a = absX \<or> a = absY) \<and> res = 0);
            (if flat then
               r_Fail env g (name @ ''-axes'') (''axis '' @ dec (unat a) @ '' has zero resolution; libinput requires tablet resolution'')
             else unit_prog);
            ret (acc\<lparr>ranges := AList.update a (mn, mx) (ranges acc),
                     parts := parts acc @ [''axis '' @ dec (unat a) @ '': '' @ dec_int mn @ ''..'' @ dec_int mx @ '' res '' @ dec_int res],
                     valid := valid acc \<and> \<not> flat\<rparr>) }
      | _ \<Rightarrow> do {
          r_Fail env g (name @ ''-axes'') (''axis '' @ dec (unat a) @ '': '' @ etext (h_error info));
          ret (acc\<lparr>valid := False\<rparr>) })"

definition axis_step :: "henv \<Rightarrow> string \<Rightarrow> string \<Rightarrow> axes_acc \<Rightarrow> u16 \<Rightarrow> axes_acc hprog" where
  "axis_step env g name acc a = do {
     info \<leftarrow> act env (HAbsInfo (unat a));
     axis_verdict env g name acc a info }"

definition axis_specs :: "(string \<times> u16 list) list" where
  "axis_specs = [(''ilitek_ts'', [absMTX, absMTY, absMTSlot]), (pen_dev, [absX, absY, absPressure])]"

definition axis_device :: "henv \<Rightarrow> Ctx \<Rightarrow> string \<Rightarrow> devs \<Rightarrow> string \<times> u16 list \<Rightarrow> devs hprog" where
  "axis_device env c g dv spec =
     (case map_of dv (fst spec) of
        None \<Rightarrow> ret dv
      | Some d \<Rightarrow>
          if d_event d = [] \<or> d_problem d \<noteq> [] then ret dv
          else if \<not> live c then do {
            r_Skip env g (fst spec @ ''-axes'') ''relocated root: device opens and ioctls disabled'';
            ret dv }
          else do {
            f \<leftarrow> act env (HOpenDev (cpath c (d_event d)) False);
            (case h_ok f of
               Some e \<Rightarrow> do { r_Skip env g (fst spec @ ''-axes'') (permHint e); ret dv }
             | None \<Rightarrow> do {
                 acc \<leftarrow> foldp (axis_step env g (fst spec)) \<lparr>ranges = [], parts = [], valid = True\<rparr> (snd spec);
                 cl \<leftarrow> act env HCloseDev;
                 (case h_ok cl of
                    Some e \<Rightarrow> r_Fail env g (fst spec @ ''-axes'') (''close: '' @ etext e)
                  | None \<Rightarrow>
                      if valid acc then r_Pass env g (fst spec @ ''-axes'') (join_with ''; '' (parts acc) @ ''; advertised ranges only'')
                      else unit_prog);
                 ret (AList.update (fst spec) (d\<lparr>absMax := ranges acc\<rparr>) dv) }) })"

definition axisRanges :: "henv \<Rightarrow> Ctx \<Rightarrow> string \<Rightarrow> devs \<Rightarrow> devs hprog" where
  "axisRanges env c g dv = foldp (axis_device env c g) dv axis_specs"

definition axisSpan :: "Ctx \<Rightarrow> inputDev \<Rightarrow> u16 \<Rightarrow> herr + int \<times> int" where
  "axisSpan c d axis =
     (if \<not> live c then Inl (mkerr ''relocated root: device ioctls disabled'')
      else (case map_of (absMax d) axis of
              Some (lo, hi) \<Rightarrow> if hi \<le> lo then Inl (mkerr (d_name d @ '' axis '' @ dec (unat axis) @ '' has no validated range'')) else Inr (lo, hi)
            | None \<Rightarrow> Inl (mkerr (d_name d @ '' axis '' @ dec (unat axis) @ '' has no validated range''))))"

section \<open>Coverage of an axis\<close>

record axisCoverage =
  lo :: int
  hi :: int
  mn :: int
  mx :: int
  seen :: bool
  invalid :: bool

definition coverage :: "int \<times> int \<Rightarrow> axisCoverage" where
  "coverage r = \<lparr>lo = fst r, hi = snd r, mn = 0, mx = 0, seen = False, invalid = False\<rparr>"

definition axis_observe :: "axisCoverage \<Rightarrow> int \<Rightarrow> axisCoverage" where
  "axis_observe a v =
     (if v < lo a \<or> hi a < v then a\<lparr>invalid := True\<rparr>
      else if \<not> seen a then a\<lparr>mn := v, mx := v, seen := True\<rparr>
      else a\<lparr>mn := min (mn a) v, mx := max (mx a) v\<rparr>)"

definition fraction :: "axisCoverage \<Rightarrow> f64 option" where
  "fraction a =
     (if \<not> seen a \<or> invalid a \<or> hi a \<le> lo a then None
      else Some (f_div (of_int64 (mx a - mn a)) (of_int64 (hi a - lo a))))"

definition bool_word :: "bool \<Rightarrow> string" where
  "bool_word b = (if b then ''true'' else ''false'')"

definition axis_text :: "string \<Rightarrow> axisCoverage \<Rightarrow> f64 \<Rightarrow> string" where
  "axis_text n a f =
     n @ '' '' @ dec_int (mn a) @ ''..'' @ dec_int (mx a) @ '' of '' @ dec_int (lo a) @ ''..'' @ dec_int (hi a) @
     '' ('' @ fmt_fixed 0 (f_mul f (Fin 100)) @ ''%)''"

definition reportCoverage :: "henv \<Rightarrow> string \<Rightarrow> string \<Rightarrow> axisCoverage \<Rightarrow> axisCoverage \<Rightarrow> bool hprog" where
  "reportCoverage env g name x y =
     (case (fraction x, fraction y) of
        (Some cx, Some cy) \<Rightarrow> do {
          let msg = axis_text ''X'' x cx @ '', '' @ axis_text ''Y'' y cy;
          (if f_le (fl (97 / 100)) cx \<and> f_le (fl (97 / 100)) cy then r_Pass env g name (msg @ ''; axis reach, not visual alignment'')
           else r_Warn env g name (msg @ ''; edges not fully swept''));
          ret True }
      | _ \<Rightarrow> do {
          r_Fail env g name (''need both X and Y samples within validated bounds (X seen='' @ bool_word (seen x) @ '' invalid='' @
            bool_word (invalid x) @ ''; Y seen='' @ bool_word (seen y) @ '' invalid='' @ bool_word (invalid y) @ '')'');
          ret False })"

section \<open>Trackers\<close>

record touchTracker =
  minSlot :: int
  maxSlot :: int
  tx :: axisCoverage
  ty :: axisCoverage
  active :: "(int \<times> int) list"
  slot :: int
  slotKnown :: bool
  synced :: bool
  touchKnown :: bool
  touchDown :: bool
  t_invalid :: bool
  peak :: nat
  unknownIDs :: nat

definition touch_report :: "touchTracker \<Rightarrow> touchTracker" where
  "touch_report t =
     (if touchKnown t \<and> \<not> touchDown t then t\<lparr>synced := True, active := [], slotKnown := False\<rparr>
      else if synced t \<and> touchKnown t \<and> touchDown t then
        (if distinct (map snd (active t)) then t\<lparr>peak := max (peak t) (length (active t))\<rparr> else t\<lparr>t_invalid := True\<rparr>)
      else t)"

definition touch_slot :: "touchTracker \<Rightarrow> int \<Rightarrow> touchTracker" where
  "touch_slot t v =
     (let known = (minSlot t \<le> v \<and> v \<le> maxSlot t)
      in t\<lparr>slot := v, slotKnown := known, t_invalid := t_invalid t \<or> \<not> known\<rparr>)"

definition touch_id :: "touchTracker \<Rightarrow> int \<Rightarrow> touchTracker" where
  "touch_id t v =
     (if v < - 1 then t\<lparr>t_invalid := True\<rparr>
      else if \<not> slotKnown t then t\<lparr>unknownIDs := unknownIDs t + 1\<rparr>
      else if v = - 1 then t\<lparr>active := AList.delete (slot t) (active t)\<rparr>
      else t\<lparr>active := AList.update (slot t) v (active t)\<rparr>)"

definition touch_observe :: "touchTracker \<Rightarrow> event \<Rightarrow> touchTracker" where
  "touch_observe t e =
     (if e_dev e \<noteq> ''ilitek_ts'' then t
      else if e_typ e = evKey \<and> e_code e = btnTouch then
        (if e_value e \<noteq> 0 \<and> e_value e \<noteq> 1 then t\<lparr>t_invalid := True\<rparr>
         else t\<lparr>touchKnown := True, touchDown := e_value e = 1\<rparr>)
      else if e_typ e = evSyn \<and> e_code e = synReport then touch_report t
      else if \<not> synced t \<or> e_typ e \<noteq> evAbs then t
      else if e_code e = absMTSlot then touch_slot t (e_value e)
      else if e_code e = absMTID then touch_id t (e_value e)
      else if e_code e = absMTX then t\<lparr>tx := axis_observe (tx t) (e_value e)\<rparr>
      else if e_code e = absMTY then t\<lparr>ty := axis_observe (ty t) (e_value e)\<rparr>
      else t)"

definition touch_start :: "int \<times> int \<Rightarrow> int \<times> int \<Rightarrow> int \<times> int \<Rightarrow> touchTracker" where
  "touch_start sx sy ss =
     \<lparr>minSlot = fst ss, maxSlot = snd ss, tx = coverage sx, ty = coverage sy, active = [], slot = 0, slotKnown = False,
      synced = False, touchKnown = False, touchDown = False, t_invalid = False, peak = 0, unknownIDs = 0\<rparr>"

record penTipTracker =
  penKnown :: bool
  p_touchKnown :: bool
  penDown :: bool
  p_touchDown :: bool
  observed :: bool

definition tip_start :: penTipTracker where
  "tip_start = \<lparr>penKnown = False, p_touchKnown = False, penDown = False, p_touchDown = False, observed = False\<rparr>"

definition tip_observe :: "penTipTracker \<Rightarrow> event \<Rightarrow> penTipTracker" where
  "tip_observe p e =
     (if e_dev e \<noteq> pen_dev then p
      else let p' = (if e_typ e = evKey \<and> (e_value e = 0 \<or> e_value e = 1) then
                       (if e_code e = btnToolPen then p\<lparr>penKnown := True, penDown := e_value e = 1\<rparr>
                        else if e_code e = btnTouch then p\<lparr>p_touchKnown := True, p_touchDown := e_value e = 1\<rparr>
                        else p)
                     else p)
           in if e_typ e = evSyn \<and> e_code e = synReport \<and> penKnown p' \<and> p_touchKnown p' \<and> penDown p' \<and> p_touchDown p'
              then p'\<lparr>observed := True\<rparr> else p')"

record penState =
  px :: axisCoverage
  py :: axisCoverage
  pmax :: int
  pressureSeen :: bool
  pressureInvalid :: bool
  barrel :: bool
  eraser :: bool
  flips :: bool
  tip :: penTipTracker
  last_tool :: u16

definition pen_start :: "int \<times> int \<Rightarrow> int \<times> int \<Rightarrow> penState" where
  "pen_start sx sy =
     \<lparr>px = coverage sx, py = coverage sy, pmax = 0, pressureSeen = False, pressureInvalid = False, barrel = False,
      eraser = False, flips = False, tip = tip_start, last_tool = 0\<rparr>"

definition pen_observe :: "int \<times> int \<Rightarrow> penState \<Rightarrow> event \<Rightarrow> penState" where
  "pen_observe sp s e =
     (if e_dev e \<noteq> pen_dev then s
      else let s = s\<lparr>tip := tip_observe (tip s) e\<rparr> in
        if e_typ e = evAbs \<and> e_code e = absX then s\<lparr>px := axis_observe (px s) (e_value e)\<rparr>
        else if e_typ e = evAbs \<and> e_code e = absY then s\<lparr>py := axis_observe (py s) (e_value e)\<rparr>
        else if e_typ e = evAbs \<and> e_code e = absPressure then
          (if e_value e < fst sp \<or> snd sp < e_value e then s\<lparr>pressureSeen := True, pressureInvalid := True\<rparr>
           else s\<lparr>pressureSeen := True, pmax := max (pmax s) (e_value e)\<rparr>)
        else if e_typ e = evKey \<and> e_code e = btnStylus \<and> e_value e = 1 then s\<lparr>barrel := True\<rparr>
        else if e_typ e = evKey \<and> (e_code e = btnToolPen \<or> e_code e = btnToolRubber) \<and> e_value e = 1 then
          s\<lparr>eraser := eraser s \<or> e_code e = btnToolRubber,
            flips := flips s \<or> last_tool s \<noteq> 0 \<and> last_tool s \<noteq> e_code e,
            last_tool := e_code e\<rparr>
        else s)"

section \<open>What the trackers may claim\<close>

text \<open>The state of the digitizer itself, as the multitouch protocol defines it: the current slot and the
  contact of every slot.  Neither is known to a session that starts in the middle of a stream.\<close>

record mt_state =
  cur_slot :: int
  contacts :: "(int \<times> int) list"

definition mt_step :: "mt_state \<Rightarrow> event \<Rightarrow> mt_state" where
  "mt_step s e =
     (if e_dev e \<noteq> ''ilitek_ts'' \<or> e_typ e \<noteq> evAbs then s
      else if e_code e = absMTSlot then s\<lparr>cur_slot := e_value e\<rparr>
      else if e_code e = absMTID then
        (if e_value e < 0 then s\<lparr>contacts := AList.delete (cur_slot s) (contacts s)\<rparr>
         else s\<lparr>contacts := AList.update (cur_slot s) (e_value e) (contacts s)\<rparr>)
      else s)"

definition frame_end :: "string \<Rightarrow> event \<Rightarrow> bool" where
  "frame_end d e \<longleftrightarrow> e_dev e = d \<and> e_typ e = evSyn \<and> e_code e = synReport"

definition touching :: "mt_state \<Rightarrow> nat" where
  "touching s = card (dom (map_of (contacts s)))"

fun mt_peak :: "mt_state \<Rightarrow> event list \<Rightarrow> nat" where
  "mt_peak s [] = 0"
| "mt_peak s (e # es) =
     max (if frame_end ''ilitek_ts'' e then touching (mt_step s e) else 0) (mt_peak (mt_step s e) es)"

lemmas ev_codes = evSyn_def evKey_def evAbs_def evSW_def synReport_def synDropped_def absMTSlot_def absMTID_def
  absMTX_def absMTY_def btnTouch_def btnToolPen_def

definition tracks :: "touchTracker \<Rightarrow> mt_state \<Rightarrow> bool" where
  "tracks t s \<longleftrightarrow>
     map_of (active t) \<subseteq>\<^sub>m map_of (contacts s) \<and> distinct (map fst (active t)) \<and>
     (\<forall>k\<in>dom (map_of (active t)). minSlot t \<le> k \<and> k \<le> maxSlot t) \<and>
     (slotKnown t \<longrightarrow> slot t = cur_slot s \<and> minSlot t \<le> slot t \<and> slot t \<le> maxSlot t) \<and>
     (\<not> slotKnown t \<longrightarrow> cur_slot s \<notin> dom (map_of (active t))) \<and>
     (\<not> synced t \<longrightarrow> active t = [] \<and> \<not> slotKnown t)"

lemma touch_invalid_stays: "t_invalid t \<Longrightarrow> t_invalid (touch_observe t e)"
  by (auto simp: touch_observe_def touch_report_def touch_slot_def touch_id_def Let_def)

lemma touch_invalid_fold: "t_invalid t \<Longrightarrow> t_invalid (foldl touch_observe t es)"
  by (induction es arbitrary: t) (auto intro: touch_invalid_stays)

lemma tracks_start: "tracks (touch_start sx sy ss) s"
  by (simp add: tracks_def touch_start_def)

lemma tracks_id:
  assumes "tracks t s" "synced t" "\<not> t_invalid (touch_id t v)"
  shows "tracks (touch_id t v) (s\<lparr>contacts := if v < 0 then AList.delete (cur_slot s) (contacts s)
                                              else AList.update (cur_slot s) v (contacts s)\<rparr>)"
proof -
  have v: "- 1 \<le> v" using assms(3) by (auto simp: touch_id_def split: if_splits)
  show ?thesis
  proof (cases "slotKnown t")
    case True
    then have k: "slot t = cur_slot s" "minSlot t \<le> slot t" "slot t \<le> maxSlot t" using assms(1) by (auto simp: tracks_def)
    show ?thesis
      using assms k True v
      by (auto simp: tracks_def touch_id_def delete_conv' update_conv' distinct_removeAll distinct_update
               map_le_def delete_keys split: if_splits)
  next
    case False
    then show ?thesis
      using assms v
      by (auto simp: tracks_def touch_id_def delete_conv' update_conv' map_le_def split: if_splits)
  qed
qed

lemma tracks_other [simp]:
  "tracks (t\<lparr>touchKnown := b, touchDown := d\<rparr>) s = tracks t s" "tracks (t\<lparr>t_invalid := i\<rparr>) s = tracks t s"
  "tracks (t\<lparr>tx := cx\<rparr>) s = tracks t s" "tracks (t\<lparr>ty := cy\<rparr>) s = tracks t s" "tracks (t\<lparr>peak := n\<rparr>) s = tracks t s"
  by (simp_all add: tracks_def)

lemma tracks_report: "tracks t s \<Longrightarrow> tracks (touch_report t) s"
  by (simp add: touch_report_def) (simp add: tracks_def)

lemma tracks_slot: "tracks t s \<Longrightarrow> synced t \<Longrightarrow> \<not> t_invalid (touch_slot t v) \<Longrightarrow> tracks (touch_slot t v) (s\<lparr>cur_slot := v\<rparr>)"
  by (simp add: touch_slot_def Let_def) (simp add: tracks_def)

lemma tracks_step:
  assumes "tracks t s" "\<not> t_invalid (touch_observe t e)"
  shows "tracks (touch_observe t e) (mt_step s e)"
proof (cases "e_dev e = ''ilitek_ts'' \<and> e_typ e = evAbs")
  case False
  then have m: "mt_step s e = s" by (simp add: mt_step_def)
  have "touch_observe t e \<in> {t, t\<lparr>t_invalid := True\<rparr>, t\<lparr>touchKnown := True, touchDown := e_value e = 1\<rparr>, touch_report t}"
    using False by (simp add: touch_observe_def)
  then show ?thesis using assms(1) tracks_report m by auto
next
  case True
  then have ty: "e_typ e \<noteq> evKey" "e_typ e \<noteq> evSyn" by (auto simp: evAbs_def evKey_def evSyn_def)
  have ne: "absMTID \<noteq> absMTSlot" by (simp add: ev_codes)
  consider "\<not> synced t" | "synced t" "e_code e = absMTSlot" | "synced t" "e_code e = absMTID"
    | "synced t" "e_code e \<noteq> absMTSlot" "e_code e \<noteq> absMTID" by blast
  then show ?thesis
  proof cases
    case 1
    then have "touch_observe t e = t" using True ty by (simp add: touch_observe_def)
    then show ?thesis using assms(1) 1 by (simp add: tracks_def)
  next
    case 2
    then have "touch_observe t e = touch_slot t (e_value e)" "mt_step s e = s\<lparr>cur_slot := e_value e\<rparr>"
      using True ty by (simp_all add: touch_observe_def mt_step_def)
    then show ?thesis using tracks_slot[OF assms(1) 2(1)] assms(2) by simp
  next
    case 3
    then have "touch_observe t e = touch_id t (e_value e)"
      "mt_step s e = s\<lparr>contacts := if e_value e < 0 then AList.delete (cur_slot s) (contacts s)
        else AList.update (cur_slot s) (e_value e) (contacts s)\<rparr>"
      using True ty ne by (simp_all add: touch_observe_def mt_step_def)
    then show ?thesis using tracks_id[OF assms(1) 3(1)] assms(2) by simp
  next
    case 4
    then have "mt_step s e = s" using True by (simp add: mt_step_def)
    moreover have "touch_observe t e \<in> {t, t\<lparr>tx := axis_observe (tx t) (e_value e)\<rparr>, t\<lparr>ty := axis_observe (ty t) (e_value e)\<rparr>}"
      using 4 True ty by (simp add: touch_observe_def)
    ultimately show ?thesis using assms(1) by auto
  qed
qed

lemma tracks_touching:
  assumes "tracks t s"
  shows "length (active t) \<le> touching s"
proof -
  have "length (active t) = card (fst ` set (active t))"
    using assms distinct_card[of "map fst (active t)"] by (simp add: tracks_def)
  also have "\<dots> = card (dom (map_of (active t)))" by (simp add: dom_map_of_conv_image_fst)
  also have "\<dots> \<le> touching s"
    unfolding touching_def using assms by (intro card_mono) (auto simp: tracks_def map_le_implies_dom_le finite_dom_map_of)
  finally show ?thesis .
qed

lemma peak_step:
  assumes "tracks t s"
  shows "peak (touch_observe t e) \<le> max (peak t) (if frame_end ''ilitek_ts'' e then touching (mt_step s e) else 0)"
proof -
  have "peak (touch_observe t e) = peak t \<or>
        frame_end ''ilitek_ts'' e \<and> mt_step s e = s \<and> peak (touch_observe t e) = max (peak t) (length (active t))"
    by (auto simp: touch_observe_def touch_report_def touch_slot_def touch_id_def frame_end_def mt_step_def Let_def ev_codes)
  then show ?thesis using tracks_touching[OF assms] by auto
qed

lemma peak_bound:
  "tracks t s \<Longrightarrow> \<not> t_invalid (foldl touch_observe t es) \<Longrightarrow>
   peak (foldl touch_observe t es) \<le> max (peak t) (mt_peak s es)"
proof (induction es arbitrary: t s)
  case (Cons e es)
  have ok: "\<not> t_invalid (touch_observe t e)" using Cons.prems(2) touch_invalid_fold by auto
  have "peak (foldl touch_observe t (e # es)) \<le> max (peak (touch_observe t e)) (mt_peak (mt_step s e) es)"
    using Cons.IH[OF tracks_step[OF Cons.prems(1) ok]] Cons.prems(2) by simp
  then show ?case using peak_step[OF Cons.prems(1), of e] by (auto simp: max_def split: if_splits)
qed simp

text \<open>The pen: the true state of its two keys, and whether a frame ended with both of them down.\<close>

definition tip_keys :: "bool \<times> bool \<Rightarrow> event \<Rightarrow> bool \<times> bool" where
  "tip_keys k e =
     (if e_dev e \<noteq> pen_dev \<or> e_typ e \<noteq> evKey \<or> e_value e \<notin> {0, 1} then k
      else if e_code e = btnToolPen then (e_value e = 1, snd k)
      else if e_code e = btnTouch then (fst k, e_value e = 1)
      else k)"

fun tip_frame :: "bool \<times> bool \<Rightarrow> event list \<Rightarrow> bool" where
  "tip_frame k [] = False"
| "tip_frame k (e # es) = (frame_end pen_dev e \<and> tip_keys k e = (True, True) \<or> tip_frame (tip_keys k e) es)"

definition tip_tracks :: "penTipTracker \<Rightarrow> bool \<times> bool \<Rightarrow> bool" where
  "tip_tracks p k \<longleftrightarrow> (penKnown p \<longrightarrow> penDown p = fst k) \<and> (p_touchKnown p \<longrightarrow> p_touchDown p = snd k)"

lemma tip_tracks_step: "tip_tracks p k \<Longrightarrow> tip_tracks (tip_observe p e) (tip_keys k e)"
  by (cases k) (auto simp: tip_tracks_def tip_observe_def tip_keys_def Let_def ev_codes)

lemma tip_observed_step:
  "tip_tracks p k \<Longrightarrow> observed (tip_observe p e) \<Longrightarrow> observed p \<or> frame_end pen_dev e \<and> tip_keys k e = (True, True)"
  by (cases k) (auto simp: tip_tracks_def tip_observe_def tip_keys_def frame_end_def Let_def ev_codes split: if_splits)

lemma tip_observed_fold:
  "tip_tracks p k \<Longrightarrow> observed (foldl tip_observe p es) \<Longrightarrow> observed p \<or> tip_frame k es"
proof (induction es arbitrary: p k)
  case (Cons e es)
  then show ?case using tip_tracks_step[of p k e] tip_observed_step[of p k e] by fastforce
qed simp

section \<open>Capability bitmaps\<close>

definition bitmap_value :: "nat list \<Rightarrow> nat" where
  "bitmap_value ws = foldl (\<lambda>a w. a * 2 ^ 64 + w) 0 ws"

lemma bitmap_value_snoc: "bitmap_value (ws @ [w]) = bitmap_value ws * 2 ^ 64 + w"
  by (simp add: bitmap_value_def)

lemma bitmap_value_word:
  assumes "\<forall>w\<in>set ws. w < 2 ^ 64"
  shows "bitmap_value ws div 2 ^ (64 * k) mod 2 ^ 64 = (if k < length ws then ws ! (length ws - 1 - k) else 0)"
  using assms
proof (induction ws arbitrary: k rule: rev_induct)
  case Nil
  then show ?case by (simp add: bitmap_value_def)
next
  case (snoc w ws)
  show ?case
  proof (cases k)
    case 0
    then show ?thesis using snoc.prems by (simp add: bitmap_value_snoc)
  next
    case (Suc j)
    have "bitmap_value (ws @ [w]) div 2 ^ (64 * k) = (bitmap_value ws * 2 ^ 64 + w) div 2 ^ 64 div 2 ^ (64 * j)"
      by (simp add: Suc bitmap_value_snoc div_mult2_eq power_add)
    also have "\<dots> = bitmap_value ws div 2 ^ (64 * j)" using snoc.prems by simp
    finally show ?thesis using snoc.IH[of j] snoc.prems Suc by (auto simp: nth_append)
  qed
qed

text \<open>A capability is read off its word exactly as off the whole bitmap taken as one number.\<close>

lemma cap_bit_value:
  assumes "map ParseHex (Fields s) = map Some ws"
  shows "cap_bit s n \<longleftrightarrow> odd (bitmap_value ws div 2 ^ unat n)"
proof -
  have l: "length (Fields s) = length ws" using assms map_eq_imp_length_eq by fastforce
  have p: "ParseHex (Fields s ! i) = Some (ws ! i)" if "i < length ws" for i
    using arg_cong[OF assms, of "\<lambda>xs. xs ! i"] that l by simp
  have b: "\<forall>w\<in>set ws. w < 2 ^ 64"
  proof
    fix w
    assume "w \<in> set ws"
    then obtain i where "i < length ws" "w = ws ! i" by (metis in_set_conv_nth)
    then show "w < 2 ^ 64" using p[of i] by (auto simp: ParseHex_def split: if_splits)
  qed
  let ?k = "unat n div 64" and ?r = "unat n mod 64" and ?B = "bitmap_value ws"
  have "?B div 2 ^ unat n = ?B div 2 ^ (64 * ?k) div 2 ^ ?r"
    by (metis div_mult2_eq mult_div_mod_eq power_add)
  moreover have "odd (x div 2 ^ ?r) \<longleftrightarrow> odd (x mod 2 ^ 64 div 2 ^ ?r)" for x :: nat
    using bit_take_bit_iff[of 64 x ?r] by (simp add: bit_iff_odd take_bit_eq_mod)
  ultimately have "odd (?B div 2 ^ unat n) \<longleftrightarrow> odd ((?B div 2 ^ (64 * ?k) mod 2 ^ 64) div 2 ^ ?r)" by simp
  then show ?thesis using bitmap_value_word[OF b, of ?k] l p[of "length ws - 1 - ?k"]
    by (auto simp: cap_bit_def Let_def)
qed

section \<open>Properties\<close>

text \<open>C38: The trackers of the operator tests never claim more than the hardware did.  Whatever slot and
  contacts the digitizer had when the session started, an accepted touch run reports a peak that is at
  most the largest number of contacts it really had at the end of a frame; and a pen tip counts as
  observed only if at the end of some frame the pen and its tip were really down.\<close>

theorem trackers_sound:
  assumes "\<not> t_invalid (foldl touch_observe (touch_start sx sy ss) es)"
  shows "peak (foldl touch_observe (touch_start sx sy ss) es) \<le> mt_peak s es \<and>
         (observed (foldl tip_observe tip_start es) \<longrightarrow> tip_frame k es)"
  using peak_bound[OF tracks_start assms, of s] tip_observed_fold[of tip_start k es]
  by (simp add: touch_start_def tip_tracks_def tip_start_def)

text \<open>C39: A capability bit is decided as if the whole bitmap were one number: the words of the kernel's text
  come most significant first, and the test of one word of it agrees with the binary digit of their
  concatenation for every code.\<close>

theorem capability_bit_exact:
  assumes "map ParseHex (Fields s) = map Some ws"
  shows "cap_bit s n \<longleftrightarrow> odd (bitmap_value ws div 2 ^ unat n)"
  by (rule cap_bit_value[OF assms])

definition two_taps :: "event list" where
  "two_taps =
     map (\<lambda>(t, n, v). \<lparr>e_dev = ''ilitek_ts'', e_typ = t, e_code = n, e_value = v\<rparr>)
       [(evKey, btnTouch, 0), (evSyn, synReport, 0), (evAbs, absMTSlot, 1), (evAbs, absMTID, 7), (evAbs, absMTSlot, 2),
        (evAbs, absMTID, 8), (evKey, btnTouch, 1), (evSyn, synReport, 0)]"

theorem trackers_sound_witness:
  "peak (foldl touch_observe (touch_start (0, 9) (0, 9) (0, 9)) two_taps) = 2 \<and>
   2 \<le> mt_peak \<lparr>cur_slot = 0, contacts = []\<rparr> two_taps"
proof -
  have p: "peak (foldl touch_observe (touch_start (0, 9) (0, 9) (0, 9)) two_taps) = 2" by code_simp
  have "\<not> t_invalid (foldl touch_observe (touch_start (0, 9) (0, 9) (0, 9)) two_taps)" by code_simp
  from trackers_sound[OF this, of "\<lparr>cur_slot = 0, contacts = []\<rparr>" "(False, False)"] p show ?thesis by simp
qed

theorem capability_bit_exact_witness: "cap_bit ''10 0'' 68 \<longleftrightarrow> odd (bitmap_value [16, 0] div 2 ^ 68)"
proof -
  have "map ParseHex (Fields ''10 0'') = map Some [16, 0]"
    by (simp add: fields.simps is_space_def ParseHex_def hex_nat_def hex_digit_val_def)
  from capability_bit_exact[OF this, of 68] show ?thesis by simp
qed

end
