(* ===== verification/Hw_Operator.thy ===== *)
theory Hw_Operator
  imports Hw_Input
begin

text \<open>
  The operator tests of the input group (\<^verbatim>\<open>input.go\<close>): opening a session on the built-in devices, the
  button presses, the touch and pen tests and the hall switch, and the group itself.
\<close>

section \<open>Sessions as seen by the tests\<close>

definition session_error :: "henv \<Rightarrow> herr option hprog" where
  "session_error env = do { r \<leftarrow> act env HSessionErr; ret (h_cancelled r) }"

definition session_close :: "henv \<Rightarrow> unit hprog" where
  "session_close env = do { _ \<leftarrow> act env HSessionClose; unit_prog }"

definition dropped_error :: "event \<Rightarrow> herr" where
  "dropped_error e = mkerr (e_dev e @ '' SYN_DROPPED'')"

definition is_dropped :: "event \<Rightarrow> bool" where
  "is_dropped e = (e_typ e = evSyn \<and> e_code e = synDropped)"

text \<open>Draining takes no more events than were queued when it began; it ends early on a session error, a loss or
  an empty queue, and otherwise with the session error of that moment.\<close>

fun drain_loop :: "iter list \<Rightarrow> herr option \<Rightarrow> herr option" where
  "drain_loop [] fin = fin"
| "drain_loop (i # is) fin =
     (case it_err i of
        Some e \<Rightarrow> Some e
      | None \<Rightarrow>
          (case it_sel i of
             SelEvent e \<Rightarrow>
               if is_dropped e then Some (case it_after i of Some x \<Rightarrow> x | None \<Rightarrow> dropped_error e)
               else drain_loop is fin
           | _ \<Rightarrow> it_after i))"

definition session_drain :: "henv \<Rightarrow> herr option hprog" where
  "session_drain env = do {
     r \<leftarrow> act env HDrain;
     ret (case r of HIters is fin \<Rightarrow> drain_loop is fin | _ \<Rightarrow> h_cancelled r) }"

text \<open>The loop of \<^verbatim>\<open>until\<close> over what its iterations see; it ends at the latest when the deadline has passed, and
  iterations that end without any other reason end there, with the result of a passed deadline.\<close>

fun until_loop :: "('s \<Rightarrow> event \<Rightarrow> 's \<times> bool) \<Rightarrow> 's \<Rightarrow> iter list \<Rightarrow> (bool \<times> herr option) \<times> 's" where
  "until_loop fn s [] = ((False, None), s)"
| "until_loop fn s (i # is) =
     (case it_err i of
        Some e \<Rightarrow> ((False, Some e), s)
      | None \<Rightarrow>
          if it_late i then ((False, None), s)
          else (case it_sel i of
                  SelEvent e \<Rightarrow>
                    if is_dropped e then ((False, Some (case it_after i of Some x \<Rightarrow> x | None \<Rightarrow> dropped_error e)), s)
                    else (case fn s e of
                            (s', True) \<Rightarrow> ((True, it_after i), s')
                          | (s', False) \<Rightarrow> until_loop fn s' is)
                | SelErr e \<Rightarrow> ((False, Some e), s)
                | SelDone \<Rightarrow> ((False, it_after i), s)
                | SelTimer \<Rightarrow> ((False, it_after i), s)))"

definition session_until :: "henv \<Rightarrow> nat \<Rightarrow> ('s \<Rightarrow> event \<Rightarrow> 's \<times> bool) \<Rightarrow> 's \<Rightarrow> ((bool \<times> herr option) \<times> 's) hprog" where
  "session_until env d fn s = do {
     r \<leftarrow> act env (HUntil d);
     ret (until_loop fn s (case r of HIters is _ \<Rightarrow> is | _ \<Rightarrow> [])) }"

definition reportInputError :: "henv \<Rightarrow> string \<Rightarrow> string \<Rightarrow> herr \<Rightarrow> unit hprog" where
  "reportInputError env g name e =
     (if kind e = ECanceled \<or> kind e = EDeadline then r_Skip env g name (''input session cancelled: '' @ etext e)
      else r_Fail env g name (''input session invalid: '' @ etext e))"

definition wrap :: "string \<Rightarrow> herr \<Rightarrow> herr" where
  "wrap t e = e\<lparr>etext := t @ '': '' @ etext e\<rparr>"

definition stat_text :: "hresp \<Rightarrow> string" where
  "stat_text r = (case r of HErr e \<Rightarrow> etext e | _ \<Rightarrow> ''<nil>'')"

text \<open>One device: open, check that it is a character device, grab, start its reader.\<close>

definition open_device :: "henv \<Rightarrow> Ctx \<Rightarrow> bool \<Rightarrow> string \<Rightarrow> inputDev \<Rightarrow> herr option hprog" where
  "open_device env c grab name d = do {
     fd \<leftarrow> act env (HOpenEvent (cpath c (d_event d)));
     (case h_ok fd of
        Some e \<Rightarrow> ret (Some (wrap (''open '' @ d_event d) e))
      | None \<Rightarrow> do {
          st \<leftarrow> act env HFstatEvent;
          if \<not> h_true st then
            ret (Some (mkerr (d_event d @ '' is not a readable character device (stat error: '' @ stat_text st @ '')'')))
          else do {
            gr \<leftarrow> (if grab then do { r \<leftarrow> act env HGrab; ret (h_ok r) } else ret None);
            (case gr of
               Some e \<Rightarrow> ret (Some (wrap (''grab '' @ d_event d) e))
             | None \<Rightarrow> do { _ \<leftarrow> act env (HSpawnReader name); ret None }) } }) }"

fun open_devices :: "henv \<Rightarrow> Ctx \<Rightarrow> bool \<Rightarrow> devs \<Rightarrow> string list \<Rightarrow> nat \<Rightarrow> (herr + nat) hprog" where
  "open_devices env c grab dv [] n = ret (Inr n)"
| "open_devices env c grab dv (name # names) n = do {
     se \<leftarrow> session_error env;
     (case se of
        Some e \<Rightarrow> ret (Inl e)
      | None \<Rightarrow>
          (case map_of dv name of
             None \<Rightarrow> open_devices env c grab dv names n
           | Some d \<Rightarrow>
               if d_problem d \<noteq> [] then ret (Inl (mkerr (d_problem d)))
               else if d_event d = [] then ret (Inl (mkerr (name @ '': no event node'')))
               else do {
                 err \<leftarrow> open_device env c grab name d;
                 (case err of
                    Some e \<Rightarrow> ret (Inl e)
                  | None \<Rightarrow> open_devices env c grab dv names (n + 1)) })) }"

text \<open>A failed opening closes what was opened.\<close>

definition openSession :: "henv \<Rightarrow> Ctx \<Rightarrow> devs \<Rightarrow> bool \<Rightarrow> herr option hprog" where
  "openSession env c dv grab =
     (if \<not> live c then ret (Some (mkerr ''relocated root: device opens and ioctls disabled''))
      else do {
        res \<leftarrow> open_devices env c grab dv boardInputNames 0;
        (case res of
           Inl e \<Rightarrow> do { session_close env; ret (Some e) }
         | Inr n \<Rightarrow>
             if n = 0 then do { session_close env; ret (Some (mkerr ''no board input event nodes'')) }
             else ret None) })"

section \<open>Buttons\<close>

record keySpec =
  k_name :: string
  k_label :: string
  k_dev :: string
  k_codes :: "u16 list"

definition key_specs :: "keySpec list" where
  "key_specs =
    [\<lparr>k_name = ''power-button'', k_label = ''POWER button'', k_dev = ''mtk-pmic-keys'', k_codes = [keyPower]\<rparr>,
     \<lparr>k_name = ''volume-up'', k_label = ''VOLUME UP'', k_dev = ''mtk-pmic-keys'', k_codes = [keyVolUp]\<rparr>,
     \<lparr>k_name = ''volume-down'', k_label = ''VOLUME DOWN'', k_dev = ''mt6779-keypad'', k_codes = [keyVolDown]\<rparr>,
     \<lparr>k_name = ''quick-action'', k_label = ''QUICK ACTION button'', k_dev = ''mt6779-keypad'', k_codes = [keyProg1, 87, 88, keyProg2]\<rparr>,
     \<lparr>k_name = ''back-button'', k_label = ''BACK button'', k_dev = ''mt6779-keypad'', k_codes = [keyProg2, 88, 87, keyProg1]\<rparr>]"

definition key_press :: "keySpec \<Rightarrow> u16 \<Rightarrow> event \<Rightarrow> u16 \<times> bool" where
  "key_press k got e =
     (if e_dev e = k_dev k \<and> e_typ e = evKey \<and> e_value e = 1 \<and> e_code e \<in> set (k_codes k) then (e_code e, True)
      else (got, False))"

definition key_verdict :: "henv \<Rightarrow> string \<Rightarrow> keySpec \<Rightarrow> (string \<times> u16) list \<Rightarrow> bool \<Rightarrow> u16 \<Rightarrow> (string \<times> u16) list hprog" where
  "key_verdict env g k seen_ids ok got =
     (if \<not> ok then do {
        r_Fail env g (k_name k) (''no press event from '' @ k_dev k @ '' within 20 s'');
        ret seen_ids }
      else if (k_dev k, got) \<in> set seen_ids then do {
        r_Fail env g (k_name k) (''code '' @ dec (unat got) @ '' on '' @ k_dev k @ '' already reported by a different button'');
        ret seen_ids }
      else do {
        (if got = hd (k_codes k) then r_Pass env g (k_name k) (''raw event code '' @ dec (unat got))
         else r_Warn env g (k_name k) (''raw event code '' @ dec (unat got) @ '', expected '' @ dec (unat (hd (k_codes k))) @
                ''; hwdb can remap above evdev, verify desktop separately''));
        ret ((k_dev k, got) # seen_ids) })"

fun key_tests :: "henv \<Rightarrow> string \<Rightarrow> devs \<Rightarrow> keySpec list \<Rightarrow> (string \<times> u16) list \<Rightarrow> bool hprog" where
  "key_tests env g dv [] seen_ids = ret True"
| "key_tests env g dv (k # ks) seen_ids = do {
     de \<leftarrow> session_drain env;
     (case de of
        Some e \<Rightarrow> do { reportInputError env g ''events'' e; ret False }
      | None \<Rightarrow>
          if map_of dv (k_dev k) = None then do {
            r_Skip env g (k_name k) (''required device '' @ k_dev k @ '' absent'');
            key_tests env g dv ks seen_ids }
          else do {
            say env (''Press the '' @ k_label k @ '' (20 s)...'');
            ((ok, err), got) \<leftarrow> session_until env (20000 * ms) (key_press k) 0;
            (case err of
               Some e \<Rightarrow> do { reportInputError env g (k_name k) e; ret False }
             | None \<Rightarrow> do {
                 seen' \<leftarrow> key_verdict env g k seen_ids ok got;
                 key_tests env g dv ks seen' }) }) }"

section \<open>Touch, pen and hall switch\<close>

definition span_text :: "herr + int \<times> int \<Rightarrow> string" where
  "span_text r = (case r of Inl e \<Rightarrow> etext e | Inr _ \<Rightarrow> ''<nil>'')"

definition touch_verdict :: "henv \<Rightarrow> string \<Rightarrow> touchTracker \<Rightarrow> unit hprog" where
  "touch_verdict env g t =
     (if t_invalid t then
        r_Fail env g ''touch-events'' ''out-of-bounds multitouch slot, invalid/duplicate tracking ID or BTN_TOUCH value''
      else if \<not> synced t then
        r_Skip env g ''touch-events'' ''no complete SYN_REPORT with BTN_TOUCH=0; initial contact/slot state remains unknown''
      else do {
        r_Info env g ''touch-contact-count''
          (''contact lower bound from complete frames after neutral release; unchanged first slot may be omitted ('' @
           dec (unknownIDs t) @ '' unknown-slot IDs skipped)'');
        ok \<leftarrow> reportCoverage env g ''touch-coverage'' (tx t) (ty t);
        if \<not> ok then unit_prog
        else if 5 \<le> peak t then
          r_Pass env g ''touch-multitouch'' (''at least '' @ dec (peak t) @ '' simultaneous contacts in a complete frame'')
        else
          r_Warn env g ''touch-multitouch'' (''observed lower-bound peak '' @ dec (peak t) @
            '' (asked for 5+); unchanged first slot may be omitted'') })"

definition touchTest :: "henv \<Rightarrow> Ctx \<Rightarrow> string \<Rightarrow> devs \<Rightarrow> unit hprog" where
  "touchTest env c g dv =
     (case map_of dv ''ilitek_ts'' of
        None \<Rightarrow> r_Skip env g ''touch-events'' ''device absent''
      | Some d \<Rightarrow>
          (case (axisSpan c d absMTX, axisSpan c d absMTY, axisSpan c d absMTSlot) of
             (Inr sx, Inr sy, Inr ss) \<Rightarrow> do {
               de \<leftarrow> session_drain env;
               (case de of
                  Some e \<Rightarrow> reportInputError env g ''touch-events'' e
                | None \<Rightarrow> do {
                    say env (''Touch (15 s): first touch and lift ALL fingers to establish a neutral frame; '' @
                             ''then sweep edges/corners and put 5+ fingers down together.'');
                    ((_, err), t) \<leftarrow> session_until env (15000 * ms) (\<lambda>t e. (touch_observe t e, False)) (touch_start sx sy ss);
                    (case err of
                       Some e \<Rightarrow> reportInputError env g ''touch-events'' e
                     | None \<Rightarrow> touch_verdict env g t) }) }
           | (ex, ey, es) \<Rightarrow>
               r_Fail env g ''touch-events'' (''axis bounds unavailable: X='' @ span_text ex @ '' Y='' @ span_text ey @ '' slot='' @ span_text es)))"

definition pen_check :: "henv \<Rightarrow> string \<Rightarrow> string \<Rightarrow> bool \<Rightarrow> string \<Rightarrow> unit hprog" where
  "pen_check env g name ok detail =
     (if ok then r_Pass env g name detail else r_Fail env g name ''not observed'')"

definition pen_verdict :: "henv \<Rightarrow> string \<Rightarrow> int \<times> int \<Rightarrow> penState \<Rightarrow> unit hprog" where
  "pen_verdict env g sp s = do {
     ok \<leftarrow> reportCoverage env g ''pen-coverage'' (px s) (py s);
     if \<not> ok then unit_prog
     else do {
       r_Info env g ''pen-alignment'' ''digitizer axis reach is not ink-under-nib alignment; verify in a drawing app'';
       pen_check env g ''pen-tip'' (observed (tip s)) ''BTN_TOOL_PEN=1 and BTN_TOUCH=1 in a complete frame'';
       (let range = dec_int (fst sp) @ ''..'' @ dec_int (snd sp) in
        if \<not> pressureSeen s \<or> pressureInvalid s then
          r_Fail env g ''pen-pressure'' (''missing pressure samples or samples outside '' @ range)
        else if (snd sp - fst sp) div 2 < pmax s - fst sp then
          r_Pass env g ''pen-pressure'' (''peak '' @ dec_int (pmax s) @ '' of '' @ range)
        else
          r_Warn env g ''pen-pressure'' (''peak '' @ dec_int (pmax s) @ '' of '' @ range @ '' (press harder to test upper range)''));
       pen_check env g ''pen-barrel'' (barrel s) ''barrel button observed'';
       pen_check env g ''pen-eraser'' (eraser s) ''eraser tool observed'';
       pen_check env g ''pen-flip'' (flips s) ''tool changed between pen and eraser; hover continuity not established'' } }"

definition penTest :: "henv \<Rightarrow> Ctx \<Rightarrow> string \<Rightarrow> devs \<Rightarrow> unit hprog" where
  "penTest env c g dv =
     (case map_of dv pen_dev of
        None \<Rightarrow> r_Skip env g ''pen-events'' ''device absent''
      | Some d \<Rightarrow>
          (case (axisSpan c d absX, axisSpan c d absY, axisSpan c d absPressure) of
             (Inr sx, Inr sy, Inr sp) \<Rightarrow> do {
               de \<leftarrow> session_drain env;
               (case de of
                  Some e \<Rightarrow> reportInputError env g ''pen-events'' e
                | None \<Rightarrow> do {
                    say env (''Pen (25 s): sweep edges/corners with tip, press hard once, press barrel button, '' @
                             ''then flip to eraser and back while hovering.'');
                    ((_, err), s) \<leftarrow> session_until env (25000 * ms) (\<lambda>s e. (pen_observe sp s e, False)) (pen_start sx sy);
                    (case err of
                       Some e \<Rightarrow> reportInputError env g ''pen-events'' e
                     | None \<Rightarrow> pen_verdict env g sp s) }) }
           | (ex, ey, ep) \<Rightarrow>
               r_Fail env g ''pen-events'' (''axis bounds unavailable: X='' @ span_text ex @ '' Y='' @ span_text ey @ '' pressure='' @ span_text ep)))"

definition hall_event :: "unit \<Rightarrow> event \<Rightarrow> unit \<times> bool" where
  "hall_event u e = (u, e_dev e = ''hall-switch'' \<and> e_typ e = evSW \<and> (e_value e = 0 \<or> e_value e = 1))"

definition hallTest :: "henv \<Rightarrow> string \<Rightarrow> devs \<Rightarrow> unit hprog" where
  "hallTest env g dv =
     (if map_of dv ''hall-switch'' = None then r_Skip env g ''hall-switch-event'' ''device absent''
      else do {
        say env ''Hall switch (15 s): toggle with the cover/magnet if available; otherwise this check will be skipped.'';
        de \<leftarrow> session_drain env;
        (case de of
           Some e \<Rightarrow> reportInputError env g ''hall-switch-event'' e
         | None \<Rightarrow> do {
             ((ok, err), _) \<leftarrow> session_until env (15000 * ms) hall_event ();
             (case err of
                Some e \<Rightarrow> reportInputError env g ''hall-switch-event'' e
              | None \<Rightarrow>
                  if ok then r_Pass env g ''hall-switch-event'' ''switch transition received; cover polarity not established''
                  else r_Skip env g ''hall-switch-event'' ''no operator switch transition observed'') }) })"

section \<open>The group\<close>

definition operator_tests :: "henv \<Rightarrow> Ctx \<Rightarrow> string \<Rightarrow> devs \<Rightarrow> unit hprog" where
  "operator_tests env c g dv = do {
     say env ''Only built-in DC-1 input devices are grabbed: GNOME will not see these presses until cleanup.'';
     go \<leftarrow> key_tests env g dv key_specs [];
     if \<not> go then unit_prog
     else do {
       touchTest env c g dv;
       e1 \<leftarrow> session_error env;
       if e1 \<noteq> None then unit_prog
       else do {
         penTest env c g dv;
         e2 \<leftarrow> session_error env;
         if e2 \<noteq> None then unit_prog else hallTest env g dv } } }"

definition interactiveInput :: "henv \<Rightarrow> Ctx \<Rightarrow> string \<Rightarrow> devs \<Rightarrow> unit hprog" where
  "interactiveInput env c g dv = do {
     err \<leftarrow> openSession env c dv True;
     (case err of
        Some e \<Rightarrow> if kind e = EPermission then r_Skip env g ''events'' (permHint e) else reportInputError env g ''events'' e
      | None \<Rightarrow> do { operator_tests env c g dv; session_close env }) }"

definition checkInput :: "henv \<Rightarrow> Ctx \<Rightarrow> string \<Rightarrow> unit hprog" where
  "checkInput env c g = do {
     dv \<leftarrow> inputDevices env c;
     foreach (check_device env c g dv) boardInputNames;
     spare_keys env c g dv;
     dv' \<leftarrow> axisRanges env c g dv;
     if \<not> Interactive c then r_Skip env g ''events'' ''needs -interactive (button presses, touch, pen)''
     else if \<not> live c then r_Skip env g ''events'' ''relocated root: device opens and ioctls disabled''
     else interactiveInput env c g dv' }"

section \<open>Consent\<close>

lemma session_ops_ok [hw_ok]:
  assumes "live c" "Interactive c"
  shows "keeps (hw_safe c g) (session_error env)" "keeps (hw_safe c g) (session_drain env)" "keeps (hw_safe c g) (session_close env)"
  unfolding session_error_def session_drain_def session_close_def using assms by (auto intro!: hw_intros hw_ok)

lemma session_until_ok [hw_ok]: "live c \<Longrightarrow> Interactive c \<Longrightarrow> keeps (hw_safe c g) (session_until env d fn s)"
  unfolding session_until_def by (intro hw_intros hw_ok) auto

lemma reportInputError_ok [hw_ok]: "keeps (hw_safe c g) (reportInputError env g n e)"
  unfolding reportInputError_def by (intro hw_intros hw_ok)

lemma open_device_ok [hw_ok]: "live c \<Longrightarrow> Interactive c \<Longrightarrow> keeps (hw_safe c g) (open_device env c grab n d)"
  unfolding open_device_def by (intro hw_intros hw_ok) auto

lemma open_devices_ok [hw_ok]: "live c \<Longrightarrow> Interactive c \<Longrightarrow> keeps (hw_safe c g) (open_devices env c grab dv names n)"
  by (induction names arbitrary: n) (auto intro!: hw_intros hw_ok)

lemma openSession_ok [hw_ok]: "Interactive c \<Longrightarrow> keeps (hw_safe c g) (openSession env c dv grab)"
  unfolding openSession_def by (intro hw_intros hw_ok) auto

lemma key_tests_ok [hw_ok]: "live c \<Longrightarrow> Interactive c \<Longrightarrow> keeps (hw_safe c g) (key_tests env g dv ks ids)"
  by (induction ks arbitrary: ids) (auto simp: key_verdict_def intro!: hw_intros hw_ok)

lemma reportCoverage_ok [hw_ok]: "keeps (hw_safe c g) (reportCoverage env g n x y)"
  unfolding reportCoverage_def by (auto simp: Let_def intro!: hw_intros hw_ok split: option.split)

lemma tracker_tests_ok [hw_ok]:
  assumes "live c" "Interactive c"
  shows "keeps (hw_safe c g) (touchTest env c g dv)" "keeps (hw_safe c g) (penTest env c g dv)" "keeps (hw_safe c g) (hallTest env g dv)"
proof -
  have v: "keeps (hw_safe c g) (touch_verdict env g t)" "keeps (hw_safe c g) (pen_verdict env g sp s)" for t sp s
    unfolding touch_verdict_def pen_verdict_def pen_check_def Let_def by (intro hw_intros hw_ok)+
  show "keeps (hw_safe c g) (touchTest env c g dv)"
    unfolding touchTest_def using assms by (auto intro!: hw_intros hw_ok v split: option.split sum.split)
  show "keeps (hw_safe c g) (penTest env c g dv)"
    unfolding penTest_def using assms by (auto intro!: hw_intros hw_ok v split: option.split sum.split)
  show "keeps (hw_safe c g) (hallTest env g dv)"
    unfolding hallTest_def using assms by (auto intro!: hw_intros hw_ok split: prod.split)
qed

lemma interactiveInput_ok [hw_ok]: "live c \<Longrightarrow> Interactive c \<Longrightarrow> keeps (hw_safe c g) (interactiveInput env c g dv)"
  unfolding interactiveInput_def operator_tests_def by (intro hw_intros hw_ok)

lemma axis_verdict_ok [hw_ok]: "keeps (hw_safe c g) (axis_verdict env g n acc a info)"
  unfolding axis_verdict_def Let_def by (cases info) (auto intro!: hw_intros hw_ok)

lemma axis_step_ok [hw_ok]: "live c \<Longrightarrow> keeps (hw_safe c g) (axis_step env g n acc a)"
  unfolding axis_step_def by (intro hw_intros hw_ok) auto

lemma axisRanges_ok [hw_ok]: "keeps (hw_safe c g) (axisRanges env c g dv)"
  unfolding axisRanges_def axis_device_def
  by (intro hw_intros hw_ok) (auto simp: filepathRootIsSlash_def live_def)

lemma inputCaps_ok [hw_ok]: "keeps (hw_safe c g) (inputCaps env c d k)"
  unfolding inputCaps_def by (intro hw_intros hw_ok)

lemma check_device_ok [hw_ok]: "keeps (hw_safe c g) (check_device env c g dv n)"
  unfolding check_device_def caps_verdict_def Let_def by (intro hw_intros hw_ok)

lemma checkInput_ok [hw_ok]: "keeps (hw_safe c g) (checkInput env c g)"
  unfolding checkInput_def inputDevices_def input_step_def spare_keys_def by (intro hw_intros hw_ok) auto

end
