(* ===== verification/Hw_Session.thy ===== *)
theory Hw_Session
  imports Hw_Operator "HOL-Library.Sublist"
begin

text \<open>
  The input session of \<^verbatim>\<open>tools/hwtest\<close> (\<^verbatim>\<open>session\<close> in \<^verbatim>\<open>input.go\<close>) as a concurrent system: one reader per
  device that reads batches from its descriptor and puts their events into one bounded channel, the
  tests that take events out of it, and cancellation from outside.  A reader is a program counter;
  every test of the context, every send and the two halves of \<^verbatim>\<open>fail\<close> are steps of their own, so that
  all interleavings are covered.  The ghost field \<open>produced\<close> holds what the kernel handed to each reader,
  \<open>taken\<close> what the tests received.
\<close>

section \<open>Events on the wire\<close>

definition decodeEvent :: "string \<Rightarrow> bytes \<Rightarrow> event" where
  "decodeEvent name buf =
     \<lparr>e_dev = name, e_typ = get16 (drop 16 buf), e_code = get16 (drop 18 buf), e_value = sint (get32 (drop 20 buf))\<rparr>"

function decode_batch :: "string \<Rightarrow> bytes \<Rightarrow> event list" where
  "decode_batch name buf = (if buf = [] then [] else decodeEvent name (take 24 buf) # decode_batch name (drop 24 buf))"
  by pat_completeness auto
termination by (relation "measure (\<lambda>(_, buf). length buf)") auto

declare decode_batch.simps [simp del]

lemma decode_batch_dev: "e \<in> set (decode_batch name buf) \<Longrightarrow> e_dev e = name"
proof (induction name buf rule: decode_batch.induct)
  case (1 name buf)
  then show ?case by (cases "buf = []") (auto simp: decode_batch.simps[of name buf] decode_batch.simps[of name "[]"] decodeEvent_def)
qed

section \<open>State\<close>

datatype rpc = RNone | RHead | RRead | RCheck "event list" | RSend "event list" | RFail herr | RCancel | RDone

record sess =
  chan :: "event list"
  errCh :: "herr list"
  failure :: "herr option"
  cancelled :: bool
  closing :: bool
  fds_closed :: bool
  pc :: "string \<Rightarrow> rpc"
  produced :: "string \<Rightarrow> event list"
  taken :: "event list"

definition queue_cap :: nat where "queue_cap = 4096"

definition newInputSession :: sess where
  "newInputSession =
     \<lparr>chan = [], errCh = [], failure = None, cancelled = False, closing = False, fds_closed = False,
      pc = (\<lambda>_. RNone), produced = (\<lambda>_. []), taken = []\<rparr>"

definition sessionError :: "sess \<Rightarrow> herr option" where
  "sessionError s =
     (case failure s of
        Some e \<Rightarrow> Some e
      | None \<Rightarrow> if cancelled s then Some \<lparr>kind = ECanceled, etext = ''context canceled''\<rparr> else None)"

definition goto :: "sess \<Rightarrow> string \<Rightarrow> rpc \<Rightarrow> sess" where
  "goto s n p = s\<lparr>pc := (pc s)(n := p)\<rparr>"

text \<open>What one read returns; \<^verbatim>\<open>EINTR\<close> and \<^verbatim>\<open>EAGAIN\<close> lead back to the head of the loop.\<close>

datatype rd = RdAgain | RdErr herr | RdBytes bytes

definition after_read :: "sess \<Rightarrow> string \<Rightarrow> rd \<Rightarrow> sess" where
  "after_read s n r =
     (case r of
        RdAgain \<Rightarrow> goto s n RHead
      | RdErr e \<Rightarrow> goto s n (RFail (wrap (n @ '' event read'') e))
      | RdBytes b \<Rightarrow>
          if b = [] then goto s n (RFail (mkerr (n @ '' event stream ended'')))
          else if length b mod 24 \<noteq> 0 then goto s n (RFail (mkerr (n @ '' truncated input_event ('' @ dec (length b) @ '' bytes)'')))
          else if list_ex is_dropped (decode_batch n b) then
            goto s n (RFail (mkerr (n @ '' SYN_DROPPED: lost events invalidate this input session'')))
          else (goto s n (RCheck (decode_batch n b)))\<lparr>produced := (produced s)(n := produced s n @ decode_batch n b)\<rparr>)"

definition try_send :: "sess \<Rightarrow> string \<Rightarrow> event \<Rightarrow> event list \<Rightarrow> sess" where
  "try_send s n e es =
     (if length (chan s) < queue_cap then (goto s n (RCheck es))\<lparr>chan := chan s @ [e]\<rparr>
      else goto s n (RFail (mkerr (n @ '' event queue overflow: lost events invalidate this input session''))))"

text \<open>The first half of \<^verbatim>\<open>fail\<close>, under the mutex.\<close>

definition record_failure :: "sess \<Rightarrow> herr \<Rightarrow> sess" where
  "record_failure s e =
     (if failure s = None then s\<lparr>failure := Some e, errCh := (if errCh s = [] then [e] else errCh s)\<rparr> else s)"

section \<open>Steps\<close>

inductive sess_step :: "sess \<Rightarrow> sess \<Rightarrow> bool" where
  spawn: "pc s n = RNone \<Longrightarrow> \<not> closing s \<Longrightarrow> sess_step s (goto s n RHead)"
| head: "pc s n = RHead \<Longrightarrow> sess_step s (goto s n (if cancelled s then RDone else RRead))"
| read: "pc s n = RRead \<Longrightarrow> sess_step s (after_read s n r)"
| batch_end: "pc s n = RCheck [] \<Longrightarrow> sess_step s (goto s n RHead)"
| check: "pc s n = RCheck (e # es) \<Longrightarrow> sess_step s (goto s n (if cancelled s then RDone else RSend (e # es)))"
| send: "pc s n = RSend (e # es) \<Longrightarrow> sess_step s (try_send s n e es)"
| fail: "pc s n = RFail err \<Longrightarrow> sess_step s (goto (record_failure s err) n RCancel)"
| fail_cancel: "pc s n = RCancel \<Longrightarrow> sess_step s (goto (s\<lparr>cancelled := True\<rparr>) n RDone)"
| take_event: "chan s = e # es \<Longrightarrow> sess_step s (s\<lparr>chan := es, taken := taken s @ [e]\<rparr>)"
| take_error: "errCh s = e # es \<Longrightarrow> sess_step s (s\<lparr>errCh := es\<rparr>)"
| interrupt: "sess_step s (s\<lparr>cancelled := True\<rparr>)"
| close: "sess_step s (s\<lparr>cancelled := True, closing := True\<rparr>)"
| close_fds: "closing s \<Longrightarrow> \<forall>n. pc s n \<in> {RNone, RDone} \<Longrightarrow> sess_step s (s\<lparr>fds_closed := True\<rparr>)"

inductive_cases sess_stepE: "sess_step s s'"

inductive sess_reach :: "sess \<Rightarrow> bool" where
  start: "sess_reach newInputSession"
| further: "sess_reach s \<Longrightarrow> sess_step s s' \<Longrightarrow> sess_reach s'"

section \<open>The invariant\<close>

definition from_dev :: "string \<Rightarrow> event list \<Rightarrow> event list" where
  "from_dev n es = filter (\<lambda>e. e_dev e = n) es"

text \<open>The events a running reader still has to send; nothing is said about a reader that has stopped.\<close>

definition pending :: "rpc \<Rightarrow> event list option" where
  "pending p =
     (case p of
        RCheck es \<Rightarrow> Some es | RSend es \<Rightarrow> Some es | RFail _ \<Rightarrow> None | RCancel \<Rightarrow> None | RDone \<Rightarrow> None | _ \<Rightarrow> Some [])"

definition flows :: "event list \<Rightarrow> event list \<Rightarrow> rpc \<Rightarrow> bool" where
  "flows q pr p \<longleftrightarrow> prefix q pr \<and> (\<forall>es. pending p = Some es \<longrightarrow> q @ es = pr)"

definition lossless :: "sess \<Rightarrow> string \<Rightarrow> bool" where
  "lossless s n \<longleftrightarrow> flows (from_dev n (taken s @ chan s)) (produced s n) (pc s n)"

definition own_events :: "sess \<Rightarrow> string \<Rightarrow> bool" where
  "own_events s n \<longleftrightarrow> (\<forall>e\<in>set (produced s n). e_dev e = n \<and> \<not> is_dropped e)"

definition sess_inv :: "sess \<Rightarrow> bool" where
  "sess_inv s \<longleftrightarrow>
     length (chan s) \<le> queue_cap \<and> (\<forall>n. lossless s n \<and> own_events s n) \<and>
     (closing s \<longrightarrow> cancelled s) \<and>
     (fds_closed s \<longrightarrow> closing s \<and> (\<forall>n. pc s n \<in> {RNone, RDone})) \<and>
     (\<forall>x\<in>set (errCh s). failure s = Some x)"

lemma goto_simps [simp]:
  "pc (goto s n p) = (pc s)(n := p)" "chan (goto s n p) = chan s" "taken (goto s n p) = taken s"
  "produced (goto s n p) = produced s" "cancelled (goto s n p) = cancelled s" "closing (goto s n p) = closing s"
  "fds_closed (goto s n p) = fds_closed s" "errCh (goto s n p) = errCh s" "failure (goto s n p) = failure s"
  by (simp_all add: goto_def)

lemma from_dev_simps [simp]:
  "from_dev n (xs @ ys) = from_dev n xs @ from_dev n ys" "from_dev n [] = []"
  "from_dev n (e # es) = (if e_dev e = n then e # from_dev n es else from_dev n es)"
  by (simp_all add: from_dev_def)

lemma lossless_prefix: "lossless s n \<Longrightarrow> prefix (from_dev n (taken s @ chan s)) (produced s n)"
  by (simp add: lossless_def flows_def)

lemma flows_weaken: "flows q pr p \<Longrightarrow> pending p' = pending p \<or> pending p' = None \<Longrightarrow> flows q pr p'"
  by (auto simp: flows_def)

lemma flowsI: "q @ es = pr \<Longrightarrow> pending p = Some es \<Longrightarrow> flows q pr p"
  by (auto simp: flows_def)

text \<open>A step of a reader that neither sends nor reads: it keeps its pending events or gives up.\<close>

lemma inv_goto:
  assumes "sess_inv s" "pending p = pending (pc s n) \<or> pending p = None" "\<not> fds_closed s"
  shows "sess_inv (goto s n p)"
proof -
  have "lossless (goto s n p) m" for m
    using assms flows_weaken[of _ _ "pc s n" p] by (simp add: sess_inv_def lossless_def)
  then show ?thesis using assms by (auto simp: sess_inv_def own_events_def)
qed

lemma running_open: "sess_inv s \<Longrightarrow> pc s n \<notin> {RNone, RDone} \<Longrightarrow> \<not> fds_closed s"
  by (auto simp: sess_inv_def)

lemma inv_read:
  assumes "sess_inv s" "pc s n = RRead"
  shows "sess_inv (after_read s n r)"
proof -
  have o: "\<not> fds_closed s" using running_open[OF assms(1), of n] assms(2) by simp
  have pr: "pending (pc s n) = Some []" using assms(2) by (simp add: pending_def)
  have g: "sess_inv (goto s n p)" if "pending p = None \<or> pending p = Some []" for p
    by (rule inv_goto[OF assms(1) _ o]) (use that pr in auto)
  show ?thesis
  proof (cases "\<exists>b. r = RdBytes b \<and> b \<noteq> [] \<and> length b mod 24 = 0 \<and> \<not> list_ex is_dropped (decode_batch n b)")
    case True
    then obtain b where b: "r = RdBytes b" "b \<noteq> []" "length b mod 24 = 0" "\<not> list_ex is_dropped (decode_batch n b)"
      by (elim exE conjE)
    have q: "lossless s m" for m using assms(1) by (simp add: sess_inv_def)
    have q1: "from_dev n (taken s @ chan s) = produced s n" using q[of n] pr by (simp add: lossless_def flows_def)
    have "lossless (after_read s n r) m" for m
    proof (cases "m = n")
      case True
      have "flows (produced s n) (produced s n @ decode_batch n b) (RCheck (decode_batch n b))"
        by (rule flowsI) (auto simp: pending_def)
      then show ?thesis using True b q1 by (simp add: after_read_def lossless_def)
    next
      case False
      then show ?thesis using q[of m] b by (simp add: after_read_def lossless_def)
    qed
    moreover have "own_events (after_read s n r) m" for m
      using assms b decode_batch_dev by (auto simp: after_read_def sess_inv_def own_events_def list_ex_iff)
    ultimately show ?thesis using assms b o by (simp add: after_read_def sess_inv_def)
  next
    case False
    then show ?thesis using g by (auto simp: after_read_def pending_def split: rd.split)
  qed
qed

lemma inv_send:
  assumes "sess_inv s" "pc s n = RSend (e # es)"
  shows "sess_inv (try_send s n e es)"
proof (cases "length (chan s) < queue_cap")
  case True
  have eq: "from_dev n (taken s @ chan s) @ e # es = produced s n"
    using assms by (auto simp: sess_inv_def lossless_def flows_def pending_def)
  then have "e \<in> set (produced s n)" by (metis in_set_conv_decomp)
  then have d: "e_dev e = n" using assms(1) by (auto simp: sess_inv_def own_events_def)
  have "lossless (try_send s n e es) m" for m
  proof (cases "m = n")
    case m: True
    have "flows (from_dev n (taken s @ chan s) @ [e]) (produced s n) (RCheck es)"
      by (rule flowsI[of _ es]) (use eq in \<open>auto simp: pending_def\<close>)
    then show ?thesis using True m d by (simp add: try_send_def lossless_def)
  next
    case False
    have "lossless s m" using assms(1) by (simp add: sess_inv_def)
    then show ?thesis using True False d by (simp add: try_send_def lossless_def)
  qed
  then show ?thesis
    using assms True running_open[OF assms(1), of n] by (simp add: try_send_def sess_inv_def own_events_def)
next
  case False
  then show ?thesis
    using inv_goto[OF assms(1) _ running_open[OF assms(1), of n]] assms(2) by (simp add: try_send_def pending_def)
qed

lemma inv_other:
  assumes "sess_inv s"
  shows "chan s = e # es \<Longrightarrow> sess_inv (s\<lparr>chan := es, taken := taken s @ [e]\<rparr>)"
    and "errCh s = x # xs \<Longrightarrow> sess_inv (s\<lparr>errCh := xs\<rparr>)"
    and "sess_inv (s\<lparr>cancelled := True\<rparr>)"
    and "sess_inv (s\<lparr>cancelled := True, closing := True\<rparr>)"
    and "sess_inv (record_failure s err)"
    and "closing s \<Longrightarrow> \<forall>n. pc s n \<in> {RNone, RDone} \<Longrightarrow> sess_inv (s\<lparr>fds_closed := True\<rparr>)"
  using assms by (simp_all add: sess_inv_def lossless_def own_events_def record_failure_def) (auto split: if_splits)

lemma inv_step:
  assumes "sess_step s s'" "sess_inv s"
  shows "sess_inv s'"
  using assms(1)
proof (rule sess_stepE)
  fix n
  assume "s' = goto s n RHead" "pc s n = RNone" "\<not> closing s"
  then show ?thesis using inv_goto[OF assms(2), of RHead n] assms(2) by (auto simp: pending_def sess_inv_def)
next
  fix n
  assume "s' = goto s n (if cancelled s then RDone else RRead)" "pc s n = RHead"
  then show ?thesis using inv_goto[OF assms(2)] running_open[OF assms(2), of n] by (auto simp: pending_def)
next
  fix n r
  assume "s' = after_read s n r" "pc s n = RRead"
  then show ?thesis using inv_read[OF assms(2)] by simp
next
  fix n
  assume "s' = goto s n RHead" "pc s n = RCheck []"
  then show ?thesis using inv_goto[OF assms(2)] running_open[OF assms(2), of n] by (auto simp: pending_def)
next
  fix n e es
  assume "s' = goto s n (if cancelled s then RDone else RSend (e # es))" "pc s n = RCheck (e # es)"
  then show ?thesis using inv_goto[OF assms(2)] running_open[OF assms(2), of n] by (auto simp: pending_def)
next
  fix n e es
  assume "s' = try_send s n e es" "pc s n = RSend (e # es)"
  then show ?thesis using inv_send[OF assms(2)] by simp
next
  fix n err
  assume f: "s' = goto (record_failure s err) n RCancel" "pc s n = RFail err"
  have "\<not> fds_closed (record_failure s err)"
    using running_open[OF assms(2), of n] f(2) by (simp add: record_failure_def)
  then show ?thesis using inv_goto[OF inv_other(5)[OF assms(2)]] f by (auto simp: pending_def)
next
  fix n
  assume f: "s' = goto (s\<lparr>cancelled := True\<rparr>) n RDone" "pc s n = RCancel"
  then show ?thesis using inv_goto[OF inv_other(3)[OF assms(2)]] running_open[OF assms(2), of n] by (auto simp: pending_def)
qed (use inv_other[OF assms(2)] in auto)

lemma inv_reach: "sess_reach s \<Longrightarrow> sess_inv s"
proof (induction rule: sess_reach.induct)
  case start
  show ?case by (simp add: newInputSession_def sess_inv_def lossless_def own_events_def flows_def pending_def)
next
  case (further s s')
  then show ?case using inv_step by blast
qed

section \<open>Properties\<close>

text \<open>C17: An input session never loses events silently.  In every state the readers, the tests and a
  cancellation can reach together, the queue holds at most 4096 events, and what the tests have taken
  and can still take from one device is a gap-free prefix, in order, of what the kernel delivered for
  that device, and free of SYN_DROPPED; only events of a reader that has stopped can be missing at
  its end.  Descriptors are closed only when no reader runs any more.\<close>

theorem session_lossless:
  assumes "sess_reach s"
  shows "length (chan s) \<le> 4096 \<and>
    prefix (from_dev n (taken s @ chan s)) (produced s n) \<and>
    (\<forall>e\<in>set (from_dev n (taken s @ chan s)). \<not> is_dropped e) \<and>
    (pc s n \<in> {RNone, RHead, RRead} \<longrightarrow> from_dev n (taken s @ chan s) = produced s n) \<and>
    (fds_closed s \<longrightarrow> pc s n \<in> {RNone, RDone})"
proof -
  have i: "sess_inv s" by (rule inv_reach[OF assms])
  then have l: "lossless s n" and o: "own_events s n" by (auto simp: sess_inv_def)
  have p: "prefix (from_dev n (taken s @ chan s)) (produced s n)" by (rule lossless_prefix[OF l])
  then have "set (from_dev n (taken s @ chan s)) \<subseteq> set (produced s n)" by (rule set_mono_prefix)
  moreover have "from_dev n (taken s @ chan s) = produced s n" if "pc s n \<in> {RNone, RHead, RRead}"
    using l that by (auto simp: lossless_def flows_def pending_def)
  ultimately show ?thesis using i o p by (auto simp: sess_inv_def own_events_def queue_cap_def)
qed

text \<open>One device, one event read, queued and taken.\<close>

definition one_event :: bytes where "one_event = replicate 16 0 @ [1, 0, 116, 0, 1, 0, 0, 0]"

definition session_after :: sess where
  "session_after =
     (let n = ''mtk-pmic-keys''; s1 = goto newInputSession n RHead; s2 = goto s1 n RRead; s3 = after_read s2 n (RdBytes one_event);
          s4 = goto s3 n (RSend (decode_batch n one_event));
          s5 = try_send s4 n (decodeEvent n one_event) []; s6 = goto s5 n RHead
      in s6\<lparr>chan := [], taken := [decodeEvent n one_event]\<rparr>)"

lemma decode_one_event: "decode_batch n one_event = [decodeEvent n one_event]"
  by (simp add: decode_batch.simps one_event_def)

lemma one_event_fine: "\<not> is_dropped (decodeEvent n one_event)" "length one_event = 24" "one_event \<noteq> []"
  by (simp_all add: is_dropped_def decodeEvent_def one_event_def evSyn_def get16_def numeral_eq_Suc)

lemma session_after_reach: "sess_reach session_after"
proof -
  let ?n = "''mtk-pmic-keys''" and ?e = "decodeEvent ''mtk-pmic-keys'' one_event"
  let ?s1 = "goto newInputSession ?n RHead"
  let ?s2 = "goto ?s1 ?n RRead"
  let ?s3 = "after_read ?s2 ?n (RdBytes one_event)"
  let ?s4 = "goto ?s3 ?n (RSend [?e])"
  let ?s5 = "try_send ?s4 ?n ?e []"
  let ?s6 = "goto ?s5 ?n RHead"
  have s3: "pc ?s3 ?n = RCheck [?e]" "cancelled ?s3 = False" "chan ?s3 = []" "taken ?s3 = []"
    by (simp_all add: after_read_def decode_one_event one_event_fine newInputSession_def)
  have r2: "sess_reach ?s2"
    using further[OF further[OF start spawn[of newInputSession ?n]] head[of ?s1 ?n]] by (simp add: newInputSession_def)
  have r3: "sess_reach ?s3" using further[OF r2 read[of ?s2 ?n "RdBytes one_event"]] by simp
  have r4: "sess_reach ?s4" using further[OF r3 check[of ?s3 ?n ?e "[]"]] s3 by simp
  have r5: "sess_reach ?s5" using further[OF r4 send[of ?s4 ?n ?e "[]"]] by simp
  have s5: "pc ?s5 ?n = RCheck []" "chan ?s5 = [?e]" "taken ?s5 = []" using s3 by (simp_all add: try_send_def queue_cap_def)
  have r6: "sess_reach ?s6" using further[OF r5 batch_end[of ?s5 ?n]] s5 by simp
  have "sess_reach (?s6\<lparr>chan := [], taken := taken ?s6 @ [?e]\<rparr>)" using further[OF r6 take_event[of ?s6 ?e "[]"]] s5 by simp
  then show ?thesis using s5 by (simp add: session_after_def Let_def decode_one_event)
qed

theorem session_lossless_witness:
  "taken session_after = produced session_after ''mtk-pmic-keys'' \<and> taken session_after \<noteq> []"
proof -
  have "from_dev ''mtk-pmic-keys'' (taken session_after @ chan session_after) = taken session_after"
    "pc session_after ''mtk-pmic-keys'' = RHead" "taken session_after \<noteq> []"
    by (simp_all add: session_after_def Let_def decodeEvent_def)
  then show ?thesis using session_lossless[OF session_after_reach, of "''mtk-pmic-keys''"] by simp
qed

end
