(* ===== verification/Hwtest.thy ===== *)
theory Hwtest
  imports Hw_Platform Hw_Display Hw_Power Hw_Sensors Hw_Connect Hw_Storage Hw_Audio Hw_Session
begin

text \<open>
  The program \<^verbatim>\<open>tools/hwtest\<close> (\<^verbatim>\<open>main.go\<close> and the registry of \<^verbatim>\<open>report.go\<close>): flags, the selection and order
  of the groups, the run with its results, the summary and the exit status.  The results of a run are
  read off the trace, as the reporters collect them.
\<close>

section \<open>Groups\<close>

record group =
  order :: nat
  gname :: string
  desc :: string
  run :: "henv \<Rightarrow> Ctx \<Rightarrow> string \<Rightarrow> string option hprog"

text \<open>A check that cannot panic: in the sources of all groups but power every index is a constant inside a fixed
  array or follows a test of the length, and no divisor is a read value that may be zero.  Each of them is defined as a
  total program without a panic value; this adapts it to the type of \<^verbatim>\<open>run\<close>.\<close>

definition calm :: "(henv \<Rightarrow> Ctx \<Rightarrow> string \<Rightarrow> unit hprog) \<Rightarrow> henv \<Rightarrow> Ctx \<Rightarrow> string \<Rightarrow> string option hprog" where
  "calm f env c g = do { f env c g; ret None }"

definition register :: "nat \<Rightarrow> string \<Rightarrow> string \<Rightarrow> (henv \<Rightarrow> Ctx \<Rightarrow> string \<Rightarrow> string option hprog) \<Rightarrow> group list \<Rightarrow> group list" where
  "register n name d f gs = gs @ [\<lparr>order = n, gname = name, desc = d, run = f\<rparr>]"

text \<open>The registrations of the source files, in the order of their initializers.\<close>

definition groups :: "group list" where
  "groups =
     (register 80 ''storage'' ''root filesystem and MMC evidence; -active for a bounded temporary-file round trip'' (calm checkStorage) \<circ>
      register 50 ''power'' ''fuel gauge, charger, Type-C/PD, RTC, suspend plumbing, watchdog'' checkPower \<circ>
      register 20 ''thermal'' ''LVTS and NTC zones, cooling devices'' (calm checkThermal) \<circ>
      register 10 ''platform'' ''device tree, kernel, CPUs, memory, kernel config, log health'' (calm checkPlatform) \<circ>
      register 45 ''sensors'' ''accelerometer, ADC, I2C inventory and safety assertions'' (calm checkSensors) \<circ>
      register 40 ''input'' ''touch, pen, buttons, hall switch (capabilities; -interactive for events)'' (calm checkInput) \<circ>
      register 30 ''display'' ''DSI/DRM state, GPU interfaces, frontlight readback'' (calm checkDisplay) \<circ>
      register 70 ''usb'' ''UDC, configfs gadget, Type-C role, host device count'' (calm checkUSB) \<circ>
      register 65 ''bluetooth'' ''MT7902 Bluetooth controller (no discovery or pairing)'' (calm checkBluetooth) \<circ>
      register 60 ''wifi'' ''MT7902 Wi-Fi link and optional explicit-target reachability'' (calm checkWiFi) \<circ>
      register 90 ''audio'' ''PCM0 playback, PCM9 DMIC and user-service evidence; opt-in bounded microphone metrics'' (calm checkAudio)) []"

definition sortedGroups :: "group list" where
  "sortedGroups = sort_key order groups"

definition runGroup :: "henv \<Rightarrow> Ctx \<Rightarrow> group \<Rightarrow> unit hprog" where
  "runGroup env c gr = do {
     p \<leftarrow> run gr env c (gname gr);
     (case p of
        None \<Rightarrow> unit_prog
      | Some t \<Rightarrow> r_Fail env (gname gr) ''internal'' (''check panicked: '' @ t)) }"

definition hw_split :: "string \<Rightarrow> string list" where
  "hw_split s = filter (\<lambda>p. p \<noteq> []) (map trim_space (split_on CHR '','' s))"

section \<open>Options\<close>

record opts =
  o_list :: bool
  o_only :: string
  o_skip :: string
  o_json :: bool
  o_root :: string
  o_active :: bool
  o_inter :: bool
  o_sound :: bool
  o_mic :: bool
  o_target :: string

definition hw_flags :: flag_decls where
  "hw_flags =
     [(''list'', BoolFlag), (''only'', StringFlag), (''skip'', StringFlag), (''json'', BoolFlag), (''root'', StringFlag),
      (''active'', BoolFlag), (''interactive'', BoolFlag), (''allow-sound'', BoolFlag), (''allow-microphone'', BoolFlag),
      (''network-target'', StringFlag)]"

fun set_opt :: "opts \<Rightarrow> string \<times> flag_val \<Rightarrow> opts" where
  "set_opt o' (n, BVal b) =
     (if n = ''list'' then o'\<lparr>o_list := b\<rparr> else if n = ''json'' then o'\<lparr>o_json := b\<rparr>
      else if n = ''active'' then o'\<lparr>o_active := b\<rparr> else if n = ''interactive'' then o'\<lparr>o_inter := b\<rparr>
      else if n = ''allow-sound'' then o'\<lparr>o_sound := b\<rparr> else o'\<lparr>o_mic := b\<rparr>)"
| "set_opt o' (n, SVal v) =
     (if n = ''only'' then o'\<lparr>o_only := v\<rparr> else if n = ''skip'' then o'\<lparr>o_skip := v\<rparr>
      else if n = ''root'' then o'\<lparr>o_root := v\<rparr> else o'\<lparr>o_target := v\<rparr>)"

definition default_opts :: opts where
  "default_opts =
     \<lparr>o_list = False, o_only = [], o_skip = [], o_json = False, o_root = ''/'', o_active = False, o_inter = False,
      o_sound = False, o_mic = False, o_target = []\<rparr>"

definition hw_parse :: "string list \<Rightarrow> flag_error + opts \<times> string list" where
  "hw_parse args =
     (case parse_flags hw_flags args of
        Inl e \<Rightarrow> Inl e
      | Inr (sets, rest) \<Rightarrow> Inr (foldl set_opt default_opts sets, rest))"

section \<open>The run\<close>

definition collected :: "Result list hprog" where
  "collected = State (\<lambda>tr. (results tr, tr))"

definition count_status :: "Status \<Rightarrow> Result list \<Rightarrow> nat" where
  "count_status s rs = length (filter (\<lambda>r. RStatus r = s) rs)"

definition selected :: "opts \<Rightarrow> group \<Rightarrow> bool" where
  "selected o' gr \<longleftrightarrow>
     \<not> (hw_split (o_only o') \<noteq> [] \<and> gname gr \<notin> set (hw_split (o_only o'))) \<and> gname gr \<notin> set (hw_split (o_skip o'))"

definition run_one :: "henv \<Rightarrow> Ctx \<Rightarrow> opts \<Rightarrow> group \<Rightarrow> unit hprog" where
  "run_one env c o' gr =
     (if \<not> selected o' gr then unit_prog
      else do {
        say env (nl @ ''== '' @ gname gr @ '': '' @ desc gr);
        e \<leftarrow> act env HCtxErr;
        if h_cancelled e \<noteq> None then r_Skip env (gname gr) ''cancelled'' ''run interrupted''
        else runGroup env c gr })"

definition hw_finish :: "henv \<Rightarrow> opts \<Rightarrow> int hprog" where
  "hw_finish env o' = do {
     rs \<leftarrow> collected;
     say env (nl @ ''SUMMARY: '' @ dec (count_status Pass rs) @ '' pass, '' @ dec (count_status Warn rs) @ '' warn, '' @
       dec (count_status Fail rs) @ '' fail, '' @ dec (count_status Skip rs) @ '' skip, '' @ dec (count_status Info rs) @ '' info'');
     say env ''PASS proves only the named check. SKIP/INFO do not establish hardware functionality.'';
     j \<leftarrow> (if o_json o' then act env (HJson rs) else ret HOk);
     (case h_ok j of
        Some err \<Rightarrow> do { say env (''hwtest: write JSON: '' @ etext err); ret 2 }
      | None \<Rightarrow> do {
          e \<leftarrow> act env HCtxErr;
          ret (if h_cancelled e \<noteq> None then 130 else if 0 < count_status Fail rs then 1 else 0) }) }"

definition fatal :: "henv \<Rightarrow> string \<Rightarrow> int hprog" where
  "fatal env s = do { say env (''hwtest: '' @ s); ret 2 }"

text \<open>\<^verbatim>\<open>filepath.Abs\<close>.\<close>

definition absRoot :: "henv \<Rightarrow> string \<Rightarrow> (herr + string) hprog" where
  "absRoot env r =
     (if has_prefix r ''/'' then ret (Inr (path_clean r))
      else do {
        wd \<leftarrow> act env HGetwd;
        ret (case h_text wd of Inl e \<Rightarrow> Inl e | Inr w \<Rightarrow> Inr (path_join w r)) })"

definition mkCtx :: "string \<Rightarrow> opts \<Rightarrow> string \<Rightarrow> Ctx" where
  "mkCtx r o' target =
     \<lparr>Root = r, Active = o_active o', Interactive = o_inter o', Sound = o_sound o', Microphone = o_mic o',
      NetworkTarget = target, has_Cancel = True, has_In = True\<rparr>"

definition unknown_groups :: "opts \<Rightarrow> string list" where
  "unknown_groups o' = filter (\<lambda>n. n \<notin> set (map gname groups)) (hw_split (o_only o') @ hw_split (o_skip o'))"

definition hw_run :: "henv \<Rightarrow> Ctx \<Rightarrow> opts \<Rightarrow> int hprog" where
  "hw_run env c o' = do { foreach (run_one env c o') sortedGroups; hw_finish env o' }"

text \<open>The checks between the flags and the run; the target is replaced by its canonical form.\<close>

definition hw_checked :: "henv \<Rightarrow> opts \<Rightarrow> string \<Rightarrow> int hprog" where
  "hw_checked env o' r = do {
     let target = (if o_target o' = [] then Some [] else wifiNetworkTarget (o_target o'));
     (case target of
        None \<Rightarrow> fatal env ''-network-target must be literal-IP:numeric-port (IPv6 in brackets)''
      | Some t \<Rightarrow>
          if r \<noteq> ''/'' \<and> (o_active o' \<or> o_inter o' \<or> o_sound o' \<or> o_mic o' \<or> t \<noteq> []) then
            fatal env ''-root fixtures allow read-only checks only''
          else (case unknown_groups o' of
                  n # _ \<Rightarrow> fatal env (''unknown group '' @ quote n @ '' (see -list)'')
                | [] \<Rightarrow> hw_run env (mkCtx r o' t) o')) }"

definition hw_started :: "henv \<Rightarrow> opts \<Rightarrow> string \<Rightarrow> int hprog" where
  "hw_started env o' r =
     (if o_list o' then do {
        foreach (\<lambda>gr. say env (pad_right 10 (gname gr) @ '' '' @ desc gr)) sortedGroups;
        ret 0 }
      else if o_sound o' \<and> \<not> o_inter o' then fatal env ''-allow-sound requires -interactive''
      else do {
        tty \<leftarrow> (if o_inter o' then act env HTermios else ret HOk);
        if h_ok tty \<noteq> None then fatal env ''-interactive requires terminal stdin''
        else hw_checked env o' r })"

definition hw_main :: "henv \<Rightarrow> string list \<Rightarrow> int hprog" where
  "hw_main env args =
     (case hw_parse args of
        Inl e \<Rightarrow> ret (if e = FlagHelp then 0 else 2)
      | Inr (o', rest) \<Rightarrow>
          if rest \<noteq> [] then fatal env ''unexpected positional arguments''
          else do {
            ar \<leftarrow> absRoot env (o_root o');
            (case ar of Inl e \<Rightarrow> fatal env (etext e) | Inr r \<Rightarrow> hw_started env o' r) })"

section \<open>Consent\<close>

lemma groups_ok:
  assumes "gr \<in> set sortedGroups" "Active c \<longrightarrow> Root c \<noteq> []"
  shows "keeps (hw_safe c g) (run gr env c g)"
proof -
  have "gr \<in> set groups" using assms(1) by (simp add: sortedGroups_def)
  then show ?thesis
    using assms(2) by (auto simp: groups_def register_def calm_def intro!: hw_intros hw_ok)
qed

lemma run_one_ok:
  assumes "gr \<in> set sortedGroups" "Active c \<longrightarrow> Root c \<noteq> []"
  shows "keeps (hw_safe c (gname gr)) (run_one env c o' gr)"
  unfolding run_one_def runGroup_def using assms by (auto intro!: hw_intros hw_ok groups_ok)

lemma keeps_allowed: "keeps (hw_safe c g) m \<Longrightarrow> keeps (hw_allowed c) m"
  by (erule keeps_weaken) (simp add: hw_safe_def)

lemma hw_finish_ok: "keeps (hw_allowed c) (hw_finish env o')"
proof -
  have "keeps (hw_safe c []) collected"
    by (auto simp: keeps_def emits_def collected_def hwt.empty)
  then have "keeps (hw_safe c []) (hw_finish env o')"
    unfolding hw_finish_def by (intro hw_intros hw_ok) auto
  then show ?thesis by (rule keeps_allowed)
qed

lemma hw_run_ok: "(Active c \<longrightarrow> Root c \<noteq> []) \<Longrightarrow> keeps (hw_allowed c) (hw_run env c o')"
  unfolding hw_run_def
  by (intro hwa.keeps_bind hwa.keeps_foreach hw_finish_ok keeps_allowed[OF run_one_ok])

text \<open>What happens before the run touches nothing but the terminal and the working directory.\<close>

definition prelim :: "hop \<Rightarrow> bool" where
  "prelim op \<longleftrightarrow> (case op of HGetwd \<Rightarrow> True | HSay _ \<Rightarrow> True | _ \<Rightarrow> False)"

text \<open>The context a run gets: the flags, the canonical target, and on a relocated root no consent at all.\<close>

definition ctx_for :: "opts \<Rightarrow> Ctx \<Rightarrow> bool" where
  "ctx_for o' c \<longleftrightarrow>
     (\<exists>r t. c = mkCtx r o' t \<and> (if o_target o' = [] then t = [] else wifiNetworkTarget (o_target o') = Some t) \<and>
        (r \<noteq> ''/'' \<longrightarrow> \<not> o_active o' \<and> \<not> o_inter o' \<and> \<not> o_mic o' \<and> t = []) \<and>
        (has_prefix (o_root o') ''/'' \<longrightarrow> r = path_clean (o_root o')))"

definition phases :: "opts \<Rightarrow> (hop, hresp) events \<Rightarrow> bool" where
  "phases o' tr \<longleftrightarrow>
     (\<exists>pre c post. tr = pre @ post \<and> (\<forall>e\<in>set pre. prelim (fst e) \<or> fst e = HTermios \<and> o_inter o') \<and>
        (post = [] \<or> ctx_for o' c \<and> hw_allowed c post))"

lemma phases_cons:
  assumes "prelim oper \<or> oper = HTermios \<and> o_inter o'" "phases o' tr"
  shows "phases o' ((oper, r) # tr)"
proof -
  obtain pre c post where "tr = pre @ post" "\<forall>e\<in>set pre. prelim (fst e) \<or> fst e = HTermios \<and> o_inter o'"
    "post = [] \<or> ctx_for o' c \<and> hw_allowed c post" using assms(2) by (auto simp: phases_def)
  then show ?thesis using assms(1)
    unfolding phases_def by (intro exI[of _ "(oper, r) # pre"] exI[of _ c] exI[of _ post]) auto
qed

lemma phases_nil: "phases o' []"
  by (auto simp: phases_def)

lemma emits_phase_act:
  assumes "prelim oper \<or> oper = HTermios \<and> o_inter o'" "\<And>r. emits (f r) (\<lambda>_. phases o')"
  shows "emits (act env oper \<bind> f) (\<lambda>_. phases o')"
  by (rule emits_act_bind, rule emits_weaken[OF assms(2)]) (rule phases_cons[OF assms(1)])

lemma emits_say_first:
  assumes "emits m (\<lambda>_. phases o')"
  shows "emits (say env t \<bind> (\<lambda>_. m)) (\<lambda>_. phases o')"
proof -
  have "emits (act env (HSay t) \<bind> (\<lambda>_. m)) (\<lambda>_. phases o')"
    by (rule emits_phase_act) (auto simp: prelim_def assms)
  then show ?thesis by (simp add: say_def bind_assoc)
qed

lemma emits_fatal: "emits (fatal env t) (\<lambda>_. phases o')"
  unfolding fatal_def by (intro emits_say_first emits_return phases_nil)

lemma emits_list: "emits (foreach (\<lambda>gr. say env (f gr)) gs \<bind> (\<lambda>_. ret 0)) (\<lambda>_. phases o')"
  by (induction gs) (auto intro!: emits_return phases_nil emits_say_first simp: bind_assoc)

lemma emits_hw_run:
  assumes "ctx_for o' c"
  shows "emits (hw_run env c o') (\<lambda>_. phases o')"
proof -
  have "Active c \<longrightarrow> Root c \<noteq> []" using assms by (auto simp: ctx_for_def mkCtx_def)
  then have "emits (hw_run env c o') (\<lambda>_. hw_allowed c)" using hw_run_ok by (simp add: keeps_def)
  then show ?thesis
    by (rule emits_weaken) (use assms in \<open>auto simp: phases_def intro!: exI[of _ "[]"]\<close>)
qed

lemma emits_hw_checked:
  assumes "has_prefix (o_root o') ''/'' \<longrightarrow> r = path_clean (o_root o')"
  shows "emits (hw_checked env o' r) (\<lambda>_. phases o')"
proof -
  have "emits (hw_run env (mkCtx r o' t) o') (\<lambda>_. phases o')"
    if "(if o_target o' = [] then Some [] else wifiNetworkTarget (o_target o')) = Some t"
       "\<not> (r \<noteq> ''/'' \<and> (o_active o' \<or> o_inter o' \<or> o_sound o' \<or> o_mic o' \<or> t \<noteq> []))" for t
    using that assms by (intro emits_hw_run) (auto simp: ctx_for_def split: if_splits)
  then show ?thesis
    unfolding hw_checked_def Let_def by (auto intro!: emits_option emits_fatal split: list.split)
qed

lemma emits_hw_started:
  assumes "has_prefix (o_root o') ''/'' \<longrightarrow> r = path_clean (o_root o')"
  shows "emits (hw_started env o' r) (\<lambda>_. phases o')"
proof -
  have "emits (if h_ok tty \<noteq> None then fatal env t else hw_checked env o' r) (\<lambda>_. phases o')" for tty t
    using emits_hw_checked[OF assms] by (intro emits_if emits_fatal)
  then have "emits ((if o_inter o' then act env HTermios else ret HOk) \<bind>
      (\<lambda>tty. if h_ok tty \<noteq> None then fatal env t else hw_checked env o' r)) (\<lambda>_. phases o')" for t
    by (cases "o_inter o'") (auto intro!: emits_phase_act)
  then show ?thesis unfolding hw_started_def by (intro emits_if emits_list emits_fatal)
qed

lemma emits_hw_main:
  assumes "hw_parse args = Inr (o', rest)"
  shows "emits (hw_main env args) (\<lambda>_. phases o')"
proof -
  have f: "emits (case ar of Inl e \<Rightarrow> fatal env (etext e) | Inr r \<Rightarrow> hw_started env o' r) (\<lambda>_. phases o')"
    if "has_prefix (o_root o') ''/'' \<longrightarrow> ar = Inr (path_clean (o_root o'))" for ar
    by (intro emits_sum emits_fatal emits_hw_started) (use that in auto)
  show ?thesis
  proof (cases "has_prefix (o_root o') ''/''")
    case True
    then show ?thesis using f[of "Inr (path_clean (o_root o'))"] assms
      by (auto simp: hw_main_def absRoot_def intro!: emits_fatal)
  next
    case False
    then have "emits (absRoot env (o_root o') \<bind> (\<lambda>ar. case ar of Inl e \<Rightarrow> fatal env (etext e) | Inr r \<Rightarrow> hw_started env o' r)) (\<lambda>_. phases o')"
      using f by (auto simp: absRoot_def bind_assoc prelim_def intro!: emits_phase_act)
    then show ?thesis using assms by (auto simp: hw_main_def intro!: emits_fatal)
  qed
qed

text \<open>What the flags of a command line permit.\<close>

fun consent :: "opts \<Rightarrow> hop \<Rightarrow> bool" where
  "consent o' HLoadStart = o_active o'"
| "consent o' (HWorkerStart _ args _) = (o_active o' \<and> args = [''--dc1-storage-worker''])"
| "consent o' (HRecordStart _ _) = o_mic o'"
| "consent o' HReadLine = o_inter o'"
| "consent o' HTermios = o_inter o'"
| "consent o' (HOpenEvent _) = o_inter o'"
| "consent o' HGrab = o_inter o'"
| "consent o' (HUntil _) = o_inter o'"
| "consent o' (HDial t) = (o_target o' \<noteq> [] \<and> wifiNetworkTarget (o_target o') = Some t)"
| "consent o' (HExec _ name args) = query_command name args"
| "consent o' _ = True"

lemma prelim_consent: "prelim oper \<or> oper = HTermios \<and> o_inter o' \<Longrightarrow> consent o' oper"
  by (cases oper) (auto simp: prelim_def)

lemma allowed_consent:
  assumes "ctx_for o' c" "allowed c oper"
  shows "consent o' oper"
proof -
  obtain r t where c: "c = mkCtx r o' t" "if o_target o' = [] then t = [] else wifiNetworkTarget (o_target o') = Some t"
    using assms(1) by (auto simp: ctx_for_def)
  have "wifiNetworkTarget t = Some u \<Longrightarrow> t \<noteq> [] \<Longrightarrow> o_target o' \<noteq> [] \<and> wifiNetworkTarget (o_target o') = Some u" for u
    using c(2) wifiNetworkTarget_canonical[of "o_target o'" t] by (auto split: if_splits)
  then show ?thesis using assms(2) c(1) by (cases oper) (auto simp: mkCtx_def)
qed

text \<open>The operations that are left on a relocated root, and reads that stay below it.\<close>

definition inert :: "hop \<Rightarrow> bool" where
  "inert oper \<longleftrightarrow>
     (case oper of
        HEvalSymlinks _ \<Rightarrow> True | HStat _ \<Rightarrow> True | HReadAll _ \<Rightarrow> True | HGunzip _ \<Rightarrow> True | HGlob _ \<Rightarrow> True
      | HReadlink _ \<Rightarrow> True | HAdd _ \<Rightarrow> True | HSay _ \<Rightarrow> True | HCtxErr \<Rightarrow> True | HNow \<Rightarrow> True | HJson _ \<Rightarrow> True
      | HTermios \<Rightarrow> True | HGetwd \<Rightarrow> True | _ \<Rightarrow> False)"

definition confined :: "string \<Rightarrow> (hop, hresp) events \<Rightarrow> bool" where
  "confined rt tr \<longleftrightarrow>
     (\<forall>pre oper r post q. tr = pre @ (oper, r) # post \<longrightarrow> opens q oper \<longrightarrow>
        (\<exists>p dir. (HEvalSymlinks p, HText q) \<in> set pre \<and> (HEvalSymlinks rt, HText dir) \<in> set pre \<and> below dir q))"

lemma relocated:
  assumes "ctx_for o' c" "has_prefix (o_root o') ''/''" "path_clean (o_root o') \<noteq> ''/''"
  shows "\<not> live c" "\<not> filepathRootIsSlash c" "Root c = path_clean (o_root o')"
    "\<not> Active c" "\<not> Interactive c" "\<not> Microphone c" "NetworkTarget c = []"
proof -
  have h: "o_root o' \<noteq> []" "hd (o_root o') = CHR ''/''" using assms(2) by (cases "o_root o'"; simp add: has_prefix_def)+
  show R: "Root c = path_clean (o_root o')" using assms by (auto simp: ctx_for_def mkCtx_def)
  show l: "\<not> live c" using R assms(3) path_clean_idem[OF h] by (simp add: live_def)
  have "Root c \<noteq> []" using R path_clean_rooted[OF h] by auto
  then show "\<not> filepathRootIsSlash c" using l by (simp add: filepathRootIsSlash_def live_def)
  show "\<not> Active c" "\<not> Interactive c" "\<not> Microphone c" "NetworkTarget c = []"
    using assms by (auto simp: ctx_for_def mkCtx_def)
qed

lemma prelim_opens: "prelim oper \<or> oper = HTermios \<and> b \<Longrightarrow> \<not> opens q oper"
  by (cases oper) (auto simp: prelim_def opens_def)

section \<open>Every group reports\<close>

definition reports :: "'a hprog \<Rightarrow> bool" where
  "reports m \<longleftrightarrow> emits m (\<lambda>_ new. results new \<noteq> [])"

lemma reports_add: "reports (add env g s n d)"
  unfolding reports_def add_def by (auto intro!: emits_act_bind emits_return)

lemma reports_only:
  assumes "reports m" "\<And>a. keeps (hw_safe c g) (f a)"
  shows "reports (m \<bind> f)"
  unfolding reports_def
  by (rule emits_bind[OF assms(1)[unfolded reports_def]], rule emits_weaken[OF assms(2)[unfolded keeps_def]]) simp

lemma reports_later:
  assumes "keeps (hw_safe c g) m" "\<And>a. reports (f a)"
  shows "reports (m \<bind> f)"
  unfolding reports_def
  by (rule emits_bind[OF assms(1)[unfolded keeps_def]], rule emits_weaken[OF assms(2)[unfolded reports_def]]) simp

text \<open>A test that either succeeds or reports, and a rest that reports.\<close>

lemma reports_unless:
  assumes "emits m (\<lambda>ok new. ok \<or> results new \<noteq> [])" "reports n"
  shows "reports (m \<bind> (\<lambda>ok. if \<not> ok then unit_prog else n))"
  unfolding reports_def
  by (rule emits_bind[OF assms(1)]) (auto intro!: emits_return intro: emits_weaken[OF assms(2)[unfolded reports_def]])

lemma reports_if: "reports m \<Longrightarrow> reports n \<Longrightarrow> reports (if b then m else n)"
  by simp

lemma reports_prod: "(\<And>a b. reports (f a b)) \<Longrightarrow> reports (case x of (a, b) \<Rightarrow> f a b)"
  by (cases x) auto

lemma reports_option: "reports m \<Longrightarrow> (\<And>y. reports (f y)) \<Longrightarrow> reports (case x of None \<Rightarrow> m | Some y \<Rightarrow> f y)"
  by (cases x) auto

lemma reports_sum: "(\<And>y. reports (f y)) \<Longrightarrow> (\<And>y. reports (g y)) \<Longrightarrow> reports (case x of Inl y \<Rightarrow> f y | Inr y \<Rightarrow> g y)"
  by (cases x) auto

lemmas reports_cases = reports_if reports_prod reports_option reports_sum

lemma reports_display: "reports (checkDisplay env c g)"
  unfolding checkDisplay_def check_connector_def check_mode_def check_card_def Let_def
  by (intro reports_later[of c g] reports_add hw_intros hw_ok)

lemma reports_platform: "(Active c \<longrightarrow> Root c \<noteq> []) \<Longrightarrow> reports (checkPlatform env c g)"
  unfolding checkPlatform_def
  by (rule reports_later[of c g], rule hw_ok, rule reports_prod, rule reports_only[of _ c g])
     (intro reports_cases reports_add hw_intros hw_ok)+

lemma reports_thermal: "reports (checkThermal env c g)"
  unfolding checkThermal_def zone_step_def hottest_def cooling_step_def Let_def
  by (rule reports_later[of c g], rule hw_ok, rule reports_only[of _ c g])
     (intro reports_cases reports_add hw_intros hw_ok)+

lemma reports_sensors: "reports (checkSensors env c g)"
  unfolding checkSensors_def accelDevice_def adc_step_def checkI2C_def i2c_step_def Let_def
  by (intro reports_later[of c g] reports_prod reports_add hw_intros hw_ok)

lemma reports_input: "reports (checkInput env c g)"
proof -
  have "reports (check_device env c g dv n)" for dv n
    unfolding check_device_def caps_verdict_def Let_def
    by (intro reports_later[of c g] reports_cases reports_add hw_ok)
  then have "reports (foreach (check_device env c g dv) boardInputNames)" for dv
    unfolding boardInputNames_def by (simp, intro reports_only[of _ c g] hw_intros hw_ok)
  then show ?thesis
    unfolding checkInput_def inputDevices_def input_step_def spare_keys_def
    by (intro reports_later[of c g] reports_only[of _ c g] hw_intros hw_ok) auto
qed

lemma reports_suspend: "reports (checkSuspend env c g)"
  unfolding checkSuspend_def check_states_def Let_def
  by (intro reports_later[of c g] reports_add hw_intros hw_ok)

lemma reports_power: "reports (checkPower env c g)"
  unfolding checkPower_def by (intro reports_later[of c g] reports_only[OF reports_suspend, of c g] hw_ok)

lemma emits_present: "emits (connectivityPresent env c g n p) (\<lambda>ok new. ok \<or> results new \<noteq> [])"
  unfolding connectivityPresent_def
proof (rule emits_bind)
  show "emits (inspect env c p) (\<lambda>_ _. True)"
    using inspect_ok[of c "[]" env p] unfolding keeps_def by (rule emits_weaken) simp
  fix err :: "herr option" and new :: "(hop, hresp) events"
  show "emits (case err of None \<Rightarrow> ret True | Some e \<Rightarrow> do {
          (if kind e = ENotExist then r_Fail env g n ''required interface missing''
           else if kind e = EPermission then r_Skip env g n ''interface inspection denied''
           else r_Warn env g n ''could not inspect interface'');
          ret False }) (\<lambda>ok new'. ok \<or> results (new @ new') \<noteq> [])"
    by (auto simp: add_def intro!: emits_option emits_return emits_act_bind)
qed

lemma reports_wifi: "reports (checkWiFi env c g)"
proof -
  have d: "reports (check_driver env c g)"
    unfolding check_driver_def by (intro reports_later[of c g] reports_cases reports_add hw_ok) auto
  show ?thesis
    unfolding checkWiFi_def check_link_def check_counter_def
    by (rule reports_unless[OF emits_present], rule reports_only[OF d, of c g]) (intro hw_intros hw_ok)
qed

lemma reports_bluetooth: "reports (checkBluetooth env c g)"
  unfolding checkBluetooth_def rfkill_step_def Let_def
  by (rule reports_unless[OF emits_present], intro reports_later[of c g] reports_add hw_intros hw_ok) auto

lemma reports_usb: "reports (checkUSB env c g)"
  unfolding checkUSB_def check_udc_def check_gadget_def check_carrier_def check_role_def waitUSBHost_def Let_def
  by (intro reports_later[of c g] reports_only[OF reports_add, of c g] hw_intros hw_ok) auto

lemma reports_storage: "reports (checkStorage env c g)"
  unfolding checkStorage_def check_mount_def card_step_def Let_def
  by (rule reports_later[of c g], rule hw_ok, rule reports_prod, rule reports_only[of _ c g])
     (intro reports_cases reports_only[OF reports_add, of c g] reports_add hw_intros hw_ok; auto)+

lemma reports_audio: "reports (checkAudio env c g)"
  unfolding checkAudio_def audioPCM_def
  by (rule reports_only[of _ c g], intro reports_later[of c g] reports_cases reports_add hw_ok)
     (intro hw_intros hw_ok, auto)

lemma groups_report:
  assumes "gr \<in> set sortedGroups" "Active c \<longrightarrow> Root c \<noteq> []"
  shows "reports (run gr env c g)"
proof -
  have calm: "reports (calm f env c g)" if "reports (f env c g)" for f
    unfolding calm_def by (rule reports_only[OF that, of c g]) (rule hwt.keeps_return)
  have "gr \<in> set groups" using assms(1) by (simp add: sortedGroups_def)
  then show ?thesis
    using assms(2) by (auto simp: groups_def register_def intro!: calm reports_storage reports_power reports_thermal
        reports_platform reports_sensors reports_input reports_display reports_usb reports_bluetooth reports_wifi reports_audio)
qed

lemma results_group: "\<forall>e\<in>set tr. own_group g (fst e) \<Longrightarrow> \<forall>x\<in>set (results tr). Group x = g"
  by (induction tr) (auto simp: own_group_def split: hop.splits)

lemma run_one_reports:
  assumes "gr \<in> set sortedGroups" "Active c \<longrightarrow> Root c \<noteq> []"
  shows "emits (run_one env c o' gr) (\<lambda>_ new. (\<forall>x\<in>set (results new). Group x = gname gr) \<and> (results new \<noteq> [] \<longleftrightarrow> selected o' gr))"
proof -
  have k: "emits (run_one env c o' gr) (\<lambda>_ new. \<forall>x\<in>set (results new). Group x = gname gr)"
    using run_one_ok[OF assms, unfolded keeps_def] by (rule emits_weaken) (auto simp: hw_safe_def dest!: results_group)
  have g: "reports (runGroup env c gr)"
    unfolding runGroup_def
    by (rule reports_only[OF groups_report[OF assms], of c "gname gr"]) (intro hw_intros hw_ok)
  have s: "reports (run_one env c o' gr)" if "selected o' gr"
    using that g unfolding run_one_def by (auto intro!: reports_later[of c "gname gr"] reports_add hw_intros hw_ok)
  have "emits (run_one env c o' gr) (\<lambda>_ new. results new \<noteq> [] \<longleftrightarrow> selected o' gr)"
  proof (cases "selected o' gr")
    case True
    then show ?thesis using s by (simp add: reports_def)
  next
    case False
    then show ?thesis by (auto simp: run_one_def intro!: emits_return)
  qed
  from emits_conj[OF k this] show ?thesis by simp
qed

text \<open>Blocks of equal entries with different labels stay apart.\<close>

lemma remdups_adj_blocks:
  assumes "\<forall>x\<in>set xs. x = a" "a \<notin> set ys"
  shows "remdups_adj (xs @ ys) = (if xs = [] then remdups_adj ys else a # remdups_adj ys)"
proof (cases "xs = []")
  case False
  then have "xs = replicate (length xs) a" using assms(1) by (simp add: replicate_eqI)
  moreover have "remdups_adj (replicate n a @ ys) = a # remdups_adj ys" if "0 < n" for n
    using that assms(2)
  proof (induction n)
    case (Suc n)
    then show ?case by (cases n; cases ys) auto
  qed simp
  ultimately show ?thesis using False by (metis length_greater_0_conv)
qed simp

lemma groups_run:
  assumes "set gs \<subseteq> set sortedGroups" "distinct (map gname gs)" "Active c \<longrightarrow> Root c \<noteq> []"
  shows "emits (foreach (run_one env c o') gs) (\<lambda>_ new. remdups_adj (map Group (results new)) = map gname (filter (selected o') gs))"
  using assms
proof (induction gs)
  case Nil
  then show ?case by (auto intro: emits_return)
next
  case (Cons gr gs)
  have a: "emits (run_one env c o' gr) (\<lambda>_ new. (\<forall>x\<in>set (results new). Group x = gname gr) \<and> (results new \<noteq> [] \<longleftrightarrow> selected o' gr))"
    by (rule run_one_reports) (use Cons.prems in auto)
  have b: "emits (foreach (run_one env c o') gs) (\<lambda>_ new. remdups_adj (map Group (results new)) = map gname (filter (selected o') gs))"
    by (rule Cons.IH) (use Cons.prems in auto)
  have join: "remdups_adj (map Group (results (new @ new'))) = map gname (filter (selected o') (gr # gs))"
    if "\<forall>x\<in>set (results new). Group x = gname gr" "results new \<noteq> [] \<longleftrightarrow> selected o' gr"
       "remdups_adj (map Group (results new')) = map gname (filter (selected o') gs)" for new new'
  proof -
    have "set (map Group (results new')) = set (map gname (filter (selected o') gs))"
      using that(3) by (metis remdups_adj_set)
    then have "gname gr \<notin> set (map Group (results new'))" using Cons.prems(2) by auto
    then show ?thesis using that remdups_adj_blocks[of "map Group (results new)" "gname gr" "map Group (results new')"] by auto
  qed
  show ?case
    unfolding foreach.simps by (rule emits_bind[OF a], rule emits_weaken[OF b]) (use join in auto)
qed

definition verdict :: "opts \<Rightarrow> int \<Rightarrow> Result list \<Rightarrow> bool" where
  "verdict o' status rs \<longleftrightarrow>
     remdups_adj (map Group rs) = map gname (filter (selected o') sortedGroups) \<and>
     (status = 0 \<and> count_status Fail rs = 0 \<or> status = 1 \<and> 0 < count_status Fail rs \<or> status = 130)"

definition judges :: "opts \<Rightarrow> int hprog \<Rightarrow> bool" where
  "judges o' m \<longleftrightarrow>
     (\<forall>tr0 status tr. results tr0 = [] \<longrightarrow> run_state m tr0 = (status, tr) \<longrightarrow> status = 2 \<or> verdict o' status (results tr))"

lemma judges_act:
  assumes "\<And>r. judges o' (f r)" "\<And>res. oper \<noteq> HAdd res"
  shows "judges o' (act env oper \<bind> f)"
  unfolding judges_def
proof (intro allI impI)
  fix tr0 status tr
  assume t: "results tr0 = []" "run_state (act env oper \<bind> f) tr0 = (status, tr)"
  define r where "r = env tr0 oper"
  have "results (tr0 @ [(oper, r)]) = []" using t(1) assms(2) by (auto split: hop.split)
  moreover have "run_state (f r) (tr0 @ [(oper, r)]) = (status, tr)" using t(2) by (simp add: act_def r_def)
  ultimately show "status = 2 \<or> verdict o' status (results tr)" using assms(1)[of r] unfolding judges_def by blast
qed

lemma judges_fatal: "judges o' (fatal env t)"
  by (auto simp: judges_def fatal_def say_def act_def)

lemma hw_finish_exact:
  assumes "run_state (hw_finish env o') tr0 = (status, tr)"
  shows "results tr = results tr0 \<and>
    (status = 2 \<or> status = 0 \<and> count_status Fail (results tr0) = 0 \<or> status = 1 \<and> 0 < count_status Fail (results tr0) \<or> status = 130)"
  using assms
  by (auto simp: hw_finish_def collected_def say_def act_def split: option.splits if_splits)

lemma sorted_distinct: "distinct (map gname sortedGroups)"
  by (simp add: sortedGroups_def groups_def register_def)

lemma judges_run:
  assumes "Active c \<longrightarrow> Root c \<noteq> []"
  shows "judges o' (hw_run env c o')"
  unfolding judges_def
proof (intro allI impI)
  fix tr0 status tr
  assume t: "results tr0 = []" "run_state (hw_run env c o') tr0 = (status, tr)"
  obtain tr1 where r: "run_state (foreach (run_one env c o') sortedGroups) tr0 = ((), tr1)" by (metis prod.collapse unit.exhaust)
  have f: "run_state (hw_finish env o') tr1 = (status, tr)" using t(2) r by (simp add: hw_run_def)
  obtain new where n: "tr1 = tr0 @ new" "remdups_adj (map Group (results new)) = map gname (filter (selected o') sortedGroups)"
    using emits_run[OF groups_run[OF subset_refl sorted_distinct assms] r] by blast
  show "status = 2 \<or> verdict o' status (results tr)"
    using hw_finish_exact[OF f] n t(1) by (auto simp: verdict_def)
qed

lemma judges_checked: "judges o' (hw_checked env o' r)"
  unfolding hw_checked_def Let_def by (auto intro!: judges_fatal judges_run simp: mkCtx_def split: option.split list.split)

lemma judges_main:
  assumes "hw_parse args = Inr (o', rest)" "\<not> o_list o'"
  shows "judges o' (hw_main env args)"
proof -
  have s: "judges o' (hw_started env o' r)" for r
    using assms(2) unfolding hw_started_def
    by (cases "o_inter o'") (auto intro!: judges_fatal judges_act judges_checked)
  have "judges o' (absRoot env (o_root o') \<bind> (\<lambda>ar. case ar of Inl e \<Rightarrow> fatal env (etext e) | Inr r \<Rightarrow> hw_started env o' r))"
    unfolding absRoot_def by (auto simp: bind_assoc intro!: judges_act judges_fatal s split: sum.split)
  then show ?thesis using assms(1) by (auto simp: hw_main_def intro!: judges_fatal)
qed

section \<open>Properties\<close>

text \<open>A machine on which nothing exists.\<close>

definition bare :: henv where
  "bare tr oper = (case oper of HCtxErr \<Rightarrow> HOk | _ \<Rightarrow> HErr \<lparr>kind = ENotExist, etext = ''no such file''\<rparr>)"

text \<open>C14: Consent.  Whatever the machine answers, a run of \<^verbatim>\<open>hwtest\<close> starts the CPU load or the storage worker
  only with \<^verbatim>\<open>-active\<close>, the recorder only with \<^verbatim>\<open>-allow-microphone\<close>, prompts, grabs and input sessions only with
  \<^verbatim>\<open>-interactive\<close>, connects only to the literal address given with \<^verbatim>\<open>-network-target\<close>, and runs no command
  but the fixed queries.\<close>

theorem hwtest_consent:
  assumes "hw_parse args = Inr (o', rest)" "run_state (hw_main env args) [] = (status, tr)"
  shows "list_all (\<lambda>e. consent o' (fst e)) tr"
proof -
  have "phases o' tr" using emits_run[OF emits_hw_main[OF assms(1)] assms(2)] by simp
  then obtain pre c post where t: "tr = pre @ post" "\<forall>e\<in>set pre. prelim (fst e) \<or> fst e = HTermios \<and> o_inter o'"
    "post = [] \<or> ctx_for o' c \<and> hw_allowed c post" unfolding phases_def by blast
  have "consent o' (fst e)" if "e \<in> set post" for e
    using t(3) that allowed_consent by (auto simp: hw_allowed_def)
  then show ?thesis using t(1,2) prelim_consent by (auto simp: list_all_iff)
qed

theorem hwtest_consent_witness:
  "list_all (\<lambda>e. consent (default_opts\<lparr>o_mic := True, o_only := ''audio''\<rparr>) (fst e))
     (snd (run_state (hw_main bare [''-allow-microphone'', ''-only'', ''audio'']) []))"
proof -
  have "hw_parse [''-allow-microphone'', ''-only'', ''audio''] = Inr (default_opts\<lparr>o_mic := True, o_only := ''audio''\<rparr>, [])"
    by code_simp
  from hwtest_consent[OF this prod.collapse[symmetric]] show ?thesis .
qed

text \<open>C15: Fixtures are inert.  With \<^verbatim>\<open>-root\<close> naming another directory, a run does nothing but resolve, read,
  list, report and look at the clock: no command, device, socket, pause or stimulus; and it asks for the
  content or the existence of a file only after it has resolved its path and the root, and found the
  elements of the resolved root at the front of the resolved path.\<close>

theorem hwtest_fixture_confined:
  assumes "hw_parse args = Inr (o', rest)" "run_state (hw_main env args) [] = (status, tr)"
      and "has_prefix (o_root o') ''/''" "path_clean (o_root o') \<noteq> ''/''"
  shows "list_all (\<lambda>e. inert (fst e)) tr \<and> confined (path_clean (o_root o')) tr"
proof -
  have "phases o' tr" using emits_run[OF emits_hw_main[OF assms(1)] assms(2)] by simp
  then obtain pre c post where t: "tr = pre @ post" "\<forall>e\<in>set pre. prelim (fst e) \<or> fst e = HTermios \<and> o_inter o'"
    "post = [] \<or> ctx_for o' c \<and> hw_allowed c post" unfolding phases_def by blast
  note r = relocated[OF _ assms(3,4)]
  have "inert (fst e)" if "e \<in> set pre" for e
    using t(2) that by (cases "fst e") (auto simp: inert_def prelim_def)
  moreover have "inert (fst e)" if "e \<in> set post" for e
    using t(3) that r[of c] by (cases "fst e") (auto simp: inert_def hw_allowed_def)
  moreover have "confined (path_clean (o_root o')) tr"
    unfolding confined_def
  proof (intro allI impI)
    fix p1 oper a p2 q
    assume e: "tr = p1 @ (oper, a) # p2" "opens q oper"
    then consider us where "pre = p1 @ (oper, a) # us" | us where "p1 = pre @ us" "post = us @ (oper, a) # p2"
      using t(1) by (auto simp: append_eq_append_conv2 append_eq_Cons_conv Cons_eq_append_conv)
    then show "\<exists>p dir. (HEvalSymlinks p, HText q) \<in> set p1 \<and> (HEvalSymlinks (path_clean (o_root o')), HText dir) \<in> set p1 \<and> below dir q"
    proof cases
      case 1
      then show ?thesis using t(2) prelim_opens e(2) by fastforce
    next
      case 2
      then have c: "ctx_for o' c" "guarded (opens q) (resolved c q) post" using t(3) by (auto simp: hw_allowed_def)
      then have "resolved c q us" using 2 e(2) unfolding guarded_def by fastforce
      then show ?thesis using 2 r[OF c(1)] by (auto simp: resolved_def)
    qed
  qed
  ultimately show ?thesis using t(1) by (auto simp: list_all_iff)
qed

theorem hwtest_fixture_confined_witness:
  "path_clean ''/fx'' \<noteq> ''/'' \<and>
   list_all (\<lambda>e. inert (fst e)) (snd (run_state (hw_main bare [''-root'', ''/fx'', ''-only'', ''wifi'']) [])) \<and>
   confined (path_clean ''/fx'') (snd (run_state (hw_main bare [''-root'', ''/fx'', ''-only'', ''wifi'']) []))"
proof -
  have p: "hw_parse [''-root'', ''/fx'', ''-only'', ''wifi''] = Inr (default_opts\<lparr>o_root := ''/fx'', o_only := ''wifi''\<rparr>, [])"
    by code_simp
  have "has_prefix ''/fx'' ''/''" "path_clean ''/fx'' \<noteq> ''/''" by code_simp+
  with hwtest_fixture_confined[OF p prod.collapse[symmetric], of bare] show ?thesis by simp
qed

text \<open>C19: The verdict of a run.  Unless it is refused (status 2), a run that is not a listing reports at least one
  result for every selected group and for no other, group after group in the order of the registry; it exits
  with status 0 only when no result is a failure, with 1 only when one is, and with 130 otherwise.\<close>

theorem hwtest_verdict:
  assumes "hw_parse args = Inr (o', rest)" "\<not> o_list o'" "run_state (hw_main env args) [] = (status, tr)"
  shows "status = 2 \<or>
    remdups_adj (map Group (results tr)) = map gname (filter (selected o') sortedGroups) \<and>
    (status = 0 \<and> count_status Fail (results tr) = 0 \<or> status = 1 \<and> 0 < count_status Fail (results tr) \<or> status = 130)"
proof -
  have "results [] = [] \<longrightarrow> run_state (hw_main env args) [] = (status, tr) \<longrightarrow> status = 2 \<or> verdict o' status (results tr)"
    using judges_main[OF assms(1,2), of env] unfolding judges_def by blast
  then show ?thesis using assms(3) by (simp add: verdict_def)
qed

theorem hwtest_verdict_witness:
  "fst (run_state (hw_main bare [''-only'', ''wifi,usb'']) []) = 1 \<and>
   remdups_adj (map Group (results (snd (run_state (hw_main bare [''-only'', ''wifi,usb'']) [])))) = [''wifi'', ''usb''] \<and>
   0 < count_status Fail (results (snd (run_state (hw_main bare [''-only'', ''wifi,usb'']) [])))"
proof -
  have p: "hw_parse [''-only'', ''wifi,usb''] = Inr (default_opts\<lparr>o_only := ''wifi,usb''\<rparr>, [])" by code_simp
  have s: "fst (run_state (hw_main bare [''-only'', ''wifi,usb'']) []) = 1" by code_simp
  have "map gname (filter (selected (default_opts\<lparr>o_only := ''wifi,usb''\<rparr>)) sortedGroups) = [''wifi'', ''usb'']" by code_simp
  moreover have "\<not> o_list (default_opts\<lparr>o_only := ''wifi,usb''\<rparr>)" by (simp add: default_opts_def)
  ultimately show ?thesis
    using hwtest_verdict[OF p _ prod.collapse[symmetric], of bare] s by simp
qed

end
