(* ===== verification/Hw_Load.thy ===== *)
theory Hw_Load
  imports Hw_Platform
begin

text \<open>
  The CPU load of the platform group (\<^verbatim>\<open>checkCPUFreq\<close> in \<^verbatim>\<open>platform.go\<close>) read off the history of a run: when it may
  start, how long it lasts, and what is measured while it runs.
\<close>

section \<open>The load is watched\<close>

text \<open>What a reading of a temperature says, and histories that hold one in a range for a zone.\<close>

definition reading :: "string \<Rightarrow> int option" where
  "reading d =
     (if read_limit < length d then None
      else (case Fields (trim_space (trim_right [CHR 0x00] d)) of [w] \<Rightarrow> parse_int64 w | _ \<Rightarrow> None))"

definition read_below :: "Ctx \<Rightarrow> int \<Rightarrow> string \<Rightarrow> (hop, hresp) events \<Rightarrow> bool" where
  "read_below c limit z tr \<longleftrightarrow>
     (\<exists>d t. (HReadAll (cpath c (z @ ''/temp'')), HData d None) \<in> set tr \<and> reading d = Some t \<and> - 20000 \<le> t \<and> t < limit)"

definition is_pause :: "hop \<times> hresp \<Rightarrow> bool" where
  "is_pause e = (case fst e of HPause _ \<Rightarrow> True | _ \<Rightarrow> False)"

definition quiet :: "hop \<times> hresp \<Rightarrow> bool" where
  "quiet e = (case fst e of HPause _ \<Rightarrow> False | HLoadStart \<Rightarrow> False | HLoadStop \<Rightarrow> False | _ \<Rightarrow> True)"

definition watched :: "Ctx \<Rightarrow> string list \<Rightarrow> (hop, hresp) events \<Rightarrow> bool" where
  "watched c zs tr \<longleftrightarrow>
     (\<forall>a x b y e. tr = a @ x # b @ y # e \<longrightarrow> is_pause x \<longrightarrow> is_pause y \<longrightarrow> (\<forall>z\<in>set zs. read_below c 65000 z b))"

text \<open>A stretch of the load: at most \<open>n\<close> pauses of 300 ms, with every zone read and safe between any two of them.\<close>

definition bounded_load :: "Ctx \<Rightarrow> string list \<Rightarrow> nat \<Rightarrow> (hop, hresp) events \<Rightarrow> bool" where
  "bounded_load c zs n tr \<longleftrightarrow>
     watched c zs tr \<and> length (filter is_pause tr) \<le> n \<and> list_all (\<lambda>e. quiet e \<or> fst e = HPause (300 * ms)) tr"

definition zones_seen :: "Ctx \<Rightarrow> (hop, hresp) events \<Rightarrow> string list \<Rightarrow> bool" where
  "zones_seen c tr zs \<longleftrightarrow>
     (\<exists>r. (HGlob (cpath c ''/sys/class/thermal/thermal_zone*''), r) \<in> set tr \<and>
          zs = sort_strings (map (\<lambda>rel. ''/'' @ rel) (List.map_filter (Rel (Root c)) (h_names r))))"

lemma quiet_not_pause: "quiet e \<Longrightarrow> \<not> is_pause e"
  by (auto simp: quiet_def is_pause_def split: hop.splits)

interpretation qt: trace_property "list_all quiet"
  by unfold_locales auto

lemmas qt_intros = qt.keeps_return qt.keeps_bind qt.keeps_foreach qt.keeps_foldp keeps_cases keeps_act

lemma quiet_reads:
  "keeps (list_all quiet) (readInt env c p)" "keeps (list_all quiet) (Ctx_read env c p)" "keeps (list_all quiet) (glob env c p)"
  "keeps (list_all quiet) (add env g s n d)"
  unfolding readInt_def Ctx_read_def readPath_def glob_def add_def
  by (intro qt_intros; simp add: quiet_def)+

lemma quiet_parts:
  "keeps (list_all quiet) (cpufreq_policy env c g b pol)" "keeps (list_all quiet) (peak_step env c acc pv)"
  "keeps (list_all quiet) (load_report env g b pk p)"
  unfolding cpufreq_policy_def peak_step_def load_report_def Let_def
  by (intro qt_intros quiet_reads)+

lemma read_below_append: "read_below c l z xs \<Longrightarrow> read_below c l z (xs @ ys)"
  by (auto simp: read_below_def)

lemma ParseInt_ok: "ParseInt w = (t, None) \<longleftrightarrow> parse_int64 w = Some t"
  by (auto simp: ParseInt_def Let_def split: option.splits)

lemma one_integer:
  assumes "snd (case snd rr of Some e \<Rightarrow> (0, Some e) | None \<Rightarrow> (case Fields (fst rr) of [w] \<Rightarrow> ParseInt w | _ \<Rightarrow> (0, Some x))) = None"
  shows "\<exists>w t. snd rr = None \<and> Fields (fst rr) = [w] \<and> ParseInt w = (t, None)"
  using assms by (cases "snd rr"; cases "Fields (fst rr)" rule: remdups_adj.cases) (auto simp: prod_eq_iff)

lemma readInt_reads:
  assumes "live c"
  shows "emits (readInt env c p) (\<lambda>te new. (snd te = None \<longrightarrow>
     (\<exists>d. (HReadAll (cpath c p), HData d None) \<in> set new \<and> reading d = Some (fst te))) \<and> list_all quiet new)"
proof -
  have f: "\<exists>d. HData d None = r \<and> reading d = Some (fst te)"
    if te: "te = (case snd rr of Some e \<Rightarrow> (0, Some e) | None \<Rightarrow> (case Fields (fst rr) of [w] \<Rightarrow> ParseInt w
        | _ \<Rightarrow> (0, Some (mkerr (p @ '': expected one integer, got '' @ quote (fst rr))))))"
      and rr: "rr = (case r of HData d e \<Rightarrow> read_result p d e | _ \<Rightarrow> ([], Some (h_error r)))" and n: "snd te = None" for r te rr
  proof -
    obtain w t where w: "snd rr = None" "Fields (fst rr) = [w]" "ParseInt w = (t, None)"
      using one_integer[where rr = rr] n unfolding te by blast
    then have "te = (t, None)" using te by simp
    then show ?thesis using w rr by (cases r) (auto simp: reading_def read_result_def ParseInt_ok split: if_splits)
  qed
  show ?thesis
    using assms unfolding readInt_def Ctx_read_def readPath_def
    by (auto simp: quiet_def bind_assoc intro!: emits_act_bind emits_return f[OF refl refl])
qed

lemma zones_all_reads:
  assumes "live c" "\<And>te. ok te \<Longrightarrow> snd te = None \<and> - 20000 \<le> fst te \<and> fst te < limit"
  shows "emits (zones_all env c ok zs) (\<lambda>b new. (b \<longrightarrow> (\<forall>z\<in>set zs. read_below c limit z new)) \<and> list_all quiet new)"
proof (induction zs)
  case Nil
  then show ?case by (auto intro: emits_return)
next
  case (Cons z zs)
  have "emits (if ok te then zones_all env c ok zs else ret False)
      (\<lambda>b new'. (b \<longrightarrow> (\<forall>z\<in>set (z # zs). read_below c limit z (new @ new'))) \<and> list_all quiet (new @ new'))"
    if "(snd te = None \<longrightarrow> (\<exists>d. (HReadAll (cpath c (z @ ''/temp'')), HData d None) \<in> set new \<and> reading d = Some (fst te))) \<and>
        list_all quiet new" for te new
  proof (rule emits_if)
    assume "ok te"
    then have "read_below c limit z new" using that assms(2)[of te] unfolding read_below_def by fastforce
    then show "emits (zones_all env c ok zs)
      (\<lambda>b new'. (b \<longrightarrow> (\<forall>z\<in>set (z # zs). read_below c limit z (new @ new'))) \<and> list_all quiet (new @ new'))"
      using that by (intro emits_weaken[OF Cons.IH]) (auto simp: read_below_def)
  qed (use that in \<open>auto intro: emits_return\<close>)
  then show ?case unfolding zones_all.simps by (rule emits_bind[OF readInt_reads[OF assms(1)]])
qed

lemma quiet_split:
  assumes "list_all quiet xs" "is_pause y" "xs @ ys = b @ y # e"
  shows "\<exists>b'. b = xs @ b' \<and> ys = b' @ y # e"
  using assms by (cases y) (auto simp: append_eq_append_conv2 append_eq_Cons_conv Cons_eq_append_conv dest: quiet_not_pause)

lemma watched_round:
  assumes "list_all quiet xs" "ys \<noteq> [] \<longrightarrow> (\<forall>z\<in>set zs. read_below c 65000 z xs)" "watched c zs ys"
  shows "watched c zs (p # xs @ ys)"
  unfolding watched_def
proof (intro allI impI)
  fix a x b y e
  assume t: "p # xs @ ys = a @ x # b @ y # e" and px: "is_pause x" and py: "is_pause y"
  show "\<forall>z\<in>set zs. read_below c 65000 z b"
  proof (cases a)
    case Nil
    then obtain b' where "b = xs @ b'" "ys = b' @ y # e" using quiet_split[OF assms(1) py, of ys b e] t by auto
    then show ?thesis using assms(2) by (auto simp: read_below_def; blast)
  next
    case (Cons q a')
    then obtain b' where "ys = b' @ x # b @ y # e" using quiet_split[OF assms(1) px, of ys a' "b @ y # e"] t by auto
    then show ?thesis using assms(3) px py unfolding watched_def by blast
  qed
qed

lemma bounded_nil: "bounded_load c zs n []"
  by (simp add: bounded_load_def watched_def)

lemma bounded_quiet:
  assumes "bounded_load c zs n tr" "list_all quiet q"
  shows "bounded_load c zs n (tr @ q)"
proof -
  have p: "filter is_pause q = []" using assms(2) quiet_not_pause by (auto simp: filter_empty_conv list_all_iff)
  have "watched c zs (tr @ q)"
    unfolding watched_def
  proof (intro allI impI)
    fix a x b y e
    assume t: "tr @ q = a @ x # b @ y # e" and px: "is_pause x" and py: "is_pause y"
    have "y \<notin> set q" using py p by (auto simp: filter_empty_conv)
    then obtain e' where "tr = a @ x # b @ y # e'"
      using t by (auto simp: append_eq_append_conv2 append_eq_Cons_conv Cons_eq_append_conv)
    then show "\<forall>z\<in>set zs. read_below c 65000 z b" using assms(1) px py unfolding bounded_load_def watched_def by blast
  qed
  then show ?thesis using assms p by (auto simp: bounded_load_def list_all_iff)
qed

lemma bounded_round:
  assumes "list_all quiet xs" "ys \<noteq> [] \<longrightarrow> (\<forall>z\<in>set zs. read_below c 65000 z xs)" "bounded_load c zs n ys"
  shows "bounded_load c zs (Suc n) ((HPause (300 * ms), r) # xs @ ys)"
proof -
  have "filter is_pause xs = []" using assms(1) quiet_not_pause by (auto simp: filter_empty_conv list_all_iff)
  then show ?thesis using assms watched_round[OF assms(1,2)] by (auto simp: bounded_load_def list_all_iff)
qed

definition load_tail :: "Ctx \<Rightarrow> string list \<Rightarrow> nat \<Rightarrow> (hop, hresp) events \<Rightarrow> bool" where
  "load_tail c zs n tr \<longleftrightarrow>
     (\<exists>xs ys. tr = xs @ ys \<and> list_all quiet xs \<and> (ys \<noteq> [] \<longrightarrow> (\<forall>z\<in>set zs. read_below c 65000 z xs)) \<and> bounded_load c zs n ys)"

lemma tail_quiet: "list_all quiet tr \<Longrightarrow> load_tail c zs n tr"
  unfolding load_tail_def by (intro exI[of _ tr] exI[of _ "[]"]) (simp add: bounded_nil)

lemma tail_more:
  assumes "\<forall>z\<in>set zs. read_below c 65000 z new" "list_all quiet new" "list_all quiet xs" "bounded_load c zs n ys"
  shows "load_tail c zs n (new @ xs @ ys)"
proof -
  have "\<forall>z\<in>set zs. read_below c 65000 z (new @ xs)" using assms(1) read_below_append by blast
  moreover have "list_all quiet (new @ xs)" using assms(2,3) by simp
  ultimately show ?thesis using assms(4) unfolding load_tail_def by (metis append_assoc)
qed

lemma load_rounds_bounded:
  assumes "live c"
  shows "emits (load_rounds env c g zs n peak) (\<lambda>_. bounded_load c zs n)"
proof (induction n arbitrary: peak)
  case 0
  then show ?case by (auto intro: emits_return bounded_nil)
next
  case (Suc n)
  have said: "emits (add env g s nm d \<bind> (\<lambda>_. ret None)) (\<lambda>_. list_all quiet)" for s nm d
    using qt.keeps_bind[OF quiet_reads(4) qt.keeps_return] by (simp add: keeps_def)
  have peaks: "emits (foldp (peak_step env c) [] peak \<bind> (\<lambda>pk. load_rounds env c g zs n pk))
      (\<lambda>_ new. \<exists>xs ys. new = xs @ ys \<and> list_all quiet xs \<and> bounded_load c zs n ys)"
    using qt.keeps_foldp[of peak "peak_step env c" "[]"] quiet_parts(2) unfolding keeps_def
    by (intro emits_bind[where R = "\<lambda>_. list_all quiet"] emits_weaken[OF Suc.IH]) blast+
  have zones: "emits (zones_all env c loadTemperatureSafe zs)
      (\<lambda>b new. (b \<longrightarrow> (\<forall>z\<in>set zs. read_below c 65000 z new)) \<and> list_all quiet new)"
    by (rule zones_all_reads[OF assms]) (auto simp: loadTemperatureSafe_def)
  have rest: "emits (zones_all env c loadTemperatureSafe zs \<bind> (\<lambda>safe. if \<not> safe then
        add env g Warn ''dvfs-load'' msg \<bind> (\<lambda>_. ret None)
      else foldp (peak_step env c) [] peak \<bind> (\<lambda>pk. load_rounds env c g zs n pk)))
      (\<lambda>_. load_tail c zs n)"
    for msg
  proof (rule emits_bind[OF zones], rule emits_if)
    fix safe new
    assume a: "(safe \<longrightarrow> (\<forall>z\<in>set zs. read_below c 65000 z new)) \<and> list_all quiet new"
    show "emits (add env g Warn ''dvfs-load'' msg \<bind> (\<lambda>_. ret None))
      (\<lambda>_ new'. load_tail c zs n (new @ new'))"
      by (rule emits_weaken[OF said]) (use a in \<open>simp add: tail_quiet\<close>)
    assume "\<not> \<not> safe"
    then show "emits (foldp (peak_step env c) [] peak \<bind> (\<lambda>pk. load_rounds env c g zs n pk))
      (\<lambda>_ new'. load_tail c zs n (new @ new'))"
      by (intro emits_weaken[OF peaks]) (use a tail_more[of zs c new] in blast)
  qed
  have skipped: "emits (add env g Skip ''dvfs-load'' msg \<bind> (\<lambda>_. ret None))
      (\<lambda>_ new'. bounded_load c zs (Suc n) ((HPause (300 * ms), r) # new'))" for msg r
    by (rule emits_weaken[OF said]) (use bounded_round[OF _ _ bounded_nil, where c = c] in auto)
  have more: "load_tail c zs n tr \<Longrightarrow> bounded_load c zs (Suc n) ((HPause (300 * ms), r) # tr)" for tr r
    unfolding load_tail_def by (elim exE conjE) (simp only: bounded_round)
  show ?case
    unfolding load_rounds.simps paused_def
    by (auto simp: bind_assoc intro!: emits_act_bind skipped emits_weaken[OF rest] more)
qed

lemma cpu_load_bounded:
  assumes "live c"
  shows "emits (cpu_load env c g pol zs b)
    (\<lambda>_ new. \<exists>r mid r'. new = (HLoadStart, r) # mid @ [(HLoadStop, r')] \<and> bounded_load c zs 10 mid)"
proof -
  have k: "emits (case res of None \<Rightarrow> unit_prog | Some pk \<Rightarrow> foreach (load_report env g b pk) pol) (\<lambda>_. list_all quiet)" for res
    unfolding keeps_def[symmetric] by (intro qt_intros quiet_parts)
  show ?thesis
    unfolding cpu_load_def
    by (rule emits_act_bind, rule emits_bind[OF load_rounds_bounded[OF assms]], rule emits_bind[OF k],
        rule emits_act_bind, rule emits_return, simp) (metis append_assoc bounded_quiet)
qed

lemma glob_zones: "emits (glob env c ''/sys/class/thermal/thermal_zone*'') (\<lambda>zs new. zones_seen c new zs \<and> list_all quiet new)"
  unfolding glob_def zones_seen_def by (auto simp: quiet_def intro!: emits_act_bind emits_return)

text \<open>Either no load, or one that starts after cool readings of all zones and is stopped as the last event.\<close>

definition load_shape :: "Ctx \<Rightarrow> (hop, hresp) events \<Rightarrow> bool" where
  "load_shape c tr \<longleftrightarrow>
     list_all (\<lambda>e. fst e \<noteq> HLoadStart) tr \<or>
     Active c \<and>
     (\<exists>pre r mid r' zs. tr = pre @ (HLoadStart, r) # mid @ [(HLoadStop, r')] \<and> zones_seen c pre zs \<and> zs \<noteq> [] \<and>
        list_all (\<lambda>z. read_below c 60000 z pre) zs \<and> bounded_load c zs 10 mid)"

lemma shape_quiet: "list_all quiet tr \<Longrightarrow> load_shape c tr"
  by (auto simp: load_shape_def quiet_def list_all_iff)

lemma shape_keeps: "keeps (list_all quiet) m \<Longrightarrow> list_all quiet new \<Longrightarrow> emits m (\<lambda>_ new'. load_shape c (new @ new'))"
  unfolding keeps_def by (erule emits_weaken) (simp add: shape_quiet)

lemma shape_load:
  assumes "Active c" "zones_seen c gl zs" "zs \<noteq> []" "\<forall>z\<in>set zs. read_below c 60000 z rd" "bounded_load c zs 10 mid"
  shows "load_shape c (q @ gl @ rd @ (HLoadStart, r) # mid @ [(HLoadStop, r')])"
proof -
  have "zones_seen c (q @ gl @ rd) zs" using assms(2) by (auto simp: zones_seen_def)
  moreover have "\<forall>z\<in>set zs. read_below c 60000 z (q @ gl @ rd)" using assms(4) by (fastforce simp: read_below_def)
  ultimately show ?thesis using assms unfolding load_shape_def list_all_iff by (metis append_assoc)
qed

lemma emits_load:
  assumes "live c" "Active c" "list_all quiet q"
  shows "emits (do {
         zones \<leftarrow> glob env c ''/sys/class/thermal/thermal_zone*'';
         if zones = [] then r_Skip env g nm1 d1
         else do {
           cool \<leftarrow> zones_all env c load_cool zones;
           if \<not> cool then r_Skip env g nm2 d2 else cpu_load env c g pol zones b } }) (\<lambda>_ new. load_shape c (q @ new))"
proof (rule emits_bind[OF glob_zones], rule emits_if)
  fix zs gl
  assume z: "zones_seen c gl zs \<and> list_all quiet gl"
  show "emits (r_Skip env g nm1 d1) (\<lambda>_ new. load_shape c (q @ gl @ new))"
    using shape_keeps[OF quiet_reads(4), of "q @ gl"] assms(3) z by simp
  assume "zs \<noteq> []"
  have "emits (zones_all env c load_cool zs) (\<lambda>ok new. (ok \<longrightarrow> (\<forall>z\<in>set zs. read_below c 60000 z new)) \<and> list_all quiet new)"
    by (rule zones_all_reads[OF assms(1)]) (auto simp: load_cool_def)
  then show "emits (zones_all env c load_cool zs \<bind> (\<lambda>cool. if \<not> cool then r_Skip env g nm2 d2 else cpu_load env c g pol zs b))
      (\<lambda>_ new. load_shape c (q @ gl @ new))"
  proof (rule emits_bind, intro emits_if)
    fix cool rd
    assume r: "(cool \<longrightarrow> (\<forall>z\<in>set zs. read_below c 60000 z rd)) \<and> list_all quiet rd"
    show "emits (r_Skip env g nm2 d2) (\<lambda>_ new. load_shape c (q @ gl @ rd @ new))"
      using shape_keeps[OF quiet_reads(4), of "q @ gl @ rd"] assms(3) z r by simp
    assume "\<not> \<not> cool"
    then show "emits (cpu_load env c g pol zs b) (\<lambda>_ new. load_shape c (q @ gl @ rd @ new))"
      by (intro emits_weaken[OF cpu_load_bounded[OF assms(1)]]) (use r z \<open>zs \<noteq> []\<close> assms(2) shape_load in blast)
  qed
qed

lemma emits_cpufreq:
  assumes "Active c \<longrightarrow> Root c \<noteq> []"
  shows "emits (checkCPUFreq env c g) (\<lambda>_. load_shape c)"
proof -
  have gl: "emits (glob env c p) (\<lambda>_. list_all quiet)" for p
    using quiet_reads(3) by (simp add: keeps_def)
  have pol: "emits (foldp (cpufreq_policy env c g) [] ps) (\<lambda>_. list_all quiet)" for ps
    using qt.keeps_foldp[of ps "cpufreq_policy env c g" "[]"] quiet_parts(1) by (simp add: keeps_def)
  have l: "live c" if "\<not> (\<not> Active c \<or> \<not> filepathRootIsSlash c)"
    using that assms by (auto simp: live_def filepathRootIsSlash_def)
  show ?thesis
    unfolding checkCPUFreq_def
  proof (rule emits_bind[OF gl], rule emits_if)
    fix ps :: "string list" and n1
    assume q1: "list_all quiet n1"
    show "emits (r_Fail env g nm d) (\<lambda>_ new. load_shape c (n1 @ new))" for nm d
      by (rule shape_keeps[OF quiet_reads(4) q1])
    show "emits (foldp (cpufreq_policy env c g) [] ps \<bind> (\<lambda>baseline.
        if \<not> Active c \<or> \<not> filepathRootIsSlash c then r_Skip env g ''dvfs-load'' ''needs -active on the live root (3 s bounded CPU load)''
        else do {
         zones \<leftarrow> glob env c ''/sys/class/thermal/thermal_zone*'';
         if zones = [] then r_Skip env g ''dvfs-load'' ''no thermal telemetry''
         else do {
           cool \<leftarrow> zones_all env c load_cool zones;
           if \<not> cool then r_Skip env g ''dvfs-load'' ''thermal telemetry unavailable or >=60 C''
           else cpu_load env c g ps zones baseline } })) (\<lambda>_ new. load_shape c (n1 @ new))"
      using q1 l
      by (intro emits_bind[OF pol] emits_if)
         (auto simp flip: append_assoc intro!: shape_keeps[OF quiet_reads(4)] emits_load)
  qed
qed

section \<open>Properties\<close>

text \<open>C18: The CPU load is guarded by the thermometers.  Whatever the machine answers, the load starts only with
  \<^verbatim>\<open>-active\<close> and after every thermal zone was read with a value from -20 up to but not including 60 degrees; it
  then pauses at most ten times for 300 ms, between any two of these pauses every zone was read again below
  65 degrees, and stopping the load is the last thing the check does.\<close>

theorem load_guarded:
  assumes "Active c \<longrightarrow> Root c \<noteq> []" "run_state (checkCPUFreq env c g) [] = (u, tr)"
  shows "list_all (\<lambda>e. fst e \<noteq> HLoadStart) tr \<or>
    Active c \<and>
    (\<exists>pre r mid r' zs. tr = pre @ (HLoadStart, r) # mid @ [(HLoadStop, r')] \<and> zones_seen c pre zs \<and> zs \<noteq> [] \<and>
       list_all (\<lambda>z. read_below c 60000 z pre) zs \<and> bounded_load c zs 10 mid)"
  using emits_run[OF emits_cpufreq[OF assms(1)] assms(2)] by (simp add: load_shape_def)

text \<open>A machine at 40 degrees.\<close>

definition mild :: henv where
  "mild tr oper =
     (case oper of
        HGlob p \<Rightarrow> if contains p ''thermal'' then HNames [''/z0''] else HNames [''/p0'', ''/p6'']
      | HReadAll _ \<Rightarrow> HData ''40000'' None
      | _ \<Rightarrow> HOk)"

definition load_ctx :: Ctx where
  "load_ctx =
     \<lparr>Root = ''/'', Active = True, Interactive = False, Sound = False, Microphone = False, NetworkTarget = [],
      has_Cancel = True, has_In = True\<rparr>"

lemma mild_live: "live load_ctx"
  unfolding live_def by code_simp

lemma mild_read: "\<exists>tr'. run_state (Ctx_read mild load_ctx p) tr = ((''40000'', None), tr')"
proof -
  have "read_result p ''40000'' None = (''40000'', None)" for p
  proof -
    have "trim_space (trim_right [CHR 0x00] ''40000'') = ''40000''" by code_simp
    then show ?thesis by (simp add: read_result_def read_limit_def)
  qed
  then show ?thesis by (simp add: Ctx_read_def readPath_def mild_live act_def mild_def)
qed

lemma mild_int: "\<exists>tr'. run_state (readInt mild load_ctx p) tr = ((40000, None), tr')"
proof -
  have "Fields ''40000'' = [''40000'']" by code_simp
  moreover have "ParseInt ''40000'' = (40000, None)" unfolding ParseInt_ok
    by (simp add: parse_int64_def parse_uint64_def is_digit_def Let_def dec_val_def)
  ultimately show ?thesis using mild_read[of p tr] by (auto simp: readInt_def)
qed

lemma mild_globs:
  "\<exists>tr'. run_state (glob mild load_ctx ''/sys/devices/system/cpu/cpufreq/policy*'') tr = ([''/p0'', ''/p6''], tr')"
  "\<exists>tr'. run_state (glob mild load_ctx ''/sys/class/thermal/thermal_zone*'') tr = ([''/z0''], tr')"
proof -
  have "sort_strings (map (\<lambda>rel. ''/'' @ rel) (List.map_filter (Rel (Root load_ctx)) [''/p0'', ''/p6''])) = [''/p0'', ''/p6'']"
    "sort_strings (map (\<lambda>rel. ''/'' @ rel) (List.map_filter (Rel (Root load_ctx)) [''/z0''])) = [''/z0'']"
    "\<not> contains (cpath load_ctx ''/sys/devices/system/cpu/cpufreq/policy*'') ''thermal''"
    "contains (cpath load_ctx ''/sys/class/thermal/thermal_zone*'') ''thermal''" by code_simp+
  then show "\<exists>tr'. run_state (glob mild load_ctx ''/sys/devices/system/cpu/cpufreq/policy*'') tr = ([''/p0'', ''/p6''], tr')"
    "\<exists>tr'. run_state (glob mild load_ctx ''/sys/class/thermal/thermal_zone*'') tr = ([''/z0''], tr')"
    by (simp_all add: glob_def act_def mild_def h_names_def)
qed

lemma mild_policy: "\<exists>tr'. run_state (cpufreq_policy mild load_ctx g b p) tr = (b, tr')"
proof -
  obtain t1 where 1: "run_state (Ctx_read mild load_ctx (p @ ''/related_cpus'')) tr = ((''40000'', None), t1)" using mild_read by blast
  obtain t2 where 2: "run_state (readInt mild load_ctx (p @ ''/cpuinfo_min_freq'')) t1 = ((40000, None), t2)" using mild_int by blast
  obtain t3 where 3: "run_state (readInt mild load_ctx (p @ ''/cpuinfo_max_freq'')) t2 = ((40000, None), t3)" using mild_int by blast
  obtain t4 where 4: "run_state (readInt mild load_ctx (p @ ''/scaling_cur_freq'')) t3 = ((40000, None), t4)" using mild_int by blast
  obtain t5 where 5: "run_state (Ctx_read mild load_ctx (p @ ''/scaling_governor'')) t4 = ((''40000'', None), t5)" using mild_read by blast
  have "\<exists>t6. run_state (add mild g s nm d \<bind> (\<lambda>_. ret b)) t5 = (b, t6)" for s nm d
    by (cases "run_state (add mild g s nm d) t5") simp
  then show ?thesis using 1 2 3 4 5 by (simp add: cpufreq_policy_def)
qed

lemma mild_starts:
  "\<exists>e\<in>set (snd (run_state (checkCPUFreq mild load_ctx ''platform'') [])). fst e = HLoadStart"
proof -
  obtain t1 where 1: "run_state (glob mild load_ctx ''/sys/devices/system/cpu/cpufreq/policy*'') [] = ([''/p0'', ''/p6''], t1)"
    using mild_globs by blast
  obtain t2 where 2: "run_state (cpufreq_policy mild load_ctx ''platform'' [] ''/p0'') t1 = ([], t2)" using mild_policy by blast
  obtain t3 where 3: "run_state (cpufreq_policy mild load_ctx ''platform'' [] ''/p6'') t2 = ([], t3)" using mild_policy by blast
  obtain t4 where 4: "run_state (glob mild load_ctx ''/sys/class/thermal/thermal_zone*'') t3 = ([''/z0''], t4)"
    using mild_globs by blast
  obtain t5 where 5: "run_state (readInt mild load_ctx (''/z0'' @ ''/temp'')) t4 = ((40000, None), t5)" using mild_int by blast
  obtain t6 where 6: "run_state (cpu_load mild load_ctx ''platform'' [''/p0'', ''/p6''] [''/z0''] []) t5 = ((), t6)"
    by (cases "run_state (cpu_load mild load_ctx ''platform'' [''/p0'', ''/p6''] [''/z0''] []) t5") simp
  have a: "Active load_ctx" "filepathRootIsSlash load_ctx"
    using mild_live by (simp_all add: load_ctx_def filepathRootIsSlash_def live_def)
  have "run_state (checkCPUFreq mild load_ctx ''platform'') [] = ((), t6)"
    using 1 2 3 4 5 6 a by (simp add: checkCPUFreq_def load_cool_def)
  then show ?thesis using emits_run[OF cpu_load_bounded[OF mild_live] 6] by auto
qed

theorem load_guarded_witness:
  "Active load_ctx \<and>
   (\<exists>pre r mid r' zs. snd (run_state (checkCPUFreq mild load_ctx ''platform'') []) = pre @ (HLoadStart, r) # mid @ [(HLoadStop, r')] \<and>
      zones_seen load_ctx pre zs \<and> zs \<noteq> [] \<and> list_all (\<lambda>z. read_below load_ctx 60000 z pre) zs \<and> bounded_load load_ctx zs 10 mid)"
proof -
  have "\<not> list_all (\<lambda>e. fst e \<noteq> HLoadStart) (snd (run_state (checkCPUFreq mild load_ctx ''platform'') []))"
    using mild_starts by (auto simp: list_all_iff)
  moreover have "Active load_ctx \<longrightarrow> Root load_ctx \<noteq> []" by (simp add: load_ctx_def)
  ultimately show ?thesis using load_guarded[OF _ prod.collapse[symmetric], of load_ctx mild "''platform''"] by blast
qed

end
