(* ===== verification/Mkboot.thy ===== *)
theory Mkboot
  imports Dc1_Prelude
begin

text \<open>
  \<^verbatim>\<open>boot/mkboot/main.go\<close>: the Android boot image packer (header v3 and v4), its parser, the
  \<^verbatim>\<open>verify\<close> round trip and the MediaTek \<^verbatim>\<open>lk\<close> wrapper, then the four subcommands.

  The file system a subcommand sees is a map from path to contents; the set of writable paths
  and the gzip compressor are parameters.  Command-line parsing by the \<^verbatim>\<open>flag\<close> package is not
  modelled: \<open>cmdPack\<close> and \<open>cmdLKWrap\<close> take the parsed flags.
\<close>

section \<open>Constants, header and errors\<close>

definition bootMagic :: string where "bootMagic = ''ANDROID!''"
definition pageSize :: nat where "pageSize = 4096"
definition cmdlineSize :: nat where "cmdlineSize = 1536"
definition headerSizeV3 :: nat where "headerSizeV3 = 1580"
definition headerSizeV4 :: nat where "headerSizeV4 = 1584"
definition bootSignatureSize :: nat where "bootSignatureSize = 4096"
definition cmdlineOffV0 :: nat where "cmdlineOffV0 = 64"
definition arm64ImageSizeOff :: nat where "arm64ImageSizeOff = 16"
definition arm64ImageMagicOff :: nat where "arm64ImageMagicOff = 56"

lemmas mkboot_consts =
  bootMagic_def pageSize_def cmdlineSize_def headerSizeV3_def headerSizeV4_def
  bootSignatureSize_def cmdlineOffV0_def arm64ImageSizeOff_def arm64ImageMagicOff_def

record bootHdr =
  Magic :: bytes
  KernelSize :: u32
  RamdiskSize :: u32
  OSVersion :: u32
  HeaderSize :: u32
  Reserved :: "u32 list"
  HeaderVersion :: u32
  Cmdline :: bytes
  SignatureSize :: u32

datatype mkboot_error =
    TooSmall nat
  | BadMagic bytes
  | ShortV4
  | UnsupportedHeader u32
  | SectionPastEnd nat u32 nat
  | KernelRequired
  | UnsupportedVersion u32
  | CmdlineTooLong nat
  | NotArm64Image
  | Arm64TooSmall
  | NameTooLong string
  | Mismatch nat byte byte
  | Usage
  | ReadFailed string
  | WriteFailed string
  | FlagsRequired
  | SignatureNeedsV4
  | GzippedImage
  | BadSignatureSize nat
  | ImageTooLarge nat
  | UnknownSubcommand string

section \<open>Parsing\<close>

definition pad :: "nat \<Rightarrow> nat" where
  "pad n = (let r = n mod pageSize in if r \<noteq> 0 then pageSize - r else 0)"

definition cstr :: "bytes \<Rightarrow> string" where
  "cstr b = string_of (takeWhile (\<lambda>c. c \<noteq> 0) b)"

definition parseBoot :: "bytes \<Rightarrow> mkboot_error + bootHdr" where
  "parseBoot data =
    (if length data < headerSizeV3 then Inl (TooSmall (length data))
     else if string_of (take 8 data) \<noteq> bootMagic then Inl (BadMagic (take 8 data))
     else
       let magic = take 8 data; r = drop 8 data;
           ksz = get32 r; r = drop 4 r;
           rsz = get32 r; r = drop 4 r;
           osv = get32 r; r = drop 4 r;
           hsz = get32 r; r = drop 4 r;
           r0 = get32 r; r = drop 4 r;
           r1 = get32 r; r = drop 4 r;
           r2 = get32 r; r = drop 4 r;
           r3 = get32 r; r = drop 4 r;
           ver = get32 r; r = drop 4 r;
           cmd = take cmdlineSize r; r = drop cmdlineSize r;
           h = \<lparr>Magic = magic, KernelSize = ksz, RamdiskSize = rsz, OSVersion = osv,
                HeaderSize = hsz, Reserved = [r0, r1, r2, r3], HeaderVersion = ver,
                Cmdline = cmd, SignatureSize = 0\<rparr>
       in if 4 \<le> ver \<and> length data < headerSizeV4 then Inl ShortV4
          else let h = (if 4 \<le> ver then h\<lparr>SignatureSize := get32 r\<rparr> else h)
               in if ver < 3 then Inl (UnsupportedHeader ver) else Inr h)"

text \<open>\<open>take_section\<close> is the closure \<^verbatim>\<open>take\<close> of \<open>sections\<close>: it returns the bytes
  and the new value of the captured \<^verbatim>\<open>off\<close>.\<close>

definition take_section :: "bytes \<Rightarrow> nat \<Rightarrow> u32 \<Rightarrow> mkboot_error + (bytes \<times> nat)" where
  "take_section data off n =
    (if n = 0 then Inr ([], off)
     else let fin = off + unat n
          in if fin > length data then Inl (SectionPastEnd off n (length data))
             else Inr (slice off fin data, fin + pad fin))"

definition sections :: "bootHdr \<Rightarrow> bytes \<Rightarrow> mkboot_error + (bytes \<times> bytes \<times> bytes)" where
  "sections h data =
    (let off = (if 4 \<le> HeaderVersion h then headerSizeV4 else headerSizeV3);
         off = off + pad off
     in case take_section data off (KernelSize h) of
          Inl e \<Rightarrow> Inl e
        | Inr (krn, off) \<Rightarrow>
            (case take_section data off (RamdiskSize h) of
               Inl e \<Rightarrow> Inl e
             | Inr (ramdisk, off) \<Rightarrow>
                 (if 4 \<le> HeaderVersion h
                  then (case take_section data off (SignatureSize h) of
                          Inl e \<Rightarrow> Inl e
                        | Inr (sig, off) \<Rightarrow> Inr (krn, ramdisk, sig))
                  else Inr (krn, ramdisk, []))))"

section \<open>Packing\<close>

record packOpts =
  o_kernel :: bytes
  o_ramdisk :: bytes
  o_signature :: bytes
  o_cmdline :: string
  o_osVersion :: u32
  o_headerVersion :: u32
  o_legacyCmdlineOffset :: bool

definition setArm64ImageSize :: "bytes \<Rightarrow> u64 \<Rightarrow> mkboot_error + bytes" where
  "setArm64ImageSize img sz =
    (if length img < arm64ImageMagicOff + 4
        \<or> string_of (slice arm64ImageMagicOff (arm64ImageMagicOff + 4) img) \<noteq> ''ARMd''
     then Inl NotArm64Image
     else if length img < arm64ImageSizeOff + 8 then Inl Arm64TooSmall
     else Inr (copy_at arm64ImageSizeOff (put64 sz) img))"

definition packHdr :: "packOpts \<Rightarrow> bootHdr" where
  "packHdr o' =
    \<lparr>Magic = copy_at 0 (bytes_of bootMagic) (replicate 8 0),
     KernelSize = word_of_nat (length (o_kernel o')),
     RamdiskSize = word_of_nat (length (o_ramdisk o')),
     OSVersion = o_osVersion o',
     HeaderSize = (if 4 \<le> o_headerVersion o' then word_of_nat headerSizeV4
                   else word_of_nat headerSizeV3),
     Reserved = replicate 4 0,
     HeaderVersion = o_headerVersion o',
     Cmdline = copy_at 0 (bytes_of (o_cmdline o')) (replicate cmdlineSize 0),
     SignatureSize = (if 4 \<le> o_headerVersion o' then word_of_nat (length (o_signature o')) else 0)\<rparr>"

text \<open>The successive \<^verbatim>\<open>binary.Write\<close> calls of \<open>packBoot\<close>.\<close>

definition writeHdr :: "bootHdr \<Rightarrow> bytes" where
  "writeHdr h =
     Magic h @ put32 (KernelSize h) @ put32 (RamdiskSize h) @ put32 (OSVersion h)
     @ put32 (HeaderSize h) @ concat (map put32 (Reserved h)) @ put32 (HeaderVersion h)
     @ Cmdline h @ (if 4 \<le> HeaderVersion h then put32 (SignatureSize h) else [])"

definition legacyCmdline :: "packOpts \<Rightarrow> bytes \<Rightarrow> bytes" where
  "legacyCmdline o' b =
    (if o_legacyCmdlineOffset o' \<and> cmdlineOffV0 + length (o_cmdline o') < length b
     then copy_at cmdlineOffV0 (bytes_of (o_cmdline o')) b else b)"

definition padPage :: "bytes \<Rightarrow> bytes" where
  "padPage buf = buf @ replicate (pad (length buf)) 0"

definition appendSection :: "bytes \<Rightarrow> bytes \<Rightarrow> bytes" where
  "appendSection buf s = (if s = [] then buf else padPage (buf @ s))"

definition hdrPage :: "packOpts \<Rightarrow> bytes" where
  "hdrPage o' = padPage (legacyCmdline o' (writeHdr (packHdr o')))"

definition packBoot :: "packOpts \<Rightarrow> mkboot_error + bytes" where
  "packBoot o' =
    (if o_kernel o' = [] then Inl KernelRequired
     else if o_headerVersion o' < 3 \<or> o_headerVersion o' > 4
       then Inl (UnsupportedVersion (o_headerVersion o'))
     else if length (o_cmdline o') \<ge> cmdlineSize then Inl (CmdlineTooLong (length (o_cmdline o')))
     else
       let buf = hdrPage o';
           secs = [o_kernel o', o_ramdisk o'] @
                  (if 4 \<le> o_headerVersion o' then [o_signature o'] else [])
       in Inr (foldl appendSection buf secs))"

section \<open>The lk partition header\<close>

definition lkMagic :: u32 where "lkMagic = 0x58881688"
definition lkExtMagic :: u32 where "lkExtMagic = 0x58891689"
definition lkHdrSize :: nat where "lkHdrSize = 512"
definition lkExtOffset :: nat where "lkExtOffset = 48"

lemmas lk_consts = lkMagic_def lkExtMagic_def lkHdrSize_def lkExtOffset_def

definition lkExtHeader :: "bytes \<Rightarrow> bytes" where
  "lkExtHeader hdr =
    (let hdr = copy_at lkExtOffset (replicate 32 0) hdr;
         hdr = copy_at lkExtOffset (put32 lkExtMagic) hdr;
         hdr = copy_at (lkExtOffset + 4) (put32 (word_of_nat lkHdrSize)) hdr;
         hdr = copy_at (lkExtOffset + 8) (put32 1) hdr
     in copy_at (lkExtOffset + 20) (put32 16) hdr)"

definition lkBase :: "bytes \<Rightarrow> string \<Rightarrow> u32 \<Rightarrow> bytes" where
  "lkBase payload name loadAddr =
    (let hdr = replicate lkHdrSize 255;
         hdr = copy_at 0 (put32 lkMagic) hdr;
         hdr = copy_at 4 (put32 (word_of_nat (length payload))) hdr;
         hdr = copy_at 8 (replicate 32 0) hdr;
         hdr = copy_at 8 (bytes_of name) hdr;
         hdr = copy_at 40 (put32 loadAddr) hdr
     in copy_at 44 (put32 0xFFFFFFFF) hdr)"

definition lkWrap :: "bytes \<Rightarrow> string \<Rightarrow> u32 \<Rightarrow> bool \<Rightarrow> mkboot_error + bytes" where
  "lkWrap payload name loadAddr extHeader =
    (if length name > 31 then Inl (NameTooLong name)
     else
       let hdr = lkBase payload name loadAddr;
           hdr = (if extHeader then lkExtHeader hdr else hdr)
       in Inr (hdr @ payload))"

section \<open>The subcommands\<close>

text \<open>
  \<open>verifyImage\<close> is \<open>cmdVerify\<close> after the file was read; its report carries what the code
  prints: the length compared, the trailing bytes, how many of them are not zero, whether they
  start with an AVB0 blob and whether the last page holds an AVB footer.
\<close>

record verify_report =
  vr_compared :: nat
  vr_trailing :: nat
  vr_nonzero :: nat
  vr_avb0 :: bool
  vr_footer :: bool

definition bytes_contain :: "bytes \<Rightarrow> bytes \<Rightarrow> bool" where
  "bytes_contain pat xs \<longleftrightarrow> list_ex (\<lambda>s. prefix pat s) (suffixes xs)"

fun first_diff :: "nat \<Rightarrow> bytes \<Rightarrow> bytes \<Rightarrow> (nat \<times> byte \<times> byte) option" where
  "first_diff i (x # xs) (y # ys) = (if x \<noteq> y then Some (i, x, y) else first_diff (Suc i) xs ys)"
| "first_diff i _ _ = None"

definition verifyImage :: "bytes \<Rightarrow> mkboot_error + verify_report" where
  "verifyImage data =
    (case parseBoot data of Inl e \<Rightarrow> Inl e | Inr h \<Rightarrow>
     (case sections h data of Inl e \<Rightarrow> Inl e | Inr (k, r, s) \<Rightarrow>
      (case packBoot \<lparr>o_kernel = k, o_ramdisk = r, o_signature = s, o_cmdline = cstr (Cmdline h),
                      o_osVersion = OSVersion h, o_headerVersion = HeaderVersion h,
                      o_legacyCmdlineOffset = False\<rparr> of
         Inl e \<Rightarrow> Inl e
       | Inr rebuilt \<Rightarrow>
          (let n = min (length rebuilt) (length data) in
           case (if take n rebuilt \<noteq> take n data
                 then first_diff 0 (take n rebuilt) (take n data) else None) of
             Some (i, x, y) \<Rightarrow> Inl (Mismatch i x y)
           | None \<Rightarrow>
               (let rest = drop n data; tail = drop (length data - pageSize) data
                in Inr \<lparr>vr_compared = n, vr_trailing = length rest,
                        vr_nonzero = length (filter (\<lambda>b. b \<noteq> 0) rest),
                        vr_avb0 = (rest \<noteq> [] \<and> prefix (bytes_of ''AVB0'') rest),
                        vr_footer = (rest \<noteq> [] \<and> bytes_contain (bytes_of ''AVBf'') tail)\<rparr>)))))"

type_synonym files = "string \<rightharpoonup> bytes"

definition cmdVerify :: "files \<Rightarrow> string list \<Rightarrow> mkboot_error + verify_report" where
  "cmdVerify fs args =
    (if length args \<noteq> 1 then Inl Usage
     else case fs (args ! 0) of None \<Rightarrow> Inl (ReadFailed (args ! 0)) | Some data \<Rightarrow> verifyImage data)"

record info_report =
  ir_bytes :: nat
  ir_hdr :: bootHdr
  ir_cmdline :: string
  ir_legacy :: string
  ir_sections :: "nat \<times> nat \<times> nat"

definition cmdInfo :: "files \<Rightarrow> string list \<Rightarrow> mkboot_error + info_report" where
  "cmdInfo fs args =
    (if length args \<noteq> 1 then Inl Usage
     else case fs (args ! 0) of None \<Rightarrow> Inl (ReadFailed (args ! 0)) | Some data \<Rightarrow>
     (case parseBoot data of Inl e \<Rightarrow> Inl e | Inr h \<Rightarrow>
     (case sections h data of Inl e \<Rightarrow> Inl e | Inr (k, r, s) \<Rightarrow>
       Inr \<lparr>ir_bytes = length data, ir_hdr = h, ir_cmdline = cstr (Cmdline h),
            ir_legacy = cstr (slice cmdlineOffV0 (min (cmdlineOffV0 + 64) (length data)) data),
            ir_sections = (length k, length r, length s)\<rparr>)))"

record pack_flags =
  f_kernel :: string
  f_gzipKernel :: bool
  f_ramdisk :: string
  f_signature :: string
  f_out :: string
  f_cmdline :: string
  f_arm64ImageSize :: u64
  f_hdrVer :: u64
  f_osVer :: u64
  f_legacy :: bool

definition bootPartSize :: nat where "bootPartSize = 0x4000000"

definition isGzip :: "bytes \<Rightarrow> bool" where
  "isGzip kb \<longleftrightarrow> 2 < length kb \<and> kb ! 0 = 0x1f \<and> kb ! 1 = 0x8b"

text \<open>An optional input file: an empty path reads nothing.\<close>

definition readOptional :: "files \<Rightarrow> string \<Rightarrow> mkboot_error + bytes" where
  "readOptional fs p =
    (if p = [] then Inr [] else case fs p of None \<Rightarrow> Inl (ReadFailed p) | Some b \<Rightarrow> Inr b)"

definition packKernel :: "(bytes \<Rightarrow> bytes) \<Rightarrow> pack_flags \<Rightarrow> bytes \<Rightarrow> mkboot_error + bytes" where
  "packKernel gz f kb =
    (case (if f_arm64ImageSize f \<noteq> 0
           then (if isGzip kb then Inl GzippedImage else setArm64ImageSize kb (f_arm64ImageSize f))
           else Inr kb) of
       Inl e \<Rightarrow> Inl e
     | Inr kb' \<Rightarrow> Inr (if f_gzipKernel f \<and> \<not> isGzip kb then gz kb' else kb'))"

definition cmdPack ::
    "(bytes \<Rightarrow> bytes) \<Rightarrow> (string \<Rightarrow> bool) \<Rightarrow> files \<Rightarrow> pack_flags \<Rightarrow> files \<times> mkboot_error option" where
  "cmdPack gz writable fs f =
    (if f_kernel f = [] \<or> f_out f = [] then (fs, Some FlagsRequired)
     else if f_signature f \<noteq> [] \<and> (ucast (f_hdrVer f) :: u32) < 4 then (fs, Some SignatureNeedsV4)
     else case fs (f_kernel f) of None \<Rightarrow> (fs, Some (ReadFailed (f_kernel f))) | Some kb0 \<Rightarrow>
     (case packKernel gz f kb0 of Inl e \<Rightarrow> (fs, Some e) | Inr kb \<Rightarrow>
     (case readOptional fs (f_ramdisk f) of Inl e \<Rightarrow> (fs, Some e) | Inr rb \<Rightarrow>
     (case readOptional fs (f_signature f) of Inl e \<Rightarrow> (fs, Some e) | Inr sb \<Rightarrow>
      if f_signature f \<noteq> [] \<and> length sb \<noteq> bootSignatureSize
      then (fs, Some (BadSignatureSize (length sb)))
      else
       (case packBoot \<lparr>o_kernel = kb, o_ramdisk = rb, o_signature = sb, o_cmdline = f_cmdline f,
                       o_osVersion = ucast (f_osVer f), o_headerVersion = ucast (f_hdrVer f),
                       o_legacyCmdlineOffset = f_legacy f\<rparr> of
          Inl e \<Rightarrow> (fs, Some e)
        | Inr img \<Rightarrow>
            if \<not> writable (f_out f) then (fs, Some (WriteFailed (f_out f)))
            else (fs(f_out f \<mapsto> img),
                  if length img > bootPartSize then Some (ImageTooLarge (length img)) else None))))))"

record lkwrap_flags =
  l_in :: string
  l_out :: string
  l_name :: string
  l_loadAddr :: u64
  l_ext :: bool

definition cmdLKWrap ::
    "(string \<Rightarrow> bool) \<Rightarrow> files \<Rightarrow> lkwrap_flags \<Rightarrow> files \<times> mkboot_error option" where
  "cmdLKWrap writable fs f =
    (if l_in f = [] \<or> l_out f = [] then (fs, Some FlagsRequired)
     else case fs (l_in f) of None \<Rightarrow> (fs, Some (ReadFailed (l_in f))) | Some payload \<Rightarrow>
     (case lkWrap payload (l_name f) (ucast (l_loadAddr f)) (l_ext f) of
        Inl e \<Rightarrow> (fs, Some e)
      | Inr img \<Rightarrow> if \<not> writable (l_out f) then (fs, Some (WriteFailed (l_out f)))
                  else (fs(l_out f \<mapsto> img), None)))"

section \<open>Specification notions\<close>

text \<open>
  A header the packer can have written: what the fields of \<open>bootHdr\<close> must satisfy for the byte
  layout to be read back, and the signature that really ends up in the image (v3 has none).
  \<open>sample_opts\<close> is the input of the witnesses (the one of \<^verbatim>\<open>main_test.go\<close>, with a cmdline).
\<close>

definition wf_hdr :: "bootHdr \<Rightarrow> bool" where
  "wf_hdr h \<longleftrightarrow> Magic h = bytes_of bootMagic \<and> length (Reserved h) = 4
     \<and> length (Cmdline h) = cmdlineSize \<and> 3 \<le> HeaderVersion h
     \<and> (HeaderVersion h < 4 \<longrightarrow> SignatureSize h = 0)"

definition sample_opts :: packOpts where
  "sample_opts = \<lparr>o_kernel = [1, 2, 3], o_ramdisk = [4, 5], o_signature = replicate 4096 165,
     o_cmdline = ''console=tty0'', o_osVersion = 0x1800017b, o_headerVersion = 4,
     o_legacyCmdlineOffset = False\<rparr>"

definition packedSignature :: "packOpts \<Rightarrow> bytes" where
  "packedSignature o' = (if 4 \<le> o_headerVersion o' then o_signature o' else [])"

section \<open>Page arithmetic\<close>

lemma pad_dvd [simp]: "pageSize dvd n + pad n"
proof (cases "n mod pageSize = 0")
  case True
  then show ?thesis by (simp add: pad_def dvd_eq_mod_eq_0)
next
  case False
  have "n mod pageSize \<le> pageSize" by (simp add: pageSize_def mod_le_divisor)
  then have "n + (pageSize - n mod pageSize) = (n div pageSize) * pageSize + pageSize"
    using div_mult_mod_eq [of n pageSize] by linarith
  then have "n + pad n = (n div pageSize) * pageSize + pageSize"
    using False by (simp add: pad_def Let_def)
  then show ?thesis by simp
qed

lemma pad_less: "pad n < pageSize"
  by (simp add: pad_def Let_def pageSize_def)

lemma pad_aligned [simp]: "pageSize dvd n \<Longrightarrow> pad n = 0"
  by (simp add: pad_def dvd_eq_mod_eq_0)

lemma length_padPage: "length (padPage buf) = length buf + pad (length buf)"
  by (simp add: padPage_def)

lemma padPage_aligned: "pageSize dvd length (padPage buf)"
  by (simp add: length_padPage)

lemma appendSection_aligned:
  "pageSize dvd length buf \<Longrightarrow> pageSize dvd length (appendSection buf s)"
  by (simp add: appendSection_def padPage_aligned)

lemma appendSection_prefix: "\<exists>post. appendSection buf s = buf @ post"
  by (auto simp: appendSection_def padPage_def)

text \<open>Reading a section back from where \<open>appendSection\<close> put it.\<close>

lemma take_section_append:
  assumes "length s < 2 ^ 32"
  shows "take_section (appendSection buf s @ post) (length buf) (word_of_nat (length s)) =
         Inr (s, length (appendSection buf s))"
proof (cases "s = []")
  case True
  then show ?thesis by (simp add: take_section_def appendSection_def)
next
  case False
  have u: "unat (word_of_nat (length s) :: u32) = length s"
    using assms by (simp add: unat_of_nat)
  then have nz: "(word_of_nat (length s) :: u32) \<noteq> 0"
    using False by auto
  show ?thesis
    using False u nz
    by (simp add: take_section_def appendSection_def padPage_def Let_def slice_def)
qed

lemma take_section_append_exact:
  "length s < 2 ^ 32 \<Longrightarrow> take_section (appendSection buf s) (length buf) (word_of_nat (length s)) =
         Inr (s, length (appendSection buf s))"
  using take_section_append [of s buf "[]"] by simp

section \<open>The header codec\<close>

lemma length_bootMagic [simp]: "length bootMagic = 8"
  by (simp add: bootMagic_def)

lemma length_writeHdr:
  assumes "wf_hdr h"
  shows "length (writeHdr h) = (if 4 \<le> HeaderVersion h then headerSizeV4 else headerSizeV3)"
proof -
  have "length (concat (map put32 xs)) = 4 * length xs" for xs
    by (induction xs) auto
  then show ?thesis
    using assms by (simp add: writeHdr_def wf_hdr_def mkboot_consts)
qed

lemma list_length_4: "length xs = 4 \<Longrightarrow> \<exists>a b c d. xs = [a, b, c, d]"
  by (auto simp: numeral_eq_Suc length_Suc_conv)

lemma parseBoot_writeHdr:
  assumes wf: "wf_hdr h"
  shows "parseBoot (writeHdr h @ post) = Inr h"
proof -
  obtain r0 r1 r2 r3 where r: "Reserved h = [r0, r1, r2, r3]"
    using wf list_length_4 [of "Reserved h"] unfolding wf_hdr_def by blast
  have m: "Magic h = bytes_of bootMagic" and c: "length (Cmdline h) = 1536"
    and v: "3 \<le> HeaderVersion h" and s: "HeaderVersion h < 4 \<Longrightarrow> SignatureSize h = 0"
    using wf by (auto simp: wf_hdr_def cmdlineSize_def)
  have v3: "\<not> HeaderVersion h < 3" using v by (simp add: not_less)
  have h: "h = \<lparr>Magic = bytes_of bootMagic, KernelSize = KernelSize h, RamdiskSize = RamdiskSize h,
      OSVersion = OSVersion h, HeaderSize = HeaderSize h, Reserved = [r0, r1, r2, r3],
      HeaderVersion = HeaderVersion h, Cmdline = Cmdline h, SignatureSize = SignatureSize h\<rparr>"
    using m r by simp
  show ?thesis
    using length_writeHdr [OF wf] m c v3 s
    by (subst (2) h) (auto simp: parseBoot_def writeHdr_def r Let_def mkboot_consts)
qed


lemma hdr_version_cases:
  "\<not> (v < 3 \<or> v > (4::u32)) \<Longrightarrow> v = 3 \<or> v = 4"
  by unat_arith

lemma wf_packHdr:
  assumes "packBoot o' = Inr img"
  shows "wf_hdr (packHdr o')"
proof -
  have v: "o_headerVersion o' = 3 \<or> o_headerVersion o' = 4"
    using assms hdr_version_cases [of "o_headerVersion o'"]
    by (auto simp: packBoot_def split: if_splits)
  have "copy_at 0 (bytes_of bootMagic) (replicate 8 0) = bytes_of bootMagic"
    by (simp add: copy_at_def)
  then show ?thesis
    using v by (auto simp: wf_hdr_def packHdr_def)
qed

lemma appendSection_Nil [simp]: "appendSection buf [] = buf"
  by (simp add: appendSection_def)

lemma packBoot_image:
  assumes "packBoot o' = Inr img"
  shows "img = appendSection (appendSection (appendSection (hdrPage o') (o_kernel o'))
                  (o_ramdisk o')) (packedSignature o')"
  using assms by (auto simp: packBoot_def hdrPage_def packedSignature_def split: if_splits)

lemma length_legacyCmdline [simp]: "length (legacyCmdline o' b) = length b"
  by (simp add: legacyCmdline_def mkboot_consts)

lemma length_hdrPage:
  assumes "packBoot o' = Inr img"
  shows "length (hdrPage o') = pageSize"
proof -
  have "length (writeHdr (packHdr o')) = 1584 \<or> length (writeHdr (packHdr o')) = 1580"
    using length_writeHdr [OF wf_packHdr [OF assms]] by (auto simp: mkboot_consts)
  then show ?thesis
    by (auto simp: hdrPage_def length_padPage pad_def pageSize_def)
qed

lemma packBoot_aligned:
  assumes "packBoot o' = Inr img"
  shows "pageSize dvd length img"
  unfolding packBoot_image [OF assms]
  by (intro appendSection_aligned) (simp add: length_hdrPage [OF assms])

lemma pad_header: "headerSizeV4 + pad headerSizeV4 = pageSize" "headerSizeV3 + pad headerSizeV3 = pageSize"
  by (simp_all add: pad_def mkboot_consts)

text \<open>What the sizes of a parsed header must be for \<open>sections\<close> to find what was packed.\<close>

lemma sections_packed:
  assumes pk: "packBoot o' = Inr img"
    and v: "HeaderVersion h = o_headerVersion o'"
    and k: "KernelSize h = word_of_nat (length (o_kernel o'))"
    and r: "RamdiskSize h = word_of_nat (length (o_ramdisk o'))"
    and s: "4 \<le> HeaderVersion h \<Longrightarrow> SignatureSize h = word_of_nat (length (o_signature o'))"
    and lim: "length (o_kernel o') < 2 ^ 32" "length (o_ramdisk o') < 2 ^ 32"
      "length (o_signature o') < 2 ^ 32"
  shows "sections h (img @ post) = Inr (o_kernel o', o_ramdisk o', packedSignature o')"
proof -
  let ?b0 = "hdrPage o'" let ?b1 = "appendSection ?b0 (o_kernel o')"
  let ?b2 = "appendSection ?b1 (o_ramdisk o')"
  let ?b3 = "appendSection ?b2 (packedSignature o')"
  have img: "img = ?b3" by (rule packBoot_image [OF pk])
  obtain p3 where p3: "?b3 = ?b2 @ p3" using appendSection_prefix by blast
  obtain p2 where p2: "?b2 = ?b1 @ p2" using appendSection_prefix by blast
  have t1: "take_section (img @ post) pageSize (KernelSize h) = Inr (o_kernel o', length ?b1)"
    using take_section_append [OF lim(1), of ?b0 "p2 @ p3 @ post"] length_hdrPage [OF pk]
    unfolding img p3 unfolding p2 by (simp add: k)
  have t2: "take_section (img @ post) (length ?b1) (RamdiskSize h) = Inr (o_ramdisk o', length ?b2)"
    using take_section_append [OF lim(2), of ?b1 "p3 @ post"] by (simp add: img p3 r)
  have t3: "4 \<le> HeaderVersion h \<Longrightarrow>
      take_section (img @ post) (length ?b2) (SignatureSize h) = Inr (o_signature o', length ?b3)"
    using take_section_append [OF lim(3), of ?b2 post] by (simp add: img s v packedSignature_def)
  show ?thesis
    using t1 t2 t3 v by (auto simp: sections_def Let_def pad_header packedSignature_def)
qed

lemma writeHdr_in_image:
  assumes pk: "packBoot o' = Inr img"
  shows "\<exists>post. img = legacyCmdline o' (writeHdr (packHdr o')) @ post"
  using packBoot_image [OF pk] appendSection_prefix
  by (metis append.assoc hdrPage_def padPage_def)

lemma cstr_padded:
  assumes "0 \<notin> set (bytes_of s)"
  shows "cstr (bytes_of s @ replicate n 0) = s"
proof -
  have "takeWhile (\<lambda>c. c \<noteq> 0) (bytes_of s @ replicate n 0) = bytes_of s"
    using assms by (subst takeWhile_append2) auto
  then show ?thesis by (simp only: cstr_def string_of_bytes_of)
qed

lemma packHdr_Cmdline:
  assumes "packBoot o' = Inr img"
  shows "Cmdline (packHdr o') =
    bytes_of (o_cmdline o') @ replicate (cmdlineSize - length (o_cmdline o')) 0"
  using assms by (auto simp: packBoot_def packHdr_def copy_at_def split: if_splits)

lemma pack_roundtrip_image:
  assumes pk: "packBoot o' = Inr img"
    and leg: "\<not> o_legacyCmdlineOffset o'"
    and lim: "length (o_kernel o') < 2 ^ 32" "length (o_ramdisk o') < 2 ^ 32"
      "length (o_signature o') < 2 ^ 32"
  shows "parseBoot (img @ trailing) = Inr (packHdr o')
    \<and> sections (packHdr o') (img @ trailing) = Inr (o_kernel o', o_ramdisk o', packedSignature o')"
proof
  obtain post where post: "img = writeHdr (packHdr o') @ post"
    using writeHdr_in_image [OF pk] leg by (auto simp: legacyCmdline_def)
  show "parseBoot (img @ trailing) = Inr (packHdr o')"
    using parseBoot_writeHdr [OF wf_packHdr [OF pk], of "post @ trailing"] by (simp add: post)
  show "sections (packHdr o') (img @ trailing) = Inr (o_kernel o', o_ramdisk o', packedSignature o')"
    by (rule sections_packed [OF pk _ _ _ _ lim]) (simp_all add: packHdr_def)
qed

text \<open>C26: What \<open>mkboot pack\<close> writes, \<open>parseBoot\<close> and \<open>sections\<close> read back: for sections
  below 4 GiB and without the legacy cmdline offset, parsing the image (whatever bytes follow it on
  the partition) gives the packed header and exactly the kernel, the ramdisk and, for v4, the
  signature.\<close>

theorem pack_roundtrip:
  assumes "packBoot o' = Inr img" and "\<not> o_legacyCmdlineOffset o'"
    and "length (o_kernel o') < 2 ^ 32" "length (o_ramdisk o') < 2 ^ 32"
      "length (o_signature o') < 2 ^ 32"
  shows "parseBoot (img @ trailing) = Inr (packHdr o')
    \<and> sections (packHdr o') (img @ trailing) = Inr (o_kernel o', o_ramdisk o', packedSignature o')
    \<and> OSVersion (packHdr o') = o_osVersion o'
    \<and> Cmdline (packHdr o') = bytes_of (o_cmdline o') @ replicate (1536 - length (o_cmdline o')) 0"
  using pack_roundtrip_image [OF assms] packHdr_Cmdline [OF assms(1)]
  by (simp add: packHdr_def cmdlineSize_def)

lemma packBoot_total:
  "(\<exists>img. packBoot o' = Inr img) \<longleftrightarrow>
     o_kernel o' \<noteq> [] \<and> (o_headerVersion o' = 3 \<or> o_headerVersion o' = 4)
     \<and> length (o_cmdline o') < cmdlineSize"
  using hdr_version_cases [of "o_headerVersion o'"] by (auto simp: packBoot_def Let_def)

lemma sample_opts_packs: "\<exists>img. packBoot sample_opts = Inr img"
  by (simp add: packBoot_total sample_opts_def mkboot_consts)

theorem pack_roundtrip_witness:
  "\<exists>img. packBoot sample_opts = Inr img \<and> parseBoot (img @ [7]) = Inr (packHdr sample_opts)
     \<and> sections (packHdr sample_opts) (img @ [7]) = Inr ([1, 2, 3], [4, 5], replicate 4096 165)"
proof -
  obtain img where img: "packBoot sample_opts = Inr img" using sample_opts_packs by blast
  have h: "\<not> o_legacyCmdlineOffset sample_opts" "length (o_kernel sample_opts) < 2 ^ 32"
    "length (o_ramdisk sample_opts) < 2 ^ 32" "length (o_signature sample_opts) < 2 ^ 32"
    by (simp_all add: sample_opts_def)
  show ?thesis using img pack_roundtrip [OF img h, of "[7]"]
    by (simp add: sample_opts_def packedSignature_def)
qed

lemma length_appendSection:
  "pageSize dvd length buf \<Longrightarrow>
   length (appendSection buf s) = length buf + length s + pad (length s)"
  by (auto simp: appendSection_def length_padPage pad_def Let_def mod_add_left_eq dvd_eq_mod_eq_0
      simp flip: mod_add_left_eq)

lemma packBoot_length:
  assumes "packBoot o' = Inr img"
  shows "length img = pageSize + (length (o_kernel o') + pad (length (o_kernel o')))
     + (length (o_ramdisk o') + pad (length (o_ramdisk o')))
     + (length (packedSignature o') + pad (length (packedSignature o')))"
proof -
  let ?b1 = "appendSection (hdrPage o') (o_kernel o')"
  have d0: "pageSize dvd length (hdrPage o')" by (simp add: length_hdrPage [OF assms])
  then have d1: "pageSize dvd length ?b1" by (rule appendSection_aligned)
  then have d2: "pageSize dvd length (appendSection ?b1 (o_ramdisk o'))" by (rule appendSection_aligned)
  show ?thesis
    unfolding packBoot_image [OF assms] length_appendSection [OF d2] length_appendSection [OF d1]
      length_appendSection [OF d0] length_hdrPage [OF assms] by simp
qed

lemma packBoot_normalise:
  assumes "\<not> o_legacyCmdlineOffset o'"
  shows "packBoot \<lparr>o_kernel = o_kernel o', o_ramdisk = o_ramdisk o', o_signature = packedSignature o',
     o_cmdline = o_cmdline o', o_osVersion = o_osVersion o', o_headerVersion = o_headerVersion o',
     o_legacyCmdlineOffset = False\<rparr> = packBoot o'"
  using assms
  by (simp add: packBoot_def hdrPage_def packHdr_def packedSignature_def legacyCmdline_def)

text \<open>\<open>mkboot verify\<close> accepts every image \<open>mkboot pack\<close> writes (no legacy offset, no NUL
  in the cmdline, sections below 4 GiB), with any partition data after it: it compares the whole
  image and reports the rest as trailing.\<close>

theorem verify_accepts:
  assumes pk: "packBoot o' = Inr img"
    and leg: "\<not> o_legacyCmdlineOffset o'"
    and nul: "0 \<notin> set (bytes_of (o_cmdline o'))"
    and lim: "length (o_kernel o') < 2 ^ 32" "length (o_ramdisk o') < 2 ^ 32"
      "length (o_signature o') < 2 ^ 32"
  shows "\<exists>rep. verifyImage (img @ trailing) = Inr rep \<and> vr_compared rep = length img
     \<and> vr_trailing rep = length trailing"
proof -
  have p: "parseBoot (img @ trailing) = Inr (packHdr o')"
    and s: "sections (packHdr o') (img @ trailing) = Inr (o_kernel o', o_ramdisk o', packedSignature o')"
    using pack_roundtrip_image [OF pk leg lim] by auto
  have c: "cstr (Cmdline (packHdr o')) = o_cmdline o'"
    by (simp add: packHdr_Cmdline [OF pk] cstr_padded [OF nul])
  have v: "OSVersion (packHdr o') = o_osVersion o'" "HeaderVersion (packHdr o') = o_headerVersion o'"
    by (simp_all add: packHdr_def)
  show ?thesis
    by (simp add: verifyImage_def p s c v packBoot_normalise [OF leg] pk Let_def)
qed

theorem verify_accepts_witness:
  "\<exists>img rep. packBoot sample_opts = Inr img \<and> verifyImage (img @ [65, 86]) = Inr rep
     \<and> vr_compared rep = length img \<and> vr_trailing rep = 2"
proof -
  obtain img where img: "packBoot sample_opts = Inr img" using sample_opts_packs by blast
  have h: "\<not> o_legacyCmdlineOffset sample_opts" "0 \<notin> set (bytes_of (o_cmdline sample_opts))"
    "length (o_kernel sample_opts) < 2 ^ 32"
    "length (o_ramdisk sample_opts) < 2 ^ 32" "length (o_signature sample_opts) < 2 ^ 32"
    by (simp_all add: sample_opts_def bytes_of_def)
  show ?thesis using img verify_accepts [OF img h, of "[65, 86]"] by auto
qed

lemma first_diff_None:
  "length xs = length ys \<Longrightarrow> first_diff i xs ys = None \<longleftrightarrow> xs = ys"
  by (induction i xs ys rule: first_diff.induct) auto

lemma parseBoot_length: "parseBoot data = Inr h \<Longrightarrow> headerSizeV3 \<le> length data"
  by (auto simp: parseBoot_def Let_def split: if_splits)

text \<open>C27: When \<open>mkboot verify\<close> reports success, the image really parses, its sections lie inside
  the data, and the bytes compared (at least the whole v3 header) are those of the canonical
  re-packing of what was parsed.\<close>

theorem verify_sound:
  assumes "verifyImage data = Inr rep"
  shows "\<exists>h k r s img. parseBoot data = Inr h \<and> sections h data = Inr (k, r, s)
     \<and> packBoot \<lparr>o_kernel = k, o_ramdisk = r, o_signature = s, o_cmdline = cstr (Cmdline h),
                o_osVersion = OSVersion h, o_headerVersion = HeaderVersion h,
                o_legacyCmdlineOffset = False\<rparr> = Inr img
     \<and> vr_compared rep = min (length img) (length data) \<and> headerSizeV3 \<le> vr_compared rep
     \<and> take (vr_compared rep) data = take (vr_compared rep) img"
proof -
  obtain h where h: "parseBoot data = Inr h"
    using assms by (auto simp: verifyImage_def split: sum.splits)
  obtain k r s where s: "sections h data = Inr (k, r, s)"
    using assms h by (auto simp: verifyImage_def split: sum.splits)
  let ?o = "\<lparr>o_kernel = k, o_ramdisk = r, o_signature = s, o_cmdline = cstr (Cmdline h),
                o_osVersion = OSVersion h, o_headerVersion = HeaderVersion h,
                o_legacyCmdlineOffset = False\<rparr>"
  obtain img where img: "packBoot ?o = Inr img"
    using assms h s by (auto simp: verifyImage_def split: sum.splits)
  let ?n = "min (length img) (length data)"
  have n: "vr_compared rep = ?n" and eq: "take ?n img = take ?n data"
    using assms h s img first_diff_None [of "take ?n img" "take ?n data" 0]
    by (auto simp: verifyImage_def Let_def split: if_splits option.splits)
  have "headerSizeV3 \<le> length img"
    using packBoot_length [OF img] by (simp add: mkboot_consts)
  then show ?thesis
    using h s img n eq parseBoot_length [OF h] by auto
qed

theorem verify_sound_witness:
  "\<exists>img rep h k r s. packBoot sample_opts = Inr img \<and> verifyImage img = Inr rep
     \<and> parseBoot img = Inr h \<and> sections h img = Inr (k, r, s) \<and> headerSizeV3 \<le> vr_compared rep"
proof -
  obtain img where img: "packBoot sample_opts = Inr img" using sample_opts_packs by blast
  have p: "parseBoot img = Inr (packHdr sample_opts)
      \<and> sections (packHdr sample_opts) img = Inr (o_kernel sample_opts, o_ramdisk sample_opts,
          packedSignature sample_opts)"
    using pack_roundtrip_image [OF img, of "[]"] by (simp add: sample_opts_def)
  have c: "cstr (Cmdline (packHdr sample_opts)) = o_cmdline sample_opts"
    unfolding packHdr_Cmdline [OF img] by (rule cstr_padded) (simp add: sample_opts_def bytes_of_def)
  have n: "packBoot \<lparr>o_kernel = o_kernel sample_opts, o_ramdisk = o_ramdisk sample_opts,
      o_signature = packedSignature sample_opts, o_cmdline = o_cmdline sample_opts,
      o_osVersion = o_osVersion sample_opts, o_headerVersion = o_headerVersion sample_opts,
      o_legacyCmdlineOffset = False\<rparr> = Inr img"
    using packBoot_normalise [of sample_opts] img by (simp add: sample_opts_def)
  have "\<exists>rep. verifyImage img = Inr rep"
    using p c n by (simp add: verifyImage_def Let_def packHdr_def)
  then obtain rep where rep: "verifyImage img = Inr rep" by blast
  show ?thesis using img rep verify_sound [OF rep] by blast
qed

lemma parseBoot_v4:
  assumes "headerSizeV4 \<le> length data" and "take 8 data = bytes_of bootMagic"
    and "4 \<le> get32 (drop 40 data)"
  shows "\<exists>h. parseBoot data = Inr h \<and> KernelSize h = get32 (drop 8 data)
     \<and> HeaderVersion h = get32 (drop 40 data) \<and> SignatureSize h = get32 (drop 1580 data)"
proof -
  have "\<not> get32 (drop 40 data) < 3" using assms(3) by unat_arith
  then show ?thesis using assms by (simp add: parseBoot_def Let_def mkboot_consts)
qed

lemma low_byte_get32: "3 \<le> length bs \<Longrightarrow> ucast (get32 (b # bs)) = b"
  using le32.put_get [of "b # bs"] by (simp add: put32_def numeral_eq_Suc)

text \<open>C29: The \<open>-legacy-cmdline-offset\<close> guard is one field too wide for v4 images: with a
  1517-byte cmdline the copy at offset 64 runs over the header's cmdline field and replaces the low
  byte of \<open>signature_size\<close> by the last byte of the cmdline.\<close>

theorem legacy_overwrites_signature_size:
  assumes pk: "packBoot o' = Inr img"
    and leg: "o_legacyCmdlineOffset o'" and v: "o_headerVersion o' = 4"
    and len: "length (o_cmdline o') = 1517"
  shows "\<exists>h. parseBoot img = Inr h \<and> ucast (SignatureSize h) = last (bytes_of (o_cmdline o'))"
proof -
  let ?hdr = "writeHdr (packHdr o')" and ?c = "bytes_of (o_cmdline o')"
  have wf: "wf_hdr (packHdr o')" by (rule wf_packHdr [OF pk])
  have lh: "length ?hdr = 1584"
    using length_writeHdr [OF wf] v by (simp add: packHdr_def mkboot_consts)
  have lc: "length ?c = 1517" using len by simp
  obtain post where img: "img = copy_at 64 ?c ?hdr @ post"
    using writeHdr_in_image [OF pk] leg lc lh by (auto simp: legacyCmdline_def mkboot_consts)
  have c: "copy_at 64 ?c ?hdr = take 64 ?hdr @ ?c @ drop 1581 ?hdr"
    using copy_at_fits [of 64 ?c ?hdr] lc lh by simp
  have "Reserved (packHdr o') = [0, 0, 0, 0]" by (simp add: packHdr_def numeral_eq_Suc)
  moreover have "HeaderVersion (packHdr o') = 4" using v by (simp add: packHdr_def)
  ultimately have "take 8 ?hdr = bytes_of bootMagic" and "get32 (drop 40 ?hdr) = 4"
    using wf by (simp_all add: writeHdr_def wf_hdr_def)
  then have m: "take 8 img = bytes_of bootMagic" and v4: "get32 (drop 40 img) = 4"
    using img c lh le32.get_cong [of "drop 40 img" "drop 40 ?hdr"]
    by (auto simp: take_drop)
  have "drop 1516 ?c = ?c ! 1516 # drop 1517 ?c"
    using Cons_nth_drop_Suc [of 1516 ?c] lc by simp
  moreover have "last ?c = ?c ! 1516" using lc last_conv_nth [of ?c] by fastforce
  ultimately have "drop 1516 ?c = [last ?c]" using lc by simp
  then have d: "drop 1580 img = last ?c # drop 1581 ?hdr @ post"
    using img c lh lc by simp
  obtain h where h: "parseBoot img = Inr h" "SignatureSize h = get32 (drop 1580 img)"
    using parseBoot_v4 [of img] m v4 img lh by (auto simp: mkboot_consts)
  then show ?thesis using low_byte_get32 [of "drop 1581 ?hdr @ post" "last ?c"] d lh by auto
qed


theorem legacy_overwrites_signature_size_witness:
  "\<exists>img h. packBoot \<lparr>o_kernel = [1], o_ramdisk = [], o_signature = [],
       o_cmdline = replicate 1517 CHR ''A'', o_osVersion = 0, o_headerVersion = 4,
       o_legacyCmdlineOffset = True\<rparr> = Inr img \<and> parseBoot img = Inr h
     \<and> ucast (SignatureSize h) = (65 :: byte)"
proof -
  let ?o = "\<lparr>o_kernel = [1], o_ramdisk = [], o_signature = [],
       o_cmdline = replicate 1517 CHR ''A'', o_osVersion = 0, o_headerVersion = 4,
       o_legacyCmdlineOffset = True\<rparr> :: packOpts"
  obtain img where img: "packBoot ?o = Inr img"
    using packBoot_total [of ?o] by (auto simp: mkboot_consts)
  have "last (bytes_of (replicate 1517 CHR ''A'')) = 65"
    by (simp add: bytes_of_def last_map last_replicate)
  then show ?thesis using img legacy_overwrites_signature_size [OF img] by simp
qed

lemma lkExtHeader_slices:
  assumes "length hdr = lkHdrSize"
  shows "length (lkExtHeader hdr) = lkHdrSize"
    "take lkExtOffset (lkExtHeader hdr) = take lkExtOffset hdr"
    "drop 80 (lkExtHeader hdr) = drop 80 hdr"
    "get32 (drop lkExtOffset (lkExtHeader hdr)) = lkExtMagic"
    "get32 (drop (lkExtOffset + 4) (lkExtHeader hdr)) = word_of_nat lkHdrSize"
    "get32 (drop (lkExtOffset + 8) (lkExtHeader hdr)) = 1"
    "get32 (drop (lkExtOffset + 20) (lkExtHeader hdr)) = 16"
  using assms
  by (simp_all add: lkExtHeader_def Let_def lk_consts codec_fields slice_simps)

lemma copy_at_append:
  "off = length a \<Longrightarrow> length b = length src \<Longrightarrow> copy_at off src (a @ b @ c) = a @ src @ c"
  by (simp add: copy_at_def)

lemma copy_at_append0: "length b = length src \<Longrightarrow> copy_at 0 src (b @ c) = src @ c"
  by (simp add: copy_at_def)

lemma lkBase_layout:
  assumes "length name \<le> 31"
  shows "lkBase payload name la =
     put32 lkMagic @ put32 (word_of_nat (length payload))
     @ (bytes_of name @ replicate (32 - length name) 0) @ put32 la @ put32 0xFFFFFFFF
     @ replicate 464 255"
proof -
  have r: "replicate lkHdrSize (255::byte) = replicate 4 255 @ replicate 4 255 @ replicate 32 255
      @ replicate 4 255 @ replicate 4 255 @ replicate 464 255"
    by (simp add: lk_consts replicate_add [symmetric])
  have z: "replicate 32 (0::byte) = replicate (length name) 0 @ replicate (32 - length name) 0"
    using assms by (simp add: replicate_add [symmetric])
  have s1: "copy_at 0 (put32 lkMagic) (replicate lkHdrSize 255) =
     put32 lkMagic @ replicate 4 255 @ replicate 32 255
      @ replicate 4 255 @ replicate 4 255 @ replicate 464 255" (is "_ = ?h1")
    unfolding r by (rule copy_at_append0) simp
  have s2: "copy_at 4 (put32 n) ?h1 = put32 lkMagic @ put32 n @ replicate 32 255
      @ replicate 4 255 @ replicate 4 255 @ replicate 464 255" for n
    by (rule copy_at_append) simp_all
  have s3: "copy_at 8 (replicate 32 0) (put32 lkMagic @ put32 n @ replicate 32 255
      @ replicate 4 255 @ replicate 4 255 @ replicate 464 255) = put32 lkMagic @ put32 n
      @ replicate 32 0 @ replicate 4 255 @ replicate 4 255 @ replicate 464 255" for n
    using copy_at_append [of 8 "put32 lkMagic @ put32 n"] by simp
  have s4: "copy_at 8 (bytes_of name) (put32 lkMagic @ put32 n @ replicate 32 0 @ t) =
      put32 lkMagic @ put32 n @ (bytes_of name @ replicate (32 - length name) 0) @ t" for n t
    using copy_at_append [of 8 "put32 lkMagic @ put32 n" "replicate (length name) 0"
      "bytes_of name" "replicate (32 - length name) 0 @ t"]
    unfolding z by simp
  have s5: "copy_at 40 (put32 la) (put32 lkMagic @ put32 n
        @ (bytes_of name @ replicate (32 - length name) 0) @ replicate 4 255 @ t) =
      put32 lkMagic @ put32 n @ (bytes_of name @ replicate (32 - length name) 0) @ put32 la @ t" for n t
    using assms copy_at_append [of 40 "put32 lkMagic @ put32 n
       @ (bytes_of name @ replicate (32 - length name) 0)" "replicate 4 255"] by simp
  have s6: "copy_at 44 (put32 w) (put32 lkMagic @ put32 n
        @ (bytes_of name @ replicate (32 - length name) 0) @ put32 la @ replicate 4 255 @ t) =
      put32 lkMagic @ put32 n @ (bytes_of name @ replicate (32 - length name) 0) @ put32 la
        @ put32 w @ t" for n w t
    using assms copy_at_append [of 44 "put32 lkMagic @ put32 n
       @ (bytes_of name @ replicate (32 - length name) 0) @ put32 la" "replicate 4 255"] by simp
  show ?thesis
    unfolding lkBase_def Let_def s1 s2 s3 s4 s5 s6 ..
qed


lemma lkWrap_image:
  assumes "lkWrap payload name la ext = Inr img"
  shows "img = (if ext then lkExtHeader (lkBase payload name la) else lkBase payload name la) @ payload"
    "length name \<le> 31"
  using assms by (auto simp: lkWrap_def lkBase_def Let_def split: if_splits)

lemma get32_take_eq:
  assumes "off + 4 \<le> n" "n \<le> length xs" "n \<le> length ys" "take n xs = take n ys"
  shows "get32 (drop off xs) = get32 (drop off ys)"
proof (rule le32.get_cong)
  have "take 4 (drop off (take n xs)) = take 4 (drop off (take n ys))"
    using assms(4) by simp
  then show "take 4 (drop off xs) = take 4 (drop off ys)"
    using assms(1) by (simp add: drop_take min_absorb1 le_diff_conv2)
qed (use assms in auto)

lemma get32_append: "4 \<le> length xs \<Longrightarrow> get32 (xs @ ys) = get32 xs"
  by (rule le32.get_cong) simp_all

text \<open>The \<open>lk\<close> image is a 512-byte header and the payload: the magic, the payload size, the
  NUL-padded name, load address and mode are read back at their offsets, the extended header is
  there exactly when asked for, and everything from 0x50 to 0x1FF is 0xFF.\<close>

theorem lkWrap_layout:
  assumes w: "lkWrap payload name la ext = Inr img"
  shows "length img = lkHdrSize + length payload \<and> drop lkHdrSize img = payload
    \<and> get32 img = lkMagic \<and> get32 (drop 4 img) = word_of_nat (length payload)
    \<and> slice 8 40 img = bytes_of name @ replicate (32 - length name) 0
    \<and> get32 (drop 40 img) = la \<and> get32 (drop 44 img) = 0xFFFFFFFF
    \<and> slice 80 lkHdrSize img = replicate 432 255
    \<and> (if ext then get32 (drop lkExtOffset img) = lkExtMagic
                  \<and> get32 (drop (lkExtOffset + 4) img) = word_of_nat lkHdrSize
       else slice lkExtOffset lkHdrSize img = replicate 464 255)"
proof -
  let ?b = "lkBase payload name la"
  let ?h = "if ext then lkExtHeader ?b else ?b"
  have n: "length name \<le> 31" and img: "img = ?h @ payload" using lkWrap_image [OF w] by auto
  have b: "?b = put32 lkMagic @ put32 (word_of_nat (length payload))
     @ (bytes_of name @ replicate (32 - length name) 0) @ put32 la @ put32 0xFFFFFFFF
     @ replicate 464 255" by (rule lkBase_layout [OF n])
  have lb: "length ?b = 512" using n by (simp add: b)
  have lh: "length ?h = 512" using lb lkExtHeader_slices(1) [of ?b] by (simp add: lk_consts)
  have t: "take 48 img = take 48 ?b"
    using lb lh lkExtHeader_slices(2) [of ?b] by (simp add: img lk_consts)
  have i: "48 \<le> length img" "48 \<le> length ?b" using lb lh by (simp_all add: img)
  note g = get32_take_eq [OF _ i t]
  have f0: "get32 img = lkMagic" using g [of 0] by (simp add: b)
  have f4: "get32 (drop 4 img) = word_of_nat (length payload)" using g [of 4] by (simp add: b)
  have f40: "get32 (drop 40 img) = la" using g [of 40] n by (simp add: b)
  have f44: "get32 (drop 44 img) = 0xFFFFFFFF" using g [of 44] n by (simp add: b)
  have "take 40 img = take 40 ?b" using arg_cong [OF t, of "take 40"] by simp
  then have sl: "slice 8 40 img = bytes_of name @ replicate (32 - length name) 0"
    using n by (simp add: slice_def b take_drop)
  have d: "drop 80 ?h = drop 80 ?b" using lb lkExtHeader_slices(3) [of ?b] by (simp add: lk_consts)
  have d80: "drop 80 ?b = replicate 432 255" using n by (simp add: b)
  have s80: "slice 80 lkHdrSize img = replicate 432 255"
    using d d80 lh by (simp add: slice_def img lk_consts)
  have e: "if ext then get32 (drop lkExtOffset img) = lkExtMagic
                  \<and> get32 (drop (lkExtOffset + 4) img) = word_of_nat lkHdrSize
       else slice lkExtOffset lkHdrSize img = replicate 464 255"
  proof (cases ext)
    case True
    then show ?thesis
      using lb lh lkExtHeader_slices(4,5) [of ?b] by (simp add: img lk_consts get32_append)
  next
    case False
    have "drop 48 ?b = replicate 464 255" using n by (simp add: b)
    with False show ?thesis using lb by (simp add: img lk_consts slice_def)
  qed
  show ?thesis using f0 f4 f40 f44 sl s80 e lh by (simp add: img lk_consts)
qed

theorem lkWrap_layout_witness:
  "\<exists>img. lkWrap [1, 2] ''lk'' 0xFFFFFFFF True = Inr img \<and> length img = 514
     \<and> get32 img = lkMagic \<and> get32 (drop 4 img) = 2 \<and> get32 (drop lkExtOffset img) = lkExtMagic"
proof -
  obtain img where img: "lkWrap [1, 2] ''lk'' 0xFFFFFFFF True = Inr img" by (simp add: lkWrap_def)
  show ?thesis using img lkWrap_layout [OF img] by (simp add: lk_consts)
qed

lemma setArm64ImageSize_effect:
  assumes "setArm64ImageSize img sz = Inr img'"
  shows "length img' = length img \<and> get64 (drop arm64ImageSizeOff img') = sz
     \<and> take arm64ImageSizeOff img' = take arm64ImageSizeOff img
     \<and> drop (arm64ImageSizeOff + 8) img' = drop (arm64ImageSizeOff + 8) img
     \<and> setArm64ImageSize img' sz = Inr img'"
proof -
  have img': "img' = copy_at 16 (put64 sz) img" and l: "60 \<le> length img"
    and m: "string_of (slice 56 60 img) = ''ARMd''"
    using assms by (auto simp: setArm64ImageSize_def mkboot_consts split: if_splits)
  have "slice 56 60 img' = slice 56 60 img" using l by (simp add: img' slice_simps)
  moreover have "copy_at 16 (put64 sz) (copy_at 16 (put64 sz) img) = copy_at 16 (put64 sz) img"
    using l by (simp add: copy_at_fits)
  ultimately show ?thesis
    using l m by (simp add: img' setArm64ImageSize_def mkboot_consts slice_simps codec_fields)
qed

lemma packKernel_error:
  "packKernel gz f kb = Inl e \<Longrightarrow> e = GzippedImage \<or> e = NotArm64Image \<or> e = Arm64TooSmall"
  by (auto simp: packKernel_def setArm64ImageSize_def split: if_splits sum.splits)

lemma readOptional_error: "readOptional fs p = Inl e \<Longrightarrow> e = ReadFailed p"
  by (auto simp: readOptional_def split: if_splits option.splits)

lemma packBoot_error:
  "packBoot o' = Inl e \<Longrightarrow> e = KernelRequired \<or> e = UnsupportedVersion (o_headerVersion o')
     \<or> e = CmdlineTooLong (length (o_cmdline o'))"
  by (auto simp: packBoot_def Let_def split: if_splits)

lemmas mkboot_errors = packKernel_error readOptional_error packBoot_error

text \<open>\<open>mkboot pack\<close> either fails and leaves the file system as it was, or writes a
  page-aligned image and reports success exactly when it fits the 64 MiB boot partition; an image
  that is too large is reported, but has been written already.\<close>

theorem cmdPack_outcome:
  assumes "cmdPack gz writable fs f = (fs', res)"
  shows "(fs' = fs \<and> (\<exists>e. res = Some e \<and> (\<forall>n. e \<noteq> ImageTooLarge n)))
     \<or> (\<exists>img. fs' = fs(f_out f \<mapsto> img) \<and> pageSize dvd length img
          \<and> res = (if length img > bootPartSize then Some (ImageTooLarge (length img)) else None))"
  using assms
  by (auto simp: cmdPack_def packBoot_aligned dest: mkboot_errors
      split: if_splits option.splits sum.splits)

theorem cmdPack_outcome_witness:
  "\<exists>img. cmdPack (\<lambda>b. b) (\<lambda>p. True) [''k'' \<mapsto> [1, 2, 3]] \<lparr>f_kernel = ''k'', f_gzipKernel = False,
      f_ramdisk = [], f_signature = [], f_out = ''o'', f_cmdline = [], f_arm64ImageSize = 0,
      f_hdrVer = 4, f_osVer = 0, f_legacy = False\<rparr> = ([''k'' \<mapsto> [1, 2, 3], ''o'' \<mapsto> img], None)
    \<and> pageSize dvd length img"
proof -
  let ?f = "\<lparr>f_kernel = ''k'', f_gzipKernel = False,
      f_ramdisk = [], f_signature = [], f_out = ''o'', f_cmdline = [], f_arm64ImageSize = 0,
      f_hdrVer = 4, f_osVer = 0, f_legacy = False\<rparr> :: pack_flags"
  let ?o = "\<lparr>o_kernel = [1, 2, 3], o_ramdisk = [], o_signature = [], o_cmdline = [],
      o_osVersion = 0, o_headerVersion = 4, o_legacyCmdlineOffset = False\<rparr> :: packOpts"
  obtain img where img: "packBoot ?o = Inr img"
    using packBoot_total [of ?o] by (auto simp: mkboot_consts)
  have l: "length img \<le> bootPartSize"
    using packBoot_length [OF img]
    by (simp add: packedSignature_def pad_def mkboot_consts bootPartSize_def)
  have r: "cmdPack (\<lambda>b. b) (\<lambda>p. True) [''k'' \<mapsto> [1, 2, 3]] ?f = ([''k'' \<mapsto> [1, 2, 3], ''o'' \<mapsto> img], None)"
    using img l by (simp add: cmdPack_def packKernel_def readOptional_def)
  show ?thesis using r cmdPack_outcome [OF r] packBoot_aligned [OF img] by blast
qed

end
