(* ===== verification/Base64.thy ===== *)
theory Base64
  imports Go_Strings
begin

text \<open>
  Go's \<^verbatim>\<open>base64.StdEncoding\<close>: the decoder the install header uses (carriage returns and line
  feeds are skipped, padding is required, trailing bits are not checked) and the encoder of
  the host's \<^verbatim>\<open>base64\<close> command, with the round trip between them.
\<close>

definition b64_char :: "nat \<Rightarrow> char" where
  "b64_char n = char_of (if n < 26 then 65 + n else if n < 52 then 71 + n
                         else if n < 62 then n - 4 else if n = 62 then 43 else 47)"

definition b64_val :: "char \<Rightarrow> nat option" where
  "b64_val c = (let n = of_char c :: nat in
     if 65 \<le> n \<and> n \<le> 90 then Some (n - 65)
     else if 97 \<le> n \<and> n \<le> 122 then Some (n - 71)
     else if 48 \<le> n \<and> n \<le> 57 then Some (n + 4)
     else if n = 43 then Some 62 else if n = 47 then Some 63 else None)"

definition byte_of_nat :: "nat \<Rightarrow> byte" where
  "byte_of_nat n = word_of_nat n"

definition quad_bytes :: "nat \<Rightarrow> nat \<Rightarrow> nat \<Rightarrow> nat \<Rightarrow> bytes" where
  "quad_bytes a b c d =
     (let n = a * 262144 + b * 4096 + c * 64 + d
      in [byte_of_nat (n div 65536), byte_of_nat (n div 256 mod 256), byte_of_nat (n mod 256)])"

fun b64_quads :: "string \<Rightarrow> bytes option" where
  "b64_quads [] = Some []"
| "b64_quads (p # q # r # s # rest) =
     (case (b64_val p, b64_val q) of
        (Some a, Some b) \<Rightarrow>
          (if r = CHR ''='' then
             (if s = CHR ''='' \<and> rest = [] then Some (take 1 (quad_bytes a b 0 0)) else None)
           else (case b64_val r of
                   None \<Rightarrow> None
                 | Some c \<Rightarrow>
                     (if s = CHR ''='' then
                        (if rest = [] then Some (take 2 (quad_bytes a b c 0)) else None)
                      else (case b64_val s of
                              None \<Rightarrow> None
                            | Some d \<Rightarrow> map_option (\<lambda>bs. quad_bytes a b c d @ bs) (b64_quads rest)))))
      | _ \<Rightarrow> None)"
| "b64_quads _ = None"

definition b64_decode :: "string \<Rightarrow> bytes option" where
  "b64_decode s = b64_quads (filter (\<lambda>c. c \<noteq> CR \<and> c \<noteq> LF) s)"

definition triple_nat :: "byte \<Rightarrow> byte \<Rightarrow> byte \<Rightarrow> nat" where
  "triple_nat x y z = unat x * 65536 + unat y * 256 + unat z"

definition triple_chars :: "nat \<Rightarrow> string" where
  "triple_chars n = [b64_char (n div 262144), b64_char (n div 4096 mod 64),
                     b64_char (n div 64 mod 64), b64_char (n mod 64)]"

fun b64_encode :: "bytes \<Rightarrow> string" where
  "b64_encode [] = []"
| "b64_encode [x] = take 2 (triple_chars (triple_nat x 0 0)) @ ''==''"
| "b64_encode [x, y] = take 3 (triple_chars (triple_nat x y 0)) @ ''=''"
| "b64_encode (x # y # z # bs) = triple_chars (triple_nat x y z) @ b64_encode bs"

lemma of_char_b64_char:
  "n < 64 \<Longrightarrow> (of_char (b64_char n) :: nat) =
     (if n < 26 then 65 + n else if n < 52 then 71 + n else if n < 62 then n - 4
      else if n = 62 then 43 else 47)"
  by (simp add: b64_char_def)

lemma b64_char_facts [simp]:
  assumes "n < 64"
  shows "b64_val (b64_char n) = Some n"
    and "b64_char n \<noteq> CHR ''=''" and "b64_char n \<noteq> CR" and "b64_char n \<noteq> LF"
proof -
  show "b64_val (b64_char n) = Some n"
    using assms by (auto simp: b64_val_def Let_def of_char_b64_char)
  have "(of_char (b64_char n) :: nat) \<notin> {61, 13, 10}"
    using assms by (auto simp: of_char_b64_char)
  then show "b64_char n \<noteq> CHR ''=''" "b64_char n \<noteq> CR" "b64_char n \<noteq> LF"
    by (auto simp: CR_def LF_def)
qed

lemma unat_byte_less [simp]: "unat (b :: byte) < 256"
  using unsigned_less[of b] by simp

lemma byte_of_nat_unat [simp]: "byte_of_nat (unat b) = b"
  by (simp add: byte_of_nat_def)

lemma triple_nat_less [simp]: "triple_nat x y z < 16777216"
  using unat_byte_less[of x] unat_byte_less[of y] unat_byte_less[of z]
  unfolding triple_nat_def by linarith

lemma triple_nat_fields:
  "triple_nat x y z div 65536 = unat x"
  "triple_nat x y z div 256 mod 256 = unat y"
  "triple_nat x y z mod 256 = unat z"
proof -
  let ?m = "unat x * 256 + unat y"
  have z: "unat z < 256" and y: "unat y < 256" by simp_all
  have n: "triple_nat x y z = ?m * 256 + unat z" by (simp add: triple_nat_def)
  have d: "triple_nat x y z div 256 = ?m" using z unfolding n by (simp only: div_mult_self3 div_less)
  then show "triple_nat x y z div 256 mod 256 = unat y" using y by simp
  have "triple_nat x y z div 65536 = triple_nat x y z div 256 div 256"
    by (simp add: div_mult2_eq [symmetric])
  then show "triple_nat x y z div 65536 = unat x" using d y by simp
  show "triple_nat x y z mod 256 = unat z" using z unfolding n by (simp only: mod_mult_self3 mod_less)
qed

lemma sextets:
  fixes n :: nat
  shows "n div 262144 * 262144 + n div 4096 mod 64 * 4096 + n div 64 mod 64 * 64 + n mod 64 = n"
proof -
  have a: "n div 64 div 64 = n div 4096" "n div 4096 div 64 = n div 262144"
    by (simp_all add: div_mult2_eq [symmetric])
  have "n = n div 64 * 64 + n mod 64" by simp
  moreover have "n div 64 = n div 4096 * 64 + n div 64 mod 64"
    using div_mult_mod_eq[of "n div 64" 64] a by simp
  moreover have "n div 4096 = n div 262144 * 64 + n div 4096 mod 64"
    using div_mult_mod_eq[of "n div 4096" 64] a by simp
  ultimately show ?thesis by linarith
qed

lemma sextet_bounds [simp]:
  "n < 16777216 \<Longrightarrow> n div 262144 < (64 :: nat)"
  by linarith

lemma quad_bytes_triple:
  assumes "a * 262144 + b * 4096 + c * 64 + d = triple_nat x y z"
  shows "quad_bytes a b c d = [x, y, z]"
  by (simp add: quad_bytes_def assms triple_nat_fields)

lemma triple_nat_low:
  "triple_nat x 0 0 mod 64 = 0" "triple_nat x 0 0 div 64 mod 64 = 0" "triple_nat x y 0 mod 64 = 0"
proof -
  have "triple_nat x 0 0 = unat x * 16 * 4096" by (simp add: triple_nat_def)
  then show "triple_nat x 0 0 mod 64 = 0" "triple_nat x 0 0 div 64 mod 64 = 0"
    by (simp_all add: mod_mult_mult2[of _ 64 "64::nat", symmetric] mult.assoc mod_eq_0_iff_dvd)
  have "triple_nat x y 0 = (unat x * 1024 + unat y * 4) * 64" by (simp add: triple_nat_def)
  then show "triple_nat x y 0 mod 64 = 0" by (simp only: mod_mult_self2_is_0)
qed

lemma b64_quads_encode: "b64_quads (b64_encode bs) = Some bs"
proof (induction bs rule: b64_encode.induct)
  case 1
  show ?case by simp
next
  case (2 x)
  have "triple_nat x 0 0 div 262144 * 262144 + triple_nat x 0 0 div 4096 mod 64 * 4096 + 0 * 64 + 0
        = triple_nat x 0 0"
    using sextets[of "triple_nat x 0 0"] by (simp add: triple_nat_low)
  from quad_bytes_triple[OF this] show ?case by (simp add: triple_chars_def)
next
  case (3 x y)
  have "triple_nat x y 0 div 262144 * 262144 + triple_nat x y 0 div 4096 mod 64 * 4096
          + triple_nat x y 0 div 64 mod 64 * 64 + 0 = triple_nat x y 0"
    using sextets[of "triple_nat x y 0"] by (simp add: triple_nat_low)
  from quad_bytes_triple[OF this] show ?case by (simp add: triple_chars_def numeral_3_eq_3)
next
  case (4 x y z bs)
  from quad_bytes_triple[OF sextets] 4 show ?case by (simp add: triple_chars_def)
qed

lemma b64_encode_no_newline: "c \<in> set (b64_encode bs) \<Longrightarrow> c \<noteq> CR \<and> c \<noteq> LF"
  by (induction bs rule: b64_encode.induct)
     (auto simp: triple_chars_def numeral_3_eq_3 numeral_2_eq_2 CR_def[symmetric] LF_def[symmetric], auto simp: CR_def LF_def)

lemma b64_decode_encode [simp]: "b64_decode (b64_encode bs) = Some bs"
proof -
  have "filter (\<lambda>c. c \<noteq> CR \<and> c \<noteq> LF) (b64_encode bs) = b64_encode bs"
    by (rule filter_True) (use b64_encode_no_newline in blast)
  then show ?thesis by (simp add: b64_decode_def b64_quads_encode)
qed

end
