(* ===== verification/Wire.thy ===== *)
theory Wire
  imports Base64
begin

text \<open>
  \<^verbatim>\<open>installer/gotools/internal/wire/wire.go\<close>: the DC1-INSTALL-V1 session header.  The
  connection is the list of octets that arrive before the stream ends (or fails);
  \<open>ParseHeader\<close> returns the parsed header and the unread rest, the image body.
  \<open>host_session\<close> is the byte stream \<^verbatim>\<open>installer/host/dc1-install.sh\<close> sends.
\<close>

definition Magic :: string where "Magic = ''DC1-INSTALL-V1''"

definition MinImageBytes :: int where "MinImageBytes = 8 * 2 ^ 20"

record Header =
  Size :: int
  SHA256 :: string
  Answers :: bytes
  Unprovisioned :: bool

definition empty_header :: Header where
  "empty_header = \<lparr>Size = 0, SHA256 = [], Answers = [], Unprovisioned = False\<rparr>"

datatype wire_error =
    ReadingMagic | BadMagic string | ReadingHeader | MalformedLine string
  | BadSize string | BadSHA256 string | AnswersDecode | UnknownLine string
  | MissingSize | MissingSHA256 | SizeTooSmall int | MissingAnswers

definition hexdigits :: string where "hexdigits = ''0123456789abcdef''"

definition header_line :: "string \<Rightarrow> Header \<times> bool \<times> bool \<Rightarrow> wire_error + (Header \<times> bool \<times> bool)" where
  "header_line line st = (case st of (h, sawSize, sawSHA) \<Rightarrow>
     (case cut (CHR ''='') line of
        None \<Rightarrow> Inl (MalformedLine line)
      | Some (key, value) \<Rightarrow>
          if key = ''size'' then
            (case parse_int64 value of
               None \<Rightarrow> Inl (BadSize value)
             | Some n \<Rightarrow> Inr (h\<lparr>Size := n\<rparr>, True, sawSHA))
          else if key = ''sha256'' then
            (if length value \<noteq> 64 \<or> trim_left hexdigits value \<noteq> [] then Inl (BadSHA256 value)
             else Inr (h\<lparr>SHA256 := value\<rparr>, sawSize, True))
          else if key = ''answers'' then
            (case b64_decode value of
               None \<Rightarrow> Inl AnswersDecode
             | Some decoded \<Rightarrow> Inr (h\<lparr>Answers := decoded\<rparr>, sawSize, sawSHA))
          else if key = ''unprovisioned'' then
            Inr (h\<lparr>Unprovisioned := (value = ''1'')\<rparr>, sawSize, sawSHA)
          else Inl (UnknownLine key)))"

function header_lines :: "Header \<times> bool \<times> bool \<Rightarrow> bytes \<Rightarrow> wire_error + ((Header \<times> bool \<times> bool) \<times> bytes)" where
  "header_lines st s =
     (case ReadString LF s of
        Inl _ \<Rightarrow> Inl ReadingHeader
      | Inr (raw, rest) \<Rightarrow>
          (let line = trim_right CRLF raw
           in if line = [] then Inr (st, rest)
              else (case header_line line st of
                      Inl e \<Rightarrow> Inl e
                    | Inr st' \<Rightarrow> header_lines st' rest)))"
  by pat_completeness auto
termination
  by (relation "measure (length \<circ> snd)") (auto simp: ReadString_shorter)

declare header_lines.simps [simp del]

definition header_checks :: "Header \<times> bool \<times> bool \<Rightarrow> wire_error + Header" where
  "header_checks st = (case st of (h, sawSize, sawSHA) \<Rightarrow>
     if \<not> sawSize then Inl MissingSize
     else if \<not> sawSHA then Inl MissingSHA256
     else if Size h < MinImageBytes then Inl (SizeTooSmall (Size h))
     else if Unprovisioned h then Inr (h\<lparr>Answers := []\<rparr>)
     else if length (Answers h) = 0 then Inl MissingAnswers
     else Inr h)"

definition ParseHeader :: "bytes \<Rightarrow> wire_error + (Header \<times> bytes)" where
  "ParseHeader s =
     (case ReadString LF s of
        Inl _ \<Rightarrow> Inl ReadingMagic
      | Inr (magic, rest) \<Rightarrow>
          if trim_right CRLF magic \<noteq> Magic then Inl (BadMagic (trim_right CRLF magic))
          else (case header_lines (empty_header, False, False) rest of
                  Inl e \<Rightarrow> Inl e
                | Inr (st, body) \<Rightarrow>
                    (case header_checks st of Inl e \<Rightarrow> Inl e | Inr h \<Rightarrow> Inr (h, body))))"

section \<open>What an accepted header guarantees\<close>

definition valid_header :: "Header \<Rightarrow> bool" where
  "valid_header h \<longleftrightarrow>
     MinImageBytes \<le> Size h \<and> Size h < 2 ^ 63 \<and>
     length (SHA256 h) = 64 \<and> set (SHA256 h) \<subseteq> set hexdigits \<and>
     (Unprovisioned h \<longleftrightarrow> Answers h = [])"

definition fields_ok :: "Header \<times> bool \<times> bool \<Rightarrow> bool" where
  "fields_ok st = (case st of (h, sawSize, sawSHA) \<Rightarrow>
     (sawSize \<longrightarrow> Size h < 2 ^ 63) \<and>
     (sawSHA \<longrightarrow> length (SHA256 h) = 64 \<and> set (SHA256 h) \<subseteq> set hexdigits))"

lemma header_line_ok:
  assumes "header_line l st = Inr st'" "fields_ok st"
  shows "fields_ok st'"
  using assms parse_int64_range
  by (auto simp: header_line_def fields_ok_def trim_left_empty_iff
           split: prod.splits option.splits if_splits)

lemma header_lines_ok:
  "header_lines st s = Inr (st', rest) \<Longrightarrow> fields_ok st \<Longrightarrow> fields_ok st'"
proof (induction st s rule: header_lines.induct)
  case (1 st s)
  from 1(2) obtain raw r where r: "ReadString LF s = Inr (raw, r)"
    by (subst (asm) header_lines.simps) (auto split: sum.splits)
  show ?case
  proof (cases "trim_right CRLF raw = []")
    case True
    then show ?thesis using 1(2,3) r by (subst (asm) header_lines.simps) simp
  next
    case False
    then obtain st1 where "header_line (trim_right CRLF raw) st = Inr st1" "header_lines st1 r = Inr (st', rest)"
      using 1(2) r by (subst (asm) header_lines.simps) (auto split: sum.splits)
    then show ?thesis using 1(1)[OF r _ refl False] 1(3) header_line_ok by auto
  qed
qed

lemma header_checks_valid:
  "header_checks st = Inr h \<Longrightarrow> fields_ok st \<Longrightarrow> valid_header h"
  by (auto simp: header_checks_def fields_ok_def valid_header_def split: prod.splits if_splits)

lemma ParseHeader_valid:
  assumes "ParseHeader s = Inr (h, rest)"
  shows "valid_header h"
proof -
  from assms obtain m r st where
    l: "header_lines (empty_header, False, False) r = Inr (st, rest)" and c: "header_checks st = Inr h"
    by (auto simp: ParseHeader_def split: sum.splits if_splits)
  have "fields_ok st" using header_lines_ok[OF l] by (simp add: fields_ok_def)
  then show ?thesis by (rule header_checks_valid[OF c])
qed

section \<open>Framing: the header ends where the body starts\<close>

interpretation hl: stream_reader "header_lines st"
proof
  show "header_lines st s = Inr (a, rest) \<Longrightarrow> \<exists>p. s = p @ rest \<and> header_lines st p = Inr (a, [])" for s a rest
  proof (induction st s rule: header_lines.induct)
    case (1 st s)
    from 1(2) obtain raw r where r: "ReadString LF s = Inr (raw, r)"
      by (subst (asm) header_lines.simps) (auto split: sum.splits)
    obtain q where q: "s = q @ r" "\<And>b. ReadString LF (q @ b) = Inr (raw, b)"
      using rs.read_body[OF r] by blast
    show ?case
    proof (cases "trim_right CRLF raw = []")
      case True
      then have "a = st \<and> rest = r" using 1(2) r by (subst (asm) header_lines.simps) simp
      moreover have "header_lines st q = Inr (st, [])"
        using q(2)[of "[]"] True by (subst header_lines.simps) simp
      ultimately show ?thesis using q(1) by blast
    next
      case False
      then obtain st1 where h: "header_line (trim_right CRLF raw) st = Inr st1" "header_lines st1 r = Inr (a, rest)"
        using 1(2) r by (subst (asm) header_lines.simps) (auto split: sum.splits)
      obtain p where p: "r = p @ rest" "header_lines st1 p = Inr (a, [])"
        using 1(1)[OF r refl refl False h] by blast
      have "header_lines st (q @ p) = Inr (a, [])"
        using q(2)[of p] False h(1) p(2) by (subst header_lines.simps) simp
      then show ?thesis using p(1) q(1) by (metis append.assoc)
    qed
  qed
  show "header_lines st s = Inr (a, rest) \<Longrightarrow> header_lines st (s @ t) = Inr (a, rest @ t)" for s a rest t
  proof (induction st s rule: header_lines.induct)
    case (1 st s)
    from 1(2) obtain raw r where r: "ReadString LF s = Inr (raw, r)"
      by (subst (asm) header_lines.simps) (auto split: sum.splits)
    have e: "ReadString LF (s @ t) = Inr (raw, r @ t)" by (rule rs.read_extend[OF r])
    show ?case
    proof (cases "trim_right CRLF raw = []")
      case True
      then show ?thesis using 1(2) r e by (subst (asm) header_lines.simps) (subst header_lines.simps, simp)
    next
      case False
      then obtain st1 where h: "header_line (trim_right CRLF raw) st = Inr st1" "header_lines st1 r = Inr (a, rest)"
        using 1(2) r by (subst (asm) header_lines.simps) (auto split: sum.splits)
      then show ?thesis using 1(1)[OF r refl refl False h] e False by (subst header_lines.simps) simp
    qed
  qed
qed

interpretation ph: stream_reader ParseHeader
proof
  fix s h rest
  assume a: "ParseHeader s = Inr (h, rest)"
  then obtain m r st where m: "ReadString LF s = Inr (m, r)" "trim_right CRLF m = Magic"
    and l: "header_lines (empty_header, False, False) r = Inr (st, rest)" and c: "header_checks st = Inr h"
    by (auto simp: ParseHeader_def split: sum.splits if_splits)
  obtain q where q: "s = q @ r" "\<And>b. ReadString LF (q @ b) = Inr (m, b)"
    using rs.read_body[OF m(1)] by blast
  obtain p where p: "r = p @ rest" "header_lines (empty_header, False, False) p = Inr (st, [])"
    using hl.read_consumes[OF l] by blast
  have "ParseHeader (q @ p) = Inr (h, [])" using q(2)[of p] m(2) p(2) c by (simp add: ParseHeader_def)
  then show "\<exists>p. s = p @ rest \<and> ParseHeader p = Inr (h, [])"
    using q(1) p(1) by (metis append.assoc)
  fix t
  show "ParseHeader (s @ t) = Inr (h, rest @ t)"
    using rs.read_extend[OF m(1), of t] m(2) hl.read_extend[OF l, of t] c by (simp add: ParseHeader_def)
qed

section \<open>The stream the host sends\<close>

definition host_line :: "string \<Rightarrow> bytes" where
  "host_line l = bytes_of (l @ [LF])"

definition host_session :: "nat \<Rightarrow> string \<Rightarrow> bytes option \<Rightarrow> bytes \<Rightarrow> bytes" where
  "host_session sz sha answers raw =
     host_line ''DC1-INSTALL-V1'' @ host_line (''size='' @ dec sz) @ host_line (''sha256='' @ sha) @
     (case answers of
        None \<Rightarrow> host_line ''unprovisioned=1''
      | Some a \<Rightarrow> host_line (''answers='' @ b64_encode a)) @
     host_line [] @ raw"

lemma header_lines_step:
  assumes "LF \<notin> set l" "l \<noteq> []" "last l \<notin> {CR, LF}" "header_line l st = Inr st'"
  shows "header_lines st (host_line l @ rest) = header_lines st' rest"
proof -
  have "trim_right CRLF (l @ [LF]) = l"
    using assms(2,3) by (simp add: trim_right_append trim_right_id CRLF_def)
  then show ?thesis
    using assms ReadString_line[of LF l rest] by (subst header_lines.simps) (simp add: host_line_def)
qed

lemma header_lines_stop: "header_lines st (host_line [] @ rest) = Inr (st, rest)"
proof -
  have "trim_right CRLF [LF] = []" by (simp add: trim_right_def CRLF_def)
  then show ?thesis
    using ReadString_line[of LF "[]" rest] by (subst header_lines.simps) (simp add: host_line_def)
qed

lemma hexdigits_plain: "set s \<subseteq> set hexdigits \<Longrightarrow> CR \<notin> set s \<and> LF \<notin> set s"
  by (auto simp: hexdigits_def CR_def LF_def)

lemma key_value_plain:
  assumes "CR \<notin> set v" "LF \<notin> set v" "k \<in> {''size='', ''sha256='', ''answers='', ''unprovisioned=''}"
  shows "LF \<notin> set (k @ v) \<and> k @ v \<noteq> [] \<and> last (k @ v) \<notin> {CR, LF}"
proof -
  have "CR \<notin> set k" "LF \<notin> set k" "k \<noteq> []" using assms(3) by (auto simp: CR_def LF_def)
  moreover from this have "last (k @ v) \<in> set (k @ v)" by (intro last_in_set) simp
  ultimately show ?thesis using assms(1,2) by auto
qed

lemma header_line_size:
  "n < 2 ^ 63 \<Longrightarrow> header_line (''size='' @ dec n) (h, a, b) = Inr (h\<lparr>Size := int n\<rparr>, True, b)"
  using cut_line[of "CHR ''=''" "''size''" "dec n"] by (simp add: header_line_def parse_int64_dec)

lemma header_line_sha:
  "length s = 64 \<Longrightarrow> set s \<subseteq> set hexdigits \<Longrightarrow>
   header_line (''sha256='' @ s) (h, a, b) = Inr (h\<lparr>SHA256 := s\<rparr>, a, True)"
  using cut_line[of "CHR ''=''" "''sha256''" s] by (simp add: header_line_def trim_left_empty_iff)

lemma header_line_answers:
  "header_line (''answers='' @ b64_encode x) (h, a, b) = Inr (h\<lparr>Answers := x\<rparr>, a, b)"
  using cut_line[of "CHR ''=''" "''answers''" "b64_encode x"] by (simp add: header_line_def)

lemma header_line_unprovisioned:
  "header_line ''unprovisioned=1'' (h, a, b) = Inr (h\<lparr>Unprovisioned := True\<rparr>, a, b)"
  using cut_line[of "CHR ''=''" "''unprovisioned''" "''1''"] by (simp add: header_line_def)

definition host_header :: "nat \<Rightarrow> string \<Rightarrow> bytes option \<Rightarrow> Header" where
  "host_header sz sha answers =
     \<lparr>Size = int sz, SHA256 = sha, Answers = (case answers of None \<Rightarrow> [] | Some a \<Rightarrow> a),
      Unprovisioned = (answers = None)\<rparr>"

lemma host_session_lines:
  assumes sz: "sz < 2 ^ 63" and sha: "length sha = 64" "set sha \<subseteq> set hexdigits"
  shows "\<exists>rest. host_session sz sha answers raw = host_line ''DC1-INSTALL-V1'' @ rest \<and>
           header_lines (empty_header, False, False) rest = Inr ((host_header sz sha answers, True, True), raw)"
proof -
  have d: "CR \<notin> set (dec sz)" "LF \<notin> set (dec sz)" by (auto dest: dec_chars digit_not_special)
  note p1 = key_value_plain[OF d, of "''size=''"]
  note s1 = header_lines_step[OF _ _ _ header_line_size[OF sz]]
  have h: "CR \<notin> set sha" "LF \<notin> set sha" using hexdigits_plain[OF sha(2)] by auto
  note p2 = key_value_plain[OF h, of "''sha256=''"]
  note s2 = header_lines_step[OF _ _ _ header_line_sha[OF sha]]
  show ?thesis
  proof (cases answers)
    case None
    have p: "LF \<notin> set ''unprovisioned=1''" "last ''unprovisioned=1'' \<notin> {CR, LF}"
      by (simp_all add: CR_def LF_def)
    show ?thesis
      unfolding host_session_def
      apply (rule exI, rule conjI, rule refl)
      apply (subst s1, use p1 in blast, use p1 in blast, use p1 in blast)
      apply (subst s2, use p2 in blast, use p2 in blast, use p2 in blast)
      using None header_lines_step[OF p(1) _ p(2) header_line_unprovisioned]
      by (simp add: header_lines_stop host_header_def empty_header_def)
  next
    case (Some a)
    have e: "CR \<notin> set (b64_encode a)" "LF \<notin> set (b64_encode a)" by (auto dest: b64_encode_no_newline)
    note p3 = key_value_plain[OF e, of "''answers=''"]
    show ?thesis
      unfolding host_session_def
      apply (rule exI, rule conjI, rule refl)
      apply (subst s1, use p1 in blast, use p1 in blast, use p1 in blast)
      apply (subst s2, use p2 in blast, use p2 in blast, use p2 in blast)
      using Some header_lines_step[OF _ _ _ header_line_answers, of a] p3
      by (simp add: header_lines_stop host_header_def empty_header_def)
  qed
qed

lemma ParseHeader_host:
  assumes "MinImageBytes \<le> int sz" "sz < 2 ^ 63" "length sha = 64" "set sha \<subseteq> set hexdigits"
    and "answers \<noteq> Some []"
  shows "ParseHeader (host_session sz sha answers raw) = Inr (host_header sz sha answers, raw)"
proof -
  obtain rest where r: "host_session sz sha answers raw = host_line ''DC1-INSTALL-V1'' @ rest"
    "header_lines (empty_header, False, False) rest = Inr ((host_header sz sha answers, True, True), raw)"
    using host_session_lines[OF assms(2-4)] by blast
  have "trim_right CRLF (''DC1-INSTALL-V1'' @ [LF]) = Magic"
    unfolding Magic_def by (subst trim_right_append) (simp_all add: trim_right_id CRLF_def CR_def LF_def)
  moreover have "ReadString LF (host_line ''DC1-INSTALL-V1'' @ rest) = Inr (''DC1-INSTALL-V1'' @ [LF], rest)"
    unfolding host_line_def by (rule ReadString_line) (simp add: LF_def)
  moreover have "header_checks (host_header sz sha answers, True, True) = Inr (host_header sz sha answers)"
    using assms(1,5) by (auto simp: header_checks_def host_header_def split: option.splits)
  ultimately show ?thesis using r by (simp add: ParseHeader_def)
qed

section \<open>Properties\<close>

text \<open>C28: Wire round trip.  The header the host script renders is parsed back field by field,
  provisioned or not, and the unread rest of the connection is exactly the raw image: no byte of
  the body is consumed and none of the header is left.\<close>

theorem wire_roundtrip:
  assumes "MinImageBytes \<le> int sz" "sz < 2 ^ 63" "length sha = 64" "set sha \<subseteq> set hexdigits"
    and "answers \<noteq> Some []"
  shows "ParseHeader (host_session sz sha answers raw) =
    Inr (\<lparr>Size = int sz, SHA256 = sha, Answers = (case answers of None \<Rightarrow> [] | Some a \<Rightarrow> a),
          Unprovisioned = (answers = None)\<rparr>, raw)"
  using ParseHeader_host[OF assms] by (simp add: host_header_def)

theorem wire_roundtrip_witness:
  "ParseHeader (host_session 8388608 (replicate 64 CHR ''a'') (Some [1, 2, 255]) [9, 8]) =
     Inr (\<lparr>Size = 8388608, SHA256 = replicate 64 CHR ''a'', Answers = [1, 2, 255],
           Unprovisioned = False\<rparr>, [9, 8])"
  using wire_roundtrip[of 8388608 "replicate 64 CHR ''a''" "Some [1, 2, 255]" "[9, 8]"]
  by (simp add: MinImageBytes_def hexdigits_def)

text \<open>C8: Accepted headers are well formed and self-delimiting.  Whatever the peer sends, a header
  that is accepted declares a size of at least 8 MiB that fits an int64, a digest of 64 lower-case
  hex digits, and answers exactly when it is a provisioned install; and the consumed prefix alone
  decides the result, so any body may follow it.\<close>

theorem wire_accepts_only_valid:
  assumes "ParseHeader s = Inr (h, rest)"
  shows "8388608 \<le> Size h \<and> Size h < 2 ^ 63 \<and>
         length (SHA256 h) = 64 \<and> set (SHA256 h) \<subseteq> set ''0123456789abcdef'' \<and>
         (Unprovisioned h \<longleftrightarrow> Answers h = []) \<and>
         (\<exists>p. s = p @ rest \<and> (\<forall>body. ParseHeader (p @ body) = Inr (h, body)))"
  using ParseHeader_valid[OF assms] ph.read_body[OF assms]
  by (simp add: valid_header_def MinImageBytes_def hexdigits_def)

theorem wire_accepts_only_valid_witness:
  "\<exists>p. host_session 8388608 (replicate 64 CHR ''0'') None [7] = p @ [7] \<and>
       ParseHeader (p @ [5, 5]) = Inr (host_header 8388608 (replicate 64 CHR ''0'') None, [5, 5])"
proof -
  have "ParseHeader (host_session 8388608 (replicate 64 CHR ''0'') None [7]) =
          Inr (host_header 8388608 (replicate 64 CHR ''0'') None, [7])"
    by (rule ParseHeader_host) (simp_all add: MinImageBytes_def hexdigits_def)
  from wire_accepts_only_valid[OF this] show ?thesis by blast
qed

end
