(* ===== verification/Go_Io.thy ===== *)
theory Go_Io
  imports Dc1_Prelude
begin

text \<open>
  The readers of Go's \<^verbatim>\<open>io\<close> package the image writer composes: a connection that delivers its
  bytes in arbitrary pieces, \<^verbatim>\<open>io.LimitReader\<close>, \<^verbatim>\<open>io.TeeReader\<close> into a hasher, and
  \<^verbatim>\<open>io.ReadFull\<close>.  \<open>readFull_spec\<close> shows that the pieces do not matter: what a full read
  returns, what it consumes and what it hashes depend only on the concatenation.
\<close>

datatype io_error = EOF | ErrUnexpectedEOF | IOError

record stream =
  pending :: "bytes list"
  ending :: io_error
  limit :: nat
  hashed :: bytes

definition source :: "bytes list \<Rightarrow> io_error \<Rightarrow> nat \<Rightarrow> stream" where
  "source cs e n = \<lparr>pending = cs, ending = e, limit = n, hashed = []\<rparr>"

definition tee_read :: "nat \<Rightarrow> stream \<Rightarrow> bytes \<times> io_error option \<times> stream" where
  "tee_read n st =
     (if limit st = 0 then ([], Some EOF, st)
      else (case pending st of
              [] \<Rightarrow> ([], Some (ending st), st)
            | c # cs \<Rightarrow>
                (let m = min n (limit st); d = take m c
                 in (d, None, st\<lparr>pending := (if length c \<le> m then cs else drop m c # cs),
                                 limit := limit st - length d,
                                 hashed := hashed st @ d\<rparr>))))"

function readFull :: "nat \<Rightarrow> bytes \<Rightarrow> stream \<Rightarrow> bytes \<times> io_error option \<times> stream" where
  "readFull need acc st =
     (if need = 0 then (acc, None, st)
      else (case tee_read need st of
              (d, Some e, st') \<Rightarrow>
                (acc @ d, Some (if acc @ d \<noteq> [] \<and> e = EOF then ErrUnexpectedEOF else e), st')
            | (d, None, st') \<Rightarrow> readFull (need - length d) (acc @ d) st'))"
  by pat_completeness auto
termination
  by (relation "measure (\<lambda>(need, acc, st). need + length (pending st))")
     (auto simp: tee_read_def Let_def min_def split: list.splits if_splits)

declare readFull.simps [simp del]

definition avail :: "stream \<Rightarrow> bytes" where
  "avail st = take (limit st) (concat (pending st))"

definition advance :: "nat \<Rightarrow> stream \<Rightarrow> stream \<Rightarrow> bool" where
  "advance n st st' \<longleftrightarrow>
     n \<le> length (avail st) \<and>
     concat (pending st') = drop n (concat (pending st)) \<and> ending st' = ending st \<and>
     limit st' = limit st - n \<and> hashed st' = hashed st @ take n (avail st)"

lemma avail_advance: "advance n st st' \<Longrightarrow> avail st' = drop n (avail st)"
  by (simp add: advance_def avail_def drop_take)

lemma advance_refl: "advance 0 st st"
  by (simp add: advance_def)

lemma advance_trans:
  assumes "advance m st st1" "advance n st1 st2"
  shows "advance (m + n) st st2"
proof -
  have a: "avail st1 = drop m (avail st)" by (rule avail_advance[OF assms(1)])
  have "m + n \<le> length (avail st)" using assms a by (auto simp: advance_def)
  moreover have "hashed st2 = hashed st @ take m (avail st) @ take n (drop m (avail st))"
    using assms a by (simp add: advance_def)
  ultimately show ?thesis
    using assms by (simp add: advance_def take_add add.commute)
qed

lemma tee_read_data:
  assumes "tee_read n st = (d, None, st')"
  shows "advance (length d) st st' \<and> d = take (length d) (avail st) \<and> length d \<le> n"
proof -
  obtain c cs where p: "pending st = c # cs" and l: "limit st \<noteq> 0" and d: "d = take (min n (limit st)) c"
    using assms by (auto simp: tee_read_def Let_def split: if_splits list.splits)
  have st': "st' = st\<lparr>pending := (if length c \<le> min n (limit st) then cs else drop (min n (limit st)) c # cs),
      limit := limit st - length d, hashed := hashed st @ d\<rparr>"
    using assms p l d by (auto simp: tee_read_def Let_def split: if_splits)
  have ld: "length d \<le> limit st" "length d \<le> length c" "length d \<le> n" using d by auto
  have tc: "take (length d) c = d" using d by (simp add: min_def)
  have td: "take (length d) (avail st) = d" using ld tc by (simp add: avail_def p)
  have "length d \<le> length (avail st)" using ld by (simp add: avail_def p)
  moreover have "concat (pending st') = drop (length d) (concat (pending st))"
    using st' p d by (auto simp: min_def)
  ultimately show ?thesis using st' td ld by (simp add: advance_def)
qed

lemma tee_read_end:
  assumes "tee_read n st = (d, Some e, st')"
  shows "d = [] \<and> st' = st \<and> avail st = [] \<and> e = (if limit st = 0 then EOF else ending st)"
  using assms by (auto simp: tee_read_def Let_def avail_def split: if_splits list.splits)

definition end_error :: "stream \<Rightarrow> io_error" where
  "end_error st = (if limit st \<le> length (concat (pending st)) then EOF else ending st)"

lemma end_error_advance: "advance n st st' \<Longrightarrow> end_error st' = end_error st"
  by (auto simp: end_error_def advance_def avail_def)

lemma readFull_gen:
  "readFull need acc st = (bs, e, st') \<Longrightarrow>
   \<exists>d. bs = acc @ d \<and> d = take need (avail st) \<and> advance (length d) st st' \<and>
       e = (if length d = need then None
            else Some (if bs \<noteq> [] \<and> end_error st = EOF then ErrUnexpectedEOF else end_error st))"
proof (induction need acc st rule: readFull.induct)
  case (1 need acc st)
  show ?case
  proof (cases "need = 0")
    case True
    then show ?thesis using 1(2) by (subst (asm) readFull.simps) (simp add: advance_refl)
  next
    case False
    obtain d0 e0 st0 where t: "tee_read need st = (d0, e0, st0)" by (cases "tee_read need st") auto
    show ?thesis
    proof (cases e0)
      case (Some x)
      then have t': "d0 = []" "st0 = st" "avail st = []" "x = (if limit st = 0 then EOF else ending st)"
        using tee_read_end[of need st d0 x st0] t by auto
      have "x = end_error st" using t'(3,4) by (auto simp: end_error_def avail_def simp del: concat_eq_Nil_conv)
      then show ?thesis
        using 1(2) False t Some t' by (subst (asm) readFull.simps) (auto simp: advance_refl)
    next
      case None
      have td: "advance (length d0) st st0" "d0 = take (length d0) (avail st)" "length d0 \<le> need"
        using tee_read_data t None by auto
      have "readFull (need - length d0) (acc @ d0) st0 = (bs, e, st')"
        using 1(2) False t None by (subst (asm) readFull.simps) simp
      from 1(1)[OF False t[symmetric] refl None this] obtain d where
        d: "bs = (acc @ d0) @ d" "d = take (need - length d0) (avail st0)" "advance (length d) st0 st'"
          "e = (if length d = need - length d0 then None
                else Some (if bs \<noteq> [] \<and> end_error st0 = EOF then ErrUnexpectedEOF else end_error st0))"
        by blast
      have "take need (avail st) = take (length d0) (avail st) @ take (need - length d0) (drop (length d0) (avail st))"
        using td(3) by (metis le_add_diff_inverse take_add)
      then have "d0 @ d = take need (avail st)" using d(2) td(2) avail_advance[OF td(1)] by metis
      moreover have "advance (length (d0 @ d)) st st'" using advance_trans[OF td(1) d(3)] by simp
      moreover have "length d = need - length d0 \<longleftrightarrow> length (d0 @ d) = need" using td(3) by auto
      ultimately show ?thesis using d end_error_advance[OF td(1)] by (intro exI[of _ "d0 @ d"]) simp
    qed
  qed
qed

lemma readFull_spec:
  assumes "readFull n [] st = (bs, e, st')"
  shows "bs = take n (avail st)" "advance (length bs) st st'"
    and "e = None \<longleftrightarrow> n \<le> length (avail st)"
    and "e \<noteq> None \<Longrightarrow> end_error st \<noteq> EOF \<Longrightarrow> e = Some (end_error st)"
    and "e \<noteq> None \<Longrightarrow> end_error st = EOF \<Longrightarrow> e \<in> {Some EOF, Some ErrUnexpectedEOF}"
  using readFull_gen[OF assms] by (auto simp: min_def split: if_splits)

lemma readFull_length: "readFull n [] st = (bs, None, st') \<Longrightarrow> length bs = n"
  using readFull_spec(1,3)[of n st bs None st'] by simp

end
