(* ===== verification/Imagewrite.thy ===== *)
theory Imagewrite
  imports Go_Io Sha256
begin

text \<open>
  \<^verbatim>\<open>installer/gotools/internal/imagewrite/imagewrite.go\<close>: streaming the image onto the
  partition.  The \<^verbatim>\<open>Target\<close> interface is a record of operations on an abstract device state,
  together with the two kernel-wide effects the code triggers (\<^verbatim>\<open>syscall.Sync\<close> and dropping the
  page cache); \<open>Write\<close> is defined, and its end-to-end check proved, for every such record.
  The locale \<open>disk_target\<close> states what a device that stores what it is told promises, and is
  interpreted on \<open>disk\<close>, a device with a schedule of faults.  \<open>logged\<close> wraps a device so
  that the sequence of its operations can be reasoned about.
\<close>

section \<open>The target and the operations on it\<close>

definition MiB :: nat where "MiB = 2 ^ 20"

definition chunkMax :: nat where "chunkMax = 4 * 2 ^ 20"

record 'd Target =
  writeAt :: "'d \<Rightarrow> bytes \<Rightarrow> nat \<Rightarrow> 'd \<times> io_error option"
  readAt :: "'d \<Rightarrow> nat \<Rightarrow> nat \<Rightarrow> 'd \<times> bytes \<times> io_error option"
  syncDev :: "'d \<Rightarrow> 'd \<times> io_error option"
  syncAll :: "'d \<Rightarrow> 'd"
  dropCaches :: "'d \<Rightarrow> 'd"

record WriteResult =
  resBytes :: int
  resSHA256 :: string

datatype write_error =
    ImageTooSmall int | ScrubFailed | ReadingWindow io_error | WritingBody io_error
  | ShortImage nat nat | SHAMismatch string string | WritingSuperblock io_error
  | SyncFailed io_error | ReadingBack io_error | ReadBackMismatch string string | ReadBackHangs

definition zeroMiB :: bytes where "zeroMiB = replicate MiB 0"

definition scrub :: "'d Target \<Rightarrow> 'd \<Rightarrow> 'd \<times> io_error option" where
  "scrub T d = (case writeAt T d zeroMiB 0 of
                  (d1, Some e) \<Rightarrow> (d1, Some e)
                | (d1, None) \<Rightarrow> syncDev T d1)"

definition Scrub :: "'d Target \<Rightarrow> 'd \<Rightarrow> 'd \<times> io_error option" where
  "Scrub T d = scrub T d"

function copyAt :: "'d Target \<Rightarrow> nat \<Rightarrow> nat \<Rightarrow> nat \<Rightarrow> 'd \<Rightarrow> stream \<Rightarrow> 'd \<times> stream \<times> nat \<times> io_error option" where
  "copyAt T offset want done' d st =
     (if want \<le> done' then (d, st, done', None)
      else (case readFull (min chunkMax (want - done')) [] st of (bs, e, st1) \<Rightarrow>
        (case (if bs \<noteq> [] then writeAt T d bs (offset + done') else (d, None)) of
           (d1, Some werr) \<Rightarrow> (d1, st1, done', Some werr)
         | (d1, None) \<Rightarrow>
             (case e of
                None \<Rightarrow> copyAt T offset want (done' + length bs) d1 st1
              | Some x \<Rightarrow> (d1, st1, done' + length bs,
                           if x = EOF \<or> x = ErrUnexpectedEOF then None else Some x)))))"
  by pat_completeness auto
termination
  by (relation "measure (\<lambda>(T, off, want, done', d, st). want - done')")
     (auto dest!: sym[of _ "readFull _ _ _"] readFull_length simp: chunkMax_def)

declare copyAt.simps [simp del]

datatype readback_error = ReadErr io_error | NoProgress

fun readBack :: "'d Target \<Rightarrow> nat \<Rightarrow> nat \<Rightarrow> bytes \<Rightarrow> 'd \<Rightarrow> 'd \<times> (readback_error + bytes)" where
  "readBack T sz 0 acc d = (d, Inl NoProgress)"
| "readBack T sz (Suc fuel) acc d =
     (if sz \<le> length acc then (d, Inr acc)
      else (case readAt T d (min chunkMax (sz - length acc)) (length acc) of (d1, bs, e) \<Rightarrow>
        (case e of
           None \<Rightarrow> readBack T sz fuel (acc @ bs) d1
         | Some x \<Rightarrow> if x = EOF \<and> length (acc @ bs) = sz then (d1, Inr (acc @ bs))
                     else (d1, Inl (ReadErr x)))))"

definition readBackSHA :: "'d Target \<Rightarrow> nat \<Rightarrow> 'd \<Rightarrow> 'd \<times> (readback_error + string)" where
  "readBackSHA T sz d = (case readBack T sz (Suc sz) [] d of
                           (d1, Inl e) \<Rightarrow> (d1, Inl e)
                         | (d1, Inr bk) \<Rightarrow> (d1, Inr (sha256_hex bk)))"

type_synonym 'd write_outcome = "'d \<times> stream \<times> string list \<times> (write_error + WriteResult)"

definition reject :: "'d Target \<Rightarrow> 'd \<Rightarrow> stream \<Rightarrow> string list \<Rightarrow> write_error \<Rightarrow> 'd write_outcome" where
  "reject T d st said e = (fst (scrub T d), st, said, Inl e)"

definition Write_commit ::
  "'d Target \<Rightarrow> 'd \<Rightarrow> stream \<Rightarrow> string list \<Rightarrow> bytes \<Rightarrow> nat \<Rightarrow> string \<Rightarrow> 'd write_outcome" where
  "Write_commit T d st said first sz got =
     (case writeAt T d first 0 of
        (d1, Some e) \<Rightarrow> reject T d1 st said (WritingSuperblock e)
      | (d1, None) \<Rightarrow>
          (case syncDev T d1 of
             (d2, Some e) \<Rightarrow> reject T d2 st said (SyncFailed e)
           | (d2, None) \<Rightarrow>
               (let said' = said @ [''VERIFYING WRITTEN IMAGE''] in
                (case readBackSHA T sz (dropCaches T (syncAll T d2)) of
                   (d3, Inl (ReadErr e)) \<Rightarrow> reject T d3 st said' (ReadingBack e)
                 | (d3, Inl NoProgress) \<Rightarrow> (d3, st, said', Inl ReadBackHangs)
                 | (d3, Inr bk) \<Rightarrow>
                     if bk \<noteq> got then reject T d3 st said' (ReadBackMismatch bk got)
                     else (d3, st, said', Inr \<lparr>resBytes = int sz, resSHA256 = got\<rparr>)))))"

definition Write_body ::
  "'d Target \<Rightarrow> 'd \<Rightarrow> stream \<Rightarrow> bytes \<Rightarrow> nat \<Rightarrow> string \<Rightarrow> 'd write_outcome" where
  "Write_body T d st first sz wantSHA =
     (let said = [''RECEIVING IMAGE'']; bodyLen = sz - MiB in
      (case copyAt T MiB bodyLen 0 d st of
         (d1, st1, written, Some e) \<Rightarrow> reject T d1 st1 said (WritingBody e)
       | (d1, st1, written, None) \<Rightarrow>
           if written \<noteq> bodyLen then reject T d1 st1 said (ShortImage written bodyLen)
           else (let got = sha256_hex (hashed st1) in
             if wantSHA \<noteq> [] \<and> got \<noteq> wantSHA then reject T d1 st1 said (SHAMismatch got wantSHA)
             else Write_commit T d1 st1 (said @ [''SHA-256 VERIFIED'']) first sz got)))"

definition Write :: "'d Target \<Rightarrow> 'd \<Rightarrow> bytes list \<Rightarrow> io_error \<Rightarrow> int \<Rightarrow> string \<Rightarrow> 'd write_outcome" where
  "Write T d cs end_err sz wantSHA =
     (if sz < int MiB then (d, source cs end_err 0, [], Inl (ImageTooSmall sz))
      else (case scrub T d of
              (d1, Some e) \<Rightarrow> (d1, source cs end_err 0, [], Inl ScrubFailed)
            | (d1, None) \<Rightarrow>
                (case readFull MiB [] (source cs end_err (nat sz)) of
                   (first, Some e, st1) \<Rightarrow> (d1, st1, [], Inl (ReadingWindow e))
                 | (first, None, st1) \<Rightarrow> Write_body T d1 st1 first (nat sz) wantSHA)))"

section \<open>What is received: facts for every device\<close>

lemma MiB_pos [simp]: "0 < MiB"
  by (simp add: MiB_def)

lemma chunkMax_pos [simp]: "0 < chunkMax"
  by (simp add: chunkMax_def)

lemma length_zeroMiB [simp]: "length zeroMiB = MiB"
  by (simp add: zeroMiB_def)

lemma copyAt_stream:
  "copyAt T offset want done' d st = (d', st', w, e) \<Longrightarrow> done' \<le> want \<Longrightarrow>
   (\<exists>k. advance k st st' \<and> k \<le> want - done' \<and>
        (e = None \<longrightarrow> w = done' + k \<and> (w = want \<or> k = length (avail st))))"
proof (induction T offset want done' d st rule: copyAt.induct)
  case (1 T offset want done' d st)
  show ?case
  proof (cases "want \<le> done'")
    case True
    then have "st' = st \<and> w = done'" using 1(2) by (subst (asm) copyAt.simps) simp
    then show ?thesis using True 1(3) advance_refl by (intro exI[of _ 0]) simp
  next
    case False
    let ?n = "min chunkMax (want - done')"
    obtain bs re st1 where r: "readFull ?n [] st = (bs, re, st1)" by (cases "readFull ?n [] st") auto
    obtain d1 we where wr: "(if bs \<noteq> [] then writeAt T d bs (offset + done') else (d, None)) = (d1, we)"
      by (metis surj_pair)
    note rs = readFull_spec[OF r]
    have lb: "length bs \<le> want - done'" using rs(1) by simp
    show ?thesis
    proof (cases "we = None \<and> re = None")
      case True
      then have c: "copyAt T offset want (done' + length bs) d1 st1 = (d', st', w, e)"
        using 1(2) False r wr by (subst (asm) copyAt.simps) simp
      have le: "done' + length bs \<le> want" using lb False by linarith
      from 1(1)[OF False r[symmetric] refl _ _ _ c le] True wr obtain k where
        k: "advance k st1 st'" "k \<le> want - (done' + length bs)"
           "e = None \<longrightarrow> w = done' + length bs + k \<and> (w = want \<or> k = length (avail st1))"
        by auto
      have "length (avail st1) = length (avail st) - length bs"
        using avail_advance[OF rs(2)] by simp
      moreover have "length bs \<le> length (avail st)" using rs(1) by simp
      ultimately show ?thesis
        using advance_trans[OF rs(2) k(1)] k(2,3) lb
        by (intro exI[of _ "length bs + k"]) auto
    next
      case f: False
      then have "st' = st1 \<and> (e = None \<longrightarrow> w = done' + length bs \<and> re \<noteq> None)"
        using 1(2) False r wr by (subst (asm) copyAt.simps) (auto split: option.splits if_splits)
      moreover have "re \<noteq> None \<Longrightarrow> length bs = length (avail st)" using rs(1,3) by auto
      ultimately show ?thesis using rs(2) lb by (intro exI[of _ "length bs"]) auto
    qed
  qed
qed

lemma readBack_length: "readBack T sz fuel acc d = (d', Inr bk) \<Longrightarrow> sz \<le> length bk"
  by (induction T sz fuel acc d rule: readBack.induct)
     (auto split: if_splits prod.splits option.splits)

lemma Write_commit_success:
  assumes "Write_commit T d st said first sz got = (d', st', said', Inr res)"
  shows "st' = st \<and> res = \<lparr>resBytes = int sz, resSHA256 = got\<rparr> \<and>
         said' = said @ [''VERIFYING WRITTEN IMAGE''] \<and>
         (\<exists>d1 d2 bk. writeAt T d first 0 = (d1, None) \<and> syncDev T d1 = (d2, None) \<and>
            readBack T sz (Suc sz) [] (dropCaches T (syncAll T d2)) = (d', Inr bk) \<and>
            sha256_hex bk = got)"
  using assms
  by (auto simp: Write_commit_def reject_def readBackSHA_def Let_def
           split: prod.splits option.splits sum.splits if_splits readback_error.splits)

lemma Write_success_steps:
  assumes "Write T d cs e sz want = (d', st', said, Inr res)"
  obtains d1 st1 d2 st2 where
    "int MiB \<le> sz" "scrub T d = (d1, None)"
    "readFull MiB [] (source cs e (nat sz)) = (take MiB (take (nat sz) (concat cs)), None, st1)"
    "copyAt T MiB (nat sz - MiB) 0 d1 st1 = (d2, st2, nat sz - MiB, None)"
    "want \<noteq> [] \<Longrightarrow> sha256_hex (hashed st2) = want"
    "Write_commit T d2 st2 [''RECEIVING IMAGE'', ''SHA-256 VERIFIED''] (take MiB (take (nat sz) (concat cs)))
       (nat sz) (sha256_hex (hashed st2)) = (d', st', said, Inr res)"
proof -
  obtain d1 first st1 where s: "int MiB \<le> sz" "scrub T d = (d1, None)"
    and r: "readFull MiB [] (source cs e (nat sz)) = (first, None, st1)"
    and b: "Write_body T d1 st1 first (nat sz) want = (d', st', said, Inr res)"
    using assms by (auto simp: Write_def split: if_splits prod.splits option.splits)
  have f: "first = take MiB (take (nat sz) (concat cs))"
    using readFull_spec(1)[OF r] by (simp add: avail_def source_def)
  from b obtain d2 st2 where c: "copyAt T MiB (nat sz - MiB) 0 d1 st1 = (d2, st2, nat sz - MiB, None)"
    "want \<noteq> [] \<longrightarrow> sha256_hex (hashed st2) = want"
    "Write_commit T d2 st2 [''RECEIVING IMAGE'', ''SHA-256 VERIFIED''] first (nat sz)
       (sha256_hex (hashed st2)) = (d', st', said, Inr res)"
    by (auto simp: Write_body_def reject_def Let_def split: prod.splits option.splits if_splits)
  show thesis using that[OF s _ c(1)] r f c(2,3) by blast
qed

lemma received_all:
  assumes r: "readFull MiB [] (source cs e sz) = (first, None, st1)"
    and c: "copyAt T MiB (sz - MiB) 0 d1 st1 = (d2, st2, sz - MiB, None)" and sz: "MiB \<le> sz"
  shows "sz \<le> length (concat cs) \<and> hashed st2 = take sz (concat cs) \<and>
         concat (pending st2) = drop sz (concat cs) \<and>
         avail st1 = drop MiB (take sz (concat cs)) \<and> first = take MiB (take sz (concat cs))"
proof -
  have av: "avail (source cs e sz) = take sz (concat cs)" by (simp add: avail_def source_def)
  have l: "length first = MiB" by (rule readFull_length[OF r])
  have a1: "advance MiB (source cs e sz) st1" using readFull_spec(2)[OF r] l by simp
  obtain k where k: "advance k st1 st2" "sz - MiB = k"
    using copyAt_stream[OF c] by auto
  have "MiB + k = sz" using k(2) sz by simp
  then have "advance sz (source cs e sz) st2" using advance_trans[OF a1 k(1)] by metis
  then have "sz \<le> length (concat cs)" "hashed st2 = take sz (concat cs)"
      "concat (pending st2) = drop sz (concat cs)"
    using av by (auto simp: advance_def source_def)
  then show ?thesis using avail_advance[OF a1] av readFull_spec(1)[OF r] by simp
qed

lemma Write_success_digest:
  assumes "Write T d cs e sz want = (d', st', said, Inr res)"
  shows "res = \<lparr>resBytes = sz, resSHA256 = sha256_hex (take (nat sz) (concat cs))\<rparr> \<and>
         (want = [] \<or> want = sha256_hex (take (nat sz) (concat cs)))"
proof -
  obtain d1 st1 d2 st2 where w: "int MiB \<le> sz"
    "readFull MiB [] (source cs e (nat sz)) = (take MiB (take (nat sz) (concat cs)), None, st1)"
    "copyAt T MiB (nat sz - MiB) 0 d1 st1 = (d2, st2, nat sz - MiB, None)"
    "want \<noteq> [] \<longrightarrow> sha256_hex (hashed st2) = want"
    "Write_commit T d2 st2 [''RECEIVING IMAGE'', ''SHA-256 VERIFIED''] (take MiB (take (nat sz) (concat cs)))
       (nat sz) (sha256_hex (hashed st2)) = (d', st', said, Inr res)"
    by (rule Write_success_steps[OF assms]) blast
  have "MiB \<le> nat sz" using w(1) by simp
  from received_all[OF w(2,3) this] Write_commit_success[OF w(5)] w(1,4) show ?thesis by auto
qed

section \<open>A device that stores what it is told\<close>

lemma copy_at_Nil [simp]: "copy_at off [] dst = dst"
  by (simp add: copy_at_def)

lemma copy_at_copy_at:
  assumes "off + length xs + length ys \<le> length dst"
  shows "copy_at (off + length xs) ys (copy_at off xs dst) = copy_at off (xs @ ys) dst"
proof -
  have a: "copy_at off xs dst = (take off dst @ xs) @ drop (off + length xs) dst"
    using assms by (simp add: copy_at_fits)
  have l: "length (copy_at off xs dst) = length dst" using assms by simp
  have "copy_at (off + length xs) ys (copy_at off xs dst) =
        take (off + length xs) (copy_at off xs dst) @ ys @ drop (off + length xs + length ys) (copy_at off xs dst)"
    using assms l by (simp add: copy_at_fits)
  also have "take (off + length xs) (copy_at off xs dst) = take off dst @ xs"
    unfolding a using assms by simp
  also have "drop (off + length xs + length ys) (copy_at off xs dst) = drop (off + length (xs @ ys)) dst"
    using assms by (subst drop_copy_at_after) (simp_all add: add.assoc)
  also have "(take off dst @ xs) @ ys @ drop (off + length (xs @ ys)) dst = copy_at off (xs @ ys) dst"
    using assms by (subst copy_at_fits) simp_all
  finally show ?thesis .
qed

text \<open>The last operation was a refused write of zeros; and a first MiB of zeros and bytes of an image.\<close>

definition zeros_refused :: "'d Target \<Rightarrow> ('d \<Rightarrow> bytes) \<Rightarrow> 'd \<Rightarrow> bool" where
  "zeros_refused T content d' \<longleftrightarrow> (\<exists>d1 x. MiB \<le> length (content d1) \<and> writeAt T d1 zeroMiB 0 = (d', Some x))"

definition mixed :: "bytes \<Rightarrow> bytes \<Rightarrow> bool" where
  "mixed first bs \<longleftrightarrow> (\<forall>i<MiB. bs ! i = 0 \<or> bs ! i = first ! i)"

lemma zeros_over_zeros:
  fixes xs :: bytes
  assumes "take n xs = replicate n 0" "n \<le> length xs" "k \<le> n"
  shows "take n (replicate k 0 @ drop k xs) = replicate n 0"
proof -
  have "take n (replicate k 0 @ drop k xs) = replicate k 0 @ drop k (take n xs)" using assms(3) by (simp add: drop_take)
  also have "\<dots> = replicate n 0" using assms(1,3) by (simp add: replicate_add[symmetric])
  finally show ?thesis .
qed

locale disk_target =
  fixes T :: "'d Target" and content :: "'d \<Rightarrow> bytes"
  assumes write_ok: "writeAt T d bs off = (d', None) \<Longrightarrow>
      off + length bs \<le> length (content d) \<and> content d' = copy_at off bs (content d)"
    and write_partial: "writeAt T d bs off = (d', Some e) \<Longrightarrow>
      \<exists>k. off + length (take k bs) \<le> length (content d) \<and> content d' = copy_at off (take k bs) (content d)
          \<or> content d' = content d"
    and read_ok: "readAt T d n off = (d', bs, None) \<Longrightarrow>
      bs = take n (drop off (content d)) \<and> length bs = n \<and> content d' = content d"
    and read_fail: "readAt T d n off = (d', bs, Some e) \<Longrightarrow>
      (\<exists>k\<le>n. bs = take k (drop off (content d))) \<and> content d' = content d"
    and sync_keeps: "content (fst (syncDev T d)) = content d"
    and syncAll_keeps: "content (syncAll T d) = content d"
    and drop_keeps: "content (dropCaches T d) = content d"
begin

lemma write_keeps_length:
  "writeAt T d bs off = (d', e) \<Longrightarrow> length (content d') = length (content d)"
proof (cases e)
  case None
  moreover assume "writeAt T d bs off = (d', e)"
  ultimately show ?thesis using write_ok[of d bs off d'] by simp
next
  case (Some x)
  moreover assume "writeAt T d bs off = (d', e)"
  ultimately show ?thesis using write_partial[of d bs off d' x] by auto
qed

lemma write_keeps_before:
  assumes "writeAt T d bs off = (d', e)" "n \<le> off"
  shows "take n (content d') = take n (content d)"
proof (cases e)
  case None
  then show ?thesis using write_ok[of d bs off d'] assms by (simp add: take_copy_at_before)
next
  case (Some x)
  then show ?thesis using write_partial[of d bs off d' x] assms by (auto simp: take_copy_at_before)
qed

lemma scrub_zeroes:
  assumes "scrub T d = (d', None)"
  shows "take MiB (content d') = zeroMiB \<and> MiB \<le> length (content d) \<and>
         content d' = copy_at 0 zeroMiB (content d)"
proof -
  obtain d1 where w: "writeAt T d zeroMiB 0 = (d1, None)" and s: "syncDev T d1 = (d', None)"
    using assms by (auto simp: scrub_def split: prod.splits option.splits)
  have "content d' = content d1" using sync_keeps[of d1] s by simp
  then show ?thesis using write_ok[OF w] by (simp add: copy_at_fits)
qed

lemma copyAt_keeps:
  "copyAt T off want done' d st = (d', st', w, e) \<Longrightarrow>
   length (content d') = length (content d) \<and> take off (content d') = take off (content d)"
proof (induction T\<equiv>T off want done' d st rule: copyAt.induct)
  case (1 off want done' d st)
  show ?case
  proof (cases "want \<le> done'")
    case True
    then show ?thesis using 1(2) by (subst (asm) copyAt.simps) simp
  next
    case False
    let ?n = "min chunkMax (want - done')"
    obtain bs re st1 where r: "readFull ?n [] st = (bs, re, st1)" by (cases "readFull ?n [] st") auto
    obtain d1 we where wr: "(if bs \<noteq> [] then writeAt T d bs (off + done') else (d, None)) = (d1, we)"
      by (metis surj_pair)
    have d1: "length (content d1) = length (content d) \<and> take off (content d1) = take off (content d)"
      using wr write_keeps_length[of d bs "off + done'" d1 we]
        write_keeps_before[of d bs "off + done'" d1 we off]
      by (cases "bs = []") simp_all
    show ?thesis
    proof (cases "we = None \<and> re = None")
      case True
      then have "copyAt T off want (done' + length bs) d1 st1 = (d', st', w, e)"
        using 1(2) False r wr by (subst (asm) copyAt.simps) simp
      from 1(1)[OF False r[symmetric] refl _ _ _ this] True wr
      have "length (content d') = length (content d1) \<and> take off (content d') = take off (content d1)"
        by simp
      then show ?thesis using d1 by simp
    next
      case f: False
      then have "d' = d1"
        using 1(2) False r wr by (subst (asm) copyAt.simps) (auto split: option.splits if_splits)
      then show ?thesis using d1 by simp
    qed
  qed
qed

lemma copyAt_writes:
  "copyAt T off want done' d st = (d', st', w, None) \<Longrightarrow> done' \<le> want \<Longrightarrow>
   off + done' \<le> length (content d) \<Longrightarrow>
   content d' = copy_at (off + done') (take (w - done') (avail st)) (content d) \<and>
   (off + w \<le> length (content d))"
proof (induction T\<equiv>T off want done' d st rule: copyAt.induct)
  case (1 off want done' d st)
  show ?case
  proof (cases "want \<le> done'")
    case True
    then show ?thesis using 1(2,4) by (subst (asm) copyAt.simps) simp
  next
    case False
    let ?n = "min chunkMax (want - done')"
    obtain bs re st1 where r: "readFull ?n [] st = (bs, re, st1)" by (cases "readFull ?n [] st") auto
    note rs = readFull_spec[OF r]
    have lb: "length bs \<le> want - done'" using rs(1) by simp
    have bs: "bs = take (length bs) (avail st)" using rs(1) by (simp add: min_def)
    obtain d1 where wr: "(if bs \<noteq> [] then writeAt T d bs (off + done') else (d, None)) = (d1, None)"
      using 1(2) False r by (subst (asm) copyAt.simps) (auto split: option.splits prod.splits if_splits)
    have d1: "off + done' + length bs \<le> length (content d) \<and>
              content d1 = copy_at (off + done') bs (content d)"
      using wr write_ok[of d bs "off + done'" d1] 1(4) by (auto split: if_splits)
    show ?thesis
    proof (cases re)
      case None
      then have c: "copyAt T off want (done' + length bs) d1 st1 = (d', st', w, None)"
        using 1(2) False r wr by (subst (asm) copyAt.simps) simp
      have le: "done' + length bs \<le> want" using lb False by linarith
      have "off + (done' + length bs) \<le> length (content d1)" using d1 by simp
      from 1(1)[OF False r[symmetric] refl wr[symmetric] refl None c le this]
      have ih: "content d' = copy_at (off + (done' + length bs)) (take (w - (done' + length bs)) (avail st1)) (content d1)"
        "off + w \<le> length (content d1)" by auto
      obtain k where k: "w = done' + length bs + k" "advance k st1 st'"
        using copyAt_stream[OF c le] by auto
      have kl: "length (take k (avail st1)) = k" using k(2) by (simp add: advance_def)
      have av: "avail st1 = drop (length bs) (avail st)" by (rule avail_advance[OF rs(2)])
      have "content d' = copy_at (off + done' + length bs) (take k (avail st1)) (copy_at (off + done') bs (content d))"
        using ih(1) d1 k(1) by (simp add: add.assoc)
      also have "\<dots> = copy_at (off + done') (bs @ take k (avail st1)) (content d)"
        by (rule copy_at_copy_at) (use kl ih(2) d1 k(1) in simp)
      also have "bs @ take k (avail st1) = take (w - done') (avail st)"
        using bs av k(1) by (metis add.assoc add_diff_cancel_left' take_add)
      finally show ?thesis using ih(2) d1 by simp
    next
      case (Some x)
      then have "d' = d1 \<and> w = done' + length bs"
        using 1(2) False r wr by (subst (asm) copyAt.simps) (auto split: if_splits)
      then show ?thesis using d1 bs by simp
    qed
  qed
qed

lemma readBack_content:
  "readBack T sz fuel acc d = (d', r) \<Longrightarrow> content d' = content d \<and>
   (acc = take (length acc) (content d) \<longrightarrow> length acc \<le> sz \<longrightarrow> (\<forall>bk. r = Inr bk \<longrightarrow> bk = take sz (content d)))"
proof (induction T\<equiv>T sz fuel acc d rule: readBack.induct)
  case (1 sz acc d)
  then show ?case by auto
next
  case (2 sz fuel acc d)
  show ?case
  proof (cases "sz \<le> length acc")
    case True
    then show ?thesis using 2(2) by auto
  next
    case False
    let ?n = "min chunkMax (sz - length acc)"
    obtain d1 bs e where rd: "readAt T d ?n (length acc) = (d1, bs, e)"
      by (cases "readAt T d ?n (length acc)") auto
    show ?thesis
    proof (cases e)
      case None
      have b: "bs = take ?n (drop (length acc) (content d))" "length bs = ?n" "content d1 = content d"
        using read_ok[of d ?n "length acc" d1 bs] rd None by auto
      have rb: "readBack T sz fuel (acc @ bs) d1 = (d', r)" using 2(2) False rd None by simp
      have "acc = take (length acc) (content d) \<Longrightarrow> acc @ bs = take (length (acc @ bs)) (content d)"
        using b by (metis length_append take_add)
      moreover have "length (acc @ bs) \<le> sz" using b False by simp
      ultimately show ?thesis using 2(1)[OF False rd[symmetric] refl None rb] b(3) by simp
    next
      case (Some x)
      obtain k where k: "bs = take k (drop (length acc) (content d))" "content d1 = content d"
        using read_fail[of d ?n "length acc" d1 bs x] rd Some by auto
      have "acc = take (length acc) (content d) \<Longrightarrow> length (acc @ bs) = sz \<Longrightarrow> acc @ bs = take sz (content d)"
        using k(1) by (metis append_eq_conv_conj length_append length_take min.absorb2 nat_le_linear take_add take_all take_take)
      then show ?thesis using 2(2) False rd Some k(2) by (auto split: if_splits)
    qed
  qed
qed

lemma readBack_progress:
  "readBack T sz fuel acc d = (d', r) \<Longrightarrow> sz - length acc < fuel \<Longrightarrow> r \<noteq> Inl NoProgress"
proof (induction T\<equiv>T sz fuel acc d rule: readBack.induct)
  case (1 sz acc d)
  then show ?case by simp
next
  case (2 sz fuel acc d)
  show ?case
  proof (cases "sz \<le> length acc")
    case True
    then show ?thesis using 2(2) by auto
  next
    case False
    let ?n = "min chunkMax (sz - length acc)"
    obtain d1 bs e where rd: "readAt T d ?n (length acc) = (d1, bs, e)"
      by (cases "readAt T d ?n (length acc)") auto
    show ?thesis
    proof (cases e)
      case None
      have b: "length bs = ?n" using read_ok[of d ?n "length acc" d1 bs] rd None by auto
      then have "0 < length bs" using False chunkMax_pos by (simp add: min_def)
      then have f: "sz - length (acc @ bs) < fuel" using 2(3) False unfolding length_append by linarith
      have "readBack T sz fuel (acc @ bs) d1 = (d', r)" using 2(2) False rd None by simp
      from 2(1)[OF False rd[symmetric] refl None this f] show ?thesis .
    next
      case (Some x)
      then show ?thesis using 2(2) False rd by (auto split: if_splits)
    qed
  qed
qed

lemma Write_success_content:
  assumes "Write T d cs e sz want = (d', st', said, Inr res)"
  shows "nat sz \<le> length (content d) \<and> nat sz \<le> length (concat cs) \<and>
         content d' = take (nat sz) (concat cs) @ drop (nat sz) (content d)"
proof -
  let ?img = "take (nat sz) (concat cs)"
  obtain d1 st1 d2 st2 where w: "int MiB \<le> sz" "scrub T d = (d1, None)"
    "readFull MiB [] (source cs e (nat sz)) = (take MiB ?img, None, st1)"
    "copyAt T MiB (nat sz - MiB) 0 d1 st1 = (d2, st2, nat sz - MiB, None)"
    "Write_commit T d2 st2 [''RECEIVING IMAGE'', ''SHA-256 VERIFIED''] (take MiB ?img)
       (nat sz) (sha256_hex (hashed st2)) = (d', st', said, Inr res)"
    by (rule Write_success_steps[OF assms]) blast
  have sz: "MiB \<le> nat sz" using w(1) by simp
  have rec: "nat sz \<le> length (concat cs)" "avail st1 = drop MiB ?img"
    using received_all[OF w(3,4) sz] by auto
  obtain d3 d4 bk where c: "writeAt T d2 (take MiB ?img) 0 = (d3, None)" "syncDev T d3 = (d4, None)"
    "readBack T (nat sz) (Suc (nat sz)) [] (dropCaches T (syncAll T d4)) = (d', Inr bk)"
    using Write_commit_success[OF w(5)] by blast
  have sc: "content d1 = copy_at 0 zeroMiB (content d)" "MiB \<le> length (content d)"
    using scrub_zeroes[OF w(2)] by auto
  have len1: "length (content d1) = length (content d)" using sc by simp
  have body: "content d2 = copy_at MiB (take (nat sz - MiB) (avail st1)) (content d1)"
      "nat sz \<le> length (content d1)"
    using copyAt_writes[OF w(4)] sc len1 sz by auto
  have b: "take (nat sz - MiB) (avail st1) = drop MiB ?img" using rec by simp
  have lb: "length (drop MiB ?img) = nat sz - MiB" using rec(1) by simp
  have drop2: "drop MiB (content d2) = drop MiB ?img @ drop (nat sz) (content d1)"
    using body b lb sz by (simp add: drop_copy_at_same)
  have "drop (nat sz) (content d1) = drop (nat sz) (content d)"
    unfolding sc(1) using sz sc(2) by (subst drop_copy_at_after) simp_all
  with drop2 have d2: "drop MiB (content d2) = drop MiB ?img @ drop (nat sz) (content d)" by simp
  have "content d' = content d3"
    using readBack_content[OF c(3)] drop_keeps syncAll_keeps sync_keeps[of d3] c(2) by simp
  also have "\<dots> = take MiB ?img @ drop MiB (content d2)"
  proof -
    have "length (take MiB ?img) = MiB" using rec(1) sz by simp
    then show ?thesis using write_ok[OF c(1)] by (simp add: copy_at_fits)
  qed
  also have "\<dots> = ?img @ drop (nat sz) (content d)"
    unfolding d2 by (metis append.assoc append_take_drop_id)
  finally show ?thesis using rec(1) body(2) len1 by simp
qed

lemma zeros_partial:
  assumes "writeAt T d zeroMiB 0 = (d', r)"
  shows "\<exists>k\<le>MiB. k \<le> length (content d) \<and> content d' = replicate k 0 @ drop k (content d) \<and> (r = None \<longrightarrow> k = MiB)"
proof (cases r)
  case None
  then show ?thesis using write_ok[of d zeroMiB 0 d'] assms by (auto simp: zeroMiB_def copy_at_fits)
next
  case (Some x)
  then obtain k where "length (take k zeroMiB) \<le> length (content d) \<and> content d' = copy_at 0 (take k zeroMiB) (content d)
      \<or> content d' = content d"
    using write_partial[of d zeroMiB 0 d' x] assms by auto
  then show ?thesis
    using Some by (auto simp: zeroMiB_def copy_at_fits intro: exI[of _ "min k MiB"] exI[of _ 0])
qed

text \<open>A scrub only ever puts zeros in front; unless its write was refused, the first MiB is zero afterwards.\<close>

lemma scrub_effect:
  assumes "scrub T d = (d', r)" "MiB \<le> length (content d)"
  shows "(\<exists>k\<le>MiB. content d' = replicate k 0 @ drop k (content d)) \<and>
         (take MiB (content d') = zeroMiB \<or> zeros_refused T content d') \<and> (r = None \<longrightarrow> take MiB (content d') = zeroMiB)"
proof -
  obtain d1 w where w: "writeAt T d zeroMiB 0 = (d1, w)" by fastforce
  obtain k where k: "k \<le> MiB" "content d1 = replicate k 0 @ drop k (content d)" "w = None \<longrightarrow> k = MiB"
    using zeros_partial[OF w] by blast
  show ?thesis
  proof (cases w)
    case None
    then have "content d' = content d1" using assms(1) w sync_keeps[of d1] by (simp add: scrub_def)
    then show ?thesis using k None assms(2) by (auto simp: zeroMiB_def)
  next
    case (Some x)
    then have "d' = d1" "r = Some x" using assms(1) w by (simp_all add: scrub_def)
    then show ?thesis using k w Some assms(2) by (auto simp: zeros_refused_def)
  qed
qed

lemma reject_keeps_zero:
  assumes "reject T d st said e = (d', r)" "take MiB (content d) = zeroMiB"
  shows "take MiB (content d') = zeroMiB"
proof -
  have l: "MiB \<le> length (content d)" using assms(2) by (metis length_take length_zeroMiB min.cobounded1)
  obtain k where "k \<le> MiB" "content d' = replicate k 0 @ drop k (content d)"
    using scrub_effect[OF prod.collapse[symmetric] l] assms(1) by (auto simp: reject_def)
  then show ?thesis using zeros_over_zeros[of MiB "content d" k] assms(2) l by (simp add: zeroMiB_def)
qed

text \<open>What a rejected commit can leave: zeros, or, if the closing scrub was refused, zeros and bytes of the image.\<close>

lemma reject_mixed:
  assumes "reject T d st said e = (d', r)" "mixed first (content d)" "MiB \<le> length (content d)"
  shows "take MiB (content d') = zeroMiB \<or> zeros_refused T content d' \<and> mixed first (content d')"
proof -
  have s: "scrub T d = (d', snd (scrub T d))" using assms(1) by (simp add: reject_def prod_eq_iff)
  obtain k where k: "k \<le> MiB" "content d' = replicate k 0 @ drop k (content d)"
    using scrub_effect[OF s assms(3)] by blast
  have "mixed first (content d')"
    using assms(2,3) k by (auto simp: mixed_def nth_append)
  then show ?thesis using scrub_effect[OF s assms(3)] by blast
qed

lemma write_mixed:
  assumes "writeAt T d first 0 = (d', r)" "take MiB (content d) = zeroMiB" "length first = MiB"
  shows "mixed first (content d')"
proof -
  have z: "content d ! i = 0" if "i < MiB" for i
    using assms(2) that by (metis nth_replicate nth_take zeroMiB_def)
  have "(\<exists>k. length (take k first) \<le> length (content d) \<and> content d' = copy_at 0 (take k first) (content d)) \<or> content d' = content d"
    using write_ok[of d first 0 d'] write_partial[of d first 0 d'] assms(1)
    by (cases r) (auto intro: exI[of _ "length first"])
  then show ?thesis using z by (auto simp: mixed_def copy_at_fits nth_append)
qed

lemma Write_commit_fails:
  assumes w: "Write_commit T d st said first sz got = (d', st', said', Inl e)"
    and z: "take MiB (content d) = zeroMiB" and f: "length first = MiB"
  shows "take MiB (content d') = zeroMiB \<or> zeros_refused T content d' \<and> mixed first (content d')"
proof -
  have l: "MiB \<le> length (content d)" using z by (metis length_take length_zeroMiB min.cobounded1)
  obtain d1 e1 where wr: "writeAt T d first 0 = (d1, e1)" by fastforce
  have 1: "mixed first (content d1)" "MiB \<le> length (content d1)"
    using write_mixed[OF wr z f] write_keeps_length[OF wr] l by simp_all
  obtain d2 e2 where sy: "syncDev T d1 = (d2, e2)" by fastforce
  have 2: "content d2 = content d1" using sync_keeps[of d1] sy by simp
  obtain d3 rb where r: "readBack T sz (Suc sz) [] (dropCaches T (syncAll T d2)) = (d3, rb)" by fastforce
  have 3: "content d3 = content d1" using readBack_content[OF r] drop_keeps syncAll_keeps 2 by simp
  have np: "rb \<noteq> Inl NoProgress" using readBack_progress[OF r] by simp
  have rej: "take MiB (content d') = zeroMiB \<or> zeros_refused T content d' \<and> mixed first (content d')"
    if "reject T d0 st s x = (d', st', said', Inl e)" "content d0 = content d1" for d0 s x
    using reject_mixed[OF that(1)] that(2) 1 by simp
  show ?thesis
    using w wr sy r np rej[of d1] rej[of d2] rej[of d3] 2 3
    by (auto simp: Write_commit_def readBackSHA_def Let_def simp del: readBack.simps
             split: option.splits sum.splits if_splits readback_error.splits)
qed

lemma Write_fails:
  assumes w: "Write T d cs e0 sz want = (d', st', said', Inl e)" and sz: "int MiB \<le> sz"
    and l: "MiB \<le> length (content d)"
  defines "img \<equiv> take (nat sz) (concat cs)"
  shows "take MiB (content d') = zeroMiB \<or>
     zeros_refused T content d' \<and>
     ((\<exists>k\<le>MiB. content d' = replicate k 0 @ drop k (content d)) \<and> e = ScrubFailed \<or>
      nat sz \<le> length (concat cs) \<and> want \<in> {[], sha256_hex img} \<and> mixed img (content d'))"
proof -
  obtain d1 se where s: "scrub T d = (d1, se)" by fastforce
  note sc = scrub_effect[OF s l]
  show ?thesis
  proof (cases se)
    case (Some x)
    then have "d' = d1" "e = ScrubFailed" using w s sz by (simp_all add: Write_def)
    then show ?thesis using sc by blast
  next
    case None
    then have z1: "take MiB (content d1) = zeroMiB" using sc by simp
    obtain first re st1 where r: "readFull MiB [] (source cs e0 (nat sz)) = (first, re, st1)" by (metis surj_pair)
    show ?thesis
    proof (cases re)
      case (Some y)
      then have "d' = d1" using w s None sz r by (simp add: Write_def)
      then show ?thesis using z1 by blast
    next
      case re: None
      have b: "Write_body T d1 st1 first (nat sz) want = (d', st', said', Inl e)" using w s None sz r re by (simp add: Write_def)
      obtain d2 st2 n ce where c: "copyAt T MiB (nat sz - MiB) 0 d1 st1 = (d2, st2, n, ce)" by (metis surj_pair)
      have z2: "take MiB (content d2) = zeroMiB" using copyAt_keeps[OF c] z1 by simp
      have rej: "take MiB (content d') = zeroMiB" if "reject T d2 st2 x y = (d', st', said', Inl e)" for x y
        using reject_keeps_zero[OF that z2] .
      show ?thesis
      proof (cases "ce = None \<and> n = nat sz - MiB \<and> (want = [] \<or> sha256_hex (hashed st2) = want)")
        case False
        then show ?thesis using b c rej by (auto simp: Write_body_def Let_def split: option.splits if_splits)
      next
        case True
        have m: "MiB \<le> nat sz" using sz by simp
        have c': "copyAt T MiB (nat sz - MiB) 0 d1 st1 = (d2, st2, nat sz - MiB, None)" using c True by simp
        have ra: "nat sz \<le> length (concat cs)" "hashed st2 = img" "first = take MiB img"
          using received_all[OF r[unfolded re] c' m] unfolding img_def by auto
        have lf: "length first = MiB" using readFull_length[OF r[unfolded re]] .
        have "Write_commit T d2 st2 ([''RECEIVING IMAGE''] @ [''SHA-256 VERIFIED'']) first (nat sz) (sha256_hex (hashed st2)) =
            (d', st', said', Inl e)" using b c True by (auto simp: Write_body_def Let_def split: if_splits)
        from Write_commit_fails[OF this z2 lf]
        show ?thesis using ra True lf by (auto simp: mixed_def)
      qed
    qed
  qed
qed

end

section \<open>A device without faults\<close>

locale reliable_target = disk_target +
  assumes write_succeeds: "off + length bs \<le> length (content d) \<Longrightarrow> snd (writeAt T d bs off) = None"
    and sync_succeeds: "snd (syncDev T d) = None"
    and read_succeeds: "off + n \<le> length (content d) \<Longrightarrow> snd (snd (readAt T d n off)) = None"
begin

lemma copyAt_succeeds:
  "done' \<le> want \<Longrightarrow> off + want \<le> length (content d) \<Longrightarrow> want - done' \<le> length (avail st) \<Longrightarrow>
   \<exists>d' st'. copyAt T off want done' d st = (d', st', want, None)"
proof (induction T\<equiv>T off want done' d st rule: copyAt.induct)
  case (1 off want done' d st)
  show ?case
  proof (cases "want \<le> done'")
    case True
    then show ?thesis using 1(2) by (subst copyAt.simps) simp
  next
    case False
    let ?n = "min chunkMax (want - done')"
    obtain bs re st1 where r: "readFull ?n [] st = (bs, re, st1)" by (cases "readFull ?n [] st") auto
    note rs = readFull_spec[OF r]
    have re: "re = None" using rs(3) 1(4) by simp
    then have lb: "length bs = ?n" using readFull_length r by blast
    then have ne: "bs \<noteq> []" using False chunkMax_pos by (metis list.size(3) min_def not_less_eq_eq not_one_le_zero zero_less_diff linorder_not_less less_irrefl)
    have fits: "off + done' + length bs \<le> length (content d)" using lb 1(3) False by linarith
    obtain d1 where wr: "writeAt T d bs (off + done') = (d1, None)"
      using write_succeeds[OF fits] by (metis prod.collapse)
    have c: "copyAt T off want done' d st = copyAt T off want (done' + length bs) d1 st1"
      using False r wr re ne by (subst copyAt.simps) simp
    have "off + want \<le> length (content d1)" using 1(3) write_keeps_length[OF wr] by simp
    moreover have "want - (done' + length bs) \<le> length (avail st1)"
      using avail_advance[OF rs(2)] 1(4) by simp
    moreover have "done' + length bs \<le> want" using lb False by linarith
    moreover have "(d1, None) = (if bs \<noteq> [] then writeAt T d bs (off + done') else (d, None))"
      using wr ne by simp
    ultimately show ?thesis using 1(1)[OF False r[symmetric] refl _ refl re] c by simp
  qed
qed

lemma readBack_succeeds:
  "sz \<le> length (content d) \<Longrightarrow> length acc \<le> sz \<Longrightarrow> sz - length acc < fuel \<Longrightarrow>
   \<exists>d' bk. readBack T sz fuel acc d = (d', Inr bk)"
proof (induction T\<equiv>T sz fuel acc d rule: readBack.induct)
  case (1 sz acc d)
  then show ?case by simp
next
  case (2 sz fuel acc d)
  show ?case
  proof (cases "sz \<le> length acc")
    case False
    let ?n = "min chunkMax (sz - length acc)"
    have "length acc + ?n \<le> length (content d)" using 2(2) False by linarith
    from read_succeeds[OF this] obtain d1 bs where rd: "readAt T d ?n (length acc) = (d1, bs, None)"
      by (metis prod.collapse)
    have b: "length bs = ?n" "content d1 = content d" using read_ok[OF rd] by auto
    then have "0 < length bs" using False chunkMax_pos by (simp add: min_def)
    then have "sz - length (acc @ bs) < fuel" using 2(4) False unfolding length_append by linarith
    moreover have "length (acc @ bs) \<le> sz" using b False by simp
    ultimately show ?thesis using 2(1)[OF False rd[symmetric] refl refl] b(2) 2(2) False rd by simp
  qed auto
qed

lemma Write_succeeds:
  assumes sz: "int MiB \<le> sz" "nat sz \<le> length (content d)" "nat sz \<le> length (concat cs)"
    and want: "want \<in> {[], sha256_hex (take (nat sz) (concat cs))}"
  shows "\<exists>d' st' said. Write T d cs e sz want =
           (d', st', said, Inr \<lparr>resBytes = sz, resSHA256 = sha256_hex (take (nat sz) (concat cs))\<rparr>)"
proof -
  let ?img = "take (nat sz) (concat cs)"
  have m: "MiB \<le> nat sz" using sz(1) by simp
  have "snd (writeAt T d zeroMiB 0) = None" using m sz(2) by (intro write_succeeds) simp
  then obtain d1 where s: "scrub T d = (d1, None)"
    using sync_succeeds by (cases "writeAt T d zeroMiB 0") (auto simp: scrub_def prod_eq_iff)
  have l1: "length (content d1) = length (content d)" using scrub_zeroes[OF s] by simp
  obtain first fe st1 where r0: "readFull MiB [] (source cs e (nat sz)) = (first, fe, st1)"
    by (metis surj_pair)
  have av: "avail (source cs e (nat sz)) = ?img" by (simp add: avail_def source_def)
  have "fe = None" using readFull_spec(3)[OF r0] av m sz(3) by simp
  then have r: "readFull MiB [] (source cs e (nat sz)) = (first, None, st1)" using r0 by simp
  have "avail st1 = drop MiB ?img"
    using avail_advance[OF readFull_spec(2)[OF r]] readFull_length[OF r] av by simp
  then have "nat sz - MiB - 0 \<le> length (avail st1)" using sz(3) by simp
  from copyAt_succeeds[OF _ _ this, of MiB d1] obtain d2 st2 where
    c: "copyAt T MiB (nat sz - MiB) 0 d1 st1 = (d2, st2, nat sz - MiB, None)"
    using l1 sz(2) m by auto
  have h: "hashed st2 = ?img" using received_all[OF r c m] by simp
  have l2: "length (content d2) = length (content d)" using copyAt_keeps[OF c] l1 by simp
  have lf: "length first = MiB" by (rule readFull_length[OF r])
  obtain d3 where w: "writeAt T d2 first 0 = (d3, None)"
    using write_succeeds[of 0 first d2] lf l2 m sz(2) by (metis add_0 order_trans prod.collapse)
  obtain d4 where y: "syncDev T d3 = (d4, None)" using sync_succeeds by (metis prod.collapse)
  let ?d5 = "dropCaches T (syncAll T d4)"
  have c5: "content ?d5 = content d3" using drop_keeps syncAll_keeps sync_keeps[of d3] y by simp
  have l5: "nat sz \<le> length (content ?d5)" using c5 write_keeps_length[OF w] l2 sz(2) by simp
  from readBack_succeeds[OF l5, of "[]" "Suc (nat sz)"] obtain d6 bk where
    rb: "readBack T (nat sz) (Suc (nat sz)) [] ?d5 = (d6, Inr bk)" by auto
  have "bk = take (nat sz) (content ?d5)" using readBack_content[OF rb] by simp
  also have "\<dots> = take (nat sz) (take MiB first @ drop MiB (content d2))"
    using c5 write_ok[OF w] lf by (simp add: copy_at_fits)
  also have "\<dots> = ?img"
  proof -
    have "content d2 = copy_at MiB (take (nat sz - MiB) (avail st1)) (content d1)"
      using copyAt_writes[OF c] l1 m sz(2) by simp
    moreover have "take (nat sz - MiB) (avail st1) = drop MiB ?img"
      using \<open>avail st1 = drop MiB ?img\<close> by simp
    moreover have "length (drop MiB ?img) = nat sz - MiB" using sz(3) by simp
    ultimately have "drop MiB (content d2) = drop MiB ?img @ drop (nat sz) (content d1)"
      using l1 sz(2) m by (simp add: drop_copy_at_same)
    moreover have "first = take MiB ?img" using received_all[OF r c m] by simp
    ultimately have "take MiB first @ drop MiB (content d2) = ?img @ drop (nat sz) (content d1)"
      by (metis append.assoc append_take_drop_id take_take min.idem)
    then show ?thesis using sz(3) by simp
  qed
  finally have "sha256_hex bk = sha256_hex (hashed st2)" using h by simp
  then have "Write_commit T d2 st2 [''RECEIVING IMAGE'', ''SHA-256 VERIFIED''] first (nat sz) (sha256_hex (hashed st2))
      = (d6, st2, [''RECEIVING IMAGE'', ''SHA-256 VERIFIED'', ''VERIFYING WRITTEN IMAGE''],
         Inr \<lparr>resBytes = int (nat sz), resSHA256 = sha256_hex (hashed st2)\<rparr>)"
    using w y rb by (simp add: Write_commit_def readBackSHA_def)
  then show ?thesis using s r c sz(1) want h by (auto simp: Write_def Write_body_def Let_def)
qed

end

end
