(* ===== verification/Disk.thy ===== *)
theory Disk
  imports Imagewrite
begin

text \<open>
  The device behind \<^verbatim>\<open>*os.File\<close>: a fixed number of bytes and a schedule that decides which
  operation fails and how far it got.  It interprets the contract \<open>disk_target\<close> for every
  schedule and \<open>reliable_target\<close> for the schedule without faults.  The second half wraps any
  device with a log of its operations and shows the order in which \<open>Write\<close> issues them.
\<close>

section \<open>A device with faults\<close>

datatype dev_op = OpWrite nat bytes | OpRead nat nat | OpSync | OpSyncAll | OpDropCaches

datatype fault = NoFault | FailAfter nat

record disk =
  media :: bytes
  clock :: nat

definition tick :: "disk \<Rightarrow> disk" where
  "tick d = d\<lparr>clock := Suc (clock d)\<rparr>"

definition put_media :: "nat \<Rightarrow> bytes \<Rightarrow> disk \<Rightarrow> disk" where
  "put_media off bs d =
     (if off + length bs \<le> length (media d) then d\<lparr>media := copy_at off bs (media d)\<rparr> else d)"

definition disk_write :: "(nat \<Rightarrow> dev_op \<Rightarrow> fault) \<Rightarrow> disk \<Rightarrow> bytes \<Rightarrow> nat \<Rightarrow> disk \<times> io_error option" where
  "disk_write sched d bs off =
     (let room = length (media d) - off in
      (case sched (clock d) (OpWrite off bs) of
         FailAfter k \<Rightarrow> (tick (put_media off (take (min k room) bs) d), Some IOError)
       | NoFault \<Rightarrow> if off + length bs \<le> length (media d) then (tick (put_media off bs d), None)
                    else (tick (put_media off (take room bs) d), Some IOError)))"

definition disk_read :: "(nat \<Rightarrow> dev_op \<Rightarrow> fault) \<Rightarrow> disk \<Rightarrow> nat \<Rightarrow> nat \<Rightarrow> disk \<times> bytes \<times> io_error option" where
  "disk_read sched d n off =
     (case sched (clock d) (OpRead off n) of
        FailAfter k \<Rightarrow> (tick d, take (min k n) (drop off (media d)), Some IOError)
      | NoFault \<Rightarrow> (tick d, take n (drop off (media d)),
                    if off + n \<le> length (media d) then None else Some EOF))"

definition disk_sync :: "(nat \<Rightarrow> dev_op \<Rightarrow> fault) \<Rightarrow> disk \<Rightarrow> disk \<times> io_error option" where
  "disk_sync sched d = (tick d, case sched (clock d) OpSync of NoFault \<Rightarrow> None | FailAfter _ \<Rightarrow> Some IOError)"

definition disk_ops :: "(nat \<Rightarrow> dev_op \<Rightarrow> fault) \<Rightarrow> disk Target" where
  "disk_ops sched = \<lparr>writeAt = disk_write sched, readAt = disk_read sched, syncDev = disk_sync sched,
                      syncAll = tick, dropCaches = tick\<rparr>"

lemma media_tick [simp]: "media (tick d) = media d"
  by (simp add: tick_def)

lemma media_put_media:
  "off + length bs \<le> length (media d) \<Longrightarrow> media (put_media off bs d) = copy_at off bs (media d)"
  by (simp add: put_media_def)

interpretation dt: disk_target "disk_ops sched" media for sched
proof
  fix d bs off d'
  assume "writeAt (disk_ops sched) d bs off = (d', None)"
  then show "off + length bs \<le> length (media d) \<and> media d' = copy_at off bs (media d)"
    by (auto simp: disk_ops_def disk_write_def Let_def media_put_media split: fault.splits if_splits)
next
  fix d bs off d' e
  assume "writeAt (disk_ops sched) d bs off = (d', Some e)"
  then obtain k where "d' = tick (put_media off (take k bs) d)"
    by (auto simp: disk_ops_def disk_write_def Let_def split: fault.splits if_splits)
  then have "off + length (take k bs) \<le> length (media d) \<and> media d' = copy_at off (take k bs) (media d)
      \<or> media d' = media d"
    by (auto simp: put_media_def)
  then show "\<exists>k. off + length (take k bs) \<le> length (media d) \<and> media d' = copy_at off (take k bs) (media d)
      \<or> media d' = media d" by blast
next
  fix d n off d' bs
  assume "readAt (disk_ops sched) d n off = (d', bs, None)"
  then show "bs = take n (drop off (media d)) \<and> length bs = n \<and> media d' = media d"
    by (auto simp: disk_ops_def disk_read_def split: fault.splits if_splits)
next
  fix d n off d' bs e
  assume "readAt (disk_ops sched) d n off = (d', bs, Some e)"
  then have "(bs = take n (drop off (media d)) \<or> (\<exists>k. bs = take (min k n) (drop off (media d)))) \<and> media d' = media d"
    by (auto simp: disk_ops_def disk_read_def split: fault.splits if_splits)
  then show "(\<exists>k\<le>n. bs = take k (drop off (media d))) \<and> media d' = media d"
    by (metis min.cobounded2 order_refl)
qed (simp_all add: disk_ops_def disk_sync_def)

interpretation rt: reliable_target "disk_ops (\<lambda>_ _. NoFault)" media
  by unfold_locales (auto simp: disk_ops_def disk_write_def disk_read_def disk_sync_def Let_def)

section \<open>The order of the operations\<close>

definition logged :: "'d Target \<Rightarrow> ('d \<times> dev_op list) Target" where
  "logged T =
     \<lparr>writeAt = (\<lambda>(d, l) bs off. case writeAt T d bs off of (d', e) \<Rightarrow> ((d', l @ [OpWrite off bs]), e)),
      readAt = (\<lambda>(d, l) n off. case readAt T d n off of (d', bs, e) \<Rightarrow> ((d', l @ [OpRead off n]), bs, e)),
      syncDev = (\<lambda>(d, l). case syncDev T d of (d', e) \<Rightarrow> ((d', l @ [OpSync]), e)),
      syncAll = (\<lambda>(d, l). (syncAll T d, l @ [OpSyncAll])),
      dropCaches = (\<lambda>(d, l). (dropCaches T d, l @ [OpDropCaches]))\<rparr>"

definition low_op :: "dev_op \<Rightarrow> bool" where
  "low_op oper = (case oper of OpWrite off bs \<Rightarrow> off < MiB \<and> bs \<noteq> zeroMiB | _ \<Rightarrow> False)"

fun contiguous :: "nat \<Rightarrow> dev_op list \<Rightarrow> bytes \<Rightarrow> bool" where
  "contiguous off [] data = (data = [])"
| "contiguous off (OpWrite p bs # ops) data =
     (p = off \<and> length bs \<le> length data \<and> bs = take (length bs) data \<and>
      contiguous (off + length bs) ops (drop (length bs) data))"
| "contiguous off (_ # ops) data = False"

lemma logged_write: "writeAt (logged T) (d, l) bs off = ((d', l'), e) \<Longrightarrow> l' = l @ [OpWrite off bs]"
  by (auto simp: logged_def split: prod.splits)

lemma low_op_simps [simp]:
  "low_op (OpWrite off bs) = (off < MiB \<and> bs \<noteq> zeroMiB)"
  "\<not> low_op OpSync" "\<not> low_op OpSyncAll" "\<not> low_op OpDropCaches" "\<not> low_op (OpRead a b)"
  by (simp_all add: low_op_def)

lemma scrub_log:
  "scrub (logged T) (d, l) = ((d', l'), e) \<Longrightarrow>
   l' = l @ [OpWrite 0 zeroMiB] \<and> e \<noteq> None \<or> l' = l @ [OpWrite 0 zeroMiB, OpSync]"
  by (auto simp: scrub_def logged_def split: prod.splits option.splits)

lemma scrub_log_low:
  assumes "scrub (logged T) (d, l) = ((d', l'), e)"
  shows "\<exists>ops. l' = l @ ops \<and> (\<forall>x\<in>set ops. \<not> low_op x)"
  using scrub_log[OF assms] by auto

lemma copyAt_log:
  "copyAt (logged T) off want done' (d, l) st = ((d', l'), st', w, e) \<Longrightarrow> MiB \<le> off \<Longrightarrow> done' \<le> want \<Longrightarrow>
   \<exists>ops. l' = l @ ops \<and> (\<forall>x\<in>set ops. \<not> low_op x) \<and>
         (e = None \<longrightarrow> contiguous (off + done') ops (take (w - done') (avail st)))"
proof (induction "logged T" off want done' "(d, l)" st arbitrary: d l rule: copyAt.induct)
  case (1 off want done' st d l)
  show ?case
  proof (cases "want \<le> done'")
    case True
    then show ?thesis using 1(2) by (subst (asm) copyAt.simps) simp
  next
    case False
    let ?n = "min chunkMax (want - done')"
    obtain bs re st1 where r: "readFull ?n [] st = (bs, re, st1)" by (cases "readFull ?n [] st") auto
    note rs = readFull_spec[OF r]
    have bs: "bs = take (length bs) (avail st)" "length bs \<le> length (avail st)"
      using rs(1) by (simp_all add: min_def)
    obtain d1 l1 we where
      wr: "(if bs \<noteq> [] then writeAt (logged T) (d, l) bs (off + done') else ((d, l), None)) = ((d1, l1), we)"
      by (metis surj_pair)
    define op1 where "op1 = (if bs = [] then [] else [OpWrite (off + done') bs])"
    have l1: "l1 = l @ op1" using wr logged_write[of T d l bs] by (auto simp: op1_def split: if_splits)
    have op1: "\<forall>x\<in>set op1. \<not> low_op x" using 1(3) by (simp add: op1_def)
    have ct: "contiguous (off + done' + length bs) ops (drop (length bs) data) \<Longrightarrow>
              length bs \<le> length data \<Longrightarrow> bs = take (length bs) data \<Longrightarrow>
              contiguous (off + done') (op1 @ ops) data" for ops data
      by (cases "bs = []") (simp_all add: op1_def)
    show ?thesis
    proof (cases "we = None \<and> re = None")
      case True
      then have c: "copyAt (logged T) off want (done' + length bs) (d1, l1) st1 = ((d', l'), st', w, e)"
        using 1(2) False r wr by (subst (asm) copyAt.simps) simp
      have le: "done' + length bs \<le> want" using rs(1) False by simp
      have wr': "((d1, l1), we) = (if bs \<noteq> [] then writeAt (logged T) (d, l) bs (off + done') else ((d, l), None))"
        using wr by simp
      from 1(1)[OF False r[symmetric] refl wr' _ _ c 1(3) le] True obtain ops where
        ops: "l' = l1 @ ops" "\<forall>x\<in>set ops. \<not> low_op x"
          "e = None \<longrightarrow> contiguous (off + (done' + length bs)) ops (take (w - (done' + length bs)) (avail st1))"
        by auto
      have "e = None \<Longrightarrow> contiguous (off + done') (op1 @ ops) (take (w - done') (avail st))"
      proof (rule ct)
        assume e: "e = None"
        then have c0: "copyAt (logged T) off want (done' + length bs) (d1, l1) st1 = ((d', l'), st', w, None)"
          using c by simp
        obtain k where k: "w = done' + length bs + k" "advance k st1 st'"
          using copyAt_stream[OF c0 le] by auto
        have av: "avail st1 = drop (length bs) (avail st)" by (rule avail_advance[OF rs(2)])
        show "contiguous (off + done' + length bs) ops (drop (length bs) (take (w - done') (avail st)))"
          using ops(3) e k(1) av by (simp add: drop_take add.assoc)
        show "length bs \<le> length (take (w - done') (avail st))" using k(1) bs(2) by simp
        show "bs = take (length bs) (take (w - done') (avail st))" using k(1) bs(1) by simp
      qed
      then show ?thesis using ops(1,2) l1 op1 by (intro exI[of _ "op1 @ ops"]) auto
    next
      case f: False
      then have x: "(d', l') = (d1, l1) \<and> (e = None \<longrightarrow> w = done' + length bs)"
        using 1(2) False r wr by (subst (asm) copyAt.simps) (auto split: option.splits if_splits)
      have "e = None \<Longrightarrow> contiguous (off + done') (op1 @ []) (take (w - done') (avail st))"
        by (rule ct) (use x bs in simp_all)
      then show ?thesis using x l1 op1 by (intro exI[of _ op1]) auto
    qed
  qed
qed

lemma readBack_log:
  "readBack (logged T) sz fuel acc (d, l) = ((d', l'), r) \<Longrightarrow>
   \<exists>ops. l' = l @ ops \<and> (\<forall>x\<in>set ops. \<not> low_op x)"
proof (induction "logged T" sz fuel acc "(d, l)" arbitrary: d l rule: readBack.induct)
  case (1 sz acc d l)
  then show ?case by simp
next
  case (2 sz fuel acc d l)
  show ?case
  proof (cases "sz \<le> length acc")
    case True
    then show ?thesis using 2(2) by simp
  next
    case False
    let ?n = "min chunkMax (sz - length acc)"
    obtain d1 l1 bs e where rd: "readAt (logged T) (d, l) ?n (length acc) = ((d1, l1), bs, e)"
      by (metis surj_pair)
    then have l1: "l1 = l @ [OpRead (length acc) ?n]" by (auto simp: logged_def split: prod.splits)
    show ?thesis
    proof (cases e)
      case None
      then have "readBack (logged T) sz fuel (acc @ bs) (d1, l1) = ((d', l'), r)" using 2(2) False rd by simp
      from 2(1)[OF False rd[symmetric] refl None this] l1 show ?thesis by auto
    next
      case (Some x)
      then have "l' = l1" using 2(2) False rd by (auto split: if_splits)
      then show ?thesis using l1 by auto
    qed
  qed
qed

lemma reject_log:
  "reject (logged T) (d, l) st said e = ((d', l'), rest) \<Longrightarrow> \<exists>ops. l' = l @ ops \<and> (\<forall>x\<in>set ops. \<not> low_op x)"
  using scrub_log_low[of T d l] by (cases "scrub (logged T) (d, l)") (auto simp: reject_def)

lemma sync_log: "syncDev (logged T) (d, l) = ((d', l'), e) \<Longrightarrow> l' = l @ [OpSync]"
  by (auto simp: logged_def split: prod.splits)

lemma caches_log:
  "dropCaches (logged T) (syncAll (logged T) (d, l)) = (dropCaches T (syncAll T d), l @ [OpSyncAll, OpDropCaches])"
  by (simp add: logged_def)

lemma Write_commit_log:
  assumes "Write_commit (logged T) (d, l) st said first sz got = ((d', l'), rest)"
  shows "\<exists>ops. l' = l @ OpWrite 0 first # ops \<and> (\<forall>x\<in>set ops. \<not> low_op x)"
proof -
  obtain d1 l1 e1 where w: "writeAt (logged T) (d, l) first 0 = ((d1, l1), e1)" by (metis surj_pair)
  note l1 = logged_write[OF w]
  have app: "\<exists>ops. x = l1 @ ops \<and> (\<forall>x\<in>set ops. \<not> low_op x) \<Longrightarrow> ?thesis" if "l' = x" for x
    using that l1 by auto
  show ?thesis
  proof (cases e1)
    case (Some e)
    then show ?thesis using assms w reject_log[of T d1 l1] app
      by (auto simp: Write_commit_def)
  next
    case None
    obtain d2 l2 e2 where s: "syncDev (logged T) (d1, l1) = ((d2, l2), e2)" by (metis surj_pair)
    note l2 = sync_log[OF s]
    show ?thesis
    proof (cases e2)
      case (Some e)
      then have "reject (logged T) (d2, l2) st said (SyncFailed e) = ((d', l'), rest)"
        using assms w s None by (simp add: Write_commit_def)
      from reject_log[OF this] obtain ops where "l' = l2 @ ops" "\<forall>x\<in>set ops. \<not> low_op x" by blast
      then show ?thesis using app[of l'] l2 by auto
    next
      case e2: None
      let ?x = "(dropCaches T (syncAll T d2), l2 @ [OpSyncAll, OpDropCaches])"
      obtain d3 l3 rb where r: "readBack (logged T) sz (Suc sz) [] ?x = ((d3, l3), rb)" by (metis surj_pair)
      obtain ops3 where ops3: "l3 = (l2 @ [OpSyncAll, OpDropCaches]) @ ops3" "\<forall>x\<in>set ops3. \<not> low_op x"
        using readBack_log[OF r] by blast
      have "\<exists>ops. l' = l3 @ ops \<and> (\<forall>x\<in>set ops. \<not> low_op x)"
        using assms w s None e2 r reject_log[of T d3 l3]
        by (auto simp: Write_commit_def readBackSHA_def caches_log Let_def
                 split: sum.splits if_splits readback_error.splits)
      then show ?thesis using l1 l2 ops3 by auto
    qed
  qed
qed

lemma Write_log:
  assumes "Write (logged T) (d, []) cs e sz want = ((d', log), st', said, r)"
  defines "img \<equiv> take (nat sz) (concat cs)"
  shows "(\<forall>x\<in>set log. \<not> low_op x) \<or>
     (\<exists>body rest. log = (OpWrite 0 zeroMiB # OpSync # body) @ OpWrite 0 (take MiB img) # rest \<and>
        (\<forall>x\<in>set body. \<not> low_op x) \<and> (\<forall>x\<in>set rest. \<not> low_op x) \<and> contiguous MiB body (drop MiB img) \<and>
        nat sz \<le> length (concat cs) \<and> want \<in> {[], sha256_hex img})"
proof (cases "sz < int MiB")
  case True
  then show ?thesis using assms(1) by (simp add: Write_def)
next
  case False
  obtain d1 l1 se where s: "scrub (logged T) (d, []) = ((d1, l1), se)" by (metis surj_pair)
  obtain first fe st1 where r: "readFull MiB [] (source cs e (nat sz)) = (first, fe, st1)" by (metis surj_pair)
  show ?thesis
  proof (cases "se = None \<and> fe = None")
    case f: False
    then have "log = l1" using assms(1) False s r by (auto simp: Write_def split: option.splits)
    then show ?thesis using scrub_log[OF s] by auto
  next
    case True
    then have l1: "l1 = [OpWrite 0 zeroMiB, OpSync]" using scrub_log[OF s] by simp
    have b: "Write_body (logged T) (d1, l1) st1 first (nat sz) want = ((d', log), st', said, r)"
      using assms(1) False s r True by (simp add: Write_def)
    obtain d2 l2 st2 w ce where c: "copyAt (logged T) MiB (nat sz - MiB) 0 (d1, l1) st1 = ((d2, l2), st2, w, ce)"
      by (metis surj_pair)
    obtain body where body: "l2 = l1 @ body" "\<forall>x\<in>set body. \<not> low_op x"
        "ce = None \<longrightarrow> contiguous MiB body (take w (avail st1))"
      using copyAt_log[OF c] by auto
    let ?got = "sha256_hex (hashed st2)"
    show ?thesis
    proof (cases "ce = None \<and> w = nat sz - MiB \<and> (want = [] \<or> ?got = want)")
      case f: False
      then obtain e' said' where "reject (logged T) (d2, l2) st2 said' e' = ((d', log), st', said, r)"
        using b c by (auto simp: Write_body_def Let_def split: option.splits if_splits)
      from reject_log[OF this] obtain ops where "log = l2 @ ops" "\<forall>x\<in>set ops. \<not> low_op x" by blast
      then show ?thesis using body l1 by auto
    next
      case ok: True
      then have c0: "copyAt (logged T) MiB (nat sz - MiB) 0 (d1, l1) st1 = ((d2, l2), st2, nat sz - MiB, None)"
        using c by simp
      have r0: "readFull MiB [] (source cs e (nat sz)) = (first, None, st1)" using r True by simp
      have m: "MiB \<le> nat sz" using False by simp
      note ra = received_all[OF r0 c0 m]
      have "Write_commit (logged T) (d2, l2) st2 [''RECEIVING IMAGE'', ''SHA-256 VERIFIED''] first (nat sz) ?got
              = ((d', log), st', said, r)"
        using b c ok by (auto simp: Write_body_def Let_def)
      from Write_commit_log[OF this] obtain rest where
        rest: "log = l2 @ OpWrite 0 first # rest" "\<forall>x\<in>set rest. \<not> low_op x" by blast
      have "log = (OpWrite 0 zeroMiB # OpSync # body) @ OpWrite 0 (take MiB img) # rest"
        using rest(1) body(1) l1 ra by (simp add: img_def)
      moreover have "contiguous MiB body (drop MiB img)" using body(3) ok ra by (simp add: img_def)
      moreover have "want \<in> {[], sha256_hex img}" using ok ra by (auto simp: img_def)
      ultimately show ?thesis using body(2) rest(2) ra by blast
    qed
  qed
qed

text \<open>Logging does not change what a device stores, so a logged device keeps the contract.\<close>

interpretation lrt: reliable_target "logged (disk_ops (\<lambda>_ _. NoFault))" "media \<circ> fst"
proof
  fix d bs off d' e
  assume "writeAt (logged (disk_ops (\<lambda>_ _. NoFault))) d bs off = (d', Some e)"
  then have "writeAt (disk_ops (\<lambda>_ _. NoFault)) (fst d) bs off = (fst d', Some e)"
    by (auto simp: logged_def split: prod.splits)
  from dt.write_partial[OF this]
  show "\<exists>k. off + length (take k bs) \<le> length ((media \<circ> fst) d) \<and>
          (media \<circ> fst) d' = copy_at off (take k bs) ((media \<circ> fst) d) \<or> (media \<circ> fst) d' = (media \<circ> fst) d"
    by simp
next
  fix d n off d' bs e
  assume "readAt (logged (disk_ops (\<lambda>_ _. NoFault))) d n off = (d', bs, Some e)"
  then have "readAt (disk_ops (\<lambda>_ _. NoFault)) (fst d) n off = (fst d', bs, Some e)"
    by (auto simp: logged_def split: prod.splits)
  from dt.read_fail[OF this]
  show "(\<exists>k\<le>n. bs = take k (drop off ((media \<circ> fst) d))) \<and> (media \<circ> fst) d' = (media \<circ> fst) d"
    by simp
qed (auto simp: logged_def disk_ops_def disk_write_def disk_read_def disk_sync_def Let_def media_put_media
          split: prod.splits if_splits)

section \<open>Properties of the image writer\<close>

text \<open>End-to-end integrity on an arbitrary, possibly faulty or lying device.  If a write is
  reported as a success, exactly the declared number of bytes was taken from the connection (the
  rest is still unread), the reported digest is the digest of those bytes and equals the declared
  one, and the bytes the device returned when it was read back afterwards, at least as many as the
  image has, have the same digest.\<close>

theorem write_success_verified:
  assumes "Write T d cs e sz want = (d', st', said, Inr res)"
  shows "let n = nat sz; img = take n (concat cs) in
     int MiB \<le> sz \<and> n \<le> length (concat cs) \<and> concat (pending st') = drop n (concat cs) \<and>
     res = \<lparr>resBytes = sz, resSHA256 = sha256_hex img\<rparr> \<and> (want = [] \<or> want = sha256_hex img) \<and>
     (\<exists>d0 bk. readBack T n (Suc n) [] (dropCaches T (syncAll T d0)) = (d', Inr bk) \<and>
              n \<le> length bk \<and> sha256_hex bk = sha256_hex img)"
proof -
  let ?n = "nat sz" and ?img = "take (nat sz) (concat cs)"
  obtain d1 st1 d2 st2 where w: "int MiB \<le> sz"
    "readFull MiB [] (source cs e ?n) = (take MiB ?img, None, st1)"
    "copyAt T MiB (?n - MiB) 0 d1 st1 = (d2, st2, ?n - MiB, None)"
    "want \<noteq> [] \<longrightarrow> sha256_hex (hashed st2) = want"
    "Write_commit T d2 st2 [''RECEIVING IMAGE'', ''SHA-256 VERIFIED''] (take MiB ?img)
       ?n (sha256_hex (hashed st2)) = (d', st', said, Inr res)"
    by (rule Write_success_steps[OF assms]) blast
  have "MiB \<le> ?n" using w(1) by simp
  note ra = received_all[OF w(2,3) this]
  note cs = Write_commit_success[OF w(5)]
  obtain d4 bk where rb: "readBack T ?n (Suc ?n) [] (dropCaches T (syncAll T d4)) = (d', Inr bk)"
      "sha256_hex bk = sha256_hex ?img"
    using cs ra by auto
  have "?n \<le> length bk" by (rule readBack_length[OF rb(1)])
  with rb have "\<exists>d0 bk. readBack T ?n (Suc ?n) [] (dropCaches T (syncAll T d0)) = (d', Inr bk) \<and>
              ?n \<le> length bk \<and> sha256_hex bk = sha256_hex ?img" by blast
  moreover have "want = [] \<or> want = sha256_hex ?img" using w(4) ra by auto
  moreover have "0 \<le> sz" using w(1) by simp
  ultimately show ?thesis using w(1) ra cs by (simp add: Let_def del: readBack.simps)
qed

text \<open>C2: Functional correctness on the block device.  Whatever faults the schedule injects, a
  reported success means that the device holds the first \<open>sz\<close> bytes of the connection from
  offset 0 on, not shifted, and that every byte behind the image is untouched.\<close>

theorem write_installs_image:
  assumes "Write (disk_ops sched) d cs e sz want = (d', st', said, Inr res)"
  shows "nat sz \<le> length (concat cs) \<and> nat sz \<le> length (media d) \<and>
         media d' = take (nat sz) (concat cs) @ drop (nat sz) (media d)"
  using dt.Write_success_content[OF assms] by simp

lemma zeros_refused_disk:
  assumes "zeros_refused (disk_ops sched) media d'"
  shows "sched (clock d' - 1) (OpWrite 0 (replicate MiB 0)) \<noteq> NoFault"
proof -
  obtain d1 x where w: "disk_write sched d1 zeroMiB 0 = (d', Some x)" "MiB \<le> length (media d1)"
    using assms by (auto simp: zeros_refused_def disk_ops_def)
  then obtain k where "sched (clock d1) (OpWrite 0 zeroMiB) = FailAfter k"
    by (auto simp: disk_write_def Let_def split: fault.splits)
  moreover have "clock d' = Suc (clock d1)"
    using w calculation by (auto simp: disk_write_def tick_def put_media_def Let_def)
  ultimately show ?thesis by (simp add: zeroMiB_def)
qed

lemma Write_fails_disk:
  assumes "Write (disk_ops sched) d cs e0 sz want = (d', st', said, Inl e)" "int MiB \<le> sz" "MiB \<le> length (media d)"
  defines "img \<equiv> take (nat sz) (concat cs)"
  shows "take MiB (media d') = replicate MiB 0 \<or>
     sched (clock d' - 1) (OpWrite 0 (replicate MiB 0)) \<noteq> NoFault \<and>
     (e = ScrubFailed \<and> (\<exists>k\<le>MiB. media d' = replicate k 0 @ drop k (media d)) \<or>
      nat sz \<le> length (concat cs) \<and> (want = [] \<or> want = sha256_hex img) \<and>
      (\<forall>i<MiB. media d' ! i = 0 \<or> media d' ! i = img ! i))"
  using dt.Write_fails[OF assms(1-3)] zeros_refused_disk[of sched d'] unfolding zeroMiB_def mixed_def img_def by auto

text \<open>C3: Fail closed, on a device with any faults.  A failure of a write that passed the size check (a short or
  corrupt transfer, a device error at any point, a failed read-back) leaves the first MiB zero, with one
  exception: the last operation was a write of zeros that the device refused.  Then either it was the first
  scrub, nothing was written but zeros in front of the old content; or it was the closing scrub of a commit, the
  complete image had arrived with the declared digest, and every byte of the first MiB is zero or that of the
  image.  So no fault makes an incomplete or unverified transfer mountable.\<close>

theorem write_fails_closed:
  assumes "Write (disk_ops sched) d cs e0 sz want = (d', st', said, Inl e)" and "int MiB \<le> sz"
    and "MiB \<le> length (media d)"
  shows "take MiB (media d') = replicate MiB 0 \<or>
     sched (clock d' - 1) (OpWrite 0 (replicate MiB 0)) \<noteq> NoFault \<and>
     (e = ScrubFailed \<and> (\<exists>k\<le>MiB. media d' = replicate k 0 @ drop k (media d)) \<or>
      (let img = take (nat sz) (concat cs) in
       nat sz \<le> length (concat cs) \<and> (want = [] \<or> want = sha256_hex img) \<and>
       (\<forall>i<MiB. media d' ! i = 0 \<or> media d' ! i = img ! i)))"
  using Write_fails_disk[OF assms] by (simp add: Let_def)

text \<open>The installer installs.  On a device without faults that is large enough, a connection that
  delivers the image, in whatever pieces, and a digest that matches (or is not given), the write
  succeeds and leaves exactly the image.\<close>

theorem write_completes:
  assumes "int MiB \<le> sz" "nat sz \<le> length (media d)" "nat sz \<le> length (concat cs)"
    and "want \<in> {[], sha256_hex (take (nat sz) (concat cs))}"
  shows "\<exists>d' st' said.
     Write (disk_ops (\<lambda>_ _. NoFault)) d cs e sz want =
       (d', st', said, Inr \<lparr>resBytes = sz, resSHA256 = sha256_hex (take (nat sz) (concat cs))\<rparr>) \<and>
     media d' = take (nat sz) (concat cs) @ drop (nat sz) (media d)"
proof -
  obtain d' st' said where w: "Write (disk_ops (\<lambda>_ _. NoFault)) d cs e sz want =
       (d', st', said, Inr \<lparr>resBytes = sz, resSHA256 = sha256_hex (take (nat sz) (concat cs))\<rparr>)"
    using rt.Write_succeeds[OF assms] by blast
  with dt.Write_success_content[OF w] show ?thesis by blast
qed

text \<open>C6: Superblock last.  In the sequence of operations \<open>Write\<close> issues to any device, a write that
  touches the first MiB with anything but zeros is the held-back first MiB of the image; before it
  the device was scrubbed and synced and the complete body was written without a gap, and the digest
  of the complete transfer was already checked.  An interruption at any earlier point therefore finds
  no superblock.\<close>

theorem superblock_written_last:
  assumes "Write (logged T) (d, []) cs e sz want = ((d', log), st', said, r)"
    and "i < length log" "log ! i = OpWrite off bs" "off < MiB" "bs \<noteq> zeroMiB"
  shows "let img = take (nat sz) (concat cs) in
     off = 0 \<and> bs = take MiB img \<and> nat sz \<le> length (concat cs) \<and> (want = [] \<or> want = sha256_hex img) \<and>
     (\<exists>body. take i log = OpWrite 0 zeroMiB # OpSync # body \<and> contiguous MiB body (drop MiB img))"
proof -
  let ?img = "take (nat sz) (concat cs)"
  have low: "low_op (log ! i)" using assms(3-5) by simp
  then have "\<not> (\<forall>x\<in>set log. \<not> low_op x)" using assms(2) nth_mem by blast
  then obtain body rest where l: "log = (OpWrite 0 zeroMiB # OpSync # body) @ OpWrite 0 (take MiB ?img) # rest"
      "\<forall>x\<in>set body. \<not> low_op x" "\<forall>x\<in>set rest. \<not> low_op x" "contiguous MiB body (drop MiB ?img)"
      "nat sz \<le> length (concat cs)" "want \<in> {[], sha256_hex ?img}"
    using Write_log[OF assms(1)] by blast
  let ?pre = "OpWrite 0 zeroMiB # OpSync # body"
  have "i = length ?pre"
  proof (rule ccontr)
    assume "i \<noteq> length ?pre"
    then consider "i < length ?pre" | "length ?pre < i" by linarith
    then have "log ! i \<in> set ?pre \<or> log ! i \<in> set rest"
    proof cases
      case 1
      then have "log ! i = ?pre ! i" unfolding l(1) by (rule nth_append_left)
      then show ?thesis using nth_mem[OF 1] by auto
    next
      case 2
      then have "log ! i = rest ! (i - length ?pre - 1)" and "i - length ?pre - 1 < length rest"
        using assms(2) unfolding l(1) by (auto simp: nth_append nth_Cons')
      then show ?thesis by auto
    qed
    moreover have "\<forall>x\<in>set ?pre. \<not> low_op x" using l(2) by simp
    ultimately show False using low l(3) by blast
  qed
  then have "log ! i = OpWrite 0 (take MiB ?img)" "take i log = ?pre" unfolding l(1) by simp_all
  then show ?thesis using assms(3) l(4-6) by (auto simp: Let_def)
qed

section \<open>Witnesses\<close>

definition sample_image :: bytes where "sample_image = replicate MiB 7 @ [1, 2, 3]"

definition sample_disk :: disk where "sample_disk = \<lparr>media = replicate (MiB + 8) 9, clock = 0\<rparr>"

lemma sample_lengths [simp]:
  "length sample_image = MiB + 3" "length (media sample_disk) = MiB + 8"
  by (simp_all add: sample_image_def sample_disk_def)

lemma sample_write:
  "\<exists>d' st' said. Write (disk_ops (\<lambda>_ _. NoFault)) sample_disk [sample_image, [4, 5]] EOF (int MiB + 3) [] =
     (d', st', said, Inr \<lparr>resBytes = int MiB + 3, resSHA256 = sha256_hex sample_image\<rparr>)"
proof -
  have n: "nat (int MiB + 3) = MiB + 3" by simp
  have "take (MiB + 3) (concat [sample_image, [4, 5]]) = sample_image" by simp
  then show ?thesis
    using rt.Write_succeeds[of "int MiB + 3" sample_disk "[sample_image, [4, 5]]" "[]" EOF] n by simp
qed

theorem write_completes_witness:
  "\<exists>d' st' said. Write (disk_ops (\<lambda>_ _. NoFault)) sample_disk [take 5 sample_image, drop 5 sample_image @ [4, 5]] IOError
       (int MiB + 3) (sha256_hex sample_image) =
     (d', st', said, Inr \<lparr>resBytes = int MiB + 3, resSHA256 = sha256_hex sample_image\<rparr>) \<and>
     media d' = sample_image @ replicate 5 9"
proof -
  have n: "nat (int MiB + 3) = MiB + 3" by simp
  have c: "concat [take 5 sample_image, drop 5 sample_image @ [4, 5]] = sample_image @ [4, 5]"
    by (simp only: concat.simps append_Nil2 append_assoc[symmetric] append_take_drop_id)
  have i: "take (MiB + 3) (sample_image @ [4, 5]) = sample_image" by simp
  have d: "drop (MiB + 3) (media sample_disk) = replicate 5 9" by (simp add: sample_disk_def)
  show ?thesis
    using write_completes[of "int MiB + 3" sample_disk
        "[take 5 sample_image, drop 5 sample_image @ [4, 5]]" "sha256_hex sample_image" IOError]
    unfolding n c i d by simp
qed

theorem write_success_verified_witness:
  "\<exists>d' st' said. Write (disk_ops (\<lambda>_ _. NoFault)) sample_disk [sample_image, [4, 5]] EOF (int MiB + 3) [] =
     (d', st', said, Inr \<lparr>resBytes = int MiB + 3, resSHA256 = sha256_hex sample_image\<rparr>) \<and>
     concat (pending st') = [4, 5]"
proof -
  obtain d' st' said where w: "Write (disk_ops (\<lambda>_ _. NoFault)) sample_disk [sample_image, [4, 5]] EOF (int MiB + 3) [] =
     (d', st', said, Inr \<lparr>resBytes = int MiB + 3, resSHA256 = sha256_hex sample_image\<rparr>)"
    using sample_write by blast
  have "nat (int MiB + 3) = MiB + 3" by simp
  with write_success_verified[OF w] have "concat (pending st') = [4, 5]" by (simp add: Let_def)
  with w show ?thesis by blast
qed

theorem write_installs_image_witness:
  "\<exists>d' st' said res. Write (disk_ops (\<lambda>_ _. NoFault)) sample_disk [sample_image, [4, 5]] EOF (int MiB + 3) [] =
     (d', st', said, Inr res) \<and> take MiB (media d') = replicate MiB 7"
proof -
  obtain d' st' said res where w: "Write (disk_ops (\<lambda>_ _. NoFault)) sample_disk [sample_image, [4, 5]] EOF (int MiB + 3) [] =
     (d', st', said, Inr res)" using sample_write by blast
  have n: "nat (int MiB + 3) = MiB + 3" by simp
  from write_installs_image[OF w] have "media d' = sample_image @ drop (MiB + 3) (media sample_disk)"
    unfolding n by simp
  then have "take MiB (media d') = replicate MiB 7" by (simp add: sample_image_def)
  with w show ?thesis by blast
qed

text \<open>A device on which every operation but writing zeros to the first MiB fails.\<close>

definition broken :: "nat \<Rightarrow> dev_op \<Rightarrow> fault" where
  "broken t oper = (if oper = OpWrite 0 (replicate MiB 0) \<or> oper = OpSync then NoFault else FailAfter 1)"

lemma broken_fails:
  assumes "take MiB (take (nat sz) (concat cs)) \<noteq> replicate MiB 0"
  shows "\<exists>d' st' said e. Write (disk_ops broken) d cs e0 sz want = (d', st', said, Inl e)"
proof -
  obtain d' st' said r where w: "Write (disk_ops broken) d cs e0 sz want = (d', st', said, r)"
    by (metis surj_pair)
  show ?thesis
  proof (cases r)
    case (Inr res)
    obtain d2 st2 said2 got where
      "Write_commit (disk_ops broken) d2 st2 said2 (take MiB (take (nat sz) (concat cs))) (nat sz) got = (d', st', said, Inr res)"
      using Write_success_steps[OF w[unfolded Inr]] by metis
    from Write_commit_success[OF this] obtain d1 where
      "writeAt (disk_ops broken) d2 (take MiB (take (nat sz) (concat cs))) 0 = (d1, None)" by auto
    then show ?thesis using assms
      by (auto simp: disk_ops_def disk_write_def broken_def Let_def split: if_splits)
  qed (use w in blast)
qed

lemma sevens_not_zeros: "replicate MiB 7 \<noteq> (replicate MiB 0 :: bytes)"
  unfolding replicate_eq_replicate using MiB_pos by simp

theorem write_fails_closed_witness:
  "\<exists>d' st' said e. Write (disk_ops broken) sample_disk [sample_image] EOF (int MiB + 3) [] = (d', st', said, Inl e) \<and>
     take MiB (media d') = replicate MiB 0"
proof -
  have n: "nat (int MiB + 3) = MiB + 3" by simp
  have "take MiB (take (MiB + 3) (concat [sample_image])) = replicate MiB 7" by (simp add: sample_image_def)
  then have "take MiB (take (nat (int MiB + 3)) (concat [sample_image])) \<noteq> replicate MiB 0"
    unfolding n using sevens_not_zeros by metis
  then obtain d' st' said e where w: "Write (disk_ops broken) sample_disk [sample_image] EOF (int MiB + 3) [] = (d', st', said, Inl e)"
    using broken_fails by blast
  have "take MiB (media d') = replicate MiB 0"
    using write_fails_closed[OF w] by (simp add: broken_def)
  with w show ?thesis by blast
qed

theorem superblock_written_last_witness:
  "\<exists>log d' st' said r i body. Write (logged (disk_ops (\<lambda>_ _. NoFault))) (sample_disk, []) [sample_image] EOF (int MiB + 3) [] =
       ((d', log), st', said, r) \<and> i < length log \<and> log ! i = OpWrite 0 (replicate MiB 7) \<and>
     take i log = OpWrite 0 zeroMiB # OpSync # body \<and> contiguous MiB body [1, 2, 3]"
proof -
  let ?T = "logged (disk_ops (\<lambda>_ _. NoFault))"
  have n: "nat (int MiB + 3) = MiB + 3" by simp
  have i3: "take (MiB + 3) (concat [sample_image]) = sample_image" by simp
  obtain d' log st' said res where
    w: "Write ?T (sample_disk, []) [sample_image] EOF (int MiB + 3) [] = ((d', log), st', said, Inr res)"
    using lrt.Write_succeeds[of "int MiB + 3" "(sample_disk, [])" "[sample_image]" "[]" EOF] n by auto
  obtain d2 l2 st2 said2 got where
    "Write_commit ?T (d2, l2) st2 said2 (take MiB sample_image) (MiB + 3) got = ((d', log), st', said, Inr res)"
    using Write_success_steps[OF w, unfolded n i3] by (metis surj_pair)
  from Write_commit_log[OF this] obtain ops where l: "log = l2 @ OpWrite 0 (take MiB sample_image) # ops" by blast
  have t: "take MiB sample_image = replicate MiB 7" "drop MiB sample_image = [1, 2, 3]"
    by (simp_all add: sample_image_def)
  have "replicate MiB 7 \<noteq> zeroMiB" unfolding zeroMiB_def by (rule sevens_not_zeros)
  then have "\<exists>body. take (length l2) log = OpWrite 0 zeroMiB # OpSync # body \<and> contiguous MiB body [1, 2, 3]"
    using superblock_written_last[OF w, of "length l2" 0 "replicate MiB 7"] l t n i3
    by (simp add: Let_def)
  moreover have "length l2 < length log" "log ! length l2 = OpWrite 0 (replicate MiB 7)" using l t by simp_all
  ultimately show ?thesis using w by blast
qed

end
