(* ===== verification/Partition.thy ===== *)
theory Partition
  imports Go_Strings "HOL-Library.Multiset" "HOL-Library.List_Lexorder" "HOL-Library.Char_ord"
begin

text \<open>
  \<^verbatim>\<open>installer/gotools/internal/partition/partition.go\<close> and the twin resolver \<^verbatim>\<open>ResolveMisc\<close> of
  \<^verbatim>\<open>rebootfastboot.go\<close>: finding a partition by its GPT name in sysfs.  \<open>sysfs\<close> is the result
  of the glob over the \<^verbatim>\<open>uevent\<close> files, one entry per block device; an unreadable file is
  \<open>None\<close>.  The locale \<open>partition_resolver\<close> is the contract the install writer and the
  fastboot tool rely on; both resolvers are interpreted in it.
\<close>

section \<open>The sysfs view\<close>

lemma filter_single: "filter P xs = [d] \<Longrightarrow> d \<in> set xs \<and> P d"
proof -
  assume "filter P xs = [d]"
  then have "d \<in> set (filter P xs)" by simp
  then show ?thesis by simp
qed

record sysdev =
  node :: string
  uevent :: "string option"
  sizeFile :: "string option"

type_synonym sysfs = "sysdev list"

datatype part_error =
    NotUnique string nat
  | SizeUnreadable string
  | SizeBad string
  | TooSmall string string int
  | TooLarge string nat

definition hasPartName :: "string \<Rightarrow> string \<Rightarrow> bool" where
  "hasPartName ue name =
     (\<exists>line\<in>set (split_on LF ue). trim_right [CR] line = ''PARTNAME='' @ name)"

fun first_part_name :: "string list \<Rightarrow> string" where
  "first_part_name [] = []"
| "first_part_name (line # ls) =
     (case cut_prefix (trim_right [CR] line) ''PARTNAME='' of
        Some v \<Rightarrow> v | None \<Rightarrow> first_part_name ls)"

definition partName :: "string \<Rightarrow> string" where
  "partName ue = first_part_name (split_on LF ue)"

definition matches :: "sysfs \<Rightarrow> string \<Rightarrow> string list" where
  "matches fs name =
     map node (filter (\<lambda>d. case uevent d of None \<Rightarrow> False | Some ue \<Rightarrow> hasPartName ue name) fs)"

definition read_size :: "sysfs \<Rightarrow> string \<Rightarrow> string option" where
  "read_size fs dev = (case List.find (\<lambda>d. node d = dev) fs of None \<Rightarrow> None | Some d \<Rightarrow> sizeFile d)"

section \<open>The resolvers\<close>

definition MinUserdataSectors :: int where
  "MinUserdataSectors = 32 * 1024 * 1024 * 1024 div 512"

record Resolved =
  Device :: string
  Sectors :: int
  Bytes :: int

definition resolveNamed :: "string \<Rightarrow> sysfs \<Rightarrow> string \<Rightarrow> int \<Rightarrow> part_error + Resolved" where
  "resolveNamed DevDir fs name minSectors =
     (let ms = matches fs name in
      if length ms \<noteq> 1 then Inl (NotUnique name (length ms))
      else let dev = ms ! 0 in
        (case read_size fs dev of
           None \<Rightarrow> Inl (SizeUnreadable dev)
         | Some raw \<Rightarrow>
             (case parse_int64 (trim_space raw) of
                None \<Rightarrow> Inl (SizeBad dev)
              | Some sectors \<Rightarrow>
                  if sectors < minSectors then Inl (TooSmall name dev sectors)
                  else Inr \<lparr>Device = DevDir @ ''/'' @ dev, Sectors = sectors,
                             Bytes = wrap64 (sectors * 512)\<rparr>)))"

definition ResolveUserdata :: "string \<Rightarrow> sysfs \<Rightarrow> part_error + Resolved" where
  "ResolveUserdata DevDir fs = resolveNamed DevDir fs ''userdata'' MinUserdataSectors"

definition ResolveNamed :: "string \<Rightarrow> sysfs \<Rightarrow> string \<Rightarrow> part_error + Resolved" where
  "ResolveNamed DevDir fs name = resolveNamed DevDir fs name 0"

definition miscMaxSectors :: nat where "miscMaxSectors = 32768"

definition misc_line :: "string \<Rightarrow> bool" where
  "misc_line ue = list_ex (\<lambda>line. trim_right [CR] line = ''PARTNAME=misc'') (split_on LF ue)"

definition misc_found :: "sysfs \<Rightarrow> string list" where
  "misc_found fs = map node (filter (\<lambda>d. case uevent d of None \<Rightarrow> False | Some ue \<Rightarrow> misc_line ue) fs)"

definition ResolveMisc :: "string \<Rightarrow> sysfs \<Rightarrow> part_error + string" where
  "ResolveMisc devdir fs =
     (let found = misc_found fs in
      if length found \<noteq> 1 then Inl (NotUnique ''misc'' (length found))
      else let dev = found ! 0 in
        (case read_size fs dev of
           None \<Rightarrow> Inl (SizeUnreadable dev)
         | Some raw \<Rightarrow>
             (case parse_uint64 (trim_space raw) of
                None \<Rightarrow> Inl (SizeBad dev)
              | Some sectors \<Rightarrow>
                  if miscMaxSectors < sectors then Inl (TooLarge dev sectors)
                  else Inr (devdir @ ''/'' @ dev))))"

section \<open>The inventory\<close>

record Entry =
  entryName :: string
  entryDevice :: string
  entrySectors :: int

definition entry_sectors :: "sysfs \<Rightarrow> string \<Rightarrow> int" where
  "entry_sectors fs dev =
     (case read_size fs dev of
        None \<Rightarrow> 0
      | Some raw \<Rightarrow> (case parse_int64 (trim_space raw) of None \<Rightarrow> 0 | Some s \<Rightarrow> s))"

fun inventory_entries :: "string \<Rightarrow> sysfs \<Rightarrow> sysdev list \<Rightarrow> Entry list" where
  "inventory_entries DevDir fs [] = []"
| "inventory_entries DevDir fs (d # ds) =
     (case uevent d of
        None \<Rightarrow> inventory_entries DevDir fs ds
      | Some ue \<Rightarrow>
          if partName ue = [] then inventory_entries DevDir fs ds
          else \<lparr>entryName = partName ue, entryDevice = DevDir @ ''/'' @ node d,
                 entrySectors = entry_sectors fs (node d)\<rparr> # inventory_entries DevDir fs ds)"

definition Inventory :: "(Entry list \<Rightarrow> Entry list) \<Rightarrow> string \<Rightarrow> sysfs \<Rightarrow> Entry list" where
  "Inventory sort_slice DevDir fs = sort_slice (inventory_entries DevDir fs fs)"

section \<open>Whole-line matching\<close>

lemma misc_line_hasPartName: "misc_line = (\<lambda>ue. hasPartName ue ''misc'')"
  by (simp add: fun_eq_iff misc_line_def hasPartName_def list_ex_iff)

lemma misc_found_matches: "misc_found fs = matches fs ''misc''"
  by (simp only: misc_found_def matches_def misc_line_hasPartName)

section \<open>The contract\<close>

definition carries :: "string \<Rightarrow> sysdev \<Rightarrow> bool" where
  "carries name d = (case uevent d of None \<Rightarrow> False | Some ue \<Rightarrow> hasPartName ue name)"

definition dev_sectors :: "sysdev \<Rightarrow> int option" where
  "dev_sectors d = (case sizeFile d of None \<Rightarrow> None | Some raw \<Rightarrow> parse_int64 (trim_space raw))"

definition sysfs_ok :: "sysfs \<Rightarrow> bool" where
  "sysfs_ok fs = distinct (map node fs)"

locale partition_resolver =
  fixes resolve :: "sysfs \<Rightarrow> part_error + 'r"
    and path_of :: "'r \<Rightarrow> string"
    and name :: string
    and devdir :: string
    and size_ok :: "int \<Rightarrow> bool"
  assumes resolve_sound: "sysfs_ok fs \<Longrightarrow> resolve fs = Inr r \<Longrightarrow>
      \<exists>d s. filter (carries name) fs = [d] \<and> dev_sectors d = Some s \<and> size_ok s \<and>
            path_of r = devdir @ ''/'' @ node d"
    and resolve_complete: "sysfs_ok fs \<Longrightarrow> filter (carries name) fs = [d] \<Longrightarrow>
      sizeFile d = Some (dec n @ ws) \<Longrightarrow> set ws \<subseteq> {LF} \<Longrightarrow> n < 2 ^ 63 \<Longrightarrow> size_ok (int n) \<Longrightarrow>
      \<exists>r. resolve fs = Inr r"
begin

lemma never_another_partition:
  assumes "sysfs_ok fs" "resolve fs = Inr r" "d \<in> set fs" "\<not> carries name d"
  shows "path_of r \<noteq> devdir @ ''/'' @ node d"
proof -
  obtain t where t: "filter (carries name) fs = [t]" "path_of r = devdir @ ''/'' @ node t"
    using resolve_sound[OF assms(1,2)] by blast
  have "t \<in> set fs" "carries name t" using t(1) by (auto dest: filter_single)
  moreover have "node t = node d \<Longrightarrow> t = d"
    using assms(1,3) \<open>t \<in> set fs\<close> by (auto simp: sysfs_ok_def dest: distinct_map[THEN iffD1] inj_onD)
  ultimately show ?thesis using t(2) assms(4) by auto
qed

lemma never_wrong_size:
  assumes "sysfs_ok fs" "resolve fs = Inr r" "d \<in> set fs" "path_of r = devdir @ ''/'' @ node d"
  shows "\<exists>s. dev_sectors d = Some s \<and> size_ok s"
proof -
  obtain t s where t: "filter (carries name) fs = [t]" "path_of r = devdir @ ''/'' @ node t"
    "dev_sectors t = Some s" "size_ok s"
    using resolve_sound[OF assms(1,2)] by blast
  have "t \<in> set fs" using t(1) by (auto dest: filter_single)
  moreover have "node t = node d" using t(2) assms(4) by simp
  ultimately have "t = d"
    using assms(1,3) by (auto simp: sysfs_ok_def dest: distinct_map[THEN iffD1] inj_onD)
  then show ?thesis using t by blast
qed

lemma ambiguous_refused:
  assumes "sysfs_ok fs" "length (filter (carries name) fs) \<noteq> 1"
  shows "\<exists>e. resolve fs = Inl e"
proof (cases "resolve fs")
  case (Inr r)
  then show ?thesis using resolve_sound[OF assms(1) Inr] assms(2) by auto
qed auto

end

lemma matches_carries: "matches fs name = map node (filter (carries name) fs)"
  by (simp add: matches_def carries_def[abs_def])

lemma read_size_node:
  assumes "sysfs_ok fs" "d \<in> set fs"
  shows "read_size fs (node d) = sizeFile d"
proof -
  have "List.find (\<lambda>e. node e = node d) fs = Some d"
    using assms
  proof (induction fs)
    case (Cons e es)
    then show ?case by (auto simp: sysfs_ok_def)
  qed simp
  then show ?thesis by (simp add: read_size_def)
qed

lemma single_match:
  assumes "sysfs_ok fs" "length (matches fs name) = 1"
  obtains d where "filter (carries name) fs = [d]" "matches fs name ! 0 = node d"
    "read_size fs (node d) = sizeFile d"
proof -
  from assms(2) obtain d where d: "filter (carries name) fs = [d]"
    by (auto simp: matches_carries length_Suc_conv)
  then have "d \<in> set fs" by (auto dest: filter_single)
  then show thesis using that[OF d] d read_size_node[OF assms(1)] by (simp add: matches_carries)
qed

lemma trim_size_text: "set ws \<subseteq> {LF} \<Longrightarrow> trim_space (dec n @ ws) = dec n"
proof (rule trim_space_append)
  show "\<forall>c\<in>set (dec n). \<not> is_space c" using dec_chars digit_not_special by blast
  assume "set ws \<subseteq> {LF}"
  then show "\<forall>c\<in>set ws. is_space c" by (auto simp: is_space_def LF_def)
qed

lemma parse_uint64_int64: "parse_uint64 s = Some u \<Longrightarrow> u < 2 ^ 63 \<Longrightarrow> parse_int64 s = Some (int u)"
proof -
  assume a: "parse_uint64 s = Some u" "u < 2 ^ 63"
  then have "s \<noteq> []" "list_all is_digit s" by (auto simp: parse_uint64_def split: if_splits)
  then have "is_digit (hd s)" by (cases s) auto
  then have "hd s \<noteq> CHR ''-''" "hd s \<noteq> CHR ''+''" by (auto dest: digit_not_special)
  with a show ?thesis by (simp add: parse_int64_def)
qed

lemma single_read:
  assumes "sysfs_ok fs" "filter (carries name) fs = [d]"
  shows "read_size fs (node d) = sizeFile d"
proof -
  have "d \<in> set fs" using assms(2) by (auto dest: filter_single)
  then show ?thesis by (rule read_size_node[OF assms(1)])
qed

interpretation named: partition_resolver
    "\<lambda>fs. resolveNamed devdir fs name minSectors" Device name devdir "\<lambda>s. minSectors \<le> s"
    for devdir name minSectors
proof
  fix fs r
  assume ok: "sysfs_ok fs" and r: "resolveNamed devdir fs name minSectors = Inr r"
  then have "length (matches fs name) = 1" by (auto simp: resolveNamed_def Let_def split: if_splits)
  then obtain d where d: "filter (carries name) fs = [d]" "matches fs name ! 0 = node d"
      "read_size fs (node d) = sizeFile d"
    by (rule single_match[OF ok])
  with r show "\<exists>d s. filter (carries name) fs = [d] \<and> dev_sectors d = Some s \<and> minSectors \<le> s \<and>
            Device r = devdir @ ''/'' @ node d"
    by (auto simp: resolveNamed_def dev_sectors_def Let_def split: if_splits option.splits)
next
  fix fs d n ws
  assume ok: "sysfs_ok fs" and d: "filter (carries name) fs = [d]" "sizeFile d = Some (dec n @ ws)"
    "set ws \<subseteq> {LF}" "n < 2 ^ 63" "minSectors \<le> int n"
  from single_read[OF ok d(1)] d show "\<exists>r. resolveNamed devdir fs name minSectors = Inr r"
    by (simp add: resolveNamed_def matches_carries Let_def trim_size_text parse_int64_dec)
qed

interpretation misc: partition_resolver
    "ResolveMisc devdir" "\<lambda>p. p" "''misc''" devdir "\<lambda>s. 0 \<le> s \<and> s \<le> int miscMaxSectors"
    for devdir
proof
  fix fs r
  assume ok: "sysfs_ok fs" and r: "ResolveMisc devdir fs = Inr r"
  then have "length (matches fs ''misc'') = 1"
    by (auto simp: ResolveMisc_def misc_found_matches Let_def split: if_splits)
  then obtain d where d: "filter (carries ''misc'') fs = [d]" "matches fs ''misc'' ! 0 = node d"
      "read_size fs (node d) = sizeFile d"
    by (rule single_match[OF ok])
  with r obtain raw u where u: "sizeFile d = Some raw" "parse_uint64 (trim_space raw) = Some u"
      "u \<le> miscMaxSectors" "r = devdir @ ''/'' @ node d"
    by (auto simp: ResolveMisc_def misc_found_matches Let_def split: if_splits option.splits)
  have "dev_sectors d = Some (int u)"
    using u(1) parse_uint64_int64[OF u(2)] u(3) by (simp add: dev_sectors_def miscMaxSectors_def)
  with d u show "\<exists>d s. filter (carries ''misc'') fs = [d] \<and> dev_sectors d = Some s \<and>
            (0 \<le> s \<and> s \<le> int miscMaxSectors) \<and> r = devdir @ ''/'' @ node d"
    by auto
next
  fix fs d n ws
  assume ok: "sysfs_ok fs" and d: "filter (carries ''misc'') fs = [d]" "sizeFile d = Some (dec n @ ws)"
    "set ws \<subseteq> {LF}" "n < 2 ^ 63" "0 \<le> int n \<and> int n \<le> int miscMaxSectors"
  from single_read[OF ok d(1)] d show "\<exists>r. ResolveMisc devdir fs = Inr r"
    by (simp add: ResolveMisc_def misc_found_matches matches_carries Let_def trim_size_text
        parse_uint64_dec)
qed

lemma resolveNamed_bytes:
  "resolveNamed devdir fs name m = Inr r \<Longrightarrow> Bytes r = wrap64 (Sectors r * 512) \<and> m \<le> Sectors r"
  by (auto simp: resolveNamed_def Let_def split: if_splits option.splits)

section \<open>Properties\<close>

text \<open>C5: The install target is the userdata partition and nothing else.  When resolving succeeds,
  exactly one block device carries the line PARTNAME=userdata, the returned path is that device, it
  has at least 32 GiB, and no device that lacks the line is returned; when zero or several devices
  carry it, resolving fails.\<close>

theorem userdata_only:
  assumes "sysfs_ok fs"
  shows "(\<forall>r. ResolveUserdata devdir fs = Inr r \<longrightarrow>
            (\<exists>d s. filter (carries ''userdata'') fs = [d] \<and> dev_sectors d = Some s \<and> 67108864 \<le> s \<and>
                   Device r = devdir @ ''/'' @ node d) \<and>
            (\<forall>d\<in>set fs. \<not> carries ''userdata'' d \<longrightarrow> Device r \<noteq> devdir @ ''/'' @ node d)) \<and>
         (length (filter (carries ''userdata'') fs) \<noteq> 1 \<longrightarrow> (\<exists>e. ResolveUserdata devdir fs = Inl e))"
  unfolding ResolveUserdata_def
  using named.resolve_sound[OF assms, of devdir "''userdata''" MinUserdataSectors]
    named.never_another_partition[OF assms, of devdir "''userdata''" MinUserdataSectors]
    named.ambiguous_refused[OF assms, of "''userdata''" devdir MinUserdataSectors]
  by (simp add: MinUserdataSectors_def)

text \<open>The two resolvers cannot confuse their targets: on one sysfs the device the installer
  overwrites is never the device the fastboot tool clears, whatever the partition names say,
  because the size floor of the one is above the size ceiling of the other.\<close>

theorem userdata_misc_disjoint:
  assumes "sysfs_ok fs" "ResolveUserdata devdir fs = Inr r" "ResolveMisc devdir fs = Inr p"
  shows "Device r \<noteq> p"
proof
  assume e: "Device r = p"
  obtain d where d: "filter (carries ''misc'') fs = [d]" "p = devdir @ ''/'' @ node d"
      and s: "\<exists>s. dev_sectors d = Some s \<and> s \<le> 32768"
    using misc.resolve_sound[OF assms(1,3)] by (auto simp: miscMaxSectors_def)
  have "d \<in> set fs" using d(1) by (auto dest: filter_single)
  then obtain s' where "dev_sectors d = Some s'" "MinUserdataSectors \<le> s'"
    using named.never_wrong_size[OF assms(1) assms(2)[unfolded ResolveUserdata_def]] e d(2) by auto
  then show False using s by (simp add: MinUserdataSectors_def)
qed

definition sample_sysfs :: sysfs where
  "sample_sysfs =
     [\<lparr>node = ''sdc1'', uevent = Some (''PARTNAME=misc'' @ [LF]), sizeFile = Some (dec 1024 @ [LF])\<rparr>,
      \<lparr>node = ''sdc57'', uevent = Some (''PARTNAME=userdata'' @ [LF]), sizeFile = Some (dec 200000000 @ [LF])\<rparr>]"

lemma sample_sysfs_ok: "sysfs_ok sample_sysfs"
  by (simp add: sysfs_ok_def sample_sysfs_def)

lemma sample_carries:
  "filter (carries ''userdata'') sample_sysfs = [sample_sysfs ! 1]"
  "filter (carries ''misc'') sample_sysfs = [sample_sysfs ! 0]"
  by (simp_all add: sample_sysfs_def carries_def hasPartName_def trim_right_def LF_def CR_def)

lemma sample_resolves:
  "\<exists>r. ResolveUserdata ''/dev'' sample_sysfs = Inr r" "\<exists>p. ResolveMisc ''/dev'' sample_sysfs = Inr p"
proof -
  show "\<exists>r. ResolveUserdata ''/dev'' sample_sysfs = Inr r"
    unfolding ResolveUserdata_def
    by (rule named.resolve_complete[OF sample_sysfs_ok sample_carries(1), of 200000000 "[LF]"])
       (simp_all add: sample_sysfs_def MinUserdataSectors_def)
  show "\<exists>p. ResolveMisc ''/dev'' sample_sysfs = Inr p"
    by (rule misc.resolve_complete[OF sample_sysfs_ok sample_carries(2), of 1024 "[LF]"])
       (simp_all add: sample_sysfs_def miscMaxSectors_def)
qed

theorem userdata_only_witness:
  "\<exists>r. ResolveUserdata ''/dev'' sample_sysfs = Inr r \<and> Device r = ''/dev/sdc57''"
proof -
  obtain r where r: "ResolveUserdata ''/dev'' sample_sysfs = Inr r" using sample_resolves by blast
  then have "\<exists>d. filter (carries ''userdata'') sample_sysfs = [d] \<and> Device r = ''/dev'' @ ''/'' @ node d"
    using userdata_only[OF sample_sysfs_ok, of "''/dev''"] by blast
  then have "Device r = ''/dev/sdc57''" by (simp add: sample_carries) (simp add: sample_sysfs_def)
  with r show ?thesis by blast
qed

theorem userdata_misc_disjoint_witness:
  "\<exists>r p. ResolveUserdata ''/dev'' sample_sysfs = Inr r \<and> ResolveMisc ''/dev'' sample_sysfs = Inr p \<and>
         Device r \<noteq> p"
  using sample_resolves userdata_misc_disjoint[OF sample_sysfs_ok] by blast

end
