(* ===== verification/Bootctl.thy ===== *)
theory Bootctl
  imports Sha256 Go_Strings
begin

text \<open>
  \<^verbatim>\<open>installer/gotools/internal/bootctl/bootctl.go\<close>: decoding the A/B bootloader_control block of
  the misc partition, its CRC-32 (Go's \<^verbatim>\<open>crc32.ChecksumIEEE\<close>), the textual report and the exit
  codes of the applet.  A device file is the list of its bytes, \<open>None\<close> when it cannot be opened.
\<close>

section \<open>CRC-32\<close>

definition crc_poly :: u32 where "crc_poly = 0xEDB88320"

definition crc_bit :: "u32 \<Rightarrow> u32" where
  "crc_bit s = (if bit s 0 then drop_bit 1 s XOR crc_poly else drop_bit 1 s)"

definition crc_byte :: "u32 \<Rightarrow> byte \<Rightarrow> u32" where
  "crc_byte s b = (crc_bit ^^ 8) (s XOR ucast b)"

definition crc32_ieee :: "bytes \<Rightarrow> u32" where
  "crc32_ieee bs = NOT (foldl crc_byte 0xFFFFFFFF bs)"

section \<open>The control block\<close>

definition bc_Offset :: nat where "bc_Offset = 2048"
definition bc_Magic :: u32 where "bc_Magic = 0x42414342"
definition bc_Size :: nat where "bc_Size = 32"

record SlotMetadata =
  PriorityTries :: byte
  SlotFlags :: byte

definition Priority :: "SlotMetadata \<Rightarrow> nat" where
  "Priority s = unat (PriorityTries s AND 0x0f)"

definition Tries :: "SlotMetadata \<Rightarrow> nat" where
  "Tries s = unat (drop_bit 4 (PriorityTries s) AND 0x07)"

definition Successful :: "SlotMetadata \<Rightarrow> nat" where
  "Successful s = unat (drop_bit 7 (PriorityTries s) AND 0x01)"

record Control =
  SlotSuffix :: bytes
  ctlMagic :: u32
  Version :: byte
  ctlFlags :: byte
  Reserved0 :: bytes
  Slots :: "SlotMetadata list"
  Reserved1 :: bytes
  CRC32LE :: u32

definition Parse :: "bytes \<Rightarrow> nat + Control" where
  "Parse b =
     (if length b < bc_Size then Inl (length b)
      else Inr \<lparr>SlotSuffix = slice 0 4 b,
                 ctlMagic = get32 (slice 4 8 b),
                 Version = b ! 8,
                 ctlFlags = b ! 9,
                 Reserved0 = slice 10 12 b,
                 Slots = map (\<lambda>i. \<lparr>PriorityTries = b ! (12 + i * 2), SlotFlags = b ! (13 + i * 2)\<rparr>) [0, 1, 2, 3],
                 Reserved1 = slice 20 28 b,
                 CRC32LE = get32 (slice 28 32 b)\<rparr>)"

definition ComputedCRC :: "bytes \<Rightarrow> u32" where
  "ComputedCRC b = (if length b < bc_Size then 0 else crc32_ieee (take (bc_Size - 4) b))"

definition hex8 :: "u32 \<Rightarrow> string" where
  "hex8 w = hex_encode (be32 w)"

definition slot_line :: "nat \<Rightarrow> SlotMetadata \<Rightarrow> string" where
  "slot_line i s = ''  slot '' @ [char_of (97 + i)] @ '': priority='' @ dec (Priority s) @
     '' tries_remaining='' @ dec (Tries s) @ '' successful='' @ dec (Successful s) @ [LF]"

definition Dump :: "bytes \<Rightarrow> nat + string" where
  "Dump raw =
     (case Parse raw of
        Inl n \<Rightarrow> Inl n
      | Inr c \<Rightarrow>
          (let magicNote = (if ctlMagic c = bc_Magic then ''(BACB ok)'' else ''(BAD MAGIC)'');
               suffix = trim_right [CHR 0x00] (string_of (SlotSuffix c));
               want = ComputedCRC raw;
               crcNote = (if CRC32LE c \<noteq> want then ''(MISMATCH -- layout is wrong, do NOT write)'' else ''(match)'')
           in Inr (''magic=0x'' @ hex8 (ctlMagic c) @ '' '' @ magicNote @ ''  version='' @ dec (unat (Version c)) @
                   ''  suffix='' @ suffix @ [LF] @
                   ''crc stored=0x'' @ hex8 (CRC32LE c) @ '' computed=0x'' @ hex8 want @ '' '' @ crcNote @ [LF] @
                   slot_line 0 (Slots c ! 0) @ slot_line 1 (Slots c ! 1))))"

datatype bootctl_error = CannotOpen string | ShortRead string | BadBlock nat | Refusing string

definition bc_Read :: "(string \<Rightarrow> bytes option) \<Rightarrow> string \<Rightarrow> bootctl_error + bytes" where
  "bc_Read files dev =
     (case files dev of
        None \<Rightarrow> Inl (CannotOpen dev)
      | Some content \<Rightarrow>
          if length content < bc_Offset + bc_Size then Inl (ShortRead dev)
          else Inr (slice bc_Offset (bc_Offset + bc_Size) content))"

definition bc_Main :: "(string \<Rightarrow> bytes option) \<Rightarrow> string \<Rightarrow> string list \<Rightarrow> int \<times> string \<times> bootctl_error option" where
  "bc_Main files env_dev args =
     (let dev = (if env_dev = [] then ''/dev/sdc1'' else env_dev);
          cmd = (if length args > 0 then args ! 0 else ''dump'')
      in case bc_Read files dev of
           Inl e \<Rightarrow> (1, [], Some e)
         | Inr raw \<Rightarrow>
             (case Dump raw of
                Inl n \<Rightarrow> (1, [], Some (BadBlock n))
              | Inr out \<Rightarrow> if cmd = ''dump'' then (0, out, None) else (2, out, Some (Refusing cmd))))"

section \<open>Lemmas\<close>

definition unparse :: "Control \<Rightarrow> bytes" where
  "unparse c = SlotSuffix c @ put32 (ctlMagic c) @ [Version c, ctlFlags c] @ Reserved0 c @
     concat (map (\<lambda>s. [PriorityTries s, SlotFlags s]) (Slots c)) @ Reserved1 c @ put32 (CRC32LE c)"

lemma xor_left_cancel: "(a :: 'a :: len word) XOR b = a XOR c \<longleftrightarrow> b = c"
  by (auto simp: bit_eq_iff bit_xor_iff)

lemma xor_right_cancel: "(b :: 'a :: len word) XOR a = c XOR a \<longleftrightarrow> b = c"
  by (auto simp: bit_eq_iff bit_xor_iff)

lemma crc_bit_inj: "crc_bit s = crc_bit t \<Longrightarrow> s = t"
proof -
  have p: "bit crc_poly 31" by (simp add: crc_poly_def)
  have top: "bit (crc_bit s) 31 \<longleftrightarrow> bit s 0" for s
  proof -
    have "\<not> bit (drop_bit 1 s) 31" using bit_imp_le_length[of s 32] by (auto simp: bit_drop_bit_eq)
    then show ?thesis using p by (simp add: crc_bit_def bit_xor_iff)
  qed
  assume e: "crc_bit s = crc_bit t"
  then have b0: "bit s 0 = bit t 0" using top by metis
  have "drop_bit 1 s = drop_bit 1 t"
    using e b0 by (simp add: crc_bit_def xor_right_cancel split: if_splits)
  then have *: "bit (drop_bit 1 s) n = bit (drop_bit 1 t) n" for n by simp
  have "bit s n = bit t n" for n
    using b0 *[of "n - 1"] by (cases n) (simp_all add: bit_drop_bit_eq)
  then show "s = t" by (simp add: bit_eq_iff)
qed

lemma crc_iter_inj: "(crc_bit ^^ n) s = (crc_bit ^^ n) t \<Longrightarrow> s = t"
  by (induction n) (auto dest: crc_bit_inj)

lemma crc_byte_inj_state: "crc_byte s b = crc_byte t b \<Longrightarrow> s = t"
  unfolding crc_byte_def by (drule crc_iter_inj) (simp only: xor_right_cancel)

lemma crc_byte_inj_byte: "crc_byte s a = crc_byte s b \<Longrightarrow> a = b"
proof -
  assume "crc_byte s a = crc_byte s b"
  then have "s XOR ucast a = s XOR ucast b" unfolding crc_byte_def by (rule crc_iter_inj)
  then have "(ucast a :: u32) = ucast b" by (simp only: xor_left_cancel)
  then have *: "bit (ucast a :: u32) n = bit (ucast b :: u32) n" for n by simp
  show "a = b"
  proof (rule bit_word_eqI)
    fix n assume "n < LENGTH(8)"
    then show "bit a n = bit b n" using *[of n] by (simp add: bit_unsigned_iff)
  qed
qed

lemma crc_fold_inj: "foldl crc_byte s bs = foldl crc_byte t bs \<Longrightarrow> s = t"
  by (induction bs arbitrary: s t) (auto dest: crc_byte_inj_state)

lemma crc_single_byte:
  assumes "i < length bs" "v \<noteq> bs ! i"
  shows "crc32_ieee (bs[i := v]) \<noteq> crc32_ieee bs"
proof
  assume "crc32_ieee (bs[i := v]) = crc32_ieee bs"
  then have e: "foldl crc_byte 0xFFFFFFFF (bs[i := v]) = foldl crc_byte 0xFFFFFFFF bs"
    by (simp add: crc32_ieee_def)
  have u: "bs[i := v] = take i bs @ v # drop (Suc i) bs" using assms(1) by (rule upd_conv_take_nth_drop)
  have b: "bs = take i bs @ bs ! i # drop (Suc i) bs" using assms(1) by (rule id_take_nth_drop)
  have "crc_byte (foldl crc_byte 0xFFFFFFFF (take i bs)) v = crc_byte (foldl crc_byte 0xFFFFFFFF (take i bs)) (bs ! i)"
    using e unfolding u by (subst (asm) (3) b) (auto dest: crc_fold_inj)
  then show False using crc_byte_inj_byte assms(2) by blast
qed

lemma slice_join: "a \<le> b \<Longrightarrow> b \<le> c \<Longrightarrow> slice a b xs @ slice b c xs = slice a c xs"
proof -
  assume "a \<le> b" "b \<le> c"
  then have "c - a = (b - a) + (c - b)" "drop b xs = drop (b - a) (drop a xs)" by simp_all
  then show ?thesis by (simp only: slice_def take_add)
qed

lemma slice_two: "Suc i < length xs \<Longrightarrow> [xs ! i, xs ! Suc i] = slice i (Suc (Suc i)) xs"
  by (simp add: slice_def take_Suc_conv_app_nth Cons_nth_drop_Suc[symmetric] numeral_2_eq_2)

lemma Parse_lossless:
  assumes "bc_Size \<le> length b" "Parse b = Inr c"
  shows "unparse c = take 32 b"
proof -
  have l: "32 \<le> length b" using assms(1) by (simp add: bc_Size_def)
  have p: "put32 (get32 (slice i (i + 4) b)) = slice i (i + 4) b" if "i + 4 \<le> 32" for i
    using that l le32.put_get[of "slice i (i + 4) b"] by simp
  have slots: "concat (map (\<lambda>s. [PriorityTries s, SlotFlags s])
      (map (\<lambda>i. \<lparr>PriorityTries = b ! (12 + i * 2), SlotFlags = b ! (13 + i * 2)\<rparr>) [0, 1, 2, 3])) =
      [b ! 12, b ! 13] @ [b ! 14, b ! 15] @ [b ! 16, b ! 17] @ [b ! 18, b ! 19]" by simp
  have t: "[b ! i, b ! Suc i] = slice i (Suc (Suc i)) b" if "i < 31" for i
    using that l by (intro slice_two) simp
  have c: "c = \<lparr>SlotSuffix = slice 0 4 b, ctlMagic = get32 (slice 4 8 b), Version = b ! 8,
      ctlFlags = b ! 9, Reserved0 = slice 10 12 b,
      Slots = map (\<lambda>i. \<lparr>PriorityTries = b ! (12 + i * 2), SlotFlags = b ! (13 + i * 2)\<rparr>) [0, 1, 2, 3],
      Reserved1 = slice 20 28 b, CRC32LE = get32 (slice 28 32 b)\<rparr>"
    using assms by (auto simp: Parse_def)
  have "unparse c = slice 0 4 b @ put32 (get32 (slice 4 8 b)) @ [b ! 8, b ! 9] @ slice 10 12 b @
      ([b ! 12, b ! 13] @ [b ! 14, b ! 15] @ [b ! 16, b ! 17] @ [b ! 18, b ! 19]) @ slice 20 28 b @
      put32 (get32 (slice 28 32 b))"
    unfolding c unparse_def Control.simps slots by (rule refl)
  also have "\<dots> = slice 0 4 b @ slice 4 8 b @ slice 8 10 b @ slice 10 12 b @
      (slice 12 14 b @ slice 14 16 b @ slice 16 18 b @ slice 18 20 b) @ slice 20 28 b @ slice 28 32 b"
    using p[of 4] p[of 28] t[of 8] t[of 12] t[of 14] t[of 16] t[of 18] by simp
  also have "\<dots> = slice 0 32 b" by (simp add: slice_join flip: append_assoc)
  finally show ?thesis by (simp add: slice_def)
qed

lemma unat_and_low:
  "unat ((w :: byte) AND 0x0f) = unat w mod 16" "unat (w AND 0x07) = unat w mod 8"
  "unat (w AND 0x01) = unat w mod 2"
proof -
  have m: "(0x0f :: byte) = mask 4" "(0x07 :: byte) = mask 3" "(0x01 :: byte) = mask 1"
    by (simp_all add: mask_eq_exp_minus_1)
  have "unat (w AND mask n) = unat w mod 2 ^ n" for n
    by (simp only: take_bit_eq_mask[symmetric] unsigned_take_bit_eq take_bit_eq_mod[of n "unat w"])
  from this[of 4] this[of 3] this[of 1]
  show "unat (w AND 0x0f) = unat w mod 16" "unat (w AND 0x07) = unat w mod 8"
    "unat (w AND 0x01) = unat w mod 2"
    unfolding m[symmetric] by simp_all
qed

lemma unat_shift: "unat (drop_bit n (w :: byte)) = unat w div 2 ^ n"
proof -
  have "take_bit LENGTH(8) (unat w) = unat w" by (simp only: take_bit_nat_eq_self_iff unsigned_less)
  then show ?thesis
    by (simp only: unsigned_drop_bit_eq drop_bit_eq_div[of n "unat w"])
qed

lemma slot_fields:
  "unat (PriorityTries s) = Priority s + 16 * Tries s + 128 * Successful s"
proof -
  let ?n = "unat (PriorityTries s)"
  have "?n < 2 ^ LENGTH(8)" by (rule unsigned_less)
  then have lt: "?n div 128 < 2" by (simp add: less_mult_imp_div_less)
  have f: "Priority s = ?n mod 16" "Tries s = ?n div 16 mod 8" "Successful s = ?n div 128"
    using lt by (simp_all add: Priority_def Tries_def Successful_def unat_and_low unat_shift)
  have "?n div 16 div 8 = ?n div 128" by (simp add: div_mult2_eq [symmetric])
  then have "?n div 16 = 8 * (?n div 128) + ?n div 16 mod 8" using mult_div_mod_eq[of 8 "?n div 16"] by simp
  then have "16 * (?n div 16) = 128 * (?n div 128) + 16 * (?n div 16 mod 8)" by linarith
  then show ?thesis using f mult_div_mod_eq[of 16 ?n] by linarith
qed

lemma slot_bounds: "Priority s < 16" "Tries s < 8" "Successful s < 2"
  by (simp_all add: Priority_def Tries_def Successful_def unat_and_low)

section \<open>Properties\<close>

text \<open>Lossless decoding.  From a block of at least 32 bytes the decoder succeeds, the decoded
  fields determine all 32 bytes (nothing is dropped or read from a wrong offset), and the three
  bit fields of a slot are in range and recompose its packed byte.\<close>

theorem bootctl_lossless:
  assumes "32 \<le> length b"
  shows "\<exists>c. Parse b = Inr c \<and>
     SlotSuffix c @ put32 (ctlMagic c) @ [Version c, ctlFlags c] @ Reserved0 c @
       concat (map (\<lambda>s. [PriorityTries s, SlotFlags s]) (Slots c)) @ Reserved1 c @ put32 (CRC32LE c) = take 32 b \<and>
     length (Slots c) = 4 \<and>
     (\<forall>s\<in>set (Slots c). unat (PriorityTries s) = Priority s + 16 * Tries s + 128 * Successful s \<and>
        Priority s < 16 \<and> Tries s < 8 \<and> Successful s < 2)"
proof -
  have b: "bc_Size \<le> length b" using assms by (simp add: bc_Size_def)
  then obtain c where c: "Parse b = Inr c" "length (Slots c) = 4" by (simp add: Parse_def)
  show ?thesis using Parse_lossless[OF b c(1)] c slot_fields slot_bounds
    unfolding unparse_def by blast
qed

theorem bootctl_lossless_witness:
  "\<exists>c. Parse (replicate 12 1 @ [0xF3, 0] @ replicate 18 2) = Inr c \<and> length (Slots c) = 4 \<and>
     (\<forall>s\<in>set (Slots c). Priority s < 16)"
  using bootctl_lossless[of "replicate 12 1 @ [0xF3, 0] @ replicate 18 2"] by auto

text \<open>C30: A damaged control block is never reported as matching.  If the stored CRC of a block
  matches, then changing any single byte the CRC covers makes the stored and the computed CRC
  differ, so the report carries the mismatch warning.\<close>

theorem bootctl_detects_corruption:
  assumes "32 \<le> length b" "Parse b = Inr c" "CRC32LE c = ComputedCRC b" "i < 28" "v \<noteq> b ! i"
  shows "\<exists>c'. Parse (b[i := v]) = Inr c' \<and> CRC32LE c' \<noteq> ComputedCRC (b[i := v])"
proof -
  have "slice 28 32 (b[i := v]) = slice 28 32 b" using assms(4) by (simp add: slice_def drop_update_cancel)
  then have "\<exists>c'. Parse (b[i := v]) = Inr c' \<and> CRC32LE c' = CRC32LE c"
    using assms(1,2) by (auto simp: Parse_def bc_Size_def)
  moreover have "ComputedCRC (b[i := v]) \<noteq> ComputedCRC b"
    using assms crc_single_byte[of i "take 28 b" v]
    by (simp add: ComputedCRC_def bc_Size_def take_update_swap)
  ultimately show ?thesis using assms(3) by auto
qed

definition sample_block :: bytes where
  "sample_block = replicate 28 0 @ put32 (crc32_ieee (replicate 28 0))"

theorem bootctl_detects_corruption_witness:
  "\<exists>c'. Parse (sample_block[3 := 1]) = Inr c' \<and> CRC32LE c' \<noteq> ComputedCRC (sample_block[3 := 1])"
proof -
  have l: "length sample_block = 32" by (simp add: sample_block_def)
  then obtain c where c: "Parse sample_block = Inr c" "CRC32LE c = get32 (slice 28 32 sample_block)"
    by (simp add: Parse_def bc_Size_def)
  have "slice 28 32 sample_block = put32 (crc32_ieee (replicate 28 0))"
    by (simp add: sample_block_def slice_def)
  then have "CRC32LE c = ComputedCRC sample_block"
    using c(2) by (simp add: ComputedCRC_def bc_Size_def sample_block_def)
  moreover have "(1 :: byte) \<noteq> sample_block ! 3" by (simp add: sample_block_def nth_append)
  ultimately show ?thesis
    using bootctl_detects_corruption[of sample_block c 3 1] l c(1) by simp
qed

end
