(* ===== verification/Rebootfastboot.thy ===== *)
theory Rebootfastboot
  imports Disk Partition Bootctl
begin

text \<open>
  \<^verbatim>\<open>installer/gotools/internal/rebootfastboot/rebootfastboot.go\<close>: clearing a stale bootloader
  command from misc, arming the boot-mode nibble of the watchdog register, and the applet that
  does both and reboots.  The misc device is a \<^verbatim>\<open>Target\<close> of the image writer's theory; the
  register is four bytes of a mapped page behind a function \<open>hw\<close> that says what the hardware
  holds after a store (the identity on the stored value for memory).
\<close>

section \<open>The bootloader command\<close>

datatype rf_error =
    OpenFailed | BCBShortRead | ClearFailed | BCBSync | NotClear
  | BadMemBase string | MemOpen | MmapFailed | NotTaken u32 u32 | MapPanic

datatype bcb_note = BCBCommand string | WouldClear | Cleared

definition clen :: "bytes \<Rightarrow> nat" where
  "clen b = length (takeWhile (\<lambda>c. c \<noteq> 0) b)"

definition printable :: "bytes \<Rightarrow> string" where
  "printable b = map (\<lambda>c. if 0x20 \<le> c \<and> c < 0x7f then char_of (unat c) else CHR ''.'')
                     (takeWhile (\<lambda>c. c \<noteq> 0) b)"

definition bcbClearBytes :: nat where "bcbClearBytes = 64"

definition DisarmBCB :: "'d Target \<Rightarrow> bool \<Rightarrow> bool \<Rightarrow> 'd \<Rightarrow> 'd \<times> bcb_note list \<times> rf_error option" where
  "DisarmBCB T opens dryRun d =
     (if \<not> opens then (d, [], Some OpenFailed)
      else (case readAt T d 32 0 of
        (d1, cmd, Some e) \<Rightarrow> (d1, [], Some BCBShortRead)
      | (d1, cmd, None) \<Rightarrow>
          (let current = string_of (take (clen cmd) cmd); out = [BCBCommand (printable cmd)] in
           if current \<noteq> ''boot-fastboot'' \<and> current \<noteq> ''boot-recovery'' then (d1, out, None)
           else if dryRun then (d1, out @ [WouldClear], None)
           else (case writeAt T d1 (replicate bcbClearBytes 0) 0 of
             (d2, Some e) \<Rightarrow> (d2, out, Some ClearFailed)
           | (d2, None) \<Rightarrow>
               (case syncDev T d2 of
                  (d3, Some e) \<Rightarrow> (d3, out, Some BCBSync)
                | (d3, None) \<Rightarrow>
                    (case readAt T d3 32 0 of (d4, cmd', e) \<Rightarrow>
                       if e \<noteq> None \<or> cmd' ! 0 \<noteq> 0 then (d4, out, Some NotClear)
                       else (d4, out @ [Cleared], None)))))))"

section \<open>The boot-mode nibble\<close>

definition wdtBase :: nat where "wdtBase = 0x10007000"
definition wdtMapLen :: nat where "wdtMapLen = 0x1000"
definition wdtNonRST2 :: nat where "wdtNonRST2 = 0x24"
definition bootModeMask :: u32 where "bootModeMask = 0x0f"
definition bootModeFastboot :: u32 where "bootModeFastboot = 0x03"

definition armMapping :: "(u32 \<Rightarrow> u32 \<Rightarrow> u32) \<Rightarrow> bytes \<Rightarrow> bool \<Rightarrow> bytes \<times> rf_error option" where
  "armMapping hw mem dryRun =
     (if length mem < wdtNonRST2 + 4 then (mem, Some MapPanic)
      else let old = get32 (drop wdtNonRST2 mem) in
        if dryRun then (mem, None)
        else let want = (old AND NOT bootModeMask) OR bootModeFastboot;
                 mem' = copy_at wdtNonRST2 (put32 (hw old want)) mem;
                 got = get32 (drop wdtNonRST2 mem')
             in if got AND bootModeMask \<noteq> bootModeFastboot then (mem', Some (NotTaken want got))
                else (mem', None))"

definition is_hex :: "char \<Rightarrow> bool" where
  "is_hex c \<longleftrightarrow> is_digit c \<or> c \<in> set ''abcdefABCDEF''"

definition hex_val :: "char \<Rightarrow> nat" where
  "hex_val c = (let n = of_char c in if n \<le> 57 then n - 48 else if n \<le> 70 then n - 55 else n - 87)"

definition parse_hex64 :: "string \<Rightarrow> nat option" where
  "parse_hex64 s = (let v = foldl (\<lambda>a c. a * 16 + hex_val c) 0 s in
     if s \<noteq> [] \<and> list_all is_hex s \<and> v < 2 ^ 64 then Some v else None)"

record rf_env =
  memBaseEnv :: string
  memdevEnv :: string
  memOpens :: "string \<Rightarrow> bool"
  mmapOK :: "string \<Rightarrow> nat \<Rightarrow> bool"
  asRoot :: bool
  sysblock :: sysfs
  devdirEnv :: string
  miscOpens :: "string \<Rightarrow> bool"
  execOK :: bool
  rebootOK :: bool

definition trim_0x :: "string \<Rightarrow> string" where
  "trim_0x v = (case cut_prefix v ''0x'' of Some r \<Rightarrow> r | None \<Rightarrow> v)"

definition arm_base :: "rf_env \<Rightarrow> rf_error + nat" where
  "arm_base env =
     (if memBaseEnv env = [] then Inr wdtBase
      else (case parse_hex64 (trim_0x (memBaseEnv env)) of
              None \<Rightarrow> Inl (BadMemBase (memBaseEnv env)) | Some b \<Rightarrow> Inr b))"

definition memdev :: "rf_env \<Rightarrow> string" where
  "memdev env = (if memdevEnv env \<noteq> [] then memdevEnv env else ''/dev/mem'')"

text \<open>What can be mapped: a page per file and offset; the hardware is behind \<^verbatim>\<open>/dev/mem\<close>.\<close>

type_synonym pages = "string \<Rightarrow> nat \<Rightarrow> bytes"

definition ArmNibble :: "rf_env \<Rightarrow> (u32 \<Rightarrow> u32 \<Rightarrow> u32) \<Rightarrow> bool \<Rightarrow> pages \<Rightarrow> pages \<times> rf_error option" where
  "ArmNibble env hw dryRun ps =
     (case arm_base env of
        Inl e \<Rightarrow> (ps, Some e)
      | Inr base \<Rightarrow>
          let f = memdev env in
          if \<not> memOpens env f then (ps, Some MemOpen)
          else if \<not> mmapOK env f base then (ps, Some MmapFailed)
          else (case armMapping hw (ps f base) dryRun of (mem', e) \<Rightarrow> (ps(f := (ps f)(base := mem')), e)))"

section \<open>The applet\<close>

record rf_flags =
  f_dryRun :: bool
  f_noReboot :: bool
  f_force :: bool
  f_misc :: string

datatype rf_event = EvSync | EvExecReboot | EvReboot

datatype rf_outcome = Exit int | Gone

record 'd rf_world =
  devs :: "string \<Rightarrow> 'd"
  regs :: pages
  done_events :: "rf_event list"

definition misc_choice :: "rf_env \<Rightarrow> rf_flags \<Rightarrow> string" where
  "misc_choice env fl =
     (if f_misc fl \<noteq> [] then f_misc fl
      else (case ResolveMisc (devdirEnv env) (sysblock env) of Inl _ \<Rightarrow> [] | Inr p \<Rightarrow> p))"

definition rf_reboot :: "rf_env \<Rightarrow> rf_flags \<Rightarrow> 'd rf_world \<Rightarrow> rf_outcome \<times> 'd rf_world" where
  "rf_reboot env fl w =
     (let w1 = w\<lparr>done_events := done_events w @ [EvSync]\<rparr> in
      if \<not> f_force fl \<and> execOK env then (Gone, w1\<lparr>done_events := done_events w1 @ [EvExecReboot]\<rparr>)
      else let w2 = (if f_force fl then w1 else w1\<lparr>done_events := done_events w1 @ [EvExecReboot]\<rparr>);
               w3 = w2\<lparr>done_events := done_events w2 @ [EvReboot]\<rparr>
           in (if rebootOK env then Gone else Exit 1, w3))"

definition rf_arm :: "rf_env \<Rightarrow> (u32 \<Rightarrow> u32 \<Rightarrow> u32) \<Rightarrow> rf_flags \<Rightarrow> 'd rf_world \<Rightarrow> rf_outcome \<times> 'd rf_world" where
  "rf_arm env hw fl w =
     (case ArmNibble env hw (f_dryRun fl) (regs w) of
        (ps, Some e) \<Rightarrow> (Exit 1, w\<lparr>regs := ps\<rparr>)
      | (ps, None) \<Rightarrow>
          if f_dryRun fl \<or> f_noReboot fl then (Exit 0, w\<lparr>regs := ps\<rparr>)
          else rf_reboot env fl (w\<lparr>regs := ps\<rparr>))"

definition rf_Main ::
  "'d Target \<Rightarrow> rf_env \<Rightarrow> (u32 \<Rightarrow> u32 \<Rightarrow> u32) \<Rightarrow> rf_flags \<Rightarrow> 'd rf_world \<Rightarrow> rf_outcome \<times> 'd rf_world" where
  "rf_Main T env hw fl w =
     (if \<not> f_dryRun fl \<and> \<not> asRoot env \<and> memdevEnv env = [] then (Exit 1, w)
      else let misc = misc_choice env fl in
        if misc = [] then rf_arm env hw fl w
        else (case DisarmBCB T (miscOpens env misc) (f_dryRun fl) (devs w misc) of
                (d, out, Some e) \<Rightarrow> (Exit 1, w\<lparr>devs := (devs w)(misc := d)\<rparr>)
              | (d, out, None) \<Rightarrow> rf_arm env hw fl (w\<lparr>devs := (devs w)(misc := d)\<rparr>)))"

section \<open>Lemmas on the bootloader command\<close>

definition bcb :: "bytes \<Rightarrow> string" where
  "bcb c = string_of (takeWhile (\<lambda>b. b \<noteq> 0) (take 32 c))"

definition bcb_armed :: "bytes \<Rightarrow> bool" where
  "bcb_armed c \<longleftrightarrow> bcb c = ''boot-fastboot'' \<or> bcb c = ''boot-recovery''"

lemma take_clen: "take (clen b) b = takeWhile (\<lambda>c. c \<noteq> 0) b"
  unfolding clen_def by (metis takeWhile_eq_take)

context disk_target begin

lemma DisarmBCB_frame:
  assumes "DisarmBCB T opens dry d = (d', out, e)"
  shows "drop 64 (content d') = drop 64 (content d) \<and> length (content d') = length (content d) \<and>
         (dry \<or> \<not> bcb_armed (content d) \<longrightarrow> content d' = content d)"
proof (cases opens)
  case False
  then show ?thesis using assms by (simp add: DisarmBCB_def)
next
  case True
  obtain d1 cmd re where r1: "readAt T d 32 0 = (d1, cmd, re)" by (metis surj_pair)
  have c1: "content d1 = content d" using r1 read_ok[of d 32 0] read_fail[of d 32 0] by (cases re) auto
  show ?thesis
  proof (cases re)
    case (Some x)
    then show ?thesis using assms True r1 c1 by (simp add: DisarmBCB_def)
  next
    case None
    have cmd: "cmd = take 32 (content d)" using read_ok[of d 32 0 d1 cmd] r1 None by simp
    have cur: "string_of (take (clen cmd) cmd) = bcb (content d)" by (simp only: take_clen cmd bcb_def)
    show ?thesis
    proof (cases "bcb_armed (content d) \<and> \<not> dry")
      case f: False
      then show ?thesis using assms True r1 c1 None cur
        by (auto simp: DisarmBCB_def Let_def bcb_armed_def split: if_splits)
    next
      case armed: True
      obtain d2 we where w: "writeAt T d1 (replicate bcbClearBytes 0) 0 = (d2, we)" by (metis surj_pair)
      have d2: "drop 64 (content d2) = drop 64 (content d1)" "length (content d2) = length (content d1)"
      proof -
        have "\<exists>k. length (take k (replicate bcbClearBytes (0 :: byte))) \<le> length (content d1) \<and>
            content d2 = copy_at 0 (take k (replicate bcbClearBytes 0)) (content d1) \<or> content d2 = content d1"
          using w write_ok[of d1 "replicate bcbClearBytes 0" 0 d2]
            write_partial[of d1 "replicate bcbClearBytes 0" 0 d2]
          by (cases we) (auto intro: exI[of _ 64] simp: bcbClearBytes_def)
        then show "drop 64 (content d2) = drop 64 (content d1)"
          by (auto simp: drop_copy_at_after bcbClearBytes_def)
        show "length (content d2) = length (content d1)" by (rule write_keeps_length[OF w])
      qed
      obtain d3 se where s: "syncDev T d2 = (d3, se)" by (metis surj_pair)
      have c3: "content d3 = content d2" using sync_keeps[of d2] s by simp
      obtain d4 cmd' e' where r4: "readAt T d3 32 0 = (d4, cmd', e')" by (metis surj_pair)
      have c4: "content d4 = content d3" using r4 read_ok[of d3 32 0] read_fail[of d3 32 0] by (cases e') auto
      have "d' \<in> {d2, d3, d4}"
        using assms True r1 None armed cur w s r4
        by (auto simp: DisarmBCB_def Let_def bcb_armed_def split: option.splits if_splits)
      then show ?thesis using d2 c1 c3 c4 armed by auto
    qed
  qed
qed

lemma DisarmBCB_clears:
  assumes "DisarmBCB T opens False d = (d', out, None)"
  shows "\<not> bcb_armed (content d') \<and> 32 \<le> length (content d) \<and>
         (bcb_armed (content d) \<longrightarrow> take 64 (content d') = replicate 64 0)"
proof -
  obtain d1 cmd where r1: "readAt T d 32 0 = (d1, cmd, None)" and opens
    using assms by (auto simp: DisarmBCB_def split: if_splits prod.splits option.splits)
  have cmd: "cmd = take 32 (content d)" "length cmd = 32" "content d1 = content d" using read_ok[OF r1] by auto
  have cur: "string_of (take (clen cmd) cmd) = bcb (content d)" by (simp only: take_clen cmd(1) bcb_def)
  have len: "32 \<le> length (content d)" using cmd by simp
  show ?thesis
  proof (cases "bcb_armed (content d)")
    case False
    then show ?thesis using DisarmBCB_frame[OF assms] len by simp
  next
    case True
    then obtain d2 d3 d4 cmd' where w: "writeAt T d1 (replicate bcbClearBytes 0) 0 = (d2, None)"
      and s: "syncDev T d2 = (d3, None)" and r: "readAt T d3 32 0 = (d4, cmd', None)" and d': "d' = d4"
      using assms \<open>opens\<close> r1 cur
      by (auto simp: DisarmBCB_def Let_def bcb_armed_def split: prod.splits option.splits if_splits)
    have "content d' = content d2" using read_ok[OF r] sync_keeps[of d2] s d' by simp
    then have z: "take 64 (content d') = replicate 64 0"
      using write_ok[OF w] by (simp add: copy_at_fits bcbClearBytes_def)
    have "take 32 (content d') = take 32 (take 64 (content d'))" by simp
    also have "\<dots> = replicate 32 0" unfolding z by simp
    finally have "take 32 (content d') = replicate 32 0" .
    then have "bcb (content d') = []" by (simp add: bcb_def string_of_def takeWhile_replicate)
    then show ?thesis using z len by (simp add: bcb_armed_def)
  qed
qed

end

section \<open>Lemmas on the nibble\<close>

lemma nibble_bits:
  "(((old AND NOT bootModeMask) OR bootModeFastboot) AND bootModeMask) = bootModeFastboot"
  "(((old AND NOT bootModeMask) OR bootModeFastboot) AND NOT bootModeMask) = old AND NOT bootModeMask"
proof -
  have m: "bootModeMask = mask 4" "bootModeFastboot = mask 2"
    by (simp_all add: bootModeMask_def bootModeFastboot_def mask_eq_exp_minus_1)
  show "(((old AND NOT bootModeMask) OR bootModeFastboot) AND bootModeMask) = bootModeFastboot"
    unfolding m by (rule bit_word_eqI) (auto simp: bit_and_iff bit_or_iff bit_not_iff bit_mask_iff)
  show "(((old AND NOT bootModeMask) OR bootModeFastboot) AND NOT bootModeMask) = old AND NOT bootModeMask"
    unfolding m by (rule bit_word_eqI) (auto simp: bit_and_iff bit_or_iff bit_not_iff bit_mask_iff)
qed

definition nibble_armed :: "bytes \<Rightarrow> bool" where
  "nibble_armed mem \<longleftrightarrow> get32 (drop wdtNonRST2 mem) AND bootModeMask = bootModeFastboot"

lemma armMapping_armed:
  "armMapping hw mem False = (mem', None) \<Longrightarrow> nibble_armed mem'"
  by (auto simp: armMapping_def nibble_armed_def Let_def split: if_splits)

lemma armMapping_frame:
  assumes "armMapping hw mem dry = (mem', e)"
  shows "length mem' = length mem \<and> take wdtNonRST2 mem' = take wdtNonRST2 mem \<and>
         drop (wdtNonRST2 + 4) mem' = drop (wdtNonRST2 + 4) mem \<and> (dry \<longrightarrow> mem' = mem)"
  using assms
  by (auto simp: armMapping_def Let_def take_copy_at_before drop_copy_at_after split: if_splits)

lemma armMapping_memory:
  assumes "wdtNonRST2 + 4 \<le> length mem"
  shows "\<exists>mem'. armMapping (\<lambda>_ v. v) mem False = (mem', None) \<and>
     get32 (drop wdtNonRST2 mem') AND NOT bootModeMask = get32 (drop wdtNonRST2 mem) AND NOT bootModeMask"
  using assms nibble_bits
  by (simp add: armMapping_def Let_def le32.field_same)

lemma rf_arm_events:
  assumes "rf_arm env hw fl w = (oc, w')" "done_events w = []"
    and "done_events w' \<noteq> [] \<or> oc = Gone \<or> (oc = Exit 0 \<and> \<not> f_dryRun fl)"
  shows "devs w' = devs w \<and> (\<exists>base. arm_base env = Inr base \<and> nibble_armed (regs w' (memdev env) base))"
proof -
  obtain ps ae where a: "ArmNibble env hw (f_dryRun fl) (regs w) = (ps, ae)" by (metis surj_pair)
  have nd: "\<not> f_dryRun fl \<and> ae = None \<and> devs w' = devs w \<and> regs w' = ps"
    using assms a by (auto simp: rf_arm_def rf_reboot_def Let_def split: option.splits if_splits)
  then obtain base mem' where b: "arm_base env = Inr base" "armMapping hw (regs w (memdev env) base) False = (mem', None)"
      "ps = (regs w)(memdev env := (regs w (memdev env))(base := mem'))"
    using a by (auto simp: ArmNibble_def Let_def split: sum.splits if_splits prod.splits)
  then show ?thesis using nd armMapping_armed[OF b(2)] by auto
qed

lemma ArmNibble_redirected:
  assumes "memdev env \<noteq> f" "ArmNibble env hw dry ps = (ps', e)"
  shows "ps' f = ps f"
  using assms by (auto simp: ArmNibble_def Let_def split: sum.splits if_splits prod.splits)

lemma rf_arm_redirected:
  assumes "memdev env \<noteq> f" "rf_arm env hw fl w = (oc, w')"
  shows "regs w' f = regs w f"
  using assms(2) ArmNibble_redirected[OF assms(1), of hw "f_dryRun fl" "regs w"]
  by (auto simp: rf_arm_def rf_reboot_def Let_def split: prod.splits option.splits if_splits)

section \<open>Properties\<close>

text \<open>C31: Disarming touches nothing but an armed bootloader command.  Whatever the device does, all bytes
  from offset 64 on, the A/B control block at 2048 among them, keep their values; a dry run and a
  command LK does not match change nothing at all; and a reported success means the command is no
  longer one that LK would take for recovery.\<close>

theorem disarm_bcb_exact:
  assumes "DisarmBCB (disk_ops sched) opens dry d = (d', out, e)"
  shows "drop 64 (media d') = drop 64 (media d) \<and>
         bc_Read (\<lambda>_. Some (media d')) dev = bc_Read (\<lambda>_. Some (media d)) dev \<and>
         (dry \<or> \<not> bcb_armed (media d) \<longrightarrow> media d' = media d) \<and>
         (\<not> dry \<and> e = None \<longrightarrow> \<not> bcb_armed (media d'))"
proof -
  note f = dt.DisarmBCB_frame[OF assms]
  have "drop 2048 (media d') = drop 1984 (drop 64 (media d'))" by simp
  also have "\<dots> = drop 2048 (media d)" using f by simp
  finally have "slice bc_Offset (bc_Offset + bc_Size) (media d') = slice bc_Offset (bc_Offset + bc_Size) (media d)"
    by (simp add: slice_def bc_Offset_def)
  then have "bc_Read (\<lambda>_. Some (media d')) dev = bc_Read (\<lambda>_. Some (media d)) dev"
    using f by (simp add: bc_Read_def)
  moreover have "\<not> dry \<and> e = None \<longrightarrow> \<not> bcb_armed (media d')"
    using dt.DisarmBCB_clears[of sched opens d d' out] assms by auto
  ultimately show ?thesis using f by blast
qed

definition armed_misc :: disk where
  "armed_misc = \<lparr>media = bytes_of ''boot-recovery'' @ replicate 4083 0, clock = 0\<rparr>"

lemma armed_misc_armed: "bcb_armed (media armed_misc)"
proof -
  have "take 32 (media armed_misc) = bytes_of ''boot-recovery'' @ replicate 19 0" by (simp add: armed_misc_def)
  moreover have "\<forall>b\<in>set (bytes_of ''boot-recovery''). b \<noteq> 0" by (simp add: bytes_of_def)
  ultimately have "takeWhile (\<lambda>b. b \<noteq> 0) (take 32 (media armed_misc)) = bytes_of ''boot-recovery''"
    by (simp add: takeWhile_append takeWhile_replicate)
  then show ?thesis by (simp add: bcb_armed_def bcb_def)
qed

theorem disarm_bcb_exact_witness:
  "\<exists>d' out e. DisarmBCB (disk_ops (\<lambda>_ _. NoFault)) True True armed_misc = (d', out, e) \<and>
     media d' = media armed_misc \<and> bcb_armed (media d')"
proof -
  obtain d' out e where d: "DisarmBCB (disk_ops (\<lambda>_ _. NoFault)) True True armed_misc = (d', out, e)"
    by (metis surj_pair)
  then show ?thesis using disarm_bcb_exact[OF d] armed_misc_armed by auto
qed

text \<open>C12: Arming sets the nibble and nothing else.  On a mapped page, arming succeeds, the low nibble of
  the register reads 3, the other 28 bits of it and every other byte of the page keep their values;
  and whatever the hardware does with the store, success is only reported when the nibble reads 3.\<close>

theorem arm_nibble_exact:
  assumes "length mem = wdtMapLen"
  shows "(\<exists>mem'. armMapping (\<lambda>_ v. v) mem False = (mem', None) \<and>
            get32 (drop 0x24 mem') AND 0x0f = 3 \<and>
            get32 (drop 0x24 mem') AND NOT 0x0f = get32 (drop 0x24 mem) AND NOT 0x0f \<and>
            take 0x24 mem' = take 0x24 mem \<and> drop 0x28 mem' = drop 0x28 mem) \<and>
         (\<forall>hw mem'. armMapping hw mem False = (mem', None) \<longrightarrow> get32 (drop 0x24 mem') AND 0x0f = 3) \<and>
         (\<forall>hw. armMapping hw mem True = (mem, None))"
proof -
  have l: "wdtNonRST2 + 4 \<le> length mem" using assms by (simp add: wdtNonRST2_def wdtMapLen_def)
  obtain mem' where m: "armMapping (\<lambda>_ v. v) mem False = (mem', None)"
    "get32 (drop wdtNonRST2 mem') AND NOT bootModeMask = get32 (drop wdtNonRST2 mem) AND NOT bootModeMask"
    using armMapping_memory[OF l] by blast
  note armed = armMapping_armed[unfolded nibble_armed_def wdtNonRST2_def bootModeMask_def bootModeFastboot_def]
  have "armMapping hw mem True = (mem, None)" for hw
    using l by (simp add: armMapping_def Let_def)
  then show ?thesis
    using m armMapping_frame[OF m(1)] armed[OF m(1)] armed
    by (auto simp: wdtNonRST2_def bootModeMask_def)
qed

theorem arm_nibble_exact_witness:
  "\<exists>mem'. armMapping (\<lambda>_ v. v) (replicate 4096 0xA5) False = (mem', None) \<and> get32 (drop 0x24 mem') AND 0x0f = 3"
  using arm_nibble_exact[of "replicate 4096 0xA5"] by (auto simp: wdtMapLen_def)

datatype lk_mode = LK_PRELOADER | LK_RECOVERY | LK_FASTBOOT | LK_NORMAL

text \<open>C11: The applet reboots into fastboot.  For a bootloader that behaves as documented (with no boot mode
  forced by the preloader, a register nibble of 3 and no recovery command in misc lead to fastboot),
  whenever the applet gets as far as rebooting with the misc partition known, and neither \<^verbatim>\<open>DC1_MEMDEV\<close> nor
  \<^verbatim>\<open>DC1_MEMBASE\<close> redirects it to another file or page, the state it leaves in the hardware register and in misc
  makes the bootloader choose fastboot.  A redirected run never touches the hardware register.\<close>

theorem reboot_reaches_fastboot:
  assumes lk: "\<forall>pre reg cmd. pre \<notin> {1, 4, 7} \<longrightarrow> reg AND 0x0f = (3 :: u32) \<longrightarrow>
      cmd \<noteq> ''boot-recovery'' \<longrightarrow> cmd \<noteq> ''boot-fastboot'' \<longrightarrow> lk pre reg cmd = LK_FASTBOOT"
    and main: "rf_Main (disk_ops sched) env hw fl w = (oc, w')" "done_events w = []"
    and reboots: "oc = Gone \<or> EvReboot \<in> set (done_events w')"
    and misc: "misc_choice env fl = misc" "misc \<noteq> []" "memBaseEnv env = []" and pre: "pre \<notin> {1, 4, 7 :: nat}"
  shows "(memdevEnv env \<in> {[], ''/dev/mem''} \<longrightarrow>
           lk pre (get32 (drop 0x24 (regs w' ''/dev/mem'' wdtBase))) (bcb (media (devs w' misc))) = LK_FASTBOOT) \<and>
         (memdevEnv env \<notin> {[], ''/dev/mem''} \<longrightarrow> regs w' ''/dev/mem'' = regs w ''/dev/mem'')"
proof -
  obtain d out de where d: "DisarmBCB (disk_ops sched) (miscOpens env misc) (f_dryRun fl) (devs w misc) = (d, out, de)"
    by (metis surj_pair)
  have r: "de = None" "rf_arm env hw fl (w\<lparr>devs := (devs w)(misc := d)\<rparr>) = (oc, w')"
    using main(1) misc(1,2) d reboots main(2) by (auto simp: rf_Main_def Let_def split: if_splits option.splits)
  have nd: "\<not> f_dryRun fl"
    using r(2) reboots main(2) by (auto simp: rf_arm_def split: prod.splits option.splits if_splits)
  have a: "devs w' = (devs w)(misc := d)" "nibble_armed (regs w' (memdev env) wdtBase)"
  proof -
    have "done_events w' \<noteq> [] \<or> oc = Gone \<or> (oc = Exit 0 \<and> \<not> f_dryRun fl)" using reboots by auto
    from rf_arm_events[OF r(2) _ this] main(2) misc(3)
    show "devs w' = (devs w)(misc := d)" "nibble_armed (regs w' (memdev env) wdtBase)" by (auto simp: arm_base_def)
  qed
  have "\<not> bcb_armed (media d)" using dt.DisarmBCB_clears[of sched _ "devs w misc" d out] d r(1) nd by auto
  then have "lk pre (get32 (drop 0x24 (regs w' (memdev env) wdtBase))) (bcb (media (devs w' misc))) = LK_FASTBOOT"
    using lk pre a by (auto simp: bcb_armed_def nibble_armed_def wdtNonRST2_def bootModeMask_def bootModeFastboot_def)
  moreover have "memdev env \<noteq> ''/dev/mem'' \<Longrightarrow> regs w' ''/dev/mem'' = regs w ''/dev/mem''"
    using rf_arm_redirected[OF _ r(2)] by simp
  moreover have "memdev env = ''/dev/mem'' \<longleftrightarrow> memdevEnv env \<in> {[], ''/dev/mem''}"
    by (auto simp: memdev_def)
  ultimately show ?thesis by metis
qed

definition documented_lk :: "nat \<Rightarrow> u32 \<Rightarrow> string \<Rightarrow> lk_mode" where
  "documented_lk pre reg cmd =
     (if pre \<in> {1, 4, 7} then LK_PRELOADER
      else if reg AND 0x0f = 2 then LK_RECOVERY
      else if cmd = ''boot-recovery'' then LK_RECOVERY
      else if cmd = ''boot-fastboot'' then LK_RECOVERY
      else if reg AND 0x0f = 3 then LK_FASTBOOT else LK_NORMAL)"

definition sample_rf_env :: rf_env where
  "sample_rf_env = \<lparr>memBaseEnv = [], memdevEnv = [], memOpens = (\<lambda>_. True), mmapOK = (\<lambda>_ _. True), asRoot = True,
     sysblock = [], devdirEnv = ''/dev'', miscOpens = (\<lambda>_. True), execOK = True, rebootOK = True\<rparr>"

definition sample_rf_flags :: rf_flags where
  "sample_rf_flags = \<lparr>f_dryRun = False, f_noReboot = False, f_force = True, f_misc = ''/dev/sdc1''\<rparr>"

definition sample_rf_world :: "disk rf_world" where
  "sample_rf_world = \<lparr>devs = (\<lambda>_. armed_misc), regs = (\<lambda>_ _. replicate 4096 0), done_events = []\<rparr>"

lemma DisarmBCB_armed_misc:
  "\<exists>d out. DisarmBCB (disk_ops (\<lambda>_ _. NoFault)) True False armed_misc = (d, out, None)"
proof -
  let ?T = "disk_ops (\<lambda>_ _. NoFault)"
  have l: "length (media armed_misc) = 4096" by (simp add: armed_misc_def)
  have r1: "readAt ?T armed_misc 32 0 = (tick armed_misc, take 32 (media armed_misc), None)"
    using l by (simp add: disk_ops_def disk_read_def)
  obtain d2 where w: "writeAt ?T (tick armed_misc) (replicate bcbClearBytes 0) 0 = (d2, None)"
    using rt.write_succeeds[of 0 "replicate bcbClearBytes 0" "tick armed_misc"] l
    by (metis add_0 bcbClearBytes_def length_replicate media_tick numeral_le_iff prod.collapse semiring_norm(69,72,68,76,78,71))
  have c2: "media d2 = replicate 64 0 @ drop 64 (media armed_misc)"
    using dt.write_ok[OF w] l by (simp add: copy_at_fits bcbClearBytes_def)
  have s: "syncDev ?T d2 = (tick d2, None)" by (simp add: disk_ops_def disk_sync_def)
  have r4: "readAt ?T (tick d2) 32 0 = (tick (tick d2), take 32 (media d2), None)"
    using c2 by (simp add: disk_ops_def disk_read_def)
  have "take 32 (media d2) ! 0 = 0" using c2 by (simp add: nth_append)
  then show ?thesis using r1 w s r4 by (simp add: DisarmBCB_def Let_def)
qed

theorem reboot_reaches_fastboot_witness:
  "\<exists>w'. rf_Main (disk_ops (\<lambda>_ _. NoFault)) sample_rf_env (\<lambda>_ v. v) sample_rf_flags sample_rf_world = (Gone, w') \<and>
     documented_lk 0 (get32 (drop 0x24 (regs w' ''/dev/mem'' wdtBase))) (bcb (media (devs w' ''/dev/sdc1''))) = LK_FASTBOOT"
proof -
  let ?T = "disk_ops (\<lambda>_ _. NoFault)"
  obtain d out where d: "DisarmBCB ?T True False armed_misc = (d, out, None)" using DisarmBCB_armed_misc by blast
  have "length (replicate 4096 0 :: bytes) = wdtMapLen" by (simp add: wdtMapLen_def)
  then obtain mem' where m: "armMapping (\<lambda>_ v. v) (replicate 4096 0) False = (mem', None)"
    using armMapping_memory[of "replicate 4096 0"] by (auto simp: wdtNonRST2_def)
  obtain w' where w': "rf_Main ?T sample_rf_env (\<lambda>_ v. v) sample_rf_flags sample_rf_world = (Gone, w')"
    using d m by (simp add: rf_Main_def misc_choice_def rf_arm_def ArmNibble_def arm_base_def rf_reboot_def
        sample_rf_env_def sample_rf_flags_def sample_rf_world_def Let_def)
  have "documented_lk 0 (get32 (drop 0x24 (regs w' ''/dev/mem'' wdtBase))) (bcb (media (devs w' ''/dev/sdc1''))) = LK_FASTBOOT"
    using reboot_reaches_fastboot[where lk = documented_lk and pre = 0 and misc = "''/dev/sdc1''", OF _ w']
    by (simp add: documented_lk_def sample_rf_env_def sample_rf_flags_def sample_rf_world_def misc_choice_def)
  with w' show ?thesis by blast
qed

end
