(* ===== verification/Installd.thy ===== *)
theory Installd
  imports Wire Rebootfastboot
begin

text \<open>
  \<^verbatim>\<open>installer/gotools/internal/installd/installd.go\<close>: one DC1-INSTALL-V1 session of the USB
  installer daemon.  \<open>serve\<close> runs the header parser, the answer validation, the partition
  resolver and the image writer of the other theories in the order of the code; the file system
  calls and the two shell scripts it starts are the fields of \<open>inst_env\<close>.  The connection is
  the pieces that arrive and the way it ends (a silent peer ends it with a timeout error).
\<close>

section \<open>The session\<close>

datatype fail_reason =
    Busy | BadHeader wire_error | AnswersFailed | ValidationFailed string | Unresolved part_error
  | ImageTooLarge int int | CannotOpenTarget string | WriteFailed write_error | FinalizeFailed string

datatype reply = Say string | Fail fail_reason | Ok int string

record finalize_call =
  fc_script :: string
  fc_args :: "string list"
  fc_dev :: string
  fc_skip :: bool

record 'd inst_env =
  mkdirOK :: bool
  writeAnswersFile :: "bytes \<Rightarrow> bytes option \<times> bool"
  validateAnswers :: "bytes \<Rightarrow> bool \<times> bytes"
  blockDevs :: sysfs
  targetOpens :: "string \<Rightarrow> bool"
  runFinalize :: "finalize_call \<Rightarrow> 'd \<Rightarrow> 'd \<times> bool \<times> bytes"

record 'd sess =
  lock :: bool
  answersFile :: "bytes option"
  statusFile :: string
  replies :: "reply list"
  dev :: 'd
  rebootDue :: bool
  hung :: bool

definition answersPath :: string where "answersPath = ''/tmp/answers''"

definition firstLine :: "bytes \<Rightarrow> string" where
  "firstLine b = (let l = takeWhile (\<lambda>c. c \<noteq> hd (bytes_of [LF])) b in
     if length l < length b then string_of l
     else if length b = 0 then ''(no output)'' else string_of b)"

definition say :: "string \<Rightarrow> 'd sess \<Rightarrow> 'd sess" where
  "say line st = st\<lparr>replies := replies st @ [Say line], statusFile := line @ [LF]\<rparr>"

definition fail :: "fail_reason \<Rightarrow> 'd sess \<Rightarrow> 'd sess" where
  "fail r st = st\<lparr>replies := replies st @ [Fail r]\<rparr>"

definition finalize_args :: "string \<Rightarrow> Resolved \<Rightarrow> Header \<Rightarrow> finalize_call" where
  "finalize_args finalize target hdr =
     \<lparr>fc_script = finalize,
      fc_args = [Device target, if Unprovisioned hdr then [] else answersPath],
      fc_dev = Device target, fc_skip = Unprovisioned hdr\<rparr>"

definition serve_finalize ::
  "'d inst_env \<Rightarrow> string \<Rightarrow> Resolved \<Rightarrow> Header \<Rightarrow> WriteResult \<Rightarrow> 'd sess \<Rightarrow> 'd sess" where
  "serve_finalize env finalize target hdr res st =
     (case runFinalize env (finalize_args finalize target hdr) (dev st) of (d, ok, out) \<Rightarrow>
        let st1 = st\<lparr>dev := d\<rparr> in
        if \<not> ok then fail (FinalizeFailed (firstLine out)) st1
        else st1\<lparr>answersFile := None,
                  replies := replies st1 @ [Ok (resBytes res) (resSHA256 res)],
                  statusFile := ''INSTALL COMPLETE'' @ [LF] @ ''REBOOTING TO FASTBOOT'' @ [LF] @
                                ''FLASH THE REAL BOOT IMAGE'' @ [LF],
                  rebootDue := True\<rparr>)"

definition serve_write ::
  "'d Target \<Rightarrow> 'd inst_env \<Rightarrow> string \<Rightarrow> Resolved \<Rightarrow> Header \<Rightarrow> bytes list \<Rightarrow> io_error \<Rightarrow> 'd sess \<Rightarrow> 'd sess" where
  "serve_write T env finalize target hdr body end_err st =
     (case Write T (dev st) body end_err (Size hdr) (SHA256 hdr) of (d, rest, said, r) \<Rightarrow>
        let st1 = fold say said (st\<lparr>dev := d\<rparr>) in
        (case r of
           Inl ReadBackHangs \<Rightarrow> st1\<lparr>hung := True\<rparr>
         | Inl e \<Rightarrow> fail (WriteFailed e) st1
         | Inr res \<Rightarrow> serve_finalize env finalize target hdr res (say ''IMAGE WRITTEN + VERIFIED'' st1)))"

definition serve_target ::
  "'d Target \<Rightarrow> 'd inst_env \<Rightarrow> string \<Rightarrow> Header \<Rightarrow> bytes list \<Rightarrow> io_error \<Rightarrow> 'd sess \<Rightarrow> 'd sess" where
  "serve_target T env finalize hdr body end_err st =
     (case ResolveUserdata ''/dev'' (blockDevs env) of
        Inl e \<Rightarrow> fail (Unresolved e) st
      | Inr target \<Rightarrow>
          (let st1 = say (''TARGET '' @ Device target @ '' ('' @ dec_int (quot (Bytes target) (2 ^ 30)) @ '' GIB)'') st in
           if Bytes target < Size hdr then fail (ImageTooLarge (Size hdr) (Bytes target)) st1
           else if \<not> targetOpens env (Device target) then fail (CannotOpenTarget (Device target)) st1
           else serve_write T env finalize target hdr body end_err st1))"

definition serve_answers :: "'d inst_env \<Rightarrow> Header \<Rightarrow> 'd sess \<Rightarrow> 'd sess \<times> bool" where
  "serve_answers env hdr st =
     (if Unprovisioned hdr
      then (say ''UNPROVISIONED INSTALL: no account setup (auto-login as build-time default user)'' st, True)
      else (case writeAnswersFile env (Answers hdr) of (f, ok) \<Rightarrow>
        let st1 = st\<lparr>answersFile := f\<rparr> in
        if \<not> ok then (fail AnswersFailed st1, False)
        else (case validateAnswers env (Answers hdr) of (valid, out) \<Rightarrow>
          if \<not> valid then (fail (ValidationFailed (firstLine out)) st1, False) else (st1, True))))"

definition serve_locked ::
  "'d Target \<Rightarrow> 'd inst_env \<Rightarrow> string \<Rightarrow> bytes list \<Rightarrow> io_error \<Rightarrow> 'd sess \<Rightarrow> 'd sess" where
  "serve_locked T env finalize conn end_err st =
     (case ParseHeader (concat conn) of
        Inl e \<Rightarrow> fail (BadHeader e) st
      | Inr (hdr, body) \<Rightarrow>
          (case serve_answers env hdr st of
             (st1, False) \<Rightarrow> st1
           | (st1, True) \<Rightarrow> serve_target T env finalize hdr [body] end_err st1))"

definition serve ::
  "'d Target \<Rightarrow> 'd inst_env \<Rightarrow> string \<Rightarrow> bytes list \<Rightarrow> io_error \<Rightarrow> 'd sess \<Rightarrow> 'd sess" where
  "serve T env finalize conn end_err st =
     (let st1 = say ''HOST CONNECTED'' st in
      if lock st1 \<or> \<not> mkdirOK env then fail Busy st1
      else let st2 = serve_locked T env finalize conn end_err (st1\<lparr>lock := True\<rparr>)
           in if hung st2 then st2 else st2\<lparr>lock := False\<rparr>)"

text \<open>The daemon's own reboot: it arms the nibble and resets, without looking at misc.\<close>

definition rebootToFastboot ::
  "rf_env \<Rightarrow> (u32 \<Rightarrow> u32 \<Rightarrow> u32) \<Rightarrow> 'd rf_world \<Rightarrow> (rf_error + bool) \<times> 'd rf_world" where
  "rebootToFastboot env hw w =
     (case ArmNibble env hw False (regs w) of
        (ps, Some e) \<Rightarrow> (Inl e, w\<lparr>regs := ps\<rparr>)
      | (ps, None) \<Rightarrow> (Inr (rebootOK env), w\<lparr>regs := ps, done_events := done_events w @ [EvSync, EvReboot]\<rparr>))"

section \<open>Lemmas\<close>

definition is_verdict :: "reply \<Rightarrow> bool" where
  "is_verdict r = (case r of Say _ \<Rightarrow> False | _ \<Rightarrow> True)"

lemma say_simps [simp]:
  "lock (say l st) = lock st" "answersFile (say l st) = answersFile st" "dev (say l st) = dev st"
  "rebootDue (say l st) = rebootDue st" "hung (say l st) = hung st" "replies (say l st) = replies st @ [Say l]"
  by (simp_all add: say_def)

lemma fail_simps [simp]:
  "lock (fail r st) = lock st" "answersFile (fail r st) = answersFile st" "dev (fail r st) = dev st"
  "rebootDue (fail r st) = rebootDue st" "hung (fail r st) = hung st" "replies (fail r st) = replies st @ [Fail r]"
  by (simp_all add: fail_def)

lemma fold_say_simps [simp]:
  "lock (fold say ls st) = lock st" "dev (fold say ls st) = dev st"
  "rebootDue (fold say ls st) = rebootDue st" "hung (fold say ls st) = hung st"
  "replies (fold say ls st) = replies st @ map Say ls"
  by (induction ls arbitrary: st) simp_all

text \<open>The outcome of a stage: a number of progress lines, then one verdict.\<close>

definition concludes :: "'d sess \<Rightarrow> 'd sess \<Rightarrow> bool" where
  "concludes st st' \<longleftrightarrow> (\<exists>ls v. replies st' = replies st @ map Say ls @ [v] \<and> is_verdict v \<and>
      (rebootDue st' \<longleftrightarrow> rebootDue st \<or> (\<exists>n s. v = Ok n s))) \<and> lock st' = lock st \<and> hung st' = hung st"

lemma concludes_say: "concludes (say l st) st' \<Longrightarrow> concludes st st'"
  unfolding concludes_def by (auto intro: exI[of _ "l # _"])

lemma concludes_fold_say:
  "concludes (fold say ls (st\<lparr>dev := d\<rparr>)) st' \<Longrightarrow> concludes st st'"
  unfolding concludes_def by (auto intro: exI[of _ "ls @ _"])

lemma concludes_fail: "concludes st (fail r st)"
  by (auto simp: concludes_def is_verdict_def intro!: exI[of _ "[]"])

lemma serve_finalize_concludes: "concludes st (serve_finalize env fin target hdr res st)"
  by (auto simp: serve_finalize_def concludes_def is_verdict_def Let_def fail_def split: prod.splits
           intro!: exI[of _ "[]"])

context disk_target begin

lemma Write_never_hangs: "Write T d cs e sz want \<noteq> (d', st', said, Inl ReadBackHangs)"
proof
  have np: "readBackSHA T n x \<noteq> (d3, Inl NoProgress)" for n x d3
    using readBack_progress[of n "Suc n" "[]" x] by (auto simp: readBackSHA_def split: prod.splits sum.splits)
  have c: "Write_commit T d st said first n got \<noteq> (d', st', said', Inl ReadBackHangs)"
    for d st said first n got d' st' said'
    using np by (auto simp: Write_commit_def reject_def Let_def
        split: prod.splits option.splits sum.splits if_splits readback_error.splits)
  assume "Write T d cs e sz want = (d', st', said, Inl ReadBackHangs)"
  then show False
    using c by (auto simp: Write_def Write_body_def reject_def Let_def
        split: prod.splits option.splits if_splits)
qed

lemma serve_write_concludes: "concludes st (serve_write T env fin target hdr body e st)"
proof -
  obtain d rest said r where w: "Write T (dev st) body e (Size hdr) (SHA256 hdr) = (d, rest, said, r)"
    by (metis surj_pair)
  show ?thesis
  proof (cases r)
    case (Inl x)
    then have "x \<noteq> ReadBackHangs" using w Write_never_hangs by metis
    then have "serve_write T env fin target hdr body e st = fail (WriteFailed x) (fold say said (st\<lparr>dev := d\<rparr>))"
      using w Inl by (cases x) (simp_all add: serve_write_def Let_def)
    then show ?thesis using concludes_fold_say[OF concludes_fail] by metis
  next
    case (Inr res)
    then have "serve_write T env fin target hdr body e st =
        serve_finalize env fin target hdr res (say ''IMAGE WRITTEN + VERIFIED'' (fold say said (st\<lparr>dev := d\<rparr>)))"
      using w by (simp add: serve_write_def Let_def)
    then show ?thesis
      using concludes_fold_say[OF concludes_say[OF serve_finalize_concludes]] by metis
  qed
qed

lemma serve_target_concludes: "concludes st (serve_target T env fin hdr body e st)"
  using concludes_fail concludes_say[OF concludes_fail] concludes_say[OF serve_write_concludes]
  by (auto simp: serve_target_def Let_def split: sum.splits)

lemma serve_answers_cases:
  assumes "serve_answers env hdr st = (st1, ok)"
  shows "dev st1 = dev st \<and> (if ok then (\<forall>st'. concludes st1 st' \<longrightarrow> concludes st st') else concludes st st1)"
proof -
  have f: "concludes st (st\<lparr>answersFile := f\<rparr>) = False" for f
    by (simp add: concludes_def)
  have a: "concludes (st\<lparr>answersFile := f\<rparr>) st' \<Longrightarrow> concludes st st'" for f st'
    by (simp add: concludes_def)
  show ?thesis
    using assms a[OF concludes_fail] a concludes_say
    by (auto simp: serve_answers_def Let_def split: if_splits prod.splits)
qed

lemma serve_locked_concludes: "concludes st (serve_locked T env fin conn e st)"
proof (cases "ParseHeader (concat conn)")
  case (Inl x)
  then show ?thesis by (simp add: serve_locked_def concludes_fail)
next
  case (Inr p)
  obtain hdr body where p: "p = (hdr, body)" by fastforce
  obtain st1 ok where a: "serve_answers env hdr st = (st1, ok)" by fastforce
  show ?thesis
    using Inr p a serve_answers_cases[OF a] serve_target_concludes
    by (cases ok) (auto simp: serve_locked_def)
qed

lemma serve_concludes:
  assumes "\<not> hung st"
  shows "concludes st (serve T env fin conn e st)"
proof -
  let ?s = "(say ''HOST CONNECTED'' st)\<lparr>lock := True\<rparr>"
  let ?r = "serve_locked T env fin conn e ?s"
  have c: "concludes ?s ?r" by (rule serve_locked_concludes)
  then have "\<not> hung ?r" using assms by (simp add: concludes_def)
  moreover have "concludes (say ''HOST CONNECTED'' st) (?r\<lparr>lock := False\<rparr>)" if "\<not> lock st"
    using c that by (simp add: concludes_def)
  ultimately show ?thesis
    using concludes_say[OF concludes_fail] concludes_say
    by (auto simp: serve_def Let_def)
qed

end

section \<open>How far a session got\<close>

definition reached_write ::
  "'d inst_env \<Rightarrow> bytes list \<Rightarrow> 'd sess \<Rightarrow> Header \<Rightarrow> bytes \<Rightarrow> Resolved \<Rightarrow> bool" where
  "reached_write env conn st hdr body target \<longleftrightarrow>
     \<not> lock st \<and> mkdirOK env \<and> ParseHeader (concat conn) = Inr (hdr, body) \<and>
     (Unprovisioned hdr \<or> fst (validateAnswers env (Answers hdr))) \<and>
     ResolveUserdata ''/dev'' (blockDevs env) = Inr target \<and> Size hdr \<le> Bytes target \<and>
     targetOpens env (Device target)"

definition early_fail :: "reply \<Rightarrow> bool" where
  "early_fail r = (case r of Fail (WriteFailed _) \<Rightarrow> False | Fail (FinalizeFailed _) \<Rightarrow> False
                           | Fail _ \<Rightarrow> True | _ \<Rightarrow> False)"

lemma serve_answers_stops:
  assumes "serve_answers env hdr st = (st1, ok)"
  shows "dev st1 = dev st \<and> hung st1 = hung st \<and>
         (if ok then Unprovisioned hdr \<or> fst (validateAnswers env (Answers hdr))
          else \<exists>r. replies st1 = replies st @ [Fail r] \<and> early_fail (Fail r))"
  using assms by (auto simp: serve_answers_def Let_def early_fail_def split: if_splits prod.splits)

lemma serve_split:
  fixes T :: "'d Target"
  assumes "\<not> hung st"
  obtains (early) r ls where "replies (serve T env fin conn e st) = replies st @ map Say ls @ [r]"
      "early_fail r" "dev (serve T env fin conn e st) = dev st"
  | (wrote) hdr body target st2 where "reached_write env conn st hdr body target" "dev st2 = dev st"
      "\<not> hung st2"
      "dev (serve T env fin conn e st) = dev (serve_write T env fin target hdr [body] e st2)"
      "replies (serve T env fin conn e st) = replies (serve_write T env fin target hdr [body] e st2)"
proof -
  let ?r = "serve T env fin conn e st"
  let ?s = "(say ''HOST CONNECTED'' st)\<lparr>lock := True\<rparr>"
  let ?l = "serve_locked T env fin conn e ?s"
  show thesis
  proof (cases "lock st \<or> \<not> mkdirOK env")
    case True
    then have "?r = fail Busy (say ''HOST CONNECTED'' st)" by (auto simp: serve_def Let_def)
    then show thesis using early[of "[''HOST CONNECTED'']" "Fail Busy"] by (simp add: early_fail_def)
  next
    case False
    then have eq: "dev ?r = dev ?l" "replies ?r = replies ?l" by (simp_all add: serve_def Let_def)
    show thesis
    proof (cases "ParseHeader (concat conn)")
      case (Inl x)
      then have "?l = fail (BadHeader x) ?s" by (simp add: serve_locked_def)
      then show thesis using early[of "[''HOST CONNECTED'']" "Fail (BadHeader x)"] eq by (simp add: early_fail_def)
    next
      case (Inr p)
      obtain hdr body where p: "p = (hdr, body)" by fastforce
      obtain st1 ok where a: "serve_answers env hdr ?s = (st1, ok)" by fastforce
      note sa = serve_answers_stops[OF a]
      show thesis
      proof (cases ok)
        case f: False
        then have "?l = st1" using Inr p a by (simp add: serve_locked_def)
        then show thesis using early[of "[''HOST CONNECTED'']"] eq sa f by auto
      next
        case True
        then have l: "?l = serve_target T env fin hdr [body] e st1" using Inr p a by (simp add: serve_locked_def)
        have rp: "\<exists>ls. replies st1 = replies st @ map Say ls"
          using a True by (auto simp: serve_answers_def Let_def split: if_splits prod.splits
              intro: exI[of _ "[''HOST CONNECTED'']"] exI[of _ "[''HOST CONNECTED'', _]"])
        then obtain ls where ls: "replies st1 = replies st @ map Say ls" by blast
        show thesis
        proof (cases "ResolveUserdata ''/dev'' (blockDevs env)")
          case i: (Inl x)
          then have "?l = fail (Unresolved x) st1" using l by (simp add: serve_target_def)
          then show thesis using early[of ls "Fail (Unresolved x)"] eq sa ls by (simp add: early_fail_def)
        next
          case t: (Inr target)
          define msg where "msg = ''TARGET '' @ Device target @ '' ('' @ dec_int (quot (Bytes target) (2 ^ 30)) @ '' GIB)''"
          define st2 where "st2 = say msg st1"
          have st2: "replies st2 = replies st @ map Say (ls @ [msg])"
              "dev st2 = dev st" "hung st2 = hung st"
            using ls sa by (simp_all add: st2_def)
          have lt: "?l = (if Bytes target < Size hdr then fail (ImageTooLarge (Size hdr) (Bytes target)) st2
              else if \<not> targetOpens env (Device target) then fail (CannotOpenTarget (Device target)) st2
              else serve_write T env fin target hdr [body] e st2)"
            unfolding l serve_target_def t st2_def msg_def by (simp add: Let_def)
          show thesis
          proof (cases "Size hdr \<le> Bytes target \<and> targetOpens env (Device target)")
            case ok: True
            then have "reached_write env conn st hdr body target"
              using False Inr p sa True t by (simp add: reached_write_def)
            moreover have "?l = serve_write T env fin target hdr [body] e st2" using lt ok by simp
            ultimately show thesis using wrote[of hdr body target st2] eq st2 assms by simp
          next
            case f: False
            then obtain r where "?l = fail r st2" "early_fail (Fail r)"
              using lt by (auto simp: early_fail_def split: if_splits)
            then show thesis using early[of "ls @ [msg]" "Fail r"] eq st2 by simp
          qed
        qed
      qed
    qed
  qed
qed

section \<open>Properties\<close>

text \<open>Every session ends in exactly one verdict.  On a block device with any faults, serving a
  connection appends progress lines and then exactly one OK or FAIL line, the last thing the host
  sees; the install lock is as before the session (a lock held by another install is not released);
  and the reboot is scheduled exactly when the verdict is OK.\<close>

theorem serve_one_verdict:
  assumes "\<not> hung st" "\<not> rebootDue st"
  shows "let st' = serve (disk_ops sched) env fin conn e st in
     (\<exists>ls v. replies st' = replies st @ map Say ls @ [v] \<and> (\<forall>l. v \<noteq> Say l) \<and>
        (rebootDue st' \<longleftrightarrow> (\<exists>n s. v = Ok n s))) \<and>
     lock st' = lock st \<and> \<not> hung st'"
  using dt.serve_concludes[OF assms(1), of sched env fin conn e] assms
  unfolding concludes_def by (fastforce simp: Let_def is_verdict_def split: reply.splits)

text \<open>C7: Nothing destructive before every check passed.  If the session changed the device at all, then
  the lock was free and taken, the header was accepted, the answers were accepted by the validator (or
  the install is unprovisioned), exactly one userdata partition of at least 32 GiB was resolved, the
  image fits it and it could be opened.\<close>

theorem serve_checks_first:
  assumes "\<not> hung st" "dev (serve T env fin conn e st) \<noteq> dev st"
  shows "\<exists>hdr body target. \<not> lock st \<and> mkdirOK env \<and> ParseHeader (concat conn) = Inr (hdr, body) \<and>
     (Unprovisioned hdr \<or> fst (validateAnswers env (Answers hdr))) \<and>
     ResolveUserdata ''/dev'' (blockDevs env) = Inr target \<and> Size hdr \<le> Bytes target \<and>
     targetOpens env (Device target)"
proof (rule serve_split[OF assms(1), where T = T and env = env and fin = fin and conn = conn and e = e])
  show ?thesis if "dev (serve T env fin conn e st) = dev st" using that assms(2) by blast
  show ?thesis if "reached_write env conn st hdr body target" for hdr body target
    using that unfolding reached_write_def by blast
qed

lemma serve_write_ok:
  assumes "last (replies (serve_write T env fin target hdr body e st)) = Ok n sha"
    and nh: "\<And>d' st' said. Write T (dev st) body e (Size hdr) (SHA256 hdr) \<noteq> (d', st', said, Inl ReadBackHangs)"
  shows "\<exists>d1 rest said res out. Write T (dev st) body e (Size hdr) (SHA256 hdr) = (d1, rest, said, Inr res) \<and>
     n = resBytes res \<and> sha = resSHA256 res \<and>
     runFinalize env (finalize_args fin target hdr) d1 =
       (dev (serve_write T env fin target hdr body e st), True, out)"
proof -
  obtain d1 rest said r where w: "Write T (dev st) body e (Size hdr) (SHA256 hdr) = (d1, rest, said, r)"
    by (metis surj_pair)
  show ?thesis
  proof (cases r)
    case (Inl x)
    then have "x \<noteq> ReadBackHangs" using w nh by metis
    then show ?thesis using assms(1) w Inl by (cases x) (auto simp: serve_write_def Let_def)
  next
    case (Inr res)
    obtain d2 ok out where f: "runFinalize env (finalize_args fin target hdr) d1 = (d2, ok, out)"
      by (metis surj_pair)
    then show ?thesis using assms(1) w Inr
      by (auto simp: serve_write_def serve_finalize_def Let_def split: if_splits)
  qed
qed

text \<open>C4: OK means installed.  On a block device with any faults, if the host sees OK with a size and a
  digest, they are the size and digest of the header it sent, the body that followed the header has that
  digest over that many bytes, the device held exactly those bytes from offset 0 on (and its old contents
  behind them) when the finalize script was started on it, the script succeeded, and the answers of a
  provisioned install had been validated.\<close>

theorem serve_ok_installed:
  assumes "\<not> hung st" "last (replies (serve (disk_ops sched) env fin conn e st)) = Ok n sha"
  shows "\<exists>hdr body target d1 out. ParseHeader (concat conn) = Inr (hdr, body) \<and>
     n = Size hdr \<and> sha = SHA256 hdr \<and> nat n \<le> length body \<and> sha256_hex (take (nat n) body) = sha \<and>
     (Unprovisioned hdr \<or> fst (validateAnswers env (Answers hdr))) \<and>
     ResolveUserdata ''/dev'' (blockDevs env) = Inr target \<and> n \<le> Bytes target \<and>
     media d1 = take (nat n) body @ drop (nat n) (media (dev st)) \<and>
     runFinalize env (finalize_args fin target hdr) d1 =
       (dev (serve (disk_ops sched) env fin conn e st), True, out)"
proof (rule serve_split[OF assms(1), where T = "disk_ops sched" and env = env and fin = fin and conn = conn and e = e])
  show ?thesis if "replies (serve (disk_ops sched) env fin conn e st) = replies st @ map Say ls @ [r]" "early_fail r" for r ls
    using that assms(2) by (simp add: early_fail_def)
  fix hdr body target st2
  assume rw: "reached_write env conn st hdr body target" and d2: "dev st2 = dev st"
    and ds: "dev (serve (disk_ops sched) env fin conn e st) = dev (serve_write (disk_ops sched) env fin target hdr [body] e st2)"
    and rs: "replies (serve (disk_ops sched) env fin conn e st) = replies (serve_write (disk_ops sched) env fin target hdr [body] e st2)"
  obtain d1 rest said res out where w: "Write (disk_ops sched) (dev st) [body] e (Size hdr) (SHA256 hdr) = (d1, rest, said, Inr res)"
    and n: "n = resBytes res" "sha = resSHA256 res"
    and f: "runFinalize env (finalize_args fin target hdr) d1 =
       (dev (serve_write (disk_ops sched) env fin target hdr [body] e st2), True, out)"
    using serve_write_ok[of "disk_ops sched" env fin target hdr "[body]" e st2 n sha] assms(2) rs dt.Write_never_hangs d2
    by auto
  have sh: "SHA256 hdr \<noteq> []" using ParseHeader_valid rw by (fastforce simp: reached_write_def valid_header_def)
  have res: "res = \<lparr>resBytes = Size hdr, resSHA256 = sha256_hex (take (nat (Size hdr)) body)\<rparr>"
      "SHA256 hdr = sha256_hex (take (nat (Size hdr)) body)"
    using Write_success_digest[OF w] sh by auto
  show ?thesis
    using rw n res dt.Write_success_content[OF w] f ds
    by (intro exI[of _ hdr] exI[of _ body] exI[of _ target] exI[of _ d1] exI[of _ out])
       (simp add: reached_write_def)
qed

lemma sha256_hex_format: "length (sha256_hex m) = 64 \<and> set (sha256_hex m) \<subseteq> set hexdigits"
  using hex_encode_digits[of "sha256 m"] by (simp add: sha256_hex_def hexdigits_def)

lemma serve_host_session:
  fixes st :: "disk sess"
  defines "T \<equiv> disk_ops (\<lambda>_ _. NoFault)"
  assumes conn: "concat conn = host_session (length raw) (sha256_hex raw) answers raw"
    and raw: "MinImageBytes \<le> int (length raw)" "length raw < 2 ^ 63" "answers \<noteq> Some []"
    and st: "\<not> lock st" "\<not> hung st" "mkdirOK env"
    and ans: "\<forall>a. answers = Some a \<longrightarrow> snd (writeAnswersFile env a) \<and> fst (validateAnswers env a)"
    and target: "ResolveUserdata ''/dev'' (blockDevs env) = Inr target" "int (length raw) \<le> Bytes target"
      "targetOpens env (Device target)" "length raw \<le> length (media (dev st))"
    and fin: "\<forall>c d. fst (snd (runFinalize env c d))"
  shows "\<exists>d1 out. last (replies (serve T env fin conn e st)) = Ok (int (length raw)) (sha256_hex raw) \<and>
     media d1 = raw @ drop (length raw) (media (dev st)) \<and>
     runFinalize env (finalize_args fin target (host_header (length raw) (sha256_hex raw) answers)) d1 =
       (dev (serve T env fin conn e st), True, out)"
proof -
  let ?h = "host_header (length raw) (sha256_hex raw) answers"
  have p: "ParseHeader (concat conn) = Inr (?h, raw)"
    unfolding conn using raw sha256_hex_format by (intro ParseHeader_host) auto
  have m: "int MiB \<le> int (length raw)" using raw(1) by (simp add: MiB_def MinImageBytes_def)
  have w: "\<exists>d' st' said. Write T (dev st) [raw] e (int (length raw)) (sha256_hex raw) =
      (d', st', said, Inr \<lparr>resBytes = int (length raw), resSHA256 = sha256_hex raw\<rparr>)"
    using rt.Write_succeeds[of "int (length raw)" "dev st" "[raw]" "sha256_hex raw" e] m target(4)
    by (simp add: T_def)
  then obtain d1 st1 said where w1: "Write T (dev st) [raw] e (int (length raw)) (sha256_hex raw) =
      (d1, st1, said, Inr \<lparr>resBytes = int (length raw), resSHA256 = sha256_hex raw\<rparr>)" by blast
  have c: "media d1 = raw @ drop (length raw) (media (dev st))"
    using dt.Write_success_content[OF w1[unfolded T_def]] by simp
  obtain d2 out where f: "runFinalize env (finalize_args fin target ?h) d1 = (d2, True, out)"
    using fin by (metis prod.collapse)
  show ?thesis
  proof (rule serve_split[OF st(2), where T = T and env = env and fin = fin and conn = conn and e = e])
    fix r ls
    assume "replies (serve T env fin conn e st) = replies st @ map Say ls @ [r]" "early_fail r"
    moreover have "\<exists>n s. last (replies (serve T env fin conn e st)) = Ok n s"
      using st p ans target w1 f
      by (cases answers)
         (auto simp: serve_def serve_locked_def serve_answers_def serve_target_def serve_write_def
            serve_finalize_def Let_def host_header_def split: prod.splits)
    ultimately show ?thesis by (auto simp: early_fail_def)
  next
    fix hdr body tgt st2
    assume rw: "reached_write env conn st hdr body tgt" and d: "dev st2 = dev st"
      and ds: "dev (serve T env fin conn e st) = dev (serve_write T env fin tgt hdr [body] e st2)"
      and rs: "replies (serve T env fin conn e st) = replies (serve_write T env fin tgt hdr [body] e st2)"
    have eq: "hdr = ?h" "body = raw" "tgt = target" using rw p target(1) by (auto simp: reached_write_def)
    have "Size ?h = int (length raw)" "SHA256 ?h = sha256_hex raw" by (simp_all add: host_header_def)
    then have "last (replies (serve_write T env fin target ?h [raw] e st2)) = Ok (int (length raw)) (sha256_hex raw) \<and>
        dev (serve_write T env fin target ?h [raw] e st2) = d2"
      using w1 f d by (simp add: serve_write_def serve_finalize_def Let_def)
    then show ?thesis using ds rs eq c f by auto
  qed
qed

text \<open>C13: A session of the host script installs the image.  When the host script sends an image of at least
  8 MiB with its digest, and answers that pass validation (or none), to a device whose userdata partition
  is resolved, large enough, opens and has no faults, and the finalize script succeeds, the session ends
  in OK with the image's own size and digest, and the partition holds exactly the image when the finalize
  script gets it: the host's and the device's view of the protocol fit together.\<close>

theorem session_installs_image:
  fixes st :: "disk sess"
  assumes "concat conn = host_session (length raw) (sha256_hex raw) answers raw"
    and "MinImageBytes \<le> int (length raw)" "length raw < 2 ^ 63" "answers \<noteq> Some []"
    and "\<not> lock st" "\<not> hung st" "mkdirOK env"
    and "\<forall>a. answers = Some a \<longrightarrow> snd (writeAnswersFile env a) \<and> fst (validateAnswers env a)"
    and "ResolveUserdata ''/dev'' (blockDevs env) = Inr target" "int (length raw) \<le> Bytes target"
      "targetOpens env (Device target)" "length raw \<le> length (media (dev st))"
    and "\<forall>c d. fst (snd (runFinalize env c d))"
  shows "\<exists>d1 c out. last (replies (serve (disk_ops (\<lambda>_ _. NoFault)) env fin conn e st)) =
         Ok (int (length raw)) (sha256_hex raw) \<and>
     media d1 = raw @ drop (length raw) (media (dev st)) \<and> fc_dev c = Device target \<and>
     runFinalize env c d1 = (dev (serve (disk_ops (\<lambda>_ _. NoFault)) env fin conn e st), True, out)"
proof -
  have "fc_dev (finalize_args fin target hdr) = Device target" for hdr by (simp add: finalize_args_def)
  then show ?thesis using serve_host_session[OF assms(1-13), where e = e and fin = fin] by blast
qed

lemma serve_outcome:
  fixes st :: "disk sess" and sched env fin conn e
  assumes "\<not> hung st"
  defines "st' \<equiv> serve (disk_ops sched) env fin conn e st"
  obtains (refused) "early_fail (last (replies st'))" "dev st' = dev st"
  | (write_failed) hdr body target rest said x where "reached_write env conn st hdr body target"
      "Write (disk_ops sched) (dev st) [body] e (Size hdr) (SHA256 hdr) = (dev st', rest, said, Inl x)"
      "last (replies st') = Fail (WriteFailed x)"
  | (written) hdr body target d1 rest said res ok out where "reached_write env conn st hdr body target"
      "Write (disk_ops sched) (dev st) [body] e (Size hdr) (SHA256 hdr) = (d1, rest, said, Inr res)"
      "runFinalize env (finalize_args fin target hdr) d1 = (dev st', ok, out)"
      "last (replies st') = (if ok then Ok (resBytes res) (resSHA256 res) else Fail (FinalizeFailed (firstLine out)))"
proof (rule serve_split[OF assms(1), where T = "disk_ops sched" and env = env and fin = fin and conn = conn and e = e])
  show thesis if "replies (serve (disk_ops sched) env fin conn e st) = replies st @ map Say ls @ [r]" "early_fail r"
    "dev (serve (disk_ops sched) env fin conn e st) = dev st" for r ls
    using that by (intro refused) (simp_all add: st'_def)
next
  fix hdr body target st2
  assume rw: "reached_write env conn st hdr body target" and d2: "dev st2 = dev st"
    and ds: "dev (serve (disk_ops sched) env fin conn e st) = dev (serve_write (disk_ops sched) env fin target hdr [body] e st2)"
    and rs: "replies (serve (disk_ops sched) env fin conn e st) = replies (serve_write (disk_ops sched) env fin target hdr [body] e st2)"
  obtain d1 rest said r where w: "Write (disk_ops sched) (dev st) [body] e (Size hdr) (SHA256 hdr) = (d1, rest, said, r)"
    by (metis surj_pair)
  show thesis
  proof (cases r)
    case (Inl x)
    have "x \<noteq> ReadBackHangs" using w Inl dt.Write_never_hangs by metis
    then have "serve_write (disk_ops sched) env fin target hdr [body] e st2 = fail (WriteFailed x) (fold say said (st2\<lparr>dev := d1\<rparr>))"
      using w d2 Inl by (cases x) (simp_all add: serve_write_def Let_def)
    then show thesis using write_failed[OF rw, of rest said x] w Inl ds rs by (simp add: st'_def)
  next
    case (Inr res)
    obtain d3 ok out where f: "runFinalize env (finalize_args fin target hdr) d1 = (d3, ok, out)" by (metis surj_pair)
    show thesis
      by (rule written[OF rw w[unfolded Inr], of ok out])
        (use w d2 Inr f ds rs in \<open>simp_all add: serve_write_def serve_finalize_def st'_def Let_def\<close>)
  qed
qed

text \<open>C32: A failed finalize leaves the image in place.  When the host sees FAIL because the finalize script
  failed, the device is what the script left of a completely written image: the first MiB is not
  scrubbed, so the partition stays mountable although the session was rejected.\<close>

theorem finalize_failure_keeps_image:
  assumes "\<not> hung st" "last (replies (serve (disk_ops sched) env fin conn e st)) = Fail (FinalizeFailed m)"
  shows "\<exists>hdr body d1 c out. ParseHeader (concat conn) = Inr (hdr, body) \<and>
     media d1 = take (nat (Size hdr)) body @ drop (nat (Size hdr)) (media (dev st)) \<and>
     runFinalize env c d1 = (dev (serve (disk_ops sched) env fin conn e st), False, out)"
proof (rule serve_outcome[OF assms(1), where sched = sched and env = env and fin = fin and conn = conn and e = e])
  show ?thesis if "early_fail (last (replies (serve (disk_ops sched) env fin conn e st)))"
    using that assms(2) by (simp add: early_fail_def)
  show ?thesis if "last (replies (serve (disk_ops sched) env fin conn e st)) = Fail (WriteFailed x)" for x
    using that assms(2) by simp
  show ?thesis if "reached_write env conn st hdr body target"
      "Write (disk_ops sched) (dev st) [body] e (Size hdr) (SHA256 hdr) = (d1, rest, said, Inr res)"
      "runFinalize env (finalize_args fin target hdr) d1 = (dev (serve (disk_ops sched) env fin conn e st), ok, out)"
      "last (replies (serve (disk_ops sched) env fin conn e st)) =
         (if ok then Ok (resBytes res) (resSHA256 res) else Fail (FinalizeFailed (firstLine out)))"
    for hdr body target d1 rest said res ok out
    using that(1,3,4) assms(2) dt.Write_success_content[OF that(2)]
    by (auto simp: reached_write_def split: if_splits)
qed

text \<open>C33: The daemon's reboot can miss fastboot.  For a bootloader that behaves as documented (a recovery
  command in misc is honoured before the nibble is looked at), the daemon's reboot, which arms the nibble of
  the hardware register (not redirected by \<^verbatim>\<open>DC1_MEMDEV\<close> or \<^verbatim>\<open>DC1_MEMBASE\<close>) but does not clear misc, ends in recovery
  whenever misc holds a stale bootloader command.\<close>

theorem installd_reboot_diverted:
  assumes lk: "\<forall>pre reg cmd. pre \<notin> {1, 4, 7} \<longrightarrow> reg AND 0x0f \<noteq> (2 :: u32) \<longrightarrow>
      cmd = ''boot-recovery'' \<or> cmd = ''boot-fastboot'' \<longrightarrow> lk pre reg cmd = LK_RECOVERY"
    and rb: "rebootToFastboot env hw w = (Inr ok, w')" "memBaseEnv env = []" "memdevEnv env = []"
    and stale: "bcb_armed (media (devs w misc))" and pre: "pre \<notin> {1, 4, 7 :: nat}"
  shows "lk pre (get32 (drop 0x24 (regs w' ''/dev/mem'' wdtBase))) (bcb (media (devs w' misc))) = LK_RECOVERY"
proof -
  obtain mem' where a: "armMapping hw (regs w ''/dev/mem'' wdtBase) False = (mem', None)"
      "regs w' ''/dev/mem'' wdtBase = mem'"
      "devs w' = devs w"
    using rb by (auto simp: rebootToFastboot_def ArmNibble_def arm_base_def memdev_def Let_def split: prod.splits option.splits if_splits)
  have "get32 (drop 0x24 (regs w' ''/dev/mem'' wdtBase)) AND 0x0f = 3"
    using armMapping_armed[OF a(1)] a(2)
    by (simp add: nibble_armed_def wdtNonRST2_def bootModeMask_def bootModeFastboot_def)
  then show ?thesis using lk pre stale a(3) by (auto simp: bcb_armed_def)
qed

section \<open>Witnesses\<close>

definition bigLen :: nat where "bigLen = 8 * 2 ^ 20"

definition big_image :: bytes where "big_image = replicate bigLen 7"

lemma big_image_length [simp]: "length big_image = bigLen"
  by (simp add: big_image_def)

definition sample_env :: "bool \<Rightarrow> disk inst_env" where
  "sample_env finOK = \<lparr>mkdirOK = True, writeAnswersFile = (\<lambda>a. (Some a, True)), validateAnswers = (\<lambda>_. (True, [])),
     blockDevs = sample_sysfs, targetOpens = (\<lambda>_. True), runFinalize = (\<lambda>_ d. (d, finOK, []))\<rparr>"

definition sample_sess :: "disk sess" where
  "sample_sess = \<lparr>lock = False, answersFile = None, statusFile = [], replies = [],
     dev = \<lparr>media = replicate (bigLen + 5) 9, clock = 0\<rparr>, rebootDue = False, hung = False\<rparr>"

definition sample_conn :: "bytes list" where
  "sample_conn = [host_session (length big_image) (sha256_hex big_image) (Some [1]) big_image]"

lemma sample_room: "MiB \<le> bigLen" "length (media (dev sample_sess)) = bigLen + 5"
  by (simp_all add: MiB_def bigLen_def sample_sess_def)

lemma sample_target:
  obtains target where "ResolveUserdata ''/dev'' sample_sysfs = Inr target" "int (length big_image) \<le> Bytes target"
proof -
  obtain t where t: "ResolveUserdata ''/dev'' sample_sysfs = Inr t" using sample_resolves by blast
  have "Sectors t = 200000000"
  proof -
    have "matches sample_sysfs ''userdata'' = [''sdc57'']"
      by (simp add: matches_carries sample_carries) (simp add: sample_sysfs_def)
    moreover have "read_size sample_sysfs ''sdc57'' = Some (dec 200000000 @ [LF])"
      by (simp add: read_size_def sample_sysfs_def)
    moreover have "parse_int64 (trim_space (dec 200000000 @ [LF])) = Some 200000000"
      by (simp add: trim_size_text parse_int64_dec)
    ultimately show ?thesis using t
      by (auto simp: ResolveUserdata_def resolveNamed_def Let_def split: if_splits)
  qed
  then have "Bytes t = 102400000000"
    using resolveNamed_bytes t by (fastforce simp: ResolveUserdata_def wrap64_def)
  then show thesis using that[OF t] by (simp add: bigLen_def)
qed

lemma sample_header:
  "ParseHeader (concat sample_conn) = Inr (host_header (length big_image) (sha256_hex big_image) (Some [1]), big_image)"
  unfolding sample_conn_def using sha256_hex_format
  by (simp, intro ParseHeader_host) (simp_all add: MinImageBytes_def bigLen_def)

theorem session_installs_image_witness:
  "last (replies (serve (disk_ops (\<lambda>_ _. NoFault)) (sample_env True) ''/etc/installer/finalize.sh'' sample_conn EOF sample_sess)) =
     Ok (int bigLen) (sha256_hex big_image)"
proof -
  obtain target where t: "ResolveUserdata ''/dev'' sample_sysfs = Inr target" "int (length big_image) \<le> Bytes target"
    by (rule sample_target)
  show ?thesis
    using session_installs_image[of sample_conn big_image "Some [1]" sample_sess "sample_env True" target
        "''/etc/installer/finalize.sh''" EOF] t
    by (simp add: sample_conn_def sample_env_def sample_sess_def MinImageBytes_def bigLen_def)
qed

lemma sample_serve_ok:
  "\<exists>d1. last (replies (serve (disk_ops (\<lambda>_ _. NoFault)) (sample_env True) fin sample_conn EOF sample_sess)) =
     Ok (int bigLen) (sha256_hex big_image) \<and> media d1 = big_image @ drop bigLen (media (dev sample_sess)) \<and>
     dev (serve (disk_ops (\<lambda>_ _. NoFault)) (sample_env True) fin sample_conn EOF sample_sess) = d1"
proof -
  obtain target where t: "ResolveUserdata ''/dev'' sample_sysfs = Inr target" "int (length big_image) \<le> Bytes target"
    by (rule sample_target)
  show ?thesis
    using serve_host_session[of sample_conn big_image "Some [1]" sample_sess "sample_env True" target, where e = EOF and fin = fin] t
    by (simp add: sample_conn_def sample_env_def sample_sess_def MinImageBytes_def bigLen_def)
qed

theorem serve_ok_installed_witness:
  "\<exists>hdr body. ParseHeader (concat sample_conn) = Inr (hdr, body) \<and> Size hdr = int bigLen \<and>
     sha256_hex (take bigLen body) = sha256_hex big_image"
proof -
  have "\<not> hung sample_sess" by (simp add: sample_sess_def)
  moreover have "last (replies (serve (disk_ops (\<lambda>_ _. NoFault)) (sample_env True) [] sample_conn EOF sample_sess)) =
     Ok (int bigLen) (sha256_hex big_image)" using sample_serve_ok[of "[]"] by blast
  ultimately show ?thesis using serve_ok_installed by (metis nat_int)
qed

theorem serve_checks_first_witness:
  "\<exists>hdr body target. ParseHeader (concat sample_conn) = Inr (hdr, body) \<and>
     ResolveUserdata ''/dev'' (blockDevs (sample_env True)) = Inr target \<and> Size hdr \<le> Bytes target"
proof -
  have "\<not> hung sample_sess" by (simp add: sample_sess_def)
  moreover have "dev (serve (disk_ops (\<lambda>_ _. NoFault)) (sample_env True) [] sample_conn EOF sample_sess) \<noteq> dev sample_sess"
  proof
    assume "dev (serve (disk_ops (\<lambda>_ _. NoFault)) (sample_env True) [] sample_conn EOF sample_sess) = dev sample_sess"
    then have "media (dev sample_sess) = big_image @ drop bigLen (media (dev sample_sess))"
      using sample_serve_ok[of "[]"] by metis
    then have "hd (replicate (bigLen + 5) (9 :: byte)) = hd (big_image @ drop bigLen (media (dev sample_sess)))"
      by (simp add: sample_sess_def)
    then show False by (simp add: big_image_def bigLen_def hd_append)
  qed
  ultimately show ?thesis using serve_checks_first by blast
qed

theorem serve_one_verdict_witness:
  "\<exists>ls v. replies (serve (disk_ops broken) (sample_env True) [] [[1, 2]] IOError sample_sess) = map Say ls @ [v] \<and>
     (\<forall>l. v \<noteq> Say l)"
  using serve_one_verdict[of sample_sess broken "sample_env True" "[]" "[[1, 2]]" IOError]
  by (auto simp: Let_def sample_sess_def)

theorem installd_reboot_diverted_witness:
  "\<exists>w'. rebootToFastboot sample_rf_env (\<lambda>_ v. v) sample_rf_world = (Inr True, w') \<and>
     documented_lk 0 (get32 (drop 0x24 (regs w' ''/dev/mem'' wdtBase))) (bcb (media (devs w' ''/dev/sdc1''))) = LK_RECOVERY"
proof -
  obtain mem' where "armMapping (\<lambda>_ v. v) (replicate 4096 0) False = (mem', None)"
    using armMapping_memory[of "replicate 4096 0"] by (auto simp: wdtNonRST2_def)
  then obtain w' where w': "rebootToFastboot sample_rf_env (\<lambda>_ v. v) sample_rf_world = (Inr True, w')"
    by (simp add: rebootToFastboot_def ArmNibble_def arm_base_def sample_rf_env_def sample_rf_world_def)
  have "documented_lk 0 (get32 (drop 0x24 (regs w' ''/dev/mem'' wdtBase))) (bcb (media (devs w' ''/dev/sdc1''))) = LK_RECOVERY"
    by (rule installd_reboot_diverted[OF _ w'])
       (auto simp: documented_lk_def sample_rf_env_def sample_rf_world_def armed_misc_armed)
  with w' show ?thesis by blast
qed

lemma sample_serve_finalize_fails:
  "\<exists>m. last (replies (serve (disk_ops (\<lambda>_ _. NoFault)) (sample_env False) [] sample_conn EOF sample_sess)) =
     Fail (FinalizeFailed m)"
proof -
  obtain target where t: "ResolveUserdata ''/dev'' sample_sysfs = Inr target" "int (length big_image) \<le> Bytes target"
    by (rule sample_target)
  obtain d1 st1 said where w: "Write (disk_ops (\<lambda>_ _. NoFault)) (dev sample_sess) [big_image] EOF
      (int bigLen) (sha256_hex big_image) =
      (d1, st1, said, Inr \<lparr>resBytes = int bigLen, resSHA256 = sha256_hex big_image\<rparr>)"
    using rt.Write_succeeds[of "int bigLen" "dev sample_sess" "[big_image]" "sha256_hex big_image" EOF]
      sample_room by auto
  show ?thesis
    using t w sample_header
    by (simp add: serve_def serve_locked_def serve_answers_def serve_target_def serve_write_def serve_finalize_def
        Let_def host_header_def sample_env_def) (simp add: sample_sess_def)
qed

theorem finalize_failure_keeps_image_witness:
  "\<exists>hdr body d1. ParseHeader (concat sample_conn) = Inr (hdr, body) \<and>
     media d1 = take (nat (Size hdr)) body @ drop (nat (Size hdr)) (media (dev sample_sess)) \<and>
     dev (serve (disk_ops (\<lambda>_ _. NoFault)) (sample_env False) [] sample_conn EOF sample_sess) = d1"
proof -
  obtain m where "last (replies (serve (disk_ops (\<lambda>_ _. NoFault)) (sample_env False) [] sample_conn EOF sample_sess)) =
     Fail (FinalizeFailed m)" using sample_serve_finalize_fails by blast
  moreover have "\<not> hung sample_sess" by (simp add: sample_sess_def)
  ultimately show ?thesis
    using finalize_failure_keeps_image[of sample_sess "\<lambda>_ _. NoFault" "sample_env False" "[]" sample_conn EOF m]
    by (auto simp: sample_env_def)
qed

end
