(* ===== verification/Canvas.thy ===== *)
theory Canvas
  imports Dc1_Prelude
begin

text \<open>
  The pixel layer under both user interfaces: \<^verbatim>\<open>internal/ask/draw.go\<close> (the canvas of the dialogs),
  \<^verbatim>\<open>fill\<close> of \<^verbatim>\<open>internal/installerinit/paint.go\<close>, \<^verbatim>\<open>Draw\<close> of \<^verbatim>\<open>internal/textfont/textfont.go\<close>, the
  framebuffer checks of \<^verbatim>\<open>internal/ask/fb.go\<close> and \<^verbatim>\<open>Blit\<close> of \<^verbatim>\<open>internal/drm/drm.go\<close>.  The locale
  \<open>raster\<close> states what all of them rely on: rows do not overlap and the buffer holds them all.  A
  font face is an argument: the width and height of the rendered mask and its alpha values.
\<close>

section \<open>Raster geometry\<close>

definition pix_off :: "int \<Rightarrow> int \<Rightarrow> int \<Rightarrow> nat" where
  "pix_off stride x y = nat (y * stride + x * 4)"

definition visible :: "int \<Rightarrow> int \<Rightarrow> int \<Rightarrow> int \<Rightarrow> bool" where
  "visible w h x y \<longleftrightarrow> 0 \<le> x \<and> x < w \<and> 0 \<le> y \<and> y < h"

locale raster =
  fixes w h stride :: int and len :: nat
  assumes row_fits: "w * 4 \<le> stride"
      and rows_fit: "stride * h \<le> int len"
begin

lemma off_bounds:
  assumes "visible w h x y"
  shows "0 \<le> y * stride + x * 4" "y * stride + x * 4 + 4 \<le> int len"
proof -
  have v: "0 \<le> x" "x + 1 \<le> w" "0 \<le> y" "y + 1 \<le> h" using assms by (auto simp: visible_def)
  have s: "0 \<le> stride" using v row_fits by linarith
  show "0 \<le> y * stride + x * 4" using v s by simp
  have "y * stride + x * 4 + 4 \<le> y * stride + stride" using v row_fits by linarith
  also have "\<dots> = (y + 1) * stride" by (simp add: algebra_simps)
  also have "\<dots> \<le> h * stride" using v(4) s by (rule mult_right_mono)
  finally show "y * stride + x * 4 + 4 \<le> int len" using rows_fit by (simp add: mult.commute)
qed

lemma pix_fits: "visible w h x y \<Longrightarrow> pix_off stride x y + 4 \<le> len"
  using off_bounds[of x y] by (simp add: pix_off_def nat_add_distrib)

lemma rows_apart:
  assumes "visible w h x y" "visible w h x' y'" "y < y'"
  shows "y * stride + x * 4 + 4 \<le> y' * stride + x' * 4"
proof -
  have v: "x + 1 \<le> w" "0 \<le> x'" "y + 1 \<le> y'" using assms by (auto simp: visible_def)
  have "0 < w" using assms(1) by (auto simp: visible_def)
  then have s: "0 \<le> stride" using row_fits by linarith
  have "y * stride + x * 4 + 4 \<le> y * stride + stride" using v row_fits by linarith
  also have "\<dots> = (y + 1) * stride" by (simp add: algebra_simps)
  also have "\<dots> \<le> y' * stride" using v(3) s by (rule mult_right_mono)
  finally show ?thesis using v(2) by linarith
qed

lemma pix_apart:
  assumes "visible w h x y" "visible w h x' y'" "(x, y) \<noteq> (x', y')"
  shows "pix_off stride x y + 4 \<le> pix_off stride x' y' \<or> pix_off stride x' y' + 4 \<le> pix_off stride x y"
proof -
  have "y * stride + x * 4 + 4 \<le> y' * stride + x' * 4 \<or> y' * stride + x' * 4 + 4 \<le> y * stride + x * 4"
  proof (cases "y = y'")
    case True
    then show ?thesis using assms(3) by auto
  next
    case False
    then show ?thesis using rows_apart[OF assms(1,2)] rows_apart[OF assms(2,1)] by linarith
  qed
  then show ?thesis using off_bounds(1)[OF assms(1)] off_bounds(1)[OF assms(2)] by (auto simp: pix_off_def)
qed

end

section \<open>The canvas\<close>

record canvas =
  cw :: int
  ch :: int
  cstride :: int
  cpix :: bytes

definition newCanvas :: "int \<Rightarrow> int \<Rightarrow> int \<Rightarrow> canvas" where
  "newCanvas w h stride = \<lparr>cw = w, ch = h, cstride = stride, cpix = replicate (nat (stride * h)) 0\<rparr>"

text \<open>The four octets of a pixel, and writing them.\<close>

definition pixel4 :: "canvas \<Rightarrow> int \<Rightarrow> int \<Rightarrow> bytes" where
  "pixel4 c x y = slice (pix_off (cstride c) x y) (pix_off (cstride c) x y + 4) (cpix c)"

definition put4 :: "canvas \<Rightarrow> int \<Rightarrow> int \<Rightarrow> bytes \<Rightarrow> canvas" where
  "put4 c x y bs = c\<lparr>cpix := copy_at (pix_off (cstride c) x y) bs (cpix c)\<rparr>"

definition px :: "canvas \<Rightarrow> int \<Rightarrow> int \<Rightarrow> u32 \<Rightarrow> canvas" where
  "px c x y col =
     (if x < 0 \<or> y < 0 \<or> cw c \<le> x \<or> ch c \<le> y then c
      else if y * cstride c + x * 4 + 4 \<le> int (length (cpix c)) then put4 c x y (put32 col) else c)"

definition fillRect :: "canvas \<Rightarrow> int \<Rightarrow> int \<Rightarrow> int \<Rightarrow> int \<Rightarrow> u32 \<Rightarrow> canvas" where
  "fillRect c x0 y0 w h col =
     foldl (\<lambda>c y. foldl (\<lambda>c x. px c x y col) c [x0..x0 + w - 1]) c [y0..y0 + h - 1]"

definition inRect :: "int \<Rightarrow> int \<Rightarrow> int \<Rightarrow> int \<Rightarrow> int \<Rightarrow> int \<Rightarrow> bool" where
  "inRect x y rx ry rw rh \<longleftrightarrow> rx \<le> x \<and> x < rx + rw \<and> ry \<le> y \<and> y < ry + rh"

section \<open>Text\<close>

text \<open>A face renders a string to a mask of the given size.\<close>

record text_mask =
  tmW :: int
  tmH :: int
  tmAlpha :: "int \<Rightarrow> int \<Rightarrow> byte"

type_synonym font = "int \<Rightarrow> (string \<Rightarrow> text_mask) option"

definition Measure :: "font \<Rightarrow> int \<Rightarrow> string \<Rightarrow> int" where
  "Measure FaceAt s str =
     (case FaceAt s of Some f \<Rightarrow> tmW (f str) | None \<Rightarrow> int (length str) * 6 * s)"

definition blend :: "byte \<Rightarrow> byte \<Rightarrow> byte \<Rightarrow> byte" where
  "blend ink a bg = word_of_nat ((unat ink * unat a + unat bg * (255 - unat a) + 127) div 255)"

definition draw_px :: "canvas \<Rightarrow> int \<Rightarrow> int \<Rightarrow> byte \<Rightarrow> byte \<Rightarrow> canvas" where
  "draw_px c x y ink a =
     (if a = 0 then c
      else if x < 0 \<or> cw c \<le> x then c
      else if int (length (cpix c)) < y * cstride c + x * 4 + 4 then c
      else (let v = blend ink a (cpix c ! pix_off (cstride c) x y) in put4 c x y [v, v, v, 0xff]))"

definition Draw :: "font \<Rightarrow> canvas \<Rightarrow> int \<Rightarrow> int \<Rightarrow> int \<Rightarrow> byte \<Rightarrow> string \<Rightarrow> canvas" where
  "Draw FaceAt c x0 y0 s ink str =
     (case FaceAt s of
        None \<Rightarrow> c
      | Some f \<Rightarrow>
          (let m = f str in
           if tmW m \<le> 0 \<or> tmH m \<le> 0 then c
           else foldl (\<lambda>c y. if y0 + y < 0 \<or> ch c \<le> y0 + y then c
                             else foldl (\<lambda>c x. draw_px c (x0 + x) (y0 + y) ink (tmAlpha m x y)) c [0..tmW m - 1])
                  c [0..tmH m - 1]))"

section \<open>What drawing changes\<close>

definition wf_canvas :: "canvas \<Rightarrow> bool" where
  "wf_canvas c \<longleftrightarrow> cw c * 4 \<le> cstride c \<and> cstride c * ch c \<le> int (length (cpix c))"

lemma wf_raster: "wf_canvas c \<Longrightarrow> raster (cw c) (ch c) (cstride c) (length (cpix c))"
  by unfold_locales (simp_all add: wf_canvas_def)

definition same_shape :: "canvas \<Rightarrow> canvas \<Rightarrow> bool" where
  "same_shape c d \<longleftrightarrow> cw c = cw d \<and> ch c = ch d \<and> cstride c = cstride d \<and> length (cpix c) = length (cpix d)"

lemma same_shape_refl [simp]: "same_shape c c"
  by (simp add: same_shape_def)

lemma same_shape_trans: "same_shape c d \<Longrightarrow> same_shape d e \<Longrightarrow> same_shape c e"
  by (simp add: same_shape_def)

lemma same_shape_wf: "same_shape c d \<Longrightarrow> wf_canvas c \<longleftrightarrow> wf_canvas d"
  by (simp add: same_shape_def wf_canvas_def)

lemma put4_shape:
  assumes "wf_canvas c" "visible (cw c) (ch c) x y"
  shows "same_shape (put4 c x y bs) c"
  using raster.pix_fits[OF wf_raster[OF assms(1)] assms(2)] by (simp add: same_shape_def put4_def)

lemma pixel4_put4:
  assumes "wf_canvas c" "visible (cw c) (ch c) x y" "visible (cw c) (ch c) x' y'" "length bs = 4"
  shows "pixel4 (put4 c x y bs) x' y' = (if x = x' \<and> y = y' then bs else pixel4 c x' y')"
proof -
  note r = wf_raster[OF assms(1)]
  note f = raster.pix_fits[OF r assms(2)]
  show ?thesis
  proof (cases "(x, y) = (x', y')")
    case True
    then show ?thesis using f assms(4) by (simp add: pixel4_def put4_def slice_copy_at_same)
  next
    case False
    then show ?thesis using raster.pix_apart[OF r assms(2,3)] f assms(4)
      by (auto simp: pixel4_def put4_def slice_copy_at_before slice_copy_at_after)
  qed
qed

lemma visible_px:
  assumes "wf_canvas c" "visible (cw c) (ch c) x y"
  shows "px c x y col = put4 c x y (put32 col)"
  using raster.off_bounds[OF wf_raster[OF assms(1)] assms(2)] assms(2) by (auto simp: px_def visible_def)

lemma invisible_px: "\<not> visible (cw c) (ch c) x y \<Longrightarrow> px c x y col = c"
  by (auto simp: px_def visible_def)

lemma px_shape: "wf_canvas c \<Longrightarrow> same_shape (px c x y col) c"
  by (cases "visible (cw c) (ch c) x y") (simp_all add: visible_px invisible_px put4_shape)

lemma px_pixel4:
  assumes "wf_canvas c" "visible (cw c) (ch c) x' y'"
  shows "pixel4 (px c x y col) x' y' = (if x = x' \<and> y = y' then put32 col else pixel4 c x' y')"
proof (cases "visible (cw c) (ch c) x y")
  case True
  then show ?thesis using assms by (simp add: visible_px pixel4_put4)
next
  case False
  then show ?thesis using assms by (auto simp: invisible_px)
qed

text \<open>Folds of shape-preserving updates keep the shape.\<close>

lemma foldl_shape:
  assumes "\<And>c x. wf_canvas c \<Longrightarrow> same_shape (f c x) c" "wf_canvas c"
  shows "same_shape (foldl f c xs) c"
  using assms(2)
proof (induction xs arbitrary: c)
  case (Cons x xs)
  have s: "same_shape (f c x) c" by (rule assms(1)[OF Cons.prems])
  then have "same_shape (foldl f (f c x) xs) (f c x)" using Cons by (simp add: same_shape_wf)
  then show ?case using s by (auto intro: same_shape_trans)
qed simp

lemma row_pixel4:
  assumes "wf_canvas c" "visible (cw c) (ch c) x' y'"
  shows "pixel4 (foldl (\<lambda>c x. px c x y col) c xs) x' y' = (if y = y' \<and> x' \<in> set xs then put32 col else pixel4 c x' y')"
  using assms
proof (induction xs arbitrary: c)
  case (Cons x xs)
  have s: "same_shape (px c x y col) c" by (rule px_shape[OF Cons.prems(1)])
  then have "wf_canvas (px c x y col)" "visible (cw (px c x y col)) (ch (px c x y col)) x' y'"
    using Cons.prems by (simp_all add: same_shape_wf) (simp add: same_shape_def)
  with Cons.IH[of "px c x y col"] show ?case using px_pixel4[OF Cons.prems, of x y col] by auto
qed simp

lemma row_shape: "wf_canvas c \<Longrightarrow> same_shape (foldl (\<lambda>c x. px c x y col) c xs) c"
  by (rule foldl_shape) (rule px_shape)

lemma rows_pixel4:
  assumes "wf_canvas c" "visible (cw c) (ch c) x' y'"
  shows "pixel4 (foldl (\<lambda>c y. foldl (\<lambda>c x. px c x y col) c xs) c ys) x' y' =
    (if y' \<in> set ys \<and> x' \<in> set xs then put32 col else pixel4 c x' y')"
  using assms
proof (induction ys arbitrary: c)
  case (Cons y ys)
  let ?d = "foldl (\<lambda>c x. px c x y col) c xs"
  have s: "same_shape ?d c" by (rule row_shape[OF Cons.prems(1)])
  then have "wf_canvas ?d" "visible (cw ?d) (ch ?d) x' y'"
    using Cons.prems by (simp_all add: same_shape_wf) (simp add: same_shape_def)
  with Cons.IH[of ?d] show ?case using row_pixel4[OF Cons.prems, of y col xs] by auto
qed simp

lemma fillRect_shape: "wf_canvas c \<Longrightarrow> same_shape (fillRect c x0 y0 w h col) c"
  unfolding fillRect_def by (rule foldl_shape) (rule row_shape)

lemma fillRect_pixel4:
  assumes "wf_canvas c" "visible (cw c) (ch c) x y"
  shows "pixel4 (fillRect c x0 y0 w h col) x y = (if inRect x y x0 y0 w h then put32 col else pixel4 c x y)"
  unfolding fillRect_def rows_pixel4[OF assms] by (auto simp: inRect_def)

section \<open>Text stays in its box and on the grey scale\<close>

definition grey4 :: "bytes \<Rightarrow> bool" where
  "grey4 bs \<longleftrightarrow> (\<exists>v. bs = [v, v, v, 0xff])"

definition grey :: "canvas \<Rightarrow> bool" where
  "grey c \<longleftrightarrow> (\<forall>x y. visible (cw c) (ch c) x y \<longrightarrow> grey4 (pixel4 c x y))"

lemma greyD: "grey c \<Longrightarrow> visible (cw c) (ch c) x y \<Longrightarrow> grey4 (pixel4 c x y)"
  by (simp add: grey_def)

lemma unat_byte_le: "unat (v :: byte) \<le> 255"
proof -
  have "unat v < 2 ^ LENGTH(8)" by (rule unsigned_less)
  then show ?thesis by simp
qed

lemma blend_nat: "unat (blend ink a bg) = (unat ink * unat a + unat bg * (255 - unat a) + 127) div 255"
proof -
  note b = unat_byte_le
  have "unat ink * unat a + unat bg * (255 - unat a) \<le> 255 * unat a + 255 * (255 - unat a)"
    using b by (intro add_mono mult_right_mono) auto
  also have "\<dots> = 255 * 255" using b[of a] by (simp flip: add_mult_distrib2)
  finally have "(unat ink * unat a + unat bg * (255 - unat a) + 127) div 255 < 2 ^ 8" by simp
  then show ?thesis by (simp add: blend_def unat_of_nat take_bit_nat_eq_self)
qed

lemma blend_between: "min (unat ink) (unat bg) \<le> unat (blend ink a bg)" "unat (blend ink a bg) \<le> max (unat ink) (unat bg)"
proof -
  let ?s = "unat ink * unat a + unat bg * (255 - unat a)"
  let ?m = "min (unat ink) (unat bg)" and ?M = "max (unat ink) (unat bg)"
  have a: "unat a + (255 - unat a) = 255" using unat_byte_le[of a] by simp
  have "?m * unat a + ?m * (255 - unat a) \<le> ?s" by (intro add_mono mult_right_mono) auto
  then have "?m * 255 \<le> ?s" using a by (simp flip: add_mult_distrib2)
  then show "?m \<le> unat (blend ink a bg)" unfolding blend_nat by linarith
  have "?s \<le> ?M * unat a + ?M * (255 - unat a)" by (intro add_mono mult_right_mono) auto
  then have "?s \<le> ?M * 255" using a by (simp flip: add_mult_distrib2)
  then show "unat (blend ink a bg) \<le> ?M" unfolding blend_nat by linarith
qed

lemma draw_px_cases:
  assumes "wf_canvas c" "0 \<le> y" "y < ch c"
  obtains "draw_px c x y ink a = c" |
    v where "visible (cw c) (ch c) x y" "draw_px c x y ink a = put4 c x y [v, v, v, 0xff]"
proof (cases "a = 0 \<or> \<not> visible (cw c) (ch c) x y")
  case True
  then have "draw_px c x y ink a = c" using assms(2,3) by (auto simp: draw_px_def visible_def)
  then show ?thesis by (rule that)
next
  case False
  then have v: "visible (cw c) (ch c) x y" "a \<noteq> 0" by auto
  then have "draw_px c x y ink a = put4 c x y
      (let v = blend ink a (cpix c ! pix_off (cstride c) x y) in [v, v, v, 0xff])"
    using raster.off_bounds[OF wf_raster[OF assms(1)] v(1)] by (auto simp: draw_px_def visible_def Let_def)
  then show ?thesis using v(1) by (intro that(2)) (simp_all add: Let_def)
qed

text \<open>One step of drawing on a visible row: shape, other pixels and greyness.\<close>

definition draws :: "(int \<Rightarrow> int \<Rightarrow> bool) \<Rightarrow> canvas \<Rightarrow> canvas \<Rightarrow> bool" where
  "draws B c d \<longleftrightarrow> same_shape d c \<and> (\<forall>x y. visible (cw c) (ch c) x y \<longrightarrow>
     pixel4 d x y = pixel4 c x y \<or> (B x y \<and> grey4 (pixel4 d x y)))"

lemma draws_refl [simp]: "draws B c c"
  by (simp add: draws_def)

lemma draws_trans: "draws B c d \<Longrightarrow> draws B d e \<Longrightarrow> draws B c e"
  unfolding draws_def by (metis same_shape_def same_shape_trans)

lemma draws_mono: "draws B c d \<Longrightarrow> (\<And>x y. B x y \<Longrightarrow> B' x y) \<Longrightarrow> draws B' c d"
  unfolding draws_def by metis

lemma draws_wf: "draws B c d \<Longrightarrow> wf_canvas c \<Longrightarrow> wf_canvas d"
  by (auto simp: draws_def dest: same_shape_wf)

lemma draws_grey: "draws B c d \<Longrightarrow> grey c \<Longrightarrow> grey d"
  unfolding draws_def grey_def same_shape_def by metis

lemma draws_foldl:
  assumes "wf_canvas c" "\<And>c x. wf_canvas c \<Longrightarrow> x \<in> set xs \<Longrightarrow> draws B c (f c x)"
  shows "draws B c (foldl f c xs)"
  using assms
proof (induction xs arbitrary: c)
  case (Cons x xs)
  have 1: "draws B c (f c x)" using Cons.prems by simp
  have "draws B (f c x) (foldl f (f c x) xs)" using Cons draws_wf[OF 1] by simp
  with 1 show ?case by (auto intro: draws_trans)
qed simp

lemma draw_px_draws:
  assumes "wf_canvas c" "0 \<le> y" "y < ch c" "B x y"
  shows "draws B c (draw_px c x y ink a)"
proof (rule draw_px_cases[OF assms(1-3), of x ink a])
  fix v
  assume v: "visible (cw c) (ch c) x y" "draw_px c x y ink a = put4 c x y [v, v, v, 0xff]"
  then show ?thesis using assms put4_shape[OF assms(1) v(1)]
    by (auto simp: draws_def pixel4_put4 grey4_def)
qed simp

lemma fillRect_draws:
  assumes "wf_canvas c" "grey4 (put32 col)" "\<And>x y. inRect x y x0 y0 w h \<Longrightarrow> B x y"
  shows "draws B c (fillRect c x0 y0 w h col)"
  unfolding draws_def using assms by (auto simp: fillRect_shape fillRect_pixel4)

lemma Draw_draws:
  assumes "wf_canvas c" "\<And>f x y. FaceAt s = Some f \<Longrightarrow> inRect x y x0 y0 (tmW (f str)) (tmH (f str)) \<Longrightarrow> B x y"
  shows "draws B c (Draw FaceAt c x0 y0 s ink str)"
proof (cases "FaceAt s")
  case None
  then show ?thesis by (simp add: Draw_def)
next
  case (Some f)
  have row: "draws B c (foldl (\<lambda>c x. draw_px c (x0 + x) (y0 + y) ink (tmAlpha (f str) x y)) c [0..tmW (f str) - 1])"
    if "wf_canvas c" "0 \<le> y0 + y" "y0 + y < ch c" "y \<in> set [0..tmH (f str) - 1]" for c y
    using that
  proof -
    let ?P = "\<lambda>d. wf_canvas d \<and> ch d = ch c"
    have "draws B c (foldl (\<lambda>c x. draw_px c (x0 + x) (y0 + y) ink (tmAlpha (f str) x y)) c xs) \<and>
        ?P (foldl (\<lambda>c x. draw_px c (x0 + x) (y0 + y) ink (tmAlpha (f str) x y)) c xs)"
      if "set xs \<subseteq> set [0..tmW (f str) - 1]" for xs
      using that
    proof (induction xs rule: rev_induct)
      case Nil
      then show ?case using \<open>wf_canvas c\<close> by simp
    next
      case (snoc x xs)
      let ?d = "foldl (\<lambda>c x. draw_px c (x0 + x) (y0 + y) ink (tmAlpha (f str) x y)) c xs"
      have d: "draws B c ?d" "wf_canvas ?d" "ch ?d = ch c" using snoc by auto
      have "B (x0 + x) (y0 + y)"
        using assms(2)[OF Some, of "x0 + x" "y0 + y"] snoc.prems that(1) \<open>y \<in> set [0..tmH (f str) - 1]\<close> by (auto simp: inRect_def)
      then have e: "draws B ?d (draw_px ?d (x0 + x) (y0 + y) ink (tmAlpha (f str) x y))"
        using d \<open>0 \<le> y0 + y\<close> \<open>y0 + y < ch c\<close> by (intro draw_px_draws) auto
      moreover have "ch (draw_px ?d (x0 + x) (y0 + y) ink (tmAlpha (f str) x y)) = ch c"
        using e d(3) by (simp add: draws_def same_shape_def)
      ultimately show ?case using d draws_wf[OF e d(2)] by (auto intro: draws_trans)
    qed
    then show ?thesis by simp
  qed
  show ?thesis unfolding Draw_def Some Let_def option.case
    by (auto intro!: draws_foldl[OF assms(1)] row)
qed

end
