(* ===== verification/Ask.thy ===== *)
theory Ask
  imports Canvas Go_Text
begin

text \<open>
  \<^verbatim>\<open>installer/gotools/internal/ask\<close>: the touch dialogs.  Layout and text editing (\<^verbatim>\<open>layout.go\<close>), the
  on-screen keyboard (\<^verbatim>\<open>keyboard.go\<close>), the chrome (\<^verbatim>\<open>draw.go\<close>, \<^verbatim>\<open>font.go\<close>), the tap detector
  (\<^verbatim>\<open>touch.go\<close>) and the dialogs with their exit codes (\<^verbatim>\<open>ask.go\<close>, \<^verbatim>\<open>screen.go\<close>).  A dialog consumes the
  taps that arrive; after them the touchscreen may fail, or stay silent, and then the dialog is still waiting
  in its read.  Frames put on the panel are recorded.  An index out of range or a division by zero is a panic, kept as a value.
\<close>

section \<open>Chrome\<close>

definition cBG :: u32 where "cBG = 0xfff0f0f0"
definition cFG :: u32 where "cFG = 0xff141414"
definition cAccent :: u32 where "cAccent = 0xff141414"
definition cKey :: u32 where "cKey = 0xffdddddd"
definition cKeyTxt :: u32 where "cKeyTxt = 0xff141414"
definition cBox :: u32 where "cBox = 0xffcccccc"
definition cDim :: u32 where "cDim = 0xff888888"
definition cShiftOn :: u32 where "cShiftOn = 0xff5a5a5a"
definition cOK :: u32 where "cOK = 0xff909090"

definition textW :: "font \<Rightarrow> int \<Rightarrow> string \<Rightarrow> int" where
  "textW F s str = Measure F s str"

function fitScale :: "font \<Rightarrow> int \<Rightarrow> int \<Rightarrow> string \<Rightarrow> int \<Rightarrow> int" where
  "fitScale F s floor label maxW =
     (if floor < s \<and> maxW < textW F s label then fitScale F (s - 1) floor label maxW else s)"
  by pat_completeness auto
termination by (relation "measure (\<lambda>(F, s, floor, label, maxW). nat (s - floor))") auto

declare fitScale.simps [simp del]

definition drawText :: "font \<Rightarrow> canvas \<Rightarrow> int \<Rightarrow> int \<Rightarrow> int \<Rightarrow> u32 \<Rightarrow> string \<Rightarrow> canvas" where
  "drawText F c x0 y0 s col str = Draw F c x0 y0 s (ucast col) str"

definition drawTitle :: "font \<Rightarrow> canvas \<Rightarrow> string \<Rightarrow> canvas" where
  "drawTitle F c title =
     (let c1 = fillRect c 0 0 (cw c) (ch c) cBG;
          c2 = fillRect c1 0 0 (cw c) 8 cFG
      in drawText F c2 40 60 (fitScale F 5 2 title (cw c - 80)) cFG title)"

definition drawButton :: "font \<Rightarrow> canvas \<Rightarrow> int \<Rightarrow> int \<Rightarrow> int \<Rightarrow> int \<Rightarrow> u32 \<Rightarrow> u32 \<Rightarrow> int \<Rightarrow> string \<Rightarrow> canvas" where
  "drawButton F c x y w h bg fg s0 label =
     (let c1 = fillRect c x y w h bg;
          s = fitScale F s0 1 label (w - 20);
          tx = x + quot (w - textW F s label) 2;
          ty = y + quot (h - 7 * s) 2
      in drawText F c1 tx ty s fg label)"

section \<open>Layout\<close>

definition maxText :: nat where "maxText = 63"
definition menuPage :: int where "menuPage = 6"

record menuGeom =
  mgX :: int
  mgW :: int
  mgH :: int
  mgGap :: int
  mgY0 :: int
  moreY :: int
  pages :: int

definition newMenuGeom :: "int \<Rightarrow> int \<Rightarrow> menuGeom" where
  "newMenuGeom fbw n =
     (let p = quot (n + menuPage - 1) menuPage in
      \<lparr>mgX = 40, mgW = fbw - 80, mgH = 130, mgGap = 24, mgY0 = 220,
       moreY = 220 + menuPage * (130 + 24) + 20, pages = (if p < 1 then 1 else p)\<rparr>)"

definition page_count :: "int \<Rightarrow> int \<Rightarrow> int" where
  "page_count page n =
     (let c = n - page * menuPage; c = (if menuPage < c then menuPage else c) in if c < 0 then 0 else c)"

definition buttonY :: "menuGeom \<Rightarrow> int \<Rightarrow> int" where
  "buttonY g i = mgY0 g + i * (mgH g + mgGap g)"

fun hit_from :: "menuGeom \<Rightarrow> int \<Rightarrow> int \<Rightarrow> int list \<Rightarrow> int option" where
  "hit_from g x y [] = None"
| "hit_from g x y (i # is) = (if inRect x y (mgX g) (buttonY g i) (mgW g) (mgH g) then Some i else hit_from g x y is)"

definition hit :: "menuGeom \<Rightarrow> int \<Rightarrow> int \<Rightarrow> int \<Rightarrow> int \<Rightarrow> int \<times> bool" where
  "hit g page n x y =
     (case hit_from g x y [0..page_count page n - 1] of
        Some i \<Rightarrow> (page * menuPage + i, False)
      | None \<Rightarrow> if 1 < pages g \<and> inRect x y (mgX g) (moreY g) (mgW g) (mgH g) then (-1, True) else (-1, False))"

record infoLine =
  ilY :: int
  ilS :: int
  ilText :: string

fun info_place :: "font \<Rightarrow> int \<Rightarrow> int \<Rightarrow> int \<Rightarrow> string list \<Rightarrow> infoLine list" where
  "info_place F fbw okY y [] = []"
| "info_place F fbw okY y (l # ls) =
     (if okY - 40 \<le> y then []
      else \<lparr>ilY = y, ilS = fitScale F 3 1 l (fbw - 80), ilText = l\<rparr> # info_place F fbw okY (y + 60) ls)"

definition infoLayout :: "font \<Rightarrow> int \<Rightarrow> int \<Rightarrow> string list \<Rightarrow> infoLine list \<times> int" where
  "infoLayout F fbw fbh ls = (info_place F fbw (fbh - 200) 220 ls, fbh - 200)"

definition entryTail :: "string \<Rightarrow> int \<Rightarrow> int \<Rightarrow> string" where
  "entryTail shown fbw s =
     (let m = quot (fbw - 120) (6 * s); maxcols = nat (if m < 0 then 0 else m) in
      if maxcols < length shown then drop (length shown - maxcols) shown else shown)"

section \<open>Text editing\<close>

definition keyNone :: int where "keyNone = 0"
definition keyShift :: int where "keyShift = 1"
definition keySym :: int where "keySym = 2"
definition keyBS :: int where "keyBS = 3"
definition keyOK :: int where "keyOK = 4"

record editor =
  buf :: string
  layer :: int
  shifted :: int

definition flip01 :: "int \<Rightarrow> int" where
  "flip01 v = v XOR 1"

definition editor_key :: "editor \<Rightarrow> int \<Rightarrow> editor \<times> bool" where
  "editor_key e k =
     (if k = keyNone then (e, False)
      else if k = keyShift then (e\<lparr>shifted := flip01 (shifted e)\<rparr>, False)
      else if k = keySym then (e\<lparr>layer := flip01 (layer e), shifted := 0\<rparr>, False)
      else if k = keyBS then ((if 0 < length (buf e) then e\<lparr>buf := take (length (buf e) - 1) (buf e)\<rparr> else e), False)
      else if k = keyOK then (e, True)
      else if 0x20 \<le> k \<and> k \<le> 0x7e \<and> length (buf e) < maxText
      then (e\<lparr>buf := buf e @ [char_of (nat k)], shifted := 0\<rparr>, False)
      else (e, False))"

definition masked :: "editor \<Rightarrow> bool \<Rightarrow> string" where
  "masked e secret = (if \<not> secret then buf e else replicate (length (buf e)) CHR ''*'')"

section \<open>Keyboard\<close>

definition rowsLower :: "string list" where
  "rowsLower = [''1234567890'', ''qwertyuiop'', ''asdfghjkl-'', [CHR 0x01] @ ''zxcvbnm.'' @ [CHR 0x03]]"
definition rowsUpper :: "string list" where
  "rowsUpper = [''1234567890'', ''QWERTYUIOP'', ''ASDFGHJKL-'', [CHR 0x01] @ ''ZXCVBNM.'' @ [CHR 0x03]]"
definition rowsSym :: "string list" where
  "rowsSym = [''1234567890'', ''!@#$%^&*()'', ''-_=+[]{};:'', [CHR 0x02, CHR 39, CHR 34] @ '',<>/?'' @ [CHR 92, CHR 0x03]]"

definition kbRows :: "int \<Rightarrow> int \<Rightarrow> string list" where
  "kbRows lay sh = (if lay \<noteq> 0 then rowsSym else if sh \<noteq> 0 then rowsUpper else rowsLower)"

record kbGeom =
  kbTop :: int
  cellW :: int
  cellH :: int

definition kbGeometry :: "int \<Rightarrow> int \<Rightarrow> kbGeom" where
  "kbGeometry w h = \<lparr>kbTop = h - 5 * quot h 11, cellW = quot w 10, cellH = quot h 11\<rparr>"

text \<open>\<open>None\<close> is a panic: a division by zero or an index out of range.\<close>

definition kbHit :: "kbGeom \<Rightarrow> int \<Rightarrow> int \<Rightarrow> int \<Rightarrow> int \<Rightarrow> int option" where
  "kbHit g lay sh x y =
     (if y < kbTop g then Some keyNone
      else if cellH g = 0 \<or> cellW g = 0 then None
      else (let r = quot (y - kbTop g) (cellH g); c0 = quot x (cellW g); c = (if 9 < c0 then 9 else c0) in
        if r < 4 then
          (if r < 0 then None
           else let row = kbRows lay sh ! nat r in
             if int (length row) \<le> c then Some keyNone
             else if c < 0 then None
             else Some (of_char (row ! nat c)))
        else if c < 2 then Some keySym
        else if c < 7 then Some 32
        else if c < 8 then Some (if lay \<noteq> 0 then 126 else 64)
        else Some keyOK))"

definition drawKey :: "font \<Rightarrow> canvas \<Rightarrow> int \<Rightarrow> int \<Rightarrow> int \<Rightarrow> int \<Rightarrow> u32 \<Rightarrow> string \<Rightarrow> canvas" where
  "drawKey F c x y w h bg label =
     (let c1 = fillRect c (x + 4) (y + 4) (w - 8) (h - 8) bg;
          s = fitScale F 4 1 label (w - 16)
      in drawText F c1 (x + quot (w - textW F s label) 2) (y + quot (h - 7 * s) 2) s cKeyTxt label)"

definition draw_cell :: "font \<Rightarrow> kbGeom \<Rightarrow> int \<Rightarrow> int \<Rightarrow> canvas \<Rightarrow> int \<times> char \<Rightarrow> canvas" where
  "draw_cell F g sh y c cell =
     (case cell of (col, glyph) \<Rightarrow>
       (let x = col * cellW g; k = of_char glyph :: int in
        if k = keyShift then drawKey F c x y (cellW g) (cellH g) (if sh \<noteq> 0 then cShiftOn else cBox) ''SH''
        else if k = keySym then drawKey F c x y (cellW g) (cellH g) cBox ''AB''
        else if k = keyBS then drawKey F c x y (cellW g) (cellH g) cBox ''<X''
        else drawKey F c x y (cellW g) (cellH g) cKey [glyph]))"

definition drawKeyboard :: "font \<Rightarrow> canvas \<Rightarrow> kbGeom \<Rightarrow> int \<Rightarrow> int \<Rightarrow> canvas" where
  "drawKeyboard F c g lay sh =
     (let rows = kbRows lay sh;
          c1 = fillRect c 0 (kbTop g) (cw c) (5 * cellH g) cBG;
          c2 = foldl (\<lambda>c r. foldl (draw_cell F g sh (kbTop g + int r * cellH g)) c
                         (map (\<lambda>col. (int col, rows ! r ! col)) [0..<min (length (rows ! r)) 10])) c1 [0..<4];
          y = kbTop g + 4 * cellH g;
          c3 = drawKey F c2 0 y (2 * cellW g) (cellH g) cBox (if lay \<noteq> 0 then ''abc'' else ''?123'');
          c4 = drawKey F c3 (2 * cellW g) y (5 * cellW g) (cellH g) cKey '' '';
          c5 = drawKey F c4 (7 * cellW g) y (cellW g) (cellH g) cKey (if lay \<noteq> 0 then ''~'' else ''@'')
      in drawKey F c5 (8 * cellW g) y (2 * cellW g) (cellH g) cOK ''OK'')"

section \<open>Dialogs\<close>

record ui =
  cv :: canvas
  frames :: "bytes list"

definition u_blit :: "ui \<Rightarrow> ui" where
  "u_blit u = u\<lparr>frames := frames u @ [cpix (cv u)]\<rparr>"

definition u_draw :: "(canvas \<Rightarrow> canvas) \<Rightarrow> ui \<Rightarrow> ui" where
  "u_draw f u = u\<lparr>cv := f (cv u)\<rparr>"

text \<open>What reading a device gives: items that arrive one after the other, then an error of the read, or nothing so
  far, in which case the read blocks.\<close>

datatype 'a incoming = Arrives 'a "'a incoming" | ReadFails | Silent

fun arrived :: "'a incoming \<Rightarrow> 'a list" where
  "arrived (Arrives x xs) = x # arrived xs"
| "arrived _ = []"

fun read_fails :: "'a incoming \<Rightarrow> bool" where
  "read_fails (Arrives x xs) = read_fails xs"
| "read_fails ReadFails = True"
| "read_fails Silent = False"

definition recorded :: "'a list \<Rightarrow> 'a incoming \<Rightarrow> 'a incoming" where
  "recorded xs rest = foldr Arrives xs rest"

lemma recorded_simps [simp]:
  "recorded [] rest = rest" "recorded (x # xs) rest = Arrives x (recorded xs rest)"
  by (simp_all add: recorded_def)

lemma set_incoming_arrived: "set_incoming xs = set (arrived xs)"
  by (induction xs) auto

datatype 'a dialog = Answered 'a | TapFailed | TapPending | Panicked

type_synonym taps = "(int \<times> int) incoming"

definition menu_paint :: "font \<Rightarrow> menuGeom \<Rightarrow> string \<Rightarrow> string list \<Rightarrow> int \<Rightarrow> canvas \<Rightarrow> canvas" where
  "menu_paint F g title opts page c =
     (let c1 = drawTitle F c title;
          c2 = foldl (\<lambda>c i. drawButton F c (mgX g) (buttonY g i) (mgW g) (mgH g) cKey cKeyTxt 4
                        (opts ! nat (page * menuPage + i))) c1 [0..page_count page (int (length opts)) - 1]
      in if 1 < pages g
         then drawButton F c2 (mgX g) (moreY g) (mgW g) (mgH g) cBox cAccent 4
                (''MORE ('' @ dec_int (page + 1) @ ''/'' @ dec_int (pages g) @ '')'')
         else c2)"

fun menu_loop :: "font \<Rightarrow> menuGeom \<Rightarrow> string \<Rightarrow> string list \<Rightarrow> int \<Rightarrow> taps \<Rightarrow> ui \<Rightarrow> int dialog \<times> ui" where
  "menu_loop F g title opts page ReadFails u = (TapFailed, u_blit (u_draw (menu_paint F g title opts page) u))"
| "menu_loop F g title opts page Silent u = (TapPending, u_blit (u_draw (menu_paint F g title opts page) u))"
| "menu_loop F g title opts page (Arrives (x, y) taps) u =
     (let u' = u_blit (u_draw (menu_paint F g title opts page) u) in
      (case hit g page (int (length opts)) x y of
         (i, True) \<Rightarrow> menu_loop F g title opts ((page + 1) mod pages g) taps u'
       | (i, False) \<Rightarrow> if 0 \<le> i then (Answered i, u') else menu_loop F g title opts page taps u'))"

definition menu :: "font \<Rightarrow> string \<Rightarrow> string list \<Rightarrow> taps \<Rightarrow> ui \<Rightarrow> int dialog \<times> ui" where
  "menu F title opts taps u = menu_loop F (newMenuGeom (cw (cv u)) (int (length opts))) title opts 0 taps u"

fun info_loop :: "menuGeom \<Rightarrow> int \<Rightarrow> taps \<Rightarrow> unit dialog" where
  "info_loop g okY ReadFails = TapFailed"
| "info_loop g okY Silent = TapPending"
| "info_loop g okY (Arrives (x, y) taps) =
     (if inRect x y (mgX g) okY (mgW g) (mgH g) then Answered () else info_loop g okY taps)"

definition info_paint :: "font \<Rightarrow> menuGeom \<Rightarrow> string \<Rightarrow> infoLine list \<Rightarrow> int \<Rightarrow> canvas \<Rightarrow> canvas" where
  "info_paint F g title placed okY c =
     (let c1 = drawTitle F c title;
          c2 = foldl (\<lambda>c l. drawText F c 40 (ilY l) (ilS l) cFG (ilText l)) c1 placed
      in drawButton F c2 (mgX g) okY (mgW g) (mgH g) cOK cFG 5 ''OK'')"

definition info :: "font \<Rightarrow> string \<Rightarrow> string list \<Rightarrow> taps \<Rightarrow> ui \<Rightarrow> unit dialog \<times> ui" where
  "info F title ls taps u =
     (let g = newMenuGeom (cw (cv u)) 0 in
      (case infoLayout F (cw (cv u)) (ch (cv u)) ls of (placed, okY) \<Rightarrow>
         (info_loop g okY taps, u_blit (u_draw (info_paint F g title placed okY) u))))"

definition text_paint :: "font \<Rightarrow> kbGeom \<Rightarrow> string \<Rightarrow> bool \<Rightarrow> editor \<Rightarrow> canvas \<Rightarrow> canvas" where
  "text_paint F g title secret e c =
     (let c1 = drawTitle F c title;
          c2 = drawButton F c1 (cw c - 140) 30 100 100 cBox cDim 5 ''X'';
          c3 = fillRect c2 40 260 (cw c - 80) 120 cBox;
          tail = entryTail (masked e secret) (cw c) 4;
          c4 = drawText F c3 60 (260 + quot (120 - 7 * 4) 2) 4 cAccent tail;
          c5 = fillRect c4 (60 + textW F 4 tail + 4) (260 + 20) 8 (120 - 40) cAccent
      in drawKeyboard F c5 g (layer e) (shifted e))"

text \<open>The answer is the entered text, or nothing when it was cancelled.\<close>

fun text_loop :: "font \<Rightarrow> kbGeom \<Rightarrow> string \<Rightarrow> bool \<Rightarrow> editor \<Rightarrow> taps \<Rightarrow> ui \<Rightarrow> string option dialog \<times> ui" where
  "text_loop F g title secret e ReadFails u = (TapFailed, u_blit (u_draw (text_paint F g title secret e) u))"
| "text_loop F g title secret e Silent u = (TapPending, u_blit (u_draw (text_paint F g title secret e) u))"
| "text_loop F g title secret e (Arrives (x, y) taps) u =
     (let u' = u_blit (u_draw (text_paint F g title secret e) u) in
      if inRect x y (cw (cv u) - 140) 30 100 100 then (Answered None, u')
      else (case kbHit g (layer e) (shifted e) x y of
              None \<Rightarrow> (Panicked, u')
            | Some k \<Rightarrow>
                (case editor_key e k of
                   (e', True) \<Rightarrow> (Answered (Some (buf e')), u')
                 | (e', False) \<Rightarrow> text_loop F g title secret e' taps u')))"

definition text_dialog :: "font \<Rightarrow> string \<Rightarrow> string \<Rightarrow> bool \<Rightarrow> taps \<Rightarrow> ui \<Rightarrow> string option dialog \<times> ui" where
  "text_dialog F title initial secret taps u =
     text_loop F (kbGeometry (cw (cv u)) (ch (cv u))) title secret
       \<lparr>buf = (if secret then [] else take maxText initial), layer = 0, shifted = 0\<rparr> taps u"

text \<open>\<^verbatim>\<open>run\<close>: exit code, standard output and standard error; still waiting for a tap; or a panic.\<close>

datatype run_result = Exits int string string | StillWaiting | RunPanics

fun menu_exit :: "int dialog \<Rightarrow> run_result" where
  "menu_exit (Answered i) = Exits 0 (dec_int i @ nl) []"
| "menu_exit TapFailed = Exits 2 [] []"
| "menu_exit TapPending = StillWaiting"
| "menu_exit Panicked = RunPanics"

fun text_exit :: "string option dialog \<Rightarrow> run_result" where
  "text_exit (Answered None) = Exits 1 [] []"
| "text_exit (Answered (Some t)) = Exits 0 (t @ nl) []"
| "text_exit TapFailed = Exits 2 [] []"
| "text_exit TapPending = StillWaiting"
| "text_exit Panicked = RunPanics"

fun info_exit :: "unit dialog \<Rightarrow> run_result" where
  "info_exit (Answered _) = Exits 0 [] []"
| "info_exit TapFailed = Exits 2 [] []"
| "info_exit TapPending = StillWaiting"
| "info_exit Panicked = RunPanics"

definition ask_run :: "font \<Rightarrow> string list \<Rightarrow> taps \<Rightarrow> ui \<Rightarrow> run_result \<times> ui" where
  "ask_run F args taps u =
     (case args of
        mode # title # rest \<Rightarrow>
          if mode = ''menu'' then
            (if rest = [] then (Exits 2 [] (''dc1-ask: menu needs options'' @ nl), u)
             else (case menu F title rest taps u of (r, u') \<Rightarrow> (menu_exit r, u')))
          else if mode = ''text'' \<or> mode = ''secret'' then
            (case text_dialog F title (if mode = ''text'' \<and> rest \<noteq> [] then hd rest else []) (mode = ''secret'') taps u of
               (r, u') \<Rightarrow> (text_exit r, u'))
          else if mode = ''info'' then (case info F title rest taps u of (r, u') \<Rightarrow> (info_exit r, u'))
          else (Exits 2 [] (''dc1-ask: unknown mode '' @ mode @ nl), u)
      | _ \<Rightarrow> (RunPanics, u))"

section \<open>Painting keeps the shape and the grey scale\<close>

abbreviation painted :: "canvas \<Rightarrow> canvas \<Rightarrow> bool" where
  "painted \<equiv> draws (\<lambda>_ _. True)"

named_theorems painting \<open>drawing routines as painted canvases\<close>

lemma palette_grey [simp]:
  "grey4 (put32 cBG)" "grey4 (put32 cFG)" "grey4 (put32 cAccent)" "grey4 (put32 cKey)" "grey4 (put32 cKeyTxt)"
  "grey4 (put32 cBox)" "grey4 (put32 cDim)" "grey4 (put32 cShiftOn)" "grey4 (put32 cOK)"
proof -
  have "put32 cBG = [0xf0, 0xf0, 0xf0, 0xff]" "put32 cFG = [0x14, 0x14, 0x14, 0xff]" "put32 cAccent = [0x14, 0x14, 0x14, 0xff]"
    "put32 cKey = [0xdd, 0xdd, 0xdd, 0xff]" "put32 cKeyTxt = [0x14, 0x14, 0x14, 0xff]" "put32 cBox = [0xcc, 0xcc, 0xcc, 0xff]"
    "put32 cDim = [0x88, 0x88, 0x88, 0xff]" "put32 cShiftOn = [0x5a, 0x5a, 0x5a, 0xff]" "put32 cOK = [0x90, 0x90, 0x90, 0xff]"
    by code_simp+
  then show "grey4 (put32 cBG)" "grey4 (put32 cFG)" "grey4 (put32 cAccent)" "grey4 (put32 cKey)" "grey4 (put32 cKeyTxt)"
    "grey4 (put32 cBox)" "grey4 (put32 cDim)" "grey4 (put32 cShiftOn)" "grey4 (put32 cOK)"
    by (simp_all add: grey4_def)
qed

lemma fillRect_painted: "wf_canvas c \<Longrightarrow> grey4 (put32 col) \<Longrightarrow> painted c (fillRect c x y w h col)"
  by (simp add: fillRect_draws)

lemma drawText_painted: "wf_canvas c \<Longrightarrow> painted c (drawText F c x y s col str)"
  unfolding drawText_def by (rule Draw_draws) simp_all

text \<open>One more routine on a painted canvas; the rules peel a drawing sequence from its end.\<close>

lemma fillRect_into [painting]:
  "wf_canvas b \<Longrightarrow> grey4 (put32 col) \<Longrightarrow> painted b c \<Longrightarrow> painted b (fillRect c x y w h col)"
  using draws_trans draws_wf fillRect_painted by metis

lemma drawText_into [painting]: "wf_canvas b \<Longrightarrow> painted b c \<Longrightarrow> painted b (drawText F c x y s col str)"
  using draws_trans draws_wf drawText_painted by metis

lemma drawButton_into [painting]:
  "wf_canvas b \<Longrightarrow> grey4 (put32 bg) \<Longrightarrow> painted b c \<Longrightarrow> painted b (drawButton F c x y w h bg fg s label)"
  unfolding drawButton_def Let_def by (intro painting)

lemma drawKey_into [painting]:
  "wf_canvas b \<Longrightarrow> grey4 (put32 bg) \<Longrightarrow> painted b c \<Longrightarrow> painted b (drawKey F c x y w h bg label)"
  unfolding drawKey_def Let_def by (intro painting)

lemma foldl_into:
  assumes "wf_canvas b" "painted b c" "\<And>c x. painted b c \<Longrightarrow> painted b (f c x)"
  shows "painted b (foldl f c xs)"
  using assms(2) by (induction xs arbitrary: c) (auto intro: assms(3))

lemma draw_cell_into: "wf_canvas b \<Longrightarrow> painted b c \<Longrightarrow> painted b (draw_cell F g sh y c cell)"
  by (cases cell) (simp add: draw_cell_def Let_def drawKey_into)

lemma drawKeyboard_into [painting]: "wf_canvas b \<Longrightarrow> painted b c \<Longrightarrow> painted b (drawKeyboard F c g lay sh)"
  unfolding drawKeyboard_def Let_def
  by (intro drawKey_into foldl_into draw_cell_into fillRect_into) simp_all

text \<open>A title starts a screen: it paints every visible pixel.\<close>

lemma drawTitle_screen:
  assumes "wf_canvas c"
  shows "painted c (drawTitle F c title)" "grey (drawTitle F c title)"
proof -
  let ?c1 = "fillRect c 0 0 (cw c) (ch c) cBG"
  have 1: "painted c ?c1" using assms by (simp add: fillRect_painted)
  then have w1: "wf_canvas ?c1" using assms by (rule draws_wf)
  have sh: "same_shape ?c1 c" using assms by (rule fillRect_shape)
  have g1: "grey ?c1"
    unfolding grey_def using sh fillRect_pixel4[OF assms] by (auto simp: same_shape_def visible_def inRect_def)
  have 2: "painted ?c1 (drawTitle F c title)"
    unfolding drawTitle_def Let_def
    by (rule drawText_into[OF w1 fillRect_into[OF w1 _ draws_refl]]) simp
  show "painted c (drawTitle F c title)" using 1 2 by (rule draws_trans)
  show "grey (drawTitle F c title)" using 2 g1 by (rule draws_grey)
qed

definition screen_ok :: "canvas \<Rightarrow> canvas \<Rightarrow> bool" where
  "screen_ok c d \<longleftrightarrow> same_shape d c \<and> grey d"

lemma after_title:
  assumes "wf_canvas c" "painted (drawTitle F c title) d"
  shows "screen_ok c d"
proof -
  have "painted c d" using drawTitle_screen(1)[OF assms(1)] assms(2) by (rule draws_trans)
  then show ?thesis unfolding screen_ok_def
    using draws_grey[OF assms(2) drawTitle_screen(2)[OF assms(1)]] by (simp add: draws_def)
qed

lemma title_wf: "wf_canvas c \<Longrightarrow> wf_canvas (drawTitle F c title)"
  using drawTitle_screen(1) draws_wf by blast

lemma menu_paint_ok: "wf_canvas c \<Longrightarrow> screen_ok c (menu_paint F g title opts page c)"
  unfolding menu_paint_def Let_def
  by (rule after_title[where F = F and title = title]) (auto intro!: foldl_into drawButton_into title_wf)

lemma info_paint_ok: "wf_canvas c \<Longrightarrow> screen_ok c (info_paint F g title placed okY c)"
  unfolding info_paint_def Let_def
  by (rule after_title[where F = F and title = title]) (auto intro!: foldl_into drawButton_into drawText_into title_wf)

lemma text_paint_ok: "wf_canvas c \<Longrightarrow> screen_ok c (text_paint F g title secret e c)"
  unfolding text_paint_def Let_def
  by (rule after_title[where F = F and title = title]) (auto intro!: painting title_wf)

section \<open>Frames\<close>

definition good_frames :: "canvas \<Rightarrow> ui \<Rightarrow> ui \<Rightarrow> bool" where
  "good_frames c u u' \<longleftrightarrow> same_shape (cv u') c \<and> (\<exists>new. frames u' = frames u @ new \<and>
     (\<forall>f\<in>set new. length f = length (cpix c) \<and> grey (c\<lparr>cpix := f\<rparr>)))"

lemma good_frames_trans: "good_frames c u v \<Longrightarrow> good_frames c v w \<Longrightarrow> good_frames c u w"
  unfolding good_frames_def by fastforce

lemma good_frames_blit:
  assumes "wf_canvas c" "same_shape (cv u) c" "\<And>c. wf_canvas c \<Longrightarrow> screen_ok c (f c)"
  shows "good_frames c u (u_blit (u_draw f u))"
proof -
  have "screen_ok (cv u) (f (cv u))" using assms by (simp add: same_shape_wf)
  then have s: "same_shape (f (cv u)) c" "grey (f (cv u))"
    using assms(2) by (auto simp: screen_ok_def intro: same_shape_trans)
  then have "grey (c\<lparr>cpix := cpix (f (cv u))\<rparr>)" by (simp add: grey_def pixel4_def same_shape_def)
  then show ?thesis using s(1) unfolding good_frames_def u_blit_def u_draw_def by (auto simp: same_shape_def)
qed

lemma menu_loop_frames:
  "wf_canvas c \<Longrightarrow> same_shape (cv u) c \<Longrightarrow> good_frames c u (snd (menu_loop F g title opts page taps u))"
proof (induction F g title opts page taps u rule: menu_loop.induct)
  case (3 F g title opts page x y taps u)
  let ?u = "u_blit (u_draw (menu_paint F g title opts page) u)"
  have f: "good_frames c u ?u" using 3(3,4) by (simp add: good_frames_blit menu_paint_ok)
  then have s: "same_shape (cv ?u) c" by (simp add: good_frames_def)
  show ?case using 3(1,2) f s 3(3) by (auto simp: Let_def split: prod.splits bool.splits intro: good_frames_trans)
qed (simp_all add: good_frames_blit menu_paint_ok)

lemma text_loop_frames:
  "wf_canvas c \<Longrightarrow> same_shape (cv u) c \<Longrightarrow> good_frames c u (snd (text_loop F g title secret e taps u))"
proof (induction F g title secret e taps u rule: text_loop.induct)
  case (3 F g title secret e x y taps u)
  let ?u = "u_blit (u_draw (text_paint F g title secret e) u)"
  have f: "good_frames c u ?u" using 3(2,3) by (simp add: good_frames_blit text_paint_ok)
  then have s: "same_shape (cv ?u) c" by (simp add: good_frames_def)
  show ?case using 3(1) f s 3(2)
    by (auto simp: Let_def split: prod.splits bool.splits option.splits intro: good_frames_trans)
qed (simp_all add: good_frames_blit text_paint_ok)

lemma info_frames:
  "wf_canvas (cv u) \<Longrightarrow> good_frames (cv u) u (snd (info F title ls taps u))"
  by (simp add: info_def Let_def infoLayout_def good_frames_blit info_paint_ok)

lemma good_frames_refl: "good_frames (cv u) u u"
  by (simp add: good_frames_def)

text \<open>The interface state after a request is that of the dialog it ran.\<close>

lemma ask_run_ui:
  "snd (ask_run F args taps u) = u \<or> (\<exists>t rest. snd (ask_run F args taps u) = snd (menu F t rest taps u)) \<or>
   (\<exists>t i s. snd (ask_run F args taps u) = snd (text_dialog F t i s taps u)) \<or>
   (\<exists>t rest. snd (ask_run F args taps u) = snd (info F t rest taps u))"
proof (cases "\<exists>mode t rest. args = mode # t # rest")
  case False
  then consider "args = []" | mode where "args = [mode]" by (metis list.exhaust)
  then have "ask_run F args taps u = (RunPanics, u)" by cases (simp_all add: ask_run_def)
  then show ?thesis by simp
next
  case True
  then obtain mode t rest where a: "args = mode # t # rest" by blast
  consider "mode = ''menu''" | "mode = ''text'' \<or> mode = ''secret''" | "mode = ''info''"
    | "mode \<noteq> ''menu''" "\<not> (mode = ''text'' \<or> mode = ''secret'')" "mode \<noteq> ''info''" by blast
  then show ?thesis
  proof cases
    case 1
    have "snd (ask_run F args taps u) = (if rest = [] then u else snd (menu F t rest taps u))"
      unfolding a ask_run_def list.case 1 by (simp split: prod.splits)
    then show ?thesis by (metis (full_types))
  next
    case 2
    then have "snd (ask_run F args taps u) =
      snd (text_dialog F t (if mode = ''text'' \<and> rest \<noteq> [] then hd rest else []) (mode = ''secret'') taps u)"
      unfolding a ask_run_def list.case by (auto split: prod.splits)
    then show ?thesis by blast
  next
    case 3
    then have "snd (ask_run F args taps u) = snd (info F t rest taps u)" unfolding a ask_run_def list.case by (auto split: prod.splits)
    then show ?thesis by blast
  next
    case 4
    then show ?thesis unfolding a ask_run_def by simp
  qed
qed

lemma ask_run_frames:
  assumes "wf_canvas (cv u)"
  shows "good_frames (cv u) u (snd (ask_run F args taps u))"
proof -
  have m: "good_frames (cv u) u (snd (menu F t rest taps u))" for t rest
    unfolding menu_def by (rule menu_loop_frames[OF assms same_shape_refl])
  have x: "good_frames (cv u) u (snd (text_dialog F t i s taps u))" for t i s
    unfolding text_dialog_def by (rule text_loop_frames[OF assms same_shape_refl])
  have n: "good_frames (cv u) u (snd (info F t rest taps u))" for t rest by (rule info_frames[OF assms])
  consider "snd (ask_run F args taps u) = u" | t rest where "snd (ask_run F args taps u) = snd (menu F t rest taps u)"
    | t i s where "snd (ask_run F args taps u) = snd (text_dialog F t i s taps u)"
    | t rest where "snd (ask_run F args taps u) = snd (info F t rest taps u)"
    using ask_run_ui by blast
  then show ?thesis by cases (simp_all add: m x n good_frames_refl)
qed

section \<open>Keys and entered text\<close>

definition key_ok :: "int \<Rightarrow> bool" where
  "key_ok k \<longleftrightarrow> (0 \<le> k \<and> k \<le> 4) \<or> (32 \<le> k \<and> k \<le> 126)"

definition printable :: "string \<Rightarrow> bool" where
  "printable s \<longleftrightarrow> (\<forall>c\<in>set s. 32 \<le> (of_char c :: nat) \<and> (of_char c :: nat) \<le> 126)"

lemma kbRows_ok:
  "length (kbRows l s) = 4 \<and> (\<forall>row\<in>set (kbRows l s). length row = 10 \<and> (\<forall>c\<in>set row. key_ok (of_char c)))"
proof -
  let ?ok = "\<lambda>rows. length rows = 4 \<and> list_all (\<lambda>row. length row = 10 \<and> list_all (\<lambda>c. key_ok (of_char c)) row) rows"
  have "?ok rowsLower" "?ok rowsUpper" "?ok rowsSym" by code_simp+
  then show ?thesis by (simp add: kbRows_def list_all_iff)
qed

lemma kbHit_ok:
  assumes "10 \<le> w" "11 \<le> h" "0 \<le> x"
  shows "\<exists>k. kbHit (kbGeometry w h) l s x y = Some k \<and> key_ok k"
proof -
  let ?g = "kbGeometry w h"
  have cw: "0 < cellW ?g" "0 < cellH ?g" using assms by (simp_all add: kbGeometry_def quot_nonneg)
  define r where "r = quot (y - kbTop ?g) (cellH ?g)"
  define c where "c = (if 9 < quot x (cellW ?g) then 9 else quot x (cellW ?g))"
  have c: "0 \<le> c" "c \<le> 9" using assms(3) cw(1) by (auto simp: c_def quot_nonneg pos_imp_zdiv_nonneg_iff)
  show ?thesis
  proof (cases "y < kbTop ?g")
    case True
    then show ?thesis by (simp add: kbHit_def keyNone_def key_ok_def)
  next
    case False
    then have r: "0 \<le> r" using cw(2) by (simp add: r_def quot_nonneg pos_imp_zdiv_nonneg_iff)
    have e: "kbHit ?g l s x y = (if r < 4 then
          (if r < 0 then None else let row = kbRows l s ! nat r in
             if int (length row) \<le> c then Some keyNone else if c < 0 then None else Some (of_char (row ! nat c)))
        else if c < 2 then Some keySym else if c < 7 then Some 32
        else if c < 8 then Some (if l \<noteq> 0 then 126 else 64) else Some keyOK)"
      using False cw unfolding kbHit_def r_def[symmetric] c_def[symmetric] Let_def by simp
    show ?thesis
    proof (cases "r < 4")
      case True
      have row: "kbRows l s ! nat r \<in> set (kbRows l s)" using kbRows_ok[of l s] r True by (intro nth_mem) simp
      then have ok: "length (kbRows l s ! nat r) = 10" "\<forall>d\<in>set (kbRows l s ! nat r). key_ok (of_char d)"
        using kbRows_ok[of l s] by blast+
      have "key_ok (of_char (kbRows l s ! nat r ! nat c))" using ok c by (simp add: nth_mem)
      then show ?thesis unfolding e using True r c ok(1) by simp
    next
      case False
      then show ?thesis unfolding e by (simp add: key_ok_def keySym_def keyOK_def)
    qed
  qed
qed

definition text_ok :: "bool \<Rightarrow> string \<Rightarrow> bool" where
  "text_ok pr s \<longleftrightarrow> length s \<le> 63 \<and> (pr \<longrightarrow> printable s)"

lemma editor_key_ok:
  assumes "text_ok pr (buf e)" "editor_key e k = (e', b)"
  shows "text_ok pr (buf e')"
proof -
  have t: "printable (take n s)" if "printable s" for n s using that by (auto simp: printable_def dest: in_set_takeD)
  show ?thesis using assms
    by (auto simp: editor_key_def text_ok_def maxText_def t split: if_splits) (auto simp: printable_def)
qed

lemma text_loop_safe:
  assumes "10 \<le> w" "11 \<le> h" "\<forall>(x, y)\<in>set_incoming taps. 0 \<le> x" "text_ok pr (buf e)"
  shows "fst (text_loop F (kbGeometry w h) title secret e taps u) \<noteq> Panicked \<and>
    (\<forall>t. fst (text_loop F (kbGeometry w h) title secret e taps u) = Answered (Some t) \<longrightarrow> text_ok pr t)"
  using assms(3,4)
proof (induction taps arbitrary: e u)
  case (Arrives tp taps)
  obtain x y where tp: "tp = (x, y)" by (cases tp)
  obtain k where k: "kbHit (kbGeometry w h) (layer e) (shifted e) x y = Some k"
    using kbHit_ok[OF assms(1,2)] Arrives.prems(1) tp by force
  obtain e' b where e: "editor_key e k = (e', b)" by (cases "editor_key e k")
  have ok: "text_ok pr (buf e')" using editor_key_ok[OF Arrives.prems(2) e] .
  have ih: "fst (text_loop F (kbGeometry w h) title secret e' taps v) \<noteq> Panicked \<and>
    (\<forall>t. fst (text_loop F (kbGeometry w h) title secret e' taps v) = Answered (Some t) \<longrightarrow> text_ok pr t)" for v
    using Arrives.IH[of e'] Arrives.prems(1) ok by simp
  show ?case unfolding tp text_loop.simps Let_def k option.case e prod.case
    using ih ok by (cases b) simp_all
qed simp_all

section \<open>Menus\<close>

lemma hit_from_Some: "hit_from g x y is = Some i \<Longrightarrow> i \<in> set is \<and> inRect x y (mgX g) (buttonY g i) (mgW g) (mgH g)"
  by (induction "is") (auto split: if_splits)

lemma hit_from_first:
  assumes "i \<in> set is" "inRect x y (mgX g) (buttonY g i) (mgW g) (mgH g)"
    "\<And>j. j \<in> set is \<Longrightarrow> inRect x y (mgX g) (buttonY g j) (mgW g) (mgH g) \<Longrightarrow> j = i"
  shows "hit_from g x y is = Some i"
  using assms(1,3)
proof (induction "is")
  case (Cons j js)
  show ?case
  proof (cases "inRect x y (mgX g) (buttonY g j) (mgW g) (mgH g)")
    case True
    then have "j = i" using Cons.prems(2)[of j] by simp
    then show ?thesis using True by simp
  next
    case False
    then have "i \<in> set js" using Cons.prems(1) assms(2) by auto
    then show ?thesis using Cons.IH Cons.prems(2) False by simp
  qed
qed simp

lemma hit_from_None: "(\<And>j. j \<in> set is \<Longrightarrow> \<not> inRect x y (mgX g) (buttonY g j) (mgW g) (mgH g)) \<Longrightarrow> hit_from g x y is = None"
  by (induction "is") auto

lemma hit_answer:
  assumes "hit g page n x y = (i, False)" "0 \<le> i" "0 \<le> page"
  shows "i < n \<and> page * 6 \<le> i \<and> inRect x y (mgX g) (buttonY g (i - page * 6)) (mgW g) (mgH g)"
proof -
  obtain j where j: "hit_from g x y [0..page_count page n - 1] = Some j" "i = page * 6 + j"
    using assms(1,2) by (auto simp: hit_def menuPage_def split: option.splits if_splits)
  from hit_from_Some[OF j(1)] show ?thesis
    using j(2) by (auto simp: page_count_def menuPage_def Let_def split: if_splits)
qed

lemma menu_loop_answer:
  assumes "fst (menu_loop F g title opts page taps u) = Answered i" "0 \<le> page" "0 < pages g"
  shows "0 \<le> i \<and> i < int (length opts) \<and>
    (\<exists>(x, y)\<in>set_incoming taps. \<exists>p\<ge>0. p * 6 \<le> i \<and> inRect x y (mgX g) (buttonY g (i - p * 6)) (mgW g) (mgH g))"
  using assms(1,2)
proof (induction taps arbitrary: page u)
  case (Arrives tp taps)
  obtain x y where tp: "tp = (x, y)" by (cases tp)
  obtain j m where h: "hit g page (int (length opts)) x y = (j, m)" by (cases "hit g page (int (length opts)) x y")
  have nx: "0 \<le> (page + 1) mod pages g" using assms(3) by simp
  show ?case
  proof (cases m)
    case True
    then show ?thesis using Arrives.IH[OF _ nx] Arrives.prems tp h by (auto simp: Let_def)
  next
    case False
    show ?thesis
    proof (cases "0 \<le> j")
      case True
      then have "i = j" using Arrives.prems tp h False by (simp add: Let_def)
      then show ?thesis using hit_answer[of g page "int (length opts)" x y j] h False True Arrives.prems(2) tp by auto
    next
      case False2: False
      then show ?thesis using Arrives.IH[OF _ Arrives.prems(2)] Arrives.prems tp h False by (auto simp: Let_def)
    qed
  qed
qed simp_all

lemma menu_loop_Cons:
  "menu_loop F g title opts page (Arrives tp taps) u =
     (let u' = u_blit (u_draw (menu_paint F g title opts page) u) in
      (case hit g page (int (length opts)) (fst tp) (snd tp) of
         (i, True) \<Rightarrow> menu_loop F g title opts ((page + 1) mod pages g) taps u'
       | (i, False) \<Rightarrow> if 0 \<le> i then (Answered i, u') else menu_loop F g title opts page taps u'))"
  by (cases tp) simp

text \<open>Taps in the middle of the buttons, and the page flips that bring an option on the screen.\<close>

definition option_tap :: "int \<Rightarrow> int \<times> int" where
  "option_tap i = (41, 220 + (i mod 6) * 154 + 65)"

definition more_tap :: "int \<times> int" where
  "more_tap = (41, 1164 + 65)"

lemma hit_option:
  assumes "82 \<le> fbw" "0 \<le> k" "k < n"
  shows "hit (newMenuGeom fbw n) (k div 6) n (fst (option_tap k)) (snd (option_tap k)) = (k, False)"
proof -
  let ?g = "newMenuGeom fbw n" and ?x = "fst (option_tap k)" and ?y = "snd (option_tap k)"
  have m: "0 \<le> k mod 6" "k mod 6 < 6" "k div 6 * 6 + k mod 6 = k" by simp_all
  have "hit_from ?g ?x ?y [0..page_count (k div 6) n - 1] = Some (k mod 6)"
  proof (rule hit_from_first)
    have "k mod 6 < n - k div 6 * 6" using m assms by linarith
    then show "k mod 6 \<in> set [0..page_count (k div 6) n - 1]"
      using m by (auto simp: page_count_def menuPage_def Let_def)
    show "inRect ?x ?y (mgX ?g) (buttonY ?g (k mod 6)) (mgW ?g) (mgH ?g)"
      using assms(1) by (simp add: inRect_def option_tap_def newMenuGeom_def buttonY_def Let_def)
    show "j = k mod 6" if "inRect ?x ?y (mgX ?g) (buttonY ?g j) (mgW ?g) (mgH ?g)" for j
      using that by (simp add: inRect_def option_tap_def newMenuGeom_def buttonY_def Let_def)
  qed
  then show ?thesis by (simp add: hit_def menuPage_def m)
qed

lemma hit_more:
  assumes "82 \<le> fbw" "1 < pages (newMenuGeom fbw n)"
  shows "hit (newMenuGeom fbw n) p n (fst more_tap) (snd more_tap) = (-1, True)"
proof -
  let ?g = "newMenuGeom fbw n"
  have "hit_from ?g (fst more_tap) (snd more_tap) [0..page_count p n - 1] = None"
  proof (rule hit_from_None)
    fix j
    assume "j \<in> set [0..page_count p n - 1]"
    then have "j \<le> 5" by (auto simp: page_count_def menuPage_def Let_def split: if_splits)
    then show "\<not> inRect (fst more_tap) (snd more_tap) (mgX ?g) (buttonY ?g j) (mgW ?g) (mgH ?g)"
      by (simp add: inRect_def more_tap_def newMenuGeom_def buttonY_def Let_def)
  qed
  moreover have "inRect (fst more_tap) (snd more_tap) (mgX ?g) (moreY ?g) (mgW ?g) (mgH ?g)"
    using assms(1) by (simp add: inRect_def more_tap_def newMenuGeom_def menuPage_def Let_def)
  ultimately show ?thesis using assms(2) by (simp add: hit_def)
qed

lemma menu_loop_reach:
  assumes "82 \<le> fbw" "0 \<le> k" "k < int (length opts)" "0 \<le> p" "p + int m = k div 6"
  shows "fst (menu_loop F (newMenuGeom fbw (int (length opts))) title opts p (recorded (replicate m more_tap @ [option_tap k]) rest) u) = Answered k"
  using assms(4,5)
proof (induction m arbitrary: p u)
  case 0
  then have "p = k div 6" by simp
  then show ?case using hit_option[OF assms(1-3)] assms(2) by (simp add: menu_loop_Cons Let_def)
next
  case (Suc m)
  let ?g = "newMenuGeom fbw (int (length opts))"
  have pg: "k div 6 < pages ?g"
  proof -
    have "1 \<le> (int (length opts) + 5) div 6" "k div 6 < (int (length opts) + 5) div 6" using assms(2,3) by linarith+
    then show ?thesis by (simp add: newMenuGeom_def menuPage_def quot_nonneg Let_def add.commute)
  qed
  have "p + 1 < pages ?g" using Suc.prems pg by simp
  then have mod: "(p + 1) mod pages ?g = p + 1" using Suc.prems by simp
  have "1 < pages ?g" using \<open>p + 1 < pages ?g\<close> Suc.prems by simp
  then have "hit ?g p (int (length opts)) (fst more_tap) (snd more_tap) = (-1, True)"
    using assms(1) by (rule hit_more[rotated])
  then show ?case using Suc.IH[of "p + 1"] Suc.prems mod by (simp add: menu_loop_Cons Let_def)
qed

section \<open>Every dialog can be left\<close>

text \<open>The button that leaves a dialog whatever was tapped before: the first option of a menu, which every page has;
  the OK button of a message; the X of the keyboard.\<close>

definition exit_button :: "string \<Rightarrow> int \<Rightarrow> int \<Rightarrow> int \<times> int \<Rightarrow> bool" where
  "exit_button mode w h p =
     (if mode = ''menu'' then inRect (fst p) (snd p) 40 220 (w - 80) 130
      else if mode = ''info'' then inRect (fst p) (snd p) 40 (h - 200) (w - 80) 130
      else inRect (fst p) (snd p) (w - 140) 30 100 100)"

text \<open>A dialog without an answer saw no such tap, and its read failed or is still pending.\<close>

definition unanswered :: "'a dialog \<Rightarrow> (int \<times> int \<Rightarrow> bool) \<Rightarrow> taps \<Rightarrow> bool" where
  "unanswered d leaves taps \<longleftrightarrow>
     (\<forall>p\<in>set_incoming taps. \<not> leaves p) \<and> (d = TapFailed \<and> read_fails taps \<or> d = TapPending \<and> \<not> read_fails taps)"

lemma unanswered_simps [simp]:
  "unanswered TapFailed leaves ReadFails" "unanswered TapPending leaves Silent"
  "unanswered d leaves (Arrives p taps) \<longleftrightarrow> \<not> leaves p \<and> unanswered d leaves taps"
  by (auto simp: unanswered_def)

lemma hit_first_option:
  assumes "0 < n" "0 \<le> page" "page < pages (newMenuGeom w n)" "exit_button ''menu'' w h (x, y)"
  shows "hit (newMenuGeom w n) page n x y = (page * 6, False)"
proof -
  have "1 \<le> (n + 5) div 6" using assms(1) by linarith
  then have p: "pages (newMenuGeom w n) = (n + 5) div 6"
    using assms(1) by (simp add: newMenuGeom_def menuPage_def quot_nonneg Let_def add.commute)
  then have "page * 6 < n" using assms(3) by linarith
  then have "[0..page_count page n - 1] = 0 # [1..page_count page n - 1]"
    by (subst upto_rec1) (simp_all add: page_count_def menuPage_def Let_def)
  moreover have "inRect x y (mgX (newMenuGeom w n)) (buttonY (newMenuGeom w n) 0) (mgW (newMenuGeom w n)) (mgH (newMenuGeom w n))"
    using assms(4) by (simp add: exit_button_def newMenuGeom_def buttonY_def Let_def)
  ultimately show ?thesis by (simp add: hit_def menuPage_def)
qed

lemma menu_loop_leaves:
  fixes opts :: "string list" and fbw :: int
  defines "g \<equiv> newMenuGeom fbw (int (length opts))"
  assumes "opts \<noteq> []" "0 \<le> page" "page < pages g"
  shows "(\<exists>i. fst (menu_loop F g title opts page taps u) = Answered i) \<or>
         unanswered (fst (menu_loop F g title opts page taps u)) (exit_button ''menu'' fbw h) taps"
  using assms(3,4)
proof (induction taps arbitrary: page u)
  case (Arrives tp taps)
  obtain x y where tp: "tp = (x, y)" by (cases tp)
  obtain j more where hit: "hit g page (int (length opts)) x y = (j, more)" by fastforce
  have first: "j = page * 6 \<and> \<not> more" if "exit_button ''menu'' fbw h (x, y)"
    using hit_first_option[OF _ Arrives.prems(1) _ that, of "int (length opts)"] Arrives.prems(2) assms(2) hit by (simp add: g_def)
  have nx: "0 \<le> (page + 1) mod pages g" "(page + 1) mod pages g < pages g" using Arrives.prems by simp_all
  show ?case
  proof (cases more)
    case True
    then show ?thesis using Arrives.IH[OF nx] first hit tp by (auto simp: Let_def)
  next
    case False
    then show ?thesis using Arrives.IH[OF Arrives.prems] first hit tp Arrives.prems(1) by (auto simp: Let_def)
  qed
qed simp_all

lemma menu_leaves:
  assumes "opts \<noteq> []"
  shows "(\<exists>i. 0 \<le> i \<and> i < int (length opts) \<and> fst (menu F title opts taps u) = Answered i) \<or>
         unanswered (fst (menu F title opts taps u)) (exit_button ''menu'' (cw (cv u)) h) taps"
proof -
  have p: "0 < pages (newMenuGeom w n)" for w n by (simp add: newMenuGeom_def Let_def)
  show ?thesis
    using menu_loop_leaves[OF assms order_refl p] menu_loop_answer[OF _ order_refl p] unfolding menu_def by blast
qed

lemma info_leaves:
  "fst (info F title ls taps u) = Answered () \<or>
   unanswered (fst (info F title ls taps u)) (exit_button ''info'' (cw (cv u)) (ch (cv u))) taps"
proof -
  have "info_loop g (h - 200) taps = Answered () \<or> unanswered (info_loop g (h - 200) taps) (exit_button ''info'' w h) taps"
    if "mgX g = 40" "mgW g = w - 80" "mgH g = 130" for g w h
    using that by (induction taps) (auto simp: exit_button_def split: if_splits)
  moreover have "mgX (newMenuGeom w n) = 40" "mgW (newMenuGeom w n) = w - 80" "mgH (newMenuGeom w n) = 130" for w n
    by (simp_all add: newMenuGeom_def Let_def)
  ultimately show ?thesis by (simp add: info_def infoLayout_def Let_def)
qed

lemma text_loop_leaves:
  assumes "10 \<le> w" "11 \<le> h" "\<forall>p\<in>set_incoming taps. 0 \<le> fst p" "wf_canvas (cv u)" "cw (cv u) = w"
      and "mode \<noteq> ''menu''" "mode \<noteq> ''info''"
  shows "(\<exists>a. fst (text_loop F (kbGeometry w h) title secret e taps u) = Answered a) \<or>
         unanswered (fst (text_loop F (kbGeometry w h) title secret e taps u)) (exit_button mode w h) taps"
  using assms(3-5)
proof (induction taps arbitrary: e u)
  case (Arrives tp taps)
  obtain x y where tp: "tp = (x, y)" by (cases tp)
  obtain k where k: "kbHit (kbGeometry w h) (layer e) (shifted e) x y = Some k"
    using kbHit_ok[OF assms(1,2)] Arrives.prems(1) tp by force
  obtain e' b where e: "editor_key e k = (e', b)" by (cases "editor_key e k")
  let ?u = "u_blit (u_draw (text_paint F (kbGeometry w h) title secret e) u)"
  have "screen_ok (cv u) (cv ?u)" using text_paint_ok[OF Arrives.prems(2)] by (simp add: u_blit_def u_draw_def)
  then have "wf_canvas (cv ?u)" "cw (cv ?u) = w"
    using Arrives.prems(2,3) same_shape_wf by (auto simp: screen_ok_def same_shape_def)
  from Arrives.IH[OF _ this, of e'] show ?case
    unfolding tp text_loop.simps Let_def k option.case e prod.case
    using Arrives.prems(1,3) assms(6,7) by (cases b) (auto simp: exit_button_def)
qed simp_all

end
