(* ===== verification/Panel.thy ===== *)
theory Panel
  imports Canvas
begin

text \<open>
  The routines that put a canvas on the glass: \<^verbatim>\<open>fill\<close> of \<^verbatim>\<open>internal/installerinit/paint.go\<close>,
  \<^verbatim>\<open>Blit\<close> of \<^verbatim>\<open>internal/drm/drm.go\<close> and the fallback framebuffers of \<^verbatim>\<open>internal/ask/fb.go\<close>.  An index out of
  range is a Go panic, the value \<open>None\<close>; it does not occur on a well-formed surface.
\<close>

section \<open>Filling a rectangle of the status screen\<close>

definition fill_px :: "int \<Rightarrow> u32 \<Rightarrow> bytes option \<Rightarrow> int \<Rightarrow> bytes option" where
  "fill_px row col r x =
     (case r of
        None \<Rightarrow> None
      | Some pix \<Rightarrow>
          if x < 0 then Some pix
          else if 0 \<le> row + x * 4 \<and> row + x * 4 + 4 \<le> int (length pix)
          then Some (copy_at (nat (row + x * 4)) (put32 col) pix) else None)"

definition fill :: "bytes \<Rightarrow> int \<Rightarrow> int \<Rightarrow> int \<Rightarrow> int \<Rightarrow> int \<Rightarrow> int \<Rightarrow> int \<Rightarrow> u32 \<Rightarrow> bytes option" where
  "fill pix stride w h x0 y0 rw rh col =
     foldl (\<lambda>r y. if y < 0 then r else foldl (fill_px (y * stride) col) r [x0..min (x0 + rw) w - 1])
       (Some pix) [y0..min (y0 + rh) h - 1]"

lemma upto_split_min:
  fixes a b m :: int
  shows "\<exists>zs. [a..b - 1] = [a..min b m - 1] @ zs \<and> (\<forall>z\<in>set zs. m \<le> z)"
proof (cases "b \<le> m")
  case True
  then show ?thesis by (simp add: min_def)
next
  case False
  show ?thesis
  proof (cases "a \<le> m")
    case True
    have "[a..b - 1] = [a..m - 1] @ [m..b - 1]" using upto_split1[of a m "b - 1"] True False by simp
    then show ?thesis using False by (auto simp: min_def)
  next
    case False2: False
    then have "[a..min b m - 1] = []" using False by (simp add: min_def)
    then show ?thesis using False2 by auto
  qed
qed

lemma fill_row:
  assumes "wf_canvas c" "0 \<le> y" "y < ch c" "\<forall>x\<in>set xs. x < cw c"
  shows "foldl (fill_px (y * cstride c) col) (Some (cpix c)) xs = Some (cpix (foldl (\<lambda>c x. px c x y col) c xs))"
  using assms
proof (induction xs arbitrary: c)
  case (Cons x xs)
  let ?d = "px c x y col"
  have s: "same_shape ?d c" by (rule px_shape[OF Cons.prems(1)])
  have "fill_px (y * cstride c) col (Some (cpix c)) x = Some (cpix ?d)"
  proof (cases "x < 0")
    case True
    then show ?thesis by (simp add: fill_px_def px_def)
  next
    case False
    then have v: "visible (cw c) (ch c) x y" using Cons.prems by (auto simp: visible_def)
    show ?thesis using raster.off_bounds[OF wf_raster[OF Cons.prems(1)] v] False
      by (simp add: fill_px_def visible_px[OF Cons.prems(1) v] put4_def pix_off_def)
  qed
  moreover have "foldl (fill_px (y * cstride ?d) col) (Some (cpix ?d)) xs = Some (cpix (foldl (\<lambda>c x. px c x y col) ?d xs))"
    using Cons s by (intro Cons.IH) (auto simp: same_shape_wf, auto simp: same_shape_def)
  ultimately show ?case using s by (simp add: same_shape_def)
qed simp

lemma px_row_outside: "\<forall>x\<in>set xs. cw c \<le> x \<Longrightarrow> foldl (\<lambda>c x. px c x y col) c xs = c"
  by (induction xs) (auto simp: px_def)

lemma px_row_off: "y < 0 \<or> ch c \<le> y \<Longrightarrow> foldl (\<lambda>c x. px c x y col) c xs = c"
  by (induction xs) (auto simp: px_def)

lemma px_row_clip:
  assumes "wf_canvas c"
  shows "foldl (\<lambda>c x. px c x y col) c [x0..x0 + rw - 1] = foldl (\<lambda>c x. px c x y col) c [x0..min (x0 + rw) (cw c) - 1]"
proof -
  obtain zs where z: "[x0..x0 + rw - 1] = [x0..min (x0 + rw) (cw c) - 1] @ zs" "\<forall>x\<in>set zs. cw c \<le> x"
    using upto_split_min[of x0 "x0 + rw" "cw c"] by auto
  have "cw (foldl (\<lambda>c x. px c x y col) c [x0..min (x0 + rw) (cw c) - 1]) = cw c"
    using row_shape[OF assms] by (simp add: same_shape_def)
  then show ?thesis using z(2) unfolding z(1) by (simp add: px_row_outside)
qed

lemma fill_rows:
  assumes "wf_canvas c" "\<forall>y\<in>set ys. y < ch c"
  shows "foldl (\<lambda>r y. if y < 0 then r else foldl (fill_px (y * cstride c) col) r [x0..min (x0 + rw) (cw c) - 1]) (Some (cpix c)) ys
    = Some (cpix (foldl (\<lambda>c y. foldl (\<lambda>c x. px c x y col) c [x0..x0 + rw - 1]) c ys))"
  using assms
proof (induction ys arbitrary: c)
  case (Cons y ys)
  let ?d = "foldl (\<lambda>c x. px c x y col) c [x0..x0 + rw - 1]"
  have s: "same_shape ?d c" by (rule row_shape[OF Cons.prems(1)])
  have "(if y < 0 then Some (cpix c) else foldl (fill_px (y * cstride c) col) (Some (cpix c)) [x0..min (x0 + rw) (cw c) - 1]) = Some (cpix ?d)"
    using Cons.prems by (simp add: px_row_off px_row_clip fill_row)
  note step = this
  have w: "wf_canvas ?d" using s Cons.prems(1) by (simp add: same_shape_wf)
  have e: "cw ?d = cw c" "ch ?d = ch c" "cstride ?d = cstride c" using s by (simp_all add: same_shape_def)
  have "\<forall>y\<in>set ys. y < ch c" using Cons.prems(2) by simp
  from Cons.IH[OF w, unfolded e, OF this] show ?case unfolding foldl_Cons step .
qed simp

lemma px_rows_outside: "\<forall>y\<in>set ys. ch c \<le> y \<Longrightarrow> foldl (\<lambda>c y. foldl (\<lambda>c x. px c x y col) c xs) c ys = c"
  by (induction ys) (auto simp: px_row_off)

lemma fill_fillRect:
  assumes "wf_canvas c"
  shows "fill (cpix c) (cstride c) (cw c) (ch c) x0 y0 rw rh col = Some (cpix (fillRect c x0 y0 rw rh col))"
proof -
  obtain zs where z: "[y0..y0 + rh - 1] = [y0..min (y0 + rh) (ch c) - 1] @ zs" "\<forall>y\<in>set zs. ch c \<le> y"
    using upto_split_min[of y0 "y0 + rh" "ch c"] by auto
  let ?d = "foldl (\<lambda>c y. foldl (\<lambda>c x. px c x y col) c [x0..x0 + rw - 1]) c [y0..min (y0 + rh) (ch c) - 1]"
  have "same_shape ?d c" by (rule foldl_shape[OF row_shape assms])
  then have "fillRect c x0 y0 rw rh col = ?d"
    using z(2) unfolding fillRect_def z(1) by (simp add: px_rows_outside same_shape_def)
  then show ?thesis unfolding fill_def by (simp add: fill_rows[OF assms])
qed

section \<open>Blitting\<close>

definition blit_row :: "int \<Rightarrow> int \<Rightarrow> int \<Rightarrow> bytes \<Rightarrow> bytes option \<Rightarrow> int \<Rightarrow> bytes option" where
  "blit_row w h stride shadow r y =
     (case r of
        None \<Rightarrow> None
      | Some mem \<Rightarrow>
          (let src = y * stride; dst = (h - 1 - y) * stride in
           if 0 \<le> w \<and> 0 \<le> src \<and> src + w * 4 \<le> int (length shadow) \<and> 0 \<le> dst \<and> dst + w * 4 \<le> int (length mem)
           then Some (foldl (\<lambda>mem x. copy_at (nat (dst + (w - 1 - x) * 4)) (slice (nat (src + x * 4)) (nat (src + x * 4) + 4) shadow) mem)
                        mem [0..w - 1])
           else None))"

definition Blit :: "int \<Rightarrow> int \<Rightarrow> int \<Rightarrow> bytes \<Rightarrow> bytes \<Rightarrow> bytes option" where
  "Blit w h stride shadow mem = foldl (blit_row w h stride shadow) (Some mem) [0..h - 1]"

text \<open>The scanout as a canvas of the same geometry.\<close>

definition on_canvas :: "canvas \<Rightarrow> bytes \<Rightarrow> canvas" where
  "on_canvas c pix = c\<lparr>cpix := pix\<rparr>"

definition rotate_row :: "canvas \<Rightarrow> canvas \<Rightarrow> int \<Rightarrow> canvas" where
  "rotate_row s c y = foldl (\<lambda>c x. put4 c (cw s - 1 - x) (ch s - 1 - y) (pixel4 s x y)) c [0..cw s - 1]"

lemma pixel4_length: "wf_canvas c \<Longrightarrow> visible (cw c) (ch c) x y \<Longrightarrow> length (pixel4 c x y) = 4"
  using raster.pix_fits[OF wf_raster, of c x y] by (simp add: pixel4_def)

lemma mirror_visible: "visible w h x y \<Longrightarrow> visible w h (w - 1 - x) (h - 1 - y)"
  by (auto simp: visible_def)

lemma rotate_row_inner:
  assumes "wf_canvas s" "same_shape c s" "0 \<le> y" "y < ch s" "set xs \<subseteq> {0..<cw s}"
  shows "same_shape (foldl (\<lambda>c x. put4 c (cw s - 1 - x) (ch s - 1 - y) (pixel4 s x y)) c xs) s \<and>
    (\<forall>x' y'. visible (cw s) (ch s) x' y' \<longrightarrow>
      pixel4 (foldl (\<lambda>c x. put4 c (cw s - 1 - x) (ch s - 1 - y) (pixel4 s x y)) c xs) x' y' =
        (if y' = ch s - 1 - y \<and> cw s - 1 - x' \<in> set xs then pixel4 s (cw s - 1 - x') y else pixel4 c x' y'))"
  using assms(5)
proof (induction xs rule: rev_induct)
  case Nil
  then show ?case using assms(2) by simp
next
  case (snoc x xs)
  let ?d = "foldl (\<lambda>c x. put4 c (cw s - 1 - x) (ch s - 1 - y) (pixel4 s x y)) c xs"
  have d: "same_shape ?d s" using snoc by simp
  then have w: "wf_canvas ?d" using assms(1) by (simp add: same_shape_wf)
  have v: "visible (cw s) (ch s) x y" using snoc.prems assms(3,4) by (auto simp: visible_def)
  have m: "visible (cw ?d) (ch ?d) (cw s - 1 - x) (ch s - 1 - y)"
    using mirror_visible[OF v] d by (simp add: same_shape_def)
  have sh: "same_shape (put4 ?d (cw s - 1 - x) (ch s - 1 - y) (pixel4 s x y)) s"
    using put4_shape[OF w m] d by (rule same_shape_trans)
  have p: "pixel4 (put4 ?d (cw s - 1 - x) (ch s - 1 - y) (pixel4 s x y)) x' y' =
      (if cw s - 1 - x = x' \<and> ch s - 1 - y = y' then pixel4 s x y else pixel4 ?d x' y')"
    if "visible (cw s) (ch s) x' y'" for x' y'
    using pixel4_put4[OF w m, of x' y' "pixel4 s x y"] that d pixel4_length[OF assms(1) v] by (simp add: same_shape_def)
  show ?case using sh p snoc by auto
qed

lemma rotate_row_spec:
  assumes "wf_canvas s" "same_shape c s" "0 \<le> y" "y < ch s"
  shows "same_shape (rotate_row s c y) s"
    "visible (cw s) (ch s) x' y' \<Longrightarrow> pixel4 (rotate_row s c y) x' y' =
       (if y' = ch s - 1 - y then pixel4 s (cw s - 1 - x') y else pixel4 c x' y')"
proof -
  have h: "set [0..cw s - 1] \<subseteq> {0..<cw s}" by auto
  show "same_shape (rotate_row s c y) s"
    using rotate_row_inner[OF assms h] unfolding rotate_row_def by blast
  show "pixel4 (rotate_row s c y) x' y' =
       (if y' = ch s - 1 - y then pixel4 s (cw s - 1 - x') y else pixel4 c x' y')" if "visible (cw s) (ch s) x' y'"
  proof -
    have "cw s - 1 - x' \<in> set [0..cw s - 1]" using that by (auto simp: visible_def)
    then show ?thesis using rotate_row_inner[OF assms h] that unfolding rotate_row_def by simp
  qed
qed

lemma blit_row_rotate:
  assumes "wf_canvas s" "same_shape c s" "0 \<le> y" "y < ch s" "0 < cw s"
  shows "blit_row (cw s) (ch s) (cstride s) (cpix s) (Some (cpix c)) y = Some (cpix (rotate_row s c y))"
proof -
  note r = wf_raster[OF assms(1)]
  have v: "visible (cw s) (ch s) (cw s - 1) y" "visible (cw s) (ch s) 0 y"
    "visible (cw s) (ch s) (cw s - 1) (ch s - 1 - y)" "visible (cw s) (ch s) 0 (ch s - 1 - y)"
    using assms by (auto simp: visible_def)
  have b: "0 \<le> y * cstride s" "y * cstride s + cw s * 4 \<le> int (length (cpix s))"
    "0 \<le> (ch s - 1 - y) * cstride s" "(ch s - 1 - y) * cstride s + cw s * 4 \<le> int (length (cpix c))"
    using raster.off_bounds[OF r v(1)] raster.off_bounds[OF r v(2)] raster.off_bounds[OF r v(3)] raster.off_bounds[OF r v(4)] assms(2)
    by (simp_all add: same_shape_def)
  have "foldl (\<lambda>mem x. copy_at (nat ((ch s - 1 - y) * cstride s + (cw s - 1 - x) * 4))
          (slice (nat (y * cstride s + x * 4)) (nat (y * cstride s + x * 4) + 4) (cpix s)) mem) (cpix c) xs =
        cpix (foldl (\<lambda>c x. put4 c (cw s - 1 - x) (ch s - 1 - y) (pixel4 s x y)) c xs) \<and>
        cstride (foldl (\<lambda>c x. put4 c (cw s - 1 - x) (ch s - 1 - y) (pixel4 s x y)) c xs) = cstride s" for xs
    using assms(2) by (induction xs rule: rev_induct) (auto simp: put4_def pix_off_def pixel4_def same_shape_def)
  then show ?thesis using b assms(5) by (simp add: blit_row_def rotate_row_def)
qed

lemma blit_rows:
  assumes "wf_canvas s" "same_shape c s" "0 < cw s" "k \<le> nat (ch s)"
  shows "\<exists>d. foldl (blit_row (cw s) (ch s) (cstride s) (cpix s)) (Some (cpix c)) [0..int k - 1] = Some (cpix d) \<and>
     same_shape d s \<and> (\<forall>x y. visible (cw s) (ch s) x y \<longrightarrow>
       pixel4 d x y = (if ch s - 1 - y < int k then pixel4 s (cw s - 1 - x) (ch s - 1 - y) else pixel4 c x y))"
  using assms(4)
proof (induction k)
  case 0
  then show ?case using assms(2) by (intro exI[of _ c]) (auto simp: visible_def)
next
  case (Suc k)
  then obtain d where d: "foldl (blit_row (cw s) (ch s) (cstride s) (cpix s)) (Some (cpix c)) [0..int k - 1] = Some (cpix d)"
    "same_shape d s" "\<And>x y. visible (cw s) (ch s) x y \<Longrightarrow>
       pixel4 d x y = (if ch s - 1 - y < int k then pixel4 s (cw s - 1 - x) (ch s - 1 - y) else pixel4 c x y)" by auto
  have k: "int k < ch s" using Suc.prems by linarith
  have u: "[0..int (Suc k) - 1] = [0..int k - 1] @ [int k]" using upto_rec2[of 0 "int k"] by simp
  show ?case
    unfolding u using d blit_row_rotate[OF assms(1) d(2) _ k assms(3)] rotate_row_spec[OF assms(1) d(2) _ k]
    by (intro exI[of _ "rotate_row s d (int k)"]) auto
qed

lemma blit_rotates:
  assumes "wf_canvas s" "same_shape c s" "0 < cw s" "0 \<le> ch s"
  shows "\<exists>d. Blit (cw s) (ch s) (cstride s) (cpix s) (cpix c) = Some (cpix d) \<and> same_shape d s \<and>
     (\<forall>x y. visible (cw s) (ch s) x y \<longrightarrow> pixel4 d x y = pixel4 s (cw s - 1 - x) (ch s - 1 - y))"
proof -
  obtain d where d: "foldl (blit_row (cw s) (ch s) (cstride s) (cpix s)) (Some (cpix c)) [0..int (nat (ch s)) - 1] = Some (cpix d)"
     "same_shape d s" "\<forall>x y. visible (cw s) (ch s) x y \<longrightarrow>
       pixel4 d x y = (if ch s - 1 - y < int (nat (ch s)) then pixel4 s (cw s - 1 - x) (ch s - 1 - y) else pixel4 c x y)"
    using blit_rows[OF assms(1-3), of "nat (ch s)"] by blast
  then show ?thesis using assms(4) unfolding Blit_def by (intro exI[of _ d]) (auto simp: visible_def)
qed

section \<open>Framebuffer checks\<close>

definition fbPhys :: int where "fbPhys = 0xfe8c1000"
definition fbLen :: int where "fbLen = 0x1650000"
definition fbW :: int where "fbW = 1200"
definition fbH :: int where "fbH = 1600"
definition fbStride :: int where "fbStride = (1200 + 16) * 4"

definition varXres :: nat where "varXres = 0"
definition varYres :: nat where "varYres = 4"
definition varBitsPerPix :: nat where "varBitsPerPix = 24"
definition wordSize :: nat where "wordSize = 8"
definition fixSmemLen :: nat where "fixSmemLen = 16 + wordSize"
definition fixLineLength :: nat where "fixLineLength = 16 + wordSize + 24"

datatype fb_error = UnusableFB | ShortMapping | MapFailed | FBIoctl | FBOpen | FBPanic

record framebuffer =
  fbMem :: bytes
  fbC :: canvas

text \<open>The products are 64-bit; a negative buffer size panics in \<^verbatim>\<open>make\<close>.\<close>

definition mapFB :: "bool \<Rightarrow> int \<Rightarrow> int \<Rightarrow> int \<Rightarrow> int \<Rightarrow> int \<Rightarrow> fb_error + framebuffer" where
  "mapFB maps len w h stride bpp =
     (if bpp \<noteq> 32 \<or> w \<le> 0 \<or> h \<le> 0 \<or> stride < w * 4 then Inl UnusableFB
      else if len < wrap64 (stride * h) then Inl ShortMapping
      else if \<not> maps then Inl MapFailed
      else if wrap64 (stride * h) < 0 then Inl FBPanic
      else Inr \<lparr>fbMem = replicate (nat len) 0,
                fbC = \<lparr>cw = w, ch = h, cstride = stride, cpix = replicate (nat (wrap64 (stride * h))) 0\<rparr>\<rparr>)"

text \<open>What a framebuffer node answers: whether it opens, its variable and fixed screen information, whether it maps.\<close>

record fb_node =
  fnOpens :: bool
  fnVar :: "bytes option"
  fnFix :: "bytes option"
  fnMaps :: bool

definition openFbdev :: "fb_node \<Rightarrow> fb_error + framebuffer" where
  "openFbdev d =
     (if \<not> fnOpens d then Inl FBOpen
      else (case fnVar d of None \<Rightarrow> Inl FBIoctl | Some vinfo \<Rightarrow>
        (case fnFix d of None \<Rightarrow> Inl FBIoctl | Some finfo \<Rightarrow>
          (let w = uint (get32 (drop varXres vinfo)); h = uint (get32 (drop varYres vinfo));
               bpp0 = uint (get32 (drop varBitsPerPix vinfo)); stride0 = uint (get32 (drop fixLineLength finfo));
               stride = (if stride0 = 0 then w * 4 else stride0); bpp = (if bpp0 = 0 then 32 else bpp0);
               len0 = uint (get32 (drop fixSmemLen finfo)); len = (if len0 = 0 then wrap64 (stride * h) else len0)
           in mapFB (fnMaps d) len w h stride bpp))))"

definition openDevmem :: "fb_node \<Rightarrow> fb_error + framebuffer" where
  "openDevmem d = (if \<not> fnOpens d then Inl FBOpen else mapFB (fnMaps d) fbLen fbW fbH fbStride 32)"

definition envOr :: "string \<Rightarrow> string \<Rightarrow> string" where
  "envOr v fallback = (if v \<noteq> [] then v else fallback)"

definition openFB :: "(string \<Rightarrow> fb_node) \<Rightarrow> string \<Rightarrow> string \<Rightarrow> fb_error + framebuffer" where
  "openFB nodes dc1_fb dc1_memdev =
     (case openFbdev (nodes (envOr dc1_fb ''/dev/fb0'')) of
        Inr fb \<Rightarrow> Inr fb
      | Inl FBPanic \<Rightarrow> Inl FBPanic
      | Inl _ \<Rightarrow> openDevmem (nodes (envOr dc1_memdev ''/dev/mem'')))"

definition fb_blit :: "framebuffer \<Rightarrow> framebuffer" where
  "fb_blit fb = fb\<lparr>fbMem := copy_at 0 (take (length (fbMem fb)) (cpix (fbC fb))) (fbMem fb)\<rparr>"

text \<open>A mapped framebuffer without overflow is well formed, and the mapping holds the shadow completely.\<close>

lemma mapFB_wf:
  assumes "mapFB maps len w h stride bpp = Inr fb" "stride * h < 2 ^ 63"
  shows "wf_canvas (fbC fb)" "length (cpix (fbC fb)) \<le> length (fbMem fb)" "0 < cw (fbC fb)" "0 < ch (fbC fb)"
proof -
  have m: "w > 0" "h > 0" "w * 4 \<le> stride" "wrap64 (stride * h) \<le> len" "fb = \<lparr>fbMem = replicate (nat len) 0,
      fbC = \<lparr>cw = w, ch = h, cstride = stride, cpix = replicate (nat (wrap64 (stride * h))) 0\<rparr>\<rparr>"
    using assms(1) by (auto simp: mapFB_def split: if_splits)
  have "0 \<le> stride * h" using m(1-3) by simp
  then have "wrap64 (stride * h) = stride * h" using assms(2) by (intro wrap64_id) (simp_all add: in64_def)
  then show "wf_canvas (fbC fb)" "length (cpix (fbC fb)) \<le> length (fbMem fb)" "0 < cw (fbC fb)" "0 < ch (fbC fb)"
    using m by (auto simp: wf_canvas_def)
qed

text \<open>The physical-memory fallback is always well formed, and a blit shows the shadow from the first byte on.\<close>

lemma openDevmem_wf: "openDevmem d = Inr fb \<Longrightarrow> wf_canvas (fbC fb)"
  using mapFB_wf(1) by (auto simp: openDevmem_def fbStride_def fbH_def split: if_splits)

lemma fb_blit_shows:
  "length (cpix (fbC fb)) \<le> length (fbMem fb) \<Longrightarrow> take (length (cpix (fbC fb))) (fbMem (fb_blit fb)) = cpix (fbC fb)"
  by (simp add: fb_blit_def copy_at_fits)

interpretation lk_panel: raster fbW fbH fbStride "nat fbLen"
  by unfold_locales (simp_all add: fbW_def fbH_def fbStride_def fbLen_def)

end
