(* ===== verification/Installerinit.thy ===== *)
theory Installerinit
  imports Trace Ask Panel
begin

text \<open>
  \<^verbatim>\<open>installer/gotools/internal/installerinit\<close>: PID 1 of the installer image.  The display gate
  (\<^verbatim>\<open>gate.go\<close>), the USB gadget (\<^verbatim>\<open>gadget.go\<close>), the boot sequence and the status loop
  (\<^verbatim>\<open>installerinit.go\<close>) as programs over the \<^verbatim>\<open>Ops\<close> interface, the status screen (\<^verbatim>\<open>paint.go\<close>) on the
  pixel layer, and the dialog server (\<^verbatim>\<open>dialog.go\<close>) with the lock it shares with the status painter.
\<close>

section \<open>The interface\<close>

datatype iop =
    IMkdir string | IMount string string string string | IWriteFile string string | ICreateFile string string
  | IReadFile string | IExists string | IWaitFor string nat | ISymlink string string | IOpenKmsg
  | ISay string | IGrabTTY string | ISpawn "string list" | IReap | ISleep nat | IDisplay
  | ITryLock | IShadow | IBlit bytes | IUnlock | IDebugLine | IServe

datatype iresp = IErr string | IOk | IBool bool | IText string | ISurface canvas | IBuf bytes

type_synonym ienv = "(iop, iresp) env"
type_synonym 'a iprog = "(iop, iresp, 'a) prog"

definition i_err :: "iresp \<Rightarrow> string option" where
  "i_err r = (case r of IErr t \<Rightarrow> Some t | _ \<Rightarrow> None)"

definition i_true :: "iresp \<Rightarrow> bool" where
  "i_true r = (case r of IBool b \<Rightarrow> b | _ \<Rightarrow> False)"

definition i_do :: "ienv \<Rightarrow> iop \<Rightarrow> unit iprog" where
  "i_do env oper = do { act env oper; unit_prog }"

definition i_say :: "ienv \<Rightarrow> string \<Rightarrow> unit iprog" where
  "i_say env msg = i_do env (ISay (''[dc1-installer] '' @ msg @ nl))"

section \<open>The display gate\<close>

definition panelParams :: string where "panelParams = ''/sys/module/panel_novatek_nt36523/parameters''"
definition skipClient :: string where "skipClient = ''/sys/module/mediatek_drm/parameters/jagar_skip_drm_client''"
definition gceParam :: string where "gceParam = ''/sys/module/mtk_cmdq_mailbox/parameters/jagar_mt6789_probe_stage''"
definition dsiDevice :: string where "dsiDevice = ''/sys/bus/mipi-dsi/devices/14013000.dsi.0''"
definition prodSeq :: string where "prodSeq = ''/sys/module/panel_novatek_nt36523/parameters/jagar_production_sequence''"
definition probeStage :: string where "probeStage = ''/sys/module/panel_novatek_nt36523/parameters/jagar_probe_stage''"
definition cardNode :: string where "cardNode = ''/dev/dri/card0''"
definition backlight :: string where "backlight = ''/sys/class/backlight/lcd-backlight/brightness''"

definition gceCandidates :: "string list" where
  "gceCandidates = [''10228000.gce'', ''10228000.mailbox'']"

fun gce_search :: "ienv \<Rightarrow> string list \<Rightarrow> string iprog" where
  "gce_search env [] = ret (gceCandidates ! 0)"
| "gce_search env (node # nodes) = do {
     r \<leftarrow> act env (IExists (''/sys/bus/platform/devices/'' @ node));
     if i_true r then ret node else gce_search env nodes }"

definition gceNode :: "ienv \<Rightarrow> string iprog" where
  "gceNode env = gce_search env gceCandidates"

definition gceDriverPath :: "string \<Rightarrow> string" where
  "gceDriverPath node = ''/sys/bus/platform/devices/'' @ node @ ''/driver''"

record GateStep =
  Why :: string
  gsPath :: string
  gsValue :: string
  WaitFor :: nat
  Optional :: bool
  SkipIfExists :: string

definition gate_write :: "string \<Rightarrow> string \<Rightarrow> string \<Rightarrow> GateStep" where
  "gate_write why path val = \<lparr>Why = why, gsPath = path, gsValue = val, WaitFor = 0, Optional = False, SkipIfExists = []\<rparr>"

definition gate_wait :: "string \<Rightarrow> string \<Rightarrow> nat \<Rightarrow> GateStep" where
  "gate_wait why path secs = \<lparr>Why = why, gsPath = path, gsValue = [], WaitFor = secs, Optional = False, SkipIfExists = []\<rparr>"

definition GateSequence :: "string \<Rightarrow> GateStep list" where
  "GateSequence gce =
     (let gceDriver = ''/sys/bus/platform/devices/'' @ gce @ ''/driver'' in
     [gate_write ''tell mediatek-drm to skip its intermediate DRM client, so no fbdev helper performs the first modeset and the first real KMS client (us) gets the panel''
        skipClient (''Y'' @ nl),
      (gate_write ''bind GCE/CMDQ before the panel gate: opening the panel first pulls the dependent DRM chain in synchronously and can wedge the interconnect''
        gceParam (''4'' @ nl))\<lparr>SkipIfExists := gceDriver\<rparr>,
      (gate_write ''poke the deferred probe for GCE''
        ''/sys/bus/platform/drivers_probe'' (gce @ nl))\<lparr>SkipIfExists := gceDriver\<rparr>,
      (gate_wait ''GCE must actually bind before the panel is touched'' gceDriver 5)\<lparr>SkipIfExists := gceDriver\<rparr>,
      gate_wait ''the DSI panel device has to enumerate before it can be gated on'' dsiDevice 15,
      (gate_write ''quieten the kernel console before the display controller changes owners, so nothing repaints the stale scanout''
        ''/proc/sys/kernel/printk'' (''1 4 1 7'' @ nl))\<lparr>Optional := True\<rparr>,
      gate_write ''power the panel'' prodSeq (''Y'' @ nl),
      gate_write ''release the parked probe'' probeStage (''3'' @ nl),
      gate_write ''poke the deferred probe for the panel'' ''/sys/bus/mipi-dsi/drivers_probe'' (''14013000.dsi.0'' @ nl),
      gate_wait ''the DRM node is the proof the gate opened'' cardNode 15])"

definition gate_op :: "GateStep \<Rightarrow> iop" where
  "gate_op s = (if 0 < WaitFor s then IWaitFor (gsPath s) (WaitFor s) else IWriteFile (gsPath s) (gsValue s))"

text \<open>The steps in order; the result is the error text, if a step failed.\<close>

fun gate_steps :: "ienv \<Rightarrow> GateStep list \<Rightarrow> string option iprog" where
  "gate_steps env [] = ret None"
| "gate_steps env (s # ss) = do {
     skip \<leftarrow> (if SkipIfExists s \<noteq> [] then do { r \<leftarrow> act env (IExists (SkipIfExists s)); ret (i_true r) } else ret False);
     if skip then gate_steps env ss
     else do {
       r \<leftarrow> act env (gate_op s);
       (case i_err r of
          None \<Rightarrow> gate_steps env ss
        | Some t \<Rightarrow>
            if Optional s then do {
              i_do env (ISay (''gate: skipped ('' @ Why s @ ''): '' @ t @ nl));
              gate_steps env ss }
            else ret (Some (Why s @ '': '' @ t))) } }"

definition OpenGate :: "ienv \<Rightarrow> string option iprog" where
  "OpenGate env = do {
     r \<leftarrow> act env (IExists panelParams);
     if \<not> i_true r then ret (Some (''no panel driver at '' @ panelParams @ '' (wrong kernel?)''))
     else do {
       gce \<leftarrow> gceNode env;
       gate_steps env (GateSequence gce) } }"

section \<open>The USB gadget\<close>

definition ii_gadgetRoot :: string where "ii_gadgetRoot = ''/sys/kernel/config/usb_gadget/g1''"
definition HostMAC :: string where "HostMAC = ''02:1a:11:00:00:01''"
definition DeviceMAC :: string where "DeviceMAC = ''02:1a:11:00:00:02''"

definition UDCCandidates :: "string list" where
  "UDCCandidates = [''musb-hdrc.4.auto'', ''musb-hdrc.1.auto'', ''musb-hdrc.0.auto'', ''11201000.usb'', ''11200000.usb'']"

datatype gadgetNode = GDir string | GFile string string | GLink string string

definition GadgetNodes :: "gadgetNode list" where
  "GadgetNodes =
    [GFile ''idVendor'' (''0x18d1'' @ nl),
     GFile ''idProduct'' (''0x4ee7'' @ nl),
     GDir ''strings/0x409'',
     GFile ''strings/0x409/manufacturer'' (''daylight'' @ nl),
     GFile ''strings/0x409/product'' (''dc1-installer'' @ nl),
     GFile ''strings/0x409/serialnumber'' (''dc1-installer'' @ nl),
     GDir ''configs/c.1'',
     GDir ''configs/c.1/strings/0x409'',
     GFile ''configs/c.1/strings/0x409/configuration'' (''acm+ecm'' @ nl),
     GDir ''functions/acm.0'',
     GDir ''functions/acm.1'',
     GDir ''functions/ecm.0'',
     GFile ''functions/ecm.0/dev_addr'' (DeviceMAC @ nl),
     GFile ''functions/ecm.0/host_addr'' (HostMAC @ nl),
     GLink ''functions/acm.0'' ''configs/c.1/acm.0'',
     GLink ''functions/acm.1'' ''configs/c.1/acm.1'',
     GLink ''functions/ecm.0'' ''configs/c.1/ecm.0'']"

definition node_op :: "gadgetNode \<Rightarrow> iop" where
  "node_op n = (case n of
      GDir d \<Rightarrow> IMkdir (path_join ii_gadgetRoot d)
    | GLink l a \<Rightarrow> ISymlink (path_join ii_gadgetRoot l) (path_join ii_gadgetRoot a)
    | GFile f v \<Rightarrow> IWriteFile (path_join ii_gadgetRoot f) v)"

definition gadget_node :: "ienv \<Rightarrow> gadgetNode \<Rightarrow> unit iprog" where
  "gadget_node env n = do {
     r \<leftarrow> act env (node_op n);
     (case i_err r of Some t \<Rightarrow> i_do env (ISay (''gadget: '' @ t @ nl)) | None \<Rightarrow> unit_prog) }"

fun try_udc :: "ienv \<Rightarrow> string list \<Rightarrow> string option iprog" where
  "try_udc env [] = ret (Some ''UDC bind failed for every candidate'')"
| "try_udc env (u # us) = do {
     r \<leftarrow> act env (IWriteFile (path_join ii_gadgetRoot ''UDC'') u);
     if i_err r = None then do { i_do env (ISay (''gadget: bound UDC '' @ u @ nl)); ret None }
     else try_udc env us }"

definition Gadget :: "ienv \<Rightarrow> string option iprog" where
  "Gadget env = do {
     r \<leftarrow> act env (IMkdir ii_gadgetRoot);
     (case i_err r of
        Some t \<Rightarrow> ret (Some (''no configfs usb_gadget (USB_CONFIGFS=m, module not loaded?): '' @ t))
      | None \<Rightarrow> do {
          foreach (gadget_node env) GadgetNodes;
          u \<leftarrow> act env (IExists ''/sys/class/udc'');
          if \<not> i_true u then ret (Some ''no /sys/class/udc -- MTU3 did not register a UDC'')
          else try_udc env UDCCandidates }) }"

section \<open>The status screen\<close>

definition maxStatusLines :: nat where "maxStatusLines = 8"
definition colBackground :: u32 where "colBackground = 0xfff0f0f0"
definition colBanner :: u32 where "colBanner = 0xff141414"
definition colText :: u32 where "colText = 0xff141414"
definition colSecondary :: u32 where "colSecondary = 0xff888888"
definition progressLeft :: int where "progressLeft = 40"
definition progressRight :: int where "progressRight = 40"
definition progressHeight :: int where "progressHeight = 12"
definition progressGap :: int where "progressGap = 30"
definition progressBorder :: int where "progressBorder = 2"

definition StatusFile :: string where "StatusFile = ''/tmp/installer-status''"
definition DefaultStatus :: string where "DefaultStatus = ''WAITING FOR HOST''"

fun status_lines :: "string list \<Rightarrow> string list \<Rightarrow> string list" where
  "status_lines out [] = out"
| "status_lines out (l # ls) =
     (let line = trim_right [CR, CHR '' ''] l in
      if line = [] \<or> has_prefix line ''PROGRESS '' then status_lines out ls
      else let out' = out @ [line] in if length out' = maxStatusLines then out' else status_lines out' ls)"

definition StatusLines :: "string \<Rightarrow> string list" where
  "StatusLines status =
     (let out = status_lines [] (split_on LF status) in if length out = 0 then [DefaultStatus] else out)"

definition progress_line :: "int option \<Rightarrow> string \<Rightarrow> int option" where
  "progress_line acc l =
     (let line = trim_right [CR, CHR '' ''] l in
      if \<not> has_prefix line ''PROGRESS '' then acc
      else (case parse_int64 (trim_space (drop 9 line)) of
              None \<Rightarrow> acc
            | Some n \<Rightarrow> if n < 0 then acc else Some (if 100 < n then 100 else n)))"

text \<open>\<open>None\<close> is the result \<^verbatim>\<open>0, false\<close>.\<close>

definition ProgressPct :: "string \<Rightarrow> int option" where
  "ProgressPct status = foldl progress_line None (split_on LF status)"

function utoa_digits :: "nat \<Rightarrow> string \<Rightarrow> string" where
  "utoa_digits v acc = (if v = 0 then acc else utoa_digits (v div 10) (char_of (48 + v mod 10) # acc))"
  by pat_completeness auto
termination by (relation "measure fst") auto

declare utoa_digits.simps [simp del]

definition utoa :: "nat \<Rightarrow> string" where
  "utoa v = (if v = 0 then ''0'' else utoa_digits v [])"

text \<open>\<^verbatim>\<open>strings.ToUpper\<close> on ASCII; the status lines are written by the scripts and the daemon in ASCII.\<close>

definition to_upper :: "string \<Rightarrow> string" where
  "to_upper = map (\<lambda>c. if 97 \<le> (of_char c :: nat) \<and> (of_char c :: nat) \<le> 122 then char_of ((of_char c :: nat) - 32) else c)"

text \<open>Drawing on the canvas; \<open>None\<close> is a panic.\<close>

definition c_fill :: "int \<Rightarrow> int \<Rightarrow> int \<Rightarrow> int \<Rightarrow> u32 \<Rightarrow> canvas \<Rightarrow> canvas option" where
  "c_fill x0 y0 rw rh col c =
     map_option (\<lambda>p. c\<lparr>cpix := p\<rparr>) (fill (cpix c) (cstride c) (cw c) (ch c) x0 y0 rw rh col)"

definition drawProgress :: "int \<Rightarrow> canvas \<Rightarrow> canvas option" where
  "drawProgress pct c =
     (let bw = cw c - progressLeft - progressRight in
      if bw < 2 * progressBorder + 2 then Some c
      else let y = ch c - 70 - progressGap - progressHeight; inner = bw - 2 * progressBorder in
        Option.bind (c_fill progressLeft y bw progressHeight colSecondary c) (\<lambda>c1.
        Option.bind (c_fill (progressLeft + progressBorder) (y + progressBorder) inner (progressHeight - 2 * progressBorder) colBackground c1) (\<lambda>c2.
          if pct < 0 then Some c2
          else let p = (if 100 < pct then 100 else pct); fillW = quot (inner * p) 100 in
            if 0 < fillW
            then c_fill (progressLeft + progressBorder) (y + progressBorder) fillW (progressHeight - 2 * progressBorder) colText c2
            else Some c2)))"

fun status_text :: "font \<Rightarrow> int \<Rightarrow> string list \<Rightarrow> canvas \<Rightarrow> canvas" where
  "status_text F y [] c = c"
| "status_text F y (l # ls) c = status_text F (y + 60) ls (drawText F c 40 y 4 colText (to_upper l))"

definition PaintStatus :: "font \<Rightarrow> string list \<Rightarrow> nat \<Rightarrow> int \<Rightarrow> canvas \<Rightarrow> canvas option" where
  "PaintStatus F ls tick pct c =
     Option.bind (c_fill 0 0 (cw c) (ch c) colBackground c) (\<lambda>c1.
       let c2 = drawText F c1 40 40 6 colBanner ''DC-1 INSTALLER'';
           c3 = status_text F 160 ls c2
       in Option.bind (drawProgress pct c3) (\<lambda>c4.
            Some (drawText F c4 40 (ch c - 70) 3 colSecondary (''TICK '' @ utoa tick))))"

section \<open>The boot sequence\<close>

definition mountAll :: "ienv \<Rightarrow> unit iprog" where
  "mountAll env = do {
     foreach (\<lambda>d. i_do env (IMkdir d)) [''/proc'', ''/sys'', ''/dev'', ''/tmp''];
     i_do env (IMount ''proc'' ''/proc'' ''proc'' []);
     i_do env (IMount ''sysfs'' ''/sys'' ''sysfs'' []);
     i_do env (IMount ''devtmpfs'' ''/dev'' ''devtmpfs'' ''mode=0755'');
     i_do env (IMkdir ''/sys/kernel/config'');
     i_do env (IMount ''configfs'' ''/sys/kernel/config'' ''configfs'' []) }"

definition startSecondStage :: "ienv \<Rightarrow> unit iprog" where
  "startSecondStage env = do {
     a \<leftarrow> act env (IExists ''/etc/rc.sh'');
     b \<leftarrow> (if i_true a then act env (IExists ''/bin/busybox'') else ret (IBool False));
     if \<not> i_true a \<or> \<not> i_true b then i_say env ''init: /etc/rc.sh or /bin/busybox missing -- no installer daemon''
     else do {
       r \<leftarrow> act env (ISpawn [''/bin/busybox'', ''sh'', ''/etc/rc.sh'']);
       (case i_err r of Some t \<Rightarrow> i_say env (''init: rc.sh spawn FAILED: '' @ t) | None \<Rightarrow> unit_prog) } }"

definition acquireDisplay :: "ienv \<Rightarrow> (string + canvas) iprog" where
  "acquireDisplay env = do {
     g \<leftarrow> OpenGate env;
     (case g of
        Some t \<Rightarrow> ret (Inl t)
      | None \<Rightarrow> do {
          s \<leftarrow> act env IDisplay;
          (case s of
             ISurface c \<Rightarrow> do { i_do env (IWriteFile backlight (''10'' @ nl)); ret (Inr c) }
           | _ \<Rightarrow> ret (Inl (case i_err s of Some t \<Rightarrow> t | None \<Rightarrow> []))) }) }"

definition read_status :: "iresp \<Rightarrow> string" where
  "read_status r = (case r of IText t \<Rightarrow> if trim_space t = [] then DefaultStatus else t | _ \<Rightarrow> DefaultStatus)"

definition paint_once :: "ienv \<Rightarrow> font \<Rightarrow> canvas \<Rightarrow> nat \<Rightarrow> string \<Rightarrow> bool iprog" where
  "paint_once env F c tick status = do {
     l \<leftarrow> act env ITryLock;
     if \<not> i_true l then ret True
     else do {
       b \<leftarrow> act env IShadow;
       (case PaintStatus F (StatusLines status) tick (case ProgressPct status of None \<Rightarrow> -1 | Some p \<Rightarrow> p)
               (case b of IBuf pix \<Rightarrow> c\<lparr>cpix := pix\<rparr> | _ \<Rightarrow> c) of
          None \<Rightarrow> ret False
        | Some d \<Rightarrow> do {
            act env (IBlit (cpix d));
            act env IUnlock;
            (if tick = 0 then do { t \<leftarrow> act env IDebugLine; i_say env (''DIAG '' @ (case t of IText l \<Rightarrow> l | _ \<Rightarrow> [])) } else unit_prog);
            ret True }) } }"

text \<open>The status loop for a number of observed ticks; \<open>False\<close> means PID 1 panicked.\<close>

fun status_loop :: "ienv \<Rightarrow> font \<Rightarrow> canvas option \<Rightarrow> nat \<Rightarrow> nat \<Rightarrow> bool iprog" where
  "status_loop env F surface tick 0 = ret True"
| "status_loop env F surface tick (Suc n) = do {
     r \<leftarrow> act env (IReadFile StatusFile);
     ok \<leftarrow> (case surface of None \<Rightarrow> ret True | Some c \<Rightarrow> paint_once env F c tick (read_status r));
     if \<not> ok then ret False
     else do {
       (if tick mod 15 = 0 then i_say env (''tick='' @ dec tick) else unit_prog);
       i_do env IReap;
       i_do env (ISleep 1);
       status_loop env F surface (tick + 1) n } }"

text \<open>The boot sequence up to the second stage, and what follows once the display is or is not there.\<close>

definition run_early :: "ienv \<Rightarrow> unit iprog" where
  "run_early env = do {
     i_say env ''init: entered userspace (installation mode)'';
     mountAll env;
     i_do env IOpenKmsg;
     i_say env ''init: proc/sys/dev/configfs mounted'';
     i_do env (IGrabTTY ''/dev/tty1'');
     g \<leftarrow> Gadget env;
     (case g of Some t \<Rightarrow> i_say env (''gadget: '' @ t @ '' (rc.sh retries)'') | None \<Rightarrow> unit_prog);
     s \<leftarrow> act env (ICreateFile StatusFile (''STARTING'' @ nl));
     (case i_err s of Some t \<Rightarrow> i_say env (''init: cannot write '' @ StatusFile @ '': '' @ t) | None \<Rightarrow> unit_prog) }"

definition run_late :: "ienv \<Rightarrow> font \<Rightarrow> nat \<Rightarrow> string + canvas \<Rightarrow> bool iprog" where
  "run_late env F ticks d = (case d of
      Inl t \<Rightarrow> do {
        i_say env (''fb: no display ('' @ t @ '') -- status only on serial/kmsg'');
        status_loop env F None 0 ticks }
    | Inr c \<Rightarrow> do {
        i_say env ''fb: acquired via DRM dumb-buffer'';
        i_do env IServe;
        status_loop env F (Some c) 0 ticks })"

definition Run :: "ienv \<Rightarrow> font \<Rightarrow> nat \<Rightarrow> bool iprog" where
  "Run env F ticks = do {
     run_early env;
     startSecondStage env;
     d \<leftarrow> acquireDisplay env;
     run_late env F ticks d }"

definition ii_Plan :: "string list" where
  "ii_Plan =
    [''mount proc on /proc, sysfs on /sys, devtmpfs on /dev, configfs on /sys/kernel/config'',
     ''open /dev/kmsg and take /dev/tty1 as the console'',
     ''bring up the CDC-ACM + CDC-ECM USB gadget (ttyGS0 log, ttyGS1 shell, usb0 transfer)'',
     ''write the initial '' @ StatusFile,
     ''start /etc/rc.sh in the background (it pets the watchdog, which must happen before the display gate)'',
     ''open the display gate and acquire the panel over DRM (up to ~35 s in the worst case)'',
     ''loop forever: repaint the status screen, heartbeat to kmsg, reap children'']"

datatype ii_result = IIExit int "string list" "string list" | IIRan bool

definition ii_Main :: "ienv \<Rightarrow> font \<Rightarrow> int \<Rightarrow> nat \<Rightarrow> string list \<Rightarrow> ii_result iprog" where
  "ii_Main env F pid ticks args =
     (case List.find (\<lambda>a. a \<noteq> ''-n'' \<and> a \<noteq> ''--dry-run'') args of
        Some a \<Rightarrow> ret (IIExit 2 [] [''dc1-installer-init: unknown argument '' @ quote a])
      | None \<Rightarrow>
          if args \<noteq> [] then ret (IIExit 0 (map (\<lambda>(i, s). dec i @ ''. '' @ s) (enumerate 1 ii_Plan)) [])
          else if pid \<noteq> 1 then
            ret (IIExit 1 [] ([''dc1-installer-init: refusing to run: PID '' @ dec_int pid @ '', not 1.'',
              ''This mounts devtmpfs/proc/sys over the running system and never returns.'',
              ''As PID 1 it would, in order:''] @ map (\<lambda>(i, s). ''  '' @ dec i @ ''. '' @ s) (enumerate 1 ii_Plan) @
              [''Run with -n for the same list as a normal exit.'']))
          else do { ok \<leftarrow> Run env F ticks; ret (IIRan ok) })"

section \<open>Order of the gate\<close>

definition is_gate :: "iop \<Rightarrow> bool" where
  "is_gate oper = (case oper of IWriteFile _ _ \<Rightarrow> True | IWaitFor _ _ \<Rightarrow> True | _ \<Rightarrow> False)"

definition passed :: "GateStep \<Rightarrow> (iop, iresp) events \<Rightarrow> bool" where
  "passed s pre \<longleftrightarrow>
     (SkipIfExists s \<noteq> [] \<and> (\<exists>r. (IExists (SkipIfExists s), r) \<in> set pre \<and> i_true r)) \<or>
     (\<exists>r. (gate_op s, r) \<in> set pre \<and> (i_err r = None \<or> Optional s))"

definition ordered :: "GateStep list \<Rightarrow> (iop, iresp) events \<Rightarrow> bool" where
  "ordered ss new \<longleftrightarrow> (\<forall>pre e post. new = pre @ e # post \<longrightarrow> is_gate (fst e) \<longrightarrow>
     (\<exists>k<length ss. fst e = gate_op (ss ! k) \<and> (\<forall>j<k. passed (ss ! j) pre)))"

lemma passed_mono: "passed s p \<Longrightarrow> passed s (q @ p)" "passed s p \<Longrightarrow> passed s (p @ q)"
  by (auto simp: passed_def)

lemma is_gate_op [simp]: "is_gate (gate_op s)" "\<not> is_gate (IExists p)" "\<not> is_gate (ISay t)" "\<not> is_gate IDisplay"
  by (simp_all add: is_gate_def gate_op_def)

lemma ordered_none: "\<forall>e\<in>set new. \<not> is_gate (fst e) \<Longrightarrow> ordered ss new"
  unfolding ordered_def by auto

lemma ordered_first:
  assumes "\<forall>e\<in>set f. is_gate (fst e) \<longrightarrow> fst e = gate_op s"
  shows "ordered (s # ss) f"
  unfolding ordered_def using assms by (intro allI impI exI[of _ 0]) auto

lemma ordered_Cons:
  assumes "\<forall>e\<in>set f. is_gate (fst e) \<longrightarrow> fst e = gate_op s" "passed s f" "ordered ss new"
  shows "ordered (s # ss) (f @ new)"
  unfolding ordered_def
proof (intro allI impI)
  fix pre e post
  assume e: "f @ new = pre @ e # post" "is_gate (fst e)"
  then consider us where "f = pre @ e # us" | us where "pre = f @ us" "new = us @ e # post"
    by (auto simp: append_eq_append_conv2 append_eq_Cons_conv Cons_eq_append_conv)
  then show "\<exists>k<length (s # ss). fst e = gate_op ((s # ss) ! k) \<and> (\<forall>j<k. passed ((s # ss) ! j) pre)"
  proof cases
    case 1
    then show ?thesis using assms(1) e(2) by (intro exI[of _ 0]) auto
  next
    case 2
    from assms(3)[unfolded ordered_def, rule_format, OF 2(2) e(2)]
    obtain k where k: "k < length ss" "fst e = gate_op (ss ! k)" "\<forall>j<k. passed (ss ! j) us" by blast
    have "passed ((s # ss) ! j) pre" if "j < Suc k" for j
      using that k(3) 2(1) assms(2) passed_mono by (cases j) auto
    then show ?thesis using k by (intro exI[of _ "Suc k"]) auto
  qed
qed

definition gate_done :: "GateStep list \<Rightarrow> string option \<Rightarrow> (iop, iresp) events \<Rightarrow> bool" where
  "gate_done ss res new \<longleftrightarrow> ordered ss new \<and> (res = None \<longrightarrow> (\<forall>s\<in>set ss. passed s new))"

lemma gate_done_Cons:
  assumes "\<forall>e\<in>set f. is_gate (fst e) \<longrightarrow> fst e = gate_op s" "passed s f" "gate_done ss res new"
  shows "gate_done (s # ss) res (f @ new)"
  using assms ordered_Cons[OF assms(1,2)] passed_mono unfolding gate_done_def by auto

lemma emits_gate_steps: "emits (gate_steps env ss) (gate_done ss)"
proof (induction ss)
  case Nil
  show ?case by (simp add: emits_return gate_done_def ordered_none)
next
  case (Cons s ss)
  let ?skip = "if SkipIfExists s \<noteq> [] then do { r \<leftarrow> act env (IExists (SkipIfExists s)); ret (i_true r) } else ret False"
  have sk: "emits ?skip (\<lambda>b f. (\<forall>e\<in>set f. \<not> is_gate (fst e)) \<and> (b \<longrightarrow> passed s f))"
    by (auto intro!: emits_act_bind emits_return simp: passed_def)
  show ?case unfolding gate_steps.simps
  proof (rule emits_bind[OF sk])
    fix b and f :: "(iop, iresp) events"
    assume f: "(\<forall>e\<in>set f. \<not> is_gate (fst e)) \<and> (b \<longrightarrow> passed s f)"
    let ?rest = "act env (gate_op s) \<bind> (\<lambda>r. case i_err r of
          None \<Rightarrow> gate_steps env ss
        | Some t \<Rightarrow> if Optional s then do {
              i_do env (ISay (''gate: skipped ('' @ Why s @ ''): '' @ t @ nl)); gate_steps env ss }
            else ret (Some (Why s @ '': '' @ t)))"
    have go: "gate_done (s # ss) res (f @ (gate_op s, r) # new)"
      if "gate_done ss res new" "i_err r = None \<or> Optional s" for r res new
      using gate_done_Cons[of "f @ [(gate_op s, r)]" s ss res new] f that by (auto simp: passed_def)
    have go': "gate_done (s # ss) res (f @ (gate_op s, r) # (ISay m, r') # new)"
      if "gate_done ss res new" "i_err r = None \<or> Optional s" for r r' m res new
      using gate_done_Cons[of "f @ [(gate_op s, r), (ISay m, r')]" s ss res new] f that by (auto simp: passed_def)
    have stop: "gate_done (s # ss) (Some t) (f @ [(gate_op s, r)])" for r t
      using f ordered_first[of "f @ [(gate_op s, r)]" s ss] by (auto simp: gate_done_def)
    have "emits ?rest (\<lambda>res new. gate_done (s # ss) res (f @ new))"
    proof (rule emits_act_bind, rule emits_option)
      fix r
      assume "i_err r = None"
      then show "emits (gate_steps env ss) (\<lambda>res new. gate_done (s # ss) res (f @ (gate_op s, r) # new))"
        by (intro emits_weaken[OF Cons.IH] go) auto
    next
      fix r t
      assume "i_err r = Some t"
      show "emits (if Optional s then do { i_do env (ISay (''gate: skipped ('' @ Why s @ ''): '' @ t @ nl)); gate_steps env ss }
            else ret (Some (Why s @ '': '' @ t))) (\<lambda>res new. gate_done (s # ss) res (f @ (gate_op s, r) # new))"
      proof (rule emits_if)
        assume "Optional s"
        then show "emits (do { i_do env (ISay (''gate: skipped ('' @ Why s @ ''): '' @ t @ nl)); gate_steps env ss })
            (\<lambda>res new. gate_done (s # ss) res (f @ (gate_op s, r) # new))"
          unfolding i_do_def by (auto intro!: emits_act_bind emits_weaken[OF Cons.IH] go')
      next
        show "emits (ret (Some (Why s @ '': '' @ t))) (\<lambda>res new. gate_done (s # ss) res (f @ (gate_op s, r) # new))"
          by (rule emits_return) (rule stop)
      qed
    qed
    then show "emits (if b then gate_steps env ss else ?rest) (\<lambda>res new. gate_done (s # ss) res (f @ new))"
      using f by (auto intro!: emits_weaken[OF Cons.IH] gate_done_Cons)
  qed
qed

section \<open>What the boot sequence does before the panel is powered\<close>

definition powers :: "iop \<Rightarrow> bool" where
  "powers oper = (case oper of IWriteFile p _ \<Rightarrow> p = prodSeq | _ \<Rightarrow> False)"

definition gce_ready :: "(iop, iresp) events \<Rightarrow> bool" where
  "gce_ready pre \<longleftrightarrow> (\<exists>gce\<in>set gceCandidates. \<exists>r.
     ((IExists (gceDriverPath gce), r) \<in> set pre \<and> i_true r) \<or> ((IWaitFor (gceDriverPath gce) 5, r) \<in> set pre \<and> i_err r = None))"

definition did :: "iop \<Rightarrow> (iop, iresp) events \<Rightarrow> bool" where
  "did oper pre \<longleftrightarrow> (\<exists>r. (oper, r) \<in> set pre \<and> i_err r = None)"

definition panel_ready :: "(iop, iresp) events \<Rightarrow> bool" where
  "panel_ready pre \<longleftrightarrow> did (IWriteFile skipClient (''Y'' @ nl)) pre \<and> gce_ready pre \<and> did (IWaitFor dsiDevice 15) pre"

definition card_ready :: "(iop, iresp) events \<Rightarrow> bool" where
  "card_ready pre \<longleftrightarrow> panel_ready pre \<and> did (IWriteFile prodSeq (''Y'' @ nl)) pre \<and>
     did (IWriteFile probeStage (''3'' @ nl)) pre \<and> did (IWaitFor cardNode 15) pre"

definition second_stage_decided :: "(iop, iresp) events \<Rightarrow> bool" where
  "second_stage_decided pre \<longleftrightarrow> ISpawn [''/bin/busybox'', ''sh'', ''/etc/rc.sh''] \<in> fst ` set pre \<or>
     (\<exists>p\<in>{''/etc/rc.sh'', ''/bin/busybox''}. \<exists>r. (IExists p, r) \<in> set pre \<and> \<not> i_true r)"

lemma ready_mono:
  "did oper p \<Longrightarrow> did oper (q @ p)" "gce_ready p \<Longrightarrow> gce_ready (q @ p)"
  "panel_ready p \<Longrightarrow> panel_ready (q @ p)" "card_ready p \<Longrightarrow> card_ready (q @ p)"
  "second_stage_decided p \<Longrightarrow> second_stage_decided (p @ q)" "second_stage_decided p \<Longrightarrow> second_stage_decided (q @ p)"
proof -
  show d: "did oper p \<Longrightarrow> did oper (q @ p)" for oper by (auto simp: did_def)
  show g: "gce_ready p \<Longrightarrow> gce_ready (q @ p)" unfolding gce_ready_def by fastforce
  show n: "panel_ready p \<Longrightarrow> panel_ready (q @ p)" using d g by (simp add: panel_ready_def)
  show "card_ready p \<Longrightarrow> card_ready (q @ p)" using d n by (simp add: card_ready_def)
  show "second_stage_decided p \<Longrightarrow> second_stage_decided (p @ q)" "second_stage_decided p \<Longrightarrow> second_stage_decided (q @ p)"
    unfolding second_stage_decided_def by auto
qed

lemma length_GateSequence [simp]: "length (GateSequence gce) = 10"
  by (simp add: GateSequence_def Let_def)

lemma gate_sequence_ops:
  assumes "k < length (GateSequence gce)" "gate_op (GateSequence gce ! k) = IWriteFile prodSeq v"
  shows "k = 6"
proof -
  have "k = 0 \<or> k = 1 \<or> k = 2 \<or> k = 3 \<or> k = 4 \<or> k = 5 \<or> k = 6 \<or> k = 7 \<or> k = 8 \<or> k = 9"
    using assms(1)[unfolded length_GateSequence] by presburger
  then show ?thesis using assms(2)
    by (elim disjE) (simp_all add: GateSequence_def Let_def gate_op_def gate_write_def gate_wait_def
      skipClient_def prodSeq_def gceParam_def probeStage_def)
qed

lemma gate_passed:
  assumes "\<forall>j<k. passed (GateSequence gce ! j) pre" "gce \<in> set gceCandidates"
  shows "6 \<le> k \<Longrightarrow> panel_ready pre" "10 \<le> k \<Longrightarrow> card_ready pre"
proof -
  let ?g = "gceDriverPath gce"
  have s: "passed (GateSequence gce ! 0) pre \<Longrightarrow> did (IWriteFile skipClient (''Y'' @ nl)) pre"
    "passed (GateSequence gce ! 4) pre \<Longrightarrow> did (IWaitFor dsiDevice 15) pre"
    "passed (GateSequence gce ! 6) pre \<Longrightarrow> did (IWriteFile prodSeq (''Y'' @ nl)) pre"
    "passed (GateSequence gce ! 7) pre \<Longrightarrow> did (IWriteFile probeStage (''3'' @ nl)) pre"
    "passed (GateSequence gce ! 9) pre \<Longrightarrow> did (IWaitFor cardNode 15) pre"
    by (auto simp: GateSequence_def Let_def passed_def did_def gate_op_def gate_write_def gate_wait_def)
  have g: "passed (GateSequence gce ! 3) pre \<Longrightarrow> gce_ready pre"
    using assms(2) by (auto simp: GateSequence_def Let_def passed_def gce_ready_def gate_op_def gate_wait_def gceDriverPath_def)
  show p: "6 \<le> k \<Longrightarrow> panel_ready pre" using assms(1) s g by (simp add: panel_ready_def)
  show "10 \<le> k \<Longrightarrow> card_ready pre" using assms(1) s p by (simp add: card_ready_def)
qed

lemma gate_done_ready:
  assumes "gate_done (GateSequence gce) res new" "gce \<in> set gceCandidates"
  shows "guarded powers panel_ready new" "res = None \<Longrightarrow> card_ready new"
proof -
  have ps: "\<exists>v. oper = IWriteFile prodSeq v" if "powers oper" for oper
    using that by (auto simp: powers_def split: iop.splits)
  show "guarded powers panel_ready new"
    unfolding guarded_def
  proof (intro allI impI)
    fix pre e post
    assume e: "new = pre @ e # post" "powers (fst e)"
    obtain v where v: "fst e = IWriteFile prodSeq v" using ps[OF e(2)] by blast
    have "is_gate (fst e)" by (simp add: v is_gate_def)
    then obtain k where k: "k < length (GateSequence gce)" "fst e = gate_op (GateSequence gce ! k)"
      "\<forall>j<k. passed (GateSequence gce ! j) pre"
      using assms(1) e(1) unfolding gate_done_def ordered_def by blast
    then show "panel_ready pre" using gate_sequence_ops[of k gce v] v gate_passed(1)[OF k(3) assms(2)] by simp
  qed
  show "card_ready new" if "res = None"
  proof (rule gate_passed(2)[OF _ assms(2)])
    show "\<forall>j<10. passed (GateSequence gce ! j) new"
      using assms(1) that nth_mem[of _ "GateSequence gce"] unfolding gate_done_def length_GateSequence by blast
  qed simp
qed

definition quiet :: "iop \<times> iresp \<Rightarrow> bool" where
  "quiet e \<longleftrightarrow> \<not> powers (fst e) \<and> fst e \<noteq> IDisplay"

lemma quiet_simps [simp]:
  "quiet (IMkdir a, r)" "quiet (IMount a b c d, r)" "quiet (IExists a, r)" "quiet (ISymlink a b, r)" "quiet (IOpenKmsg, r)"
  "quiet (ISay a, r)" "quiet (IGrabTTY a, r)" "quiet (ISpawn l, r)" "quiet (IReap, r)" "quiet (ISleep n, r)"
  "quiet (ITryLock, r)" "quiet (IShadow, r)" "quiet (IBlit b', r)" "quiet (IUnlock, r)" "quiet (IServe, r)" "quiet (IDebugLine, r)"
  "quiet (IReadFile a, r)" "quiet (ICreateFile a b, r)" "quiet (IWriteFile a b, r) \<longleftrightarrow> a \<noteq> prodSeq"
  by (simp_all add: quiet_def powers_def)

lemma quiet_guarded:
  assumes "\<forall>e\<in>set new. quiet e"
  shows "guarded powers P new" "guarded (\<lambda>oper. oper = IDisplay) P new"
  using assms by (auto intro!: guarded_none simp: quiet_def)

lemma i_do_quiet: "(\<And>r. quiet (oper, r)) \<Longrightarrow> only quiet (i_do env oper)"
  unfolding i_do_def by (intro only_intros)

lemma i_say_quiet: "only quiet (i_say env msg)"
  unfolding i_say_def by (rule i_do_quiet) simp

lemma gadget_quiet: "only quiet (Gadget env)"
proof -
  have n: "list_all (\<lambda>n. case node_op n of IWriteFile p v \<Rightarrow> p \<noteq> prodSeq | IDisplay \<Rightarrow> False | _ \<Rightarrow> True) GadgetNodes" by code_simp
  have q: "quiet (node_op n, r)" if "n \<in> set GadgetNodes" for n r
    using n that by (cases n) (auto simp: list_all_iff node_op_def)
  have u: "path_join ii_gadgetRoot ''UDC'' \<noteq> prodSeq" by code_simp
  have t: "only quiet (try_udc env us)" for us
    using u by (induction us) (auto intro!: only_intros i_do_quiet)
  have g: "only quiet (gadget_node env n)" if "n \<in> set GadgetNodes" for n
    unfolding gadget_node_def using q[OF that] by (auto intro!: only_intros i_do_quiet)
  show ?thesis unfolding Gadget_def by (auto intro!: only_intros g t)
qed

lemma status_loop_quiet: "only quiet (status_loop env F surface tick n)"
proof (induction n arbitrary: tick)
  case (Suc n)
  have p: "only quiet (paint_once env F c tick status)" for c status
    unfolding paint_once_def by (auto intro!: only_intros i_say_quiet)
  show ?case unfolding status_loop.simps
    by (auto intro!: only_intros p i_say_quiet i_do_quiet Suc.IH)
qed simp

lemma emits_gceNode: "emits (gceNode env) (\<lambda>gce new. gce \<in> set gceCandidates \<and> (\<forall>e\<in>set new. quiet e))"
  unfolding gceNode_def gceCandidates_def
  by (auto intro!: emits_act_bind emits_return emits_if simp: gceCandidates_def)

definition display_order :: "(iop, iresp) events \<Rightarrow> bool" where
  "display_order new \<longleftrightarrow> guarded powers panel_ready new \<and> guarded (\<lambda>oper. oper = IDisplay) card_ready new"

lemma display_order_append: "display_order xs \<Longrightarrow> display_order ys \<Longrightarrow> display_order (xs @ ys)"
  unfolding display_order_def by (auto intro: guarded_append ready_mono)

lemma display_order_quiet: "\<forall>e\<in>set new. quiet e \<Longrightarrow> display_order new"
  by (simp add: display_order_def quiet_guarded)

lemma emits_gate_display:
  assumes "gce \<in> set gceCandidates"
  shows "emits (gate_steps env (GateSequence gce)) (\<lambda>res new. display_order new \<and> (res = None \<longrightarrow> card_ready new))"
proof -
  have o: "only (\<lambda>e. fst e \<noteq> IDisplay) (gate_steps env ss)" for ss
    by (induction ss) (auto intro!: only_intros simp: gate_op_def i_do_def)
  show ?thesis
  proof (rule emits_weaken[OF emits_only[OF emits_gate_steps o]])
    fix res and new :: "(iop, iresp) events"
    assume a: "gate_done (GateSequence gce) res new \<and> (\<forall>e\<in>set new. fst e \<noteq> IDisplay)"
    then have "guarded (\<lambda>oper. oper = IDisplay) card_ready new" by (auto intro!: guarded_none)
    then show "display_order new \<and> (res = None \<longrightarrow> card_ready new)"
      using a gate_done_ready[OF _ assms] by (auto simp: display_order_def)
  qed
qed

lemma emits_OpenGate: "emits (OpenGate env) (\<lambda>res new. display_order new \<and> (res = None \<longrightarrow> card_ready new))"
  unfolding OpenGate_def
proof (rule emits_act_bind, rule emits_if)
  fix r
  show "emits (ret (Some (''no panel driver at '' @ panelParams @ '' (wrong kernel?)'')))
     (\<lambda>res new'. display_order ((IExists panelParams, r) # new') \<and> (res = None \<longrightarrow> card_ready ((IExists panelParams, r) # new')))"
    by (auto intro!: emits_return display_order_quiet)
  show "emits (gceNode env \<bind> (\<lambda>gce. gate_steps env (GateSequence gce)))
     (\<lambda>res new'. display_order ((IExists panelParams, r) # new') \<and> (res = None \<longrightarrow> card_ready ((IExists panelParams, r) # new')))"
  proof (rule emits_bind[OF emits_gceNode])
    fix gce and new :: "(iop, iresp) events"
    assume g: "gce \<in> set gceCandidates \<and> (\<forall>e\<in>set new. quiet e)"
    have q: "display_order ((IExists panelParams, r) # new)" using g by (auto intro!: display_order_quiet)
    show "emits (gate_steps env (GateSequence gce)) (\<lambda>res new'. display_order ((IExists panelParams, r) # new @ new') \<and>
        (res = None \<longrightarrow> card_ready ((IExists panelParams, r) # new @ new')))"
    proof (rule emits_weaken[OF emits_gate_display])
      show "gce \<in> set gceCandidates" using g by simp
      fix res new'
      assume a: "display_order new' \<and> (res = None \<longrightarrow> card_ready new')"
      then show "display_order ((IExists panelParams, r) # new @ new') \<and> (res = None \<longrightarrow> card_ready ((IExists panelParams, r) # new @ new'))"
        using display_order_append[OF q] ready_mono(4)[of new' "(IExists panelParams, r) # new"] by simp
    qed
  qed
qed

lemma emits_acquireDisplay: "emits (acquireDisplay env) (\<lambda>_. display_order)"
  unfolding acquireDisplay_def
proof (rule emits_bind[OF emits_OpenGate], rule emits_option)
  fix res and new :: "(iop, iresp) events"
  assume a: "display_order new \<and> (res = None \<longrightarrow> card_ready new)"
  show "emits (ret (Inl t)) (\<lambda>_ new'. display_order (new @ new'))" for t using a by (auto intro!: emits_return)
  assume "res = None"
  then have c: "card_ready new" using a by simp
  have d: "display_order (new @ [(IDisplay, s)])" for s
  proof -
    have "guarded (\<lambda>oper. oper = IDisplay) card_ready (new @ [(IDisplay, s)])"
      unfolding guarded_def
    proof (intro allI impI)
      fix pre e post
      assume e: "new @ [(IDisplay, s)] = pre @ e # post" "fst e = IDisplay"
      then consider us where "new = pre @ e # us" | "pre = new"
        by (auto simp: append_eq_append_conv2 append_eq_Cons_conv Cons_eq_append_conv)
      then show "card_ready pre"
      proof cases
        case 1
        have "guarded (\<lambda>oper. oper = IDisplay) card_ready new" using a by (simp add: display_order_def)
        from this[unfolded guarded_def, rule_format, OF 1 e(2)] show ?thesis .
      next
        case 2
        then show ?thesis using c by simp
      qed
    qed
    moreover have "guarded powers panel_ready [(IDisplay, s)]" by (rule guarded_none) (simp add: powers_def)
    then have "guarded powers panel_ready (new @ [(IDisplay, s)])"
      using a unfolding display_order_def by (intro guarded_append ready_mono(3)) auto
    ultimately show ?thesis by (simp add: display_order_def)
  qed
  have b: "display_order (new @ (IDisplay, s) # [(IWriteFile backlight v, r)])" for s v r
  proof -
    have "display_order [(IWriteFile backlight v, r)]"
      by (rule display_order_quiet) (simp add: backlight_def prodSeq_def)
    from display_order_append[OF d this] show ?thesis by simp
  qed
  show "emits (act env IDisplay \<bind> (\<lambda>s. case s of
             ISurface c \<Rightarrow> do { i_do env (IWriteFile backlight (''10'' @ nl)); ret (Inr c) }
           | _ \<Rightarrow> ret (Inl (case i_err s of Some t \<Rightarrow> t | None \<Rightarrow> [])))) (\<lambda>_ new'. display_order (new @ new'))"
  proof (rule emits_act_bind)
    fix s
    show "emits (case s of ISurface c \<Rightarrow> do { i_do env (IWriteFile backlight (''10'' @ nl)); ret (Inr c) }
           | _ \<Rightarrow> ret (Inl (case i_err s of Some t \<Rightarrow> t | None \<Rightarrow> []))) (\<lambda>_ new'. display_order (new @ (IDisplay, s) # new'))"
      using b d by (cases s) (auto simp: i_do_def intro!: emits_act_bind emits_return)
  qed
qed

lemma emits_second_stage: "emits (startSecondStage env) (\<lambda>_ new. second_stage_decided new \<and> (\<forall>e\<in>set new. quiet e))"
  unfolding startSecondStage_def i_say_def i_do_def
  by (auto intro!: emits_act_bind emits_return emits_if emits_option simp: second_stage_decided_def)

text \<open>The part of the boot sequence before the second stage, and the part after the display.\<close>

lemma mountAll_quiet: "only quiet (mountAll env)"
  unfolding mountAll_def by (intro only_bind only_foreach i_do_quiet) simp_all

lemma run_early_quiet: "only quiet (run_early env)"
  unfolding run_early_def by (intro only_intros mountAll_quiet i_say_quiet i_do_quiet gadget_quiet) simp_all

lemma run_late_quiet: "only quiet (run_late env F ticks d)"
  unfolding run_late_def by (intro only_intros i_say_quiet i_do_quiet status_loop_quiet) simp_all

lemma emits_Run: "emits (Run env F ticks) (\<lambda>_ new. display_order new \<and> guarded powers second_stage_decided new)"
  unfolding Run_def
proof (rule emits_bind[OF onlyD[OF run_early_quiet]], rule emits_bind[OF emits_second_stage], rule emits_bind[OF emits_acquireDisplay])
  fix d and xs ys zs :: "(iop, iresp) events"
  assume x: "\<forall>e\<in>set xs. quiet e" and y: "second_stage_decided ys \<and> (\<forall>e\<in>set ys. quiet e)" and z: "display_order zs"
  show "emits (run_late env F ticks d) (\<lambda>_ new'. display_order (xs @ ys @ zs @ new') \<and> guarded powers second_stage_decided (xs @ ys @ zs @ new'))"
  proof (rule emits_weaken[OF onlyD[OF run_late_quiet]], rule conjI)
    fix a and ws :: "(iop, iresp) events"
    assume w: "\<forall>e\<in>set ws. quiet e"
    show "display_order (xs @ ys @ zs @ ws)"
      using x y z w by (intro display_order_append) (auto intro: display_order_quiet)
    have "guarded powers second_stage_decided ((xs @ ys) @ (zs @ ws))"
    proof (rule guarded_later)
      show "second_stage_decided (xs @ ys)" using y by (simp add: ready_mono)
      show "guarded powers second_stage_decided (xs @ ys)" using x y by (intro quiet_guarded(1)) auto
    qed (rule ready_mono)
    then show "guarded powers second_stage_decided (xs @ ys @ zs @ ws)" by simp
  qed
qed

section \<open>The status screen\<close>

lemma status_lines_ok:
  assumes "length out < 8" "\<forall>l\<in>set out. l \<noteq> [] \<and> \<not> has_prefix l ''PROGRESS ''"
  shows "length (status_lines out ls) \<le> 8 \<and> (\<forall>l\<in>set (status_lines out ls). l \<noteq> [] \<and> \<not> has_prefix l ''PROGRESS '')"
  using assms
proof (induction out ls rule: status_lines.induct)
  case (2 out l ls)
  let ?l = "trim_right [CR, CHR '' ''] l"
  consider "?l = [] \<or> has_prefix ?l ''PROGRESS ''"
    | "\<not> (?l = [] \<or> has_prefix ?l ''PROGRESS '')" "length (out @ [?l]) = maxStatusLines"
    | "\<not> (?l = [] \<or> has_prefix ?l ''PROGRESS '')" "length (out @ [?l]) \<noteq> maxStatusLines" by blast
  then show ?case
  proof cases
    case 1
    then show ?thesis using "2.IH"(1)[OF refl 1 "2.prems"] by (simp add: Let_def)
  next
    case 2
    then show ?thesis using "2.prems"(2) by (simp add: Let_def maxStatusLines_def)
  next
    case 3
    have p: "length (out @ [?l]) < 8" using "2.prems"(1) 3(2) by (simp add: maxStatusLines_def)
    have q: "\<forall>l\<in>set (out @ [?l]). l \<noteq> [] \<and> \<not> has_prefix l ''PROGRESS ''" using "2.prems"(2) 3(1) by simp
    show ?thesis using "2.IH"(2)[OF refl 3(1) refl 3(2) p q] 3 by (simp add: Let_def)
  qed
qed simp

lemma StatusLines_ok:
  "1 \<le> length (StatusLines s)" "length (StatusLines s) \<le> 8" "\<forall>l\<in>set (StatusLines s). l \<noteq> [] \<and> \<not> has_prefix l ''PROGRESS ''"
proof -
  have d: "DefaultStatus \<noteq> []" "\<not> has_prefix DefaultStatus ''PROGRESS ''" by (simp_all add: DefaultStatus_def has_prefix_def)
  have o: "length (status_lines [] (split_on LF s)) \<le> 8"
    "\<forall>l\<in>set (status_lines [] (split_on LF s)). l \<noteq> [] \<and> \<not> has_prefix l ''PROGRESS ''"
    using status_lines_ok[of "[]" "split_on LF s"] by simp_all
  show "1 \<le> length (StatusLines s)" "length (StatusLines s) \<le> 8" "\<forall>l\<in>set (StatusLines s). l \<noteq> [] \<and> \<not> has_prefix l ''PROGRESS ''"
    using o d by (auto simp: StatusLines_def Let_def Suc_le_eq)
qed

lemma ProgressPct_range: "ProgressPct s = Some p \<Longrightarrow> 0 \<le> p \<and> p \<le> 100"
proof -
  have "foldl progress_line acc ls = Some p \<Longrightarrow> (\<forall>q. acc = Some q \<longrightarrow> 0 \<le> q \<and> q \<le> 100) \<Longrightarrow> 0 \<le> p \<and> p \<le> 100" for acc ls
  proof (induction ls arbitrary: acc)
    case (Cons l ls)
    have "\<forall>q. progress_line acc l = Some q \<longrightarrow> 0 \<le> q \<and> q \<le> 100"
      using Cons.prems(2) by (auto simp: progress_line_def Let_def split: if_splits option.splits)
    then show ?case using Cons.IH Cons.prems(1) by simp
  qed simp
  then show "ProgressPct s = Some p \<Longrightarrow> 0 \<le> p \<and> p \<le> 100" unfolding ProgressPct_def by blast
qed

lemma utoa_digits_dec: "0 < v \<Longrightarrow> utoa_digits v acc = dec v @ acc"
proof (induction v acc rule: utoa_digits.induct)
  case (1 v acc)
  have u: "utoa_digits v acc = utoa_digits (v div 10) (char_of (48 + v mod 10) # acc)"
    using 1(2) by (simp add: utoa_digits.simps[of v])
  show ?case
  proof (cases "v < 10")
    case True
    then show ?thesis using 1(2) by (simp add: u utoa_digits.simps[of 0] dec.simps[of v])
  next
    case False
    then show ?thesis using 1 by (simp add: u dec.simps[of v] div_greater_zero_iff)
  qed
qed

lemma utoa_dec: "utoa v = dec v"
proof (cases "v = 0")
  case True
  have "dec 0 = ''0''" by code_simp
  then show ?thesis using True by (simp add: utoa_def)
next
  case False
  then show ?thesis by (simp add: utoa_def utoa_digits_dec)
qed

text \<open>Filling through the byte buffer is filling the canvas.\<close>

lemma c_fill_Some: "wf_canvas c \<Longrightarrow> c_fill x0 y0 rw rh col c = Some (fillRect c x0 y0 rw rh col)"
proof -
  assume w: "wf_canvas c"
  have "same_shape (fillRect c x0 y0 rw rh col) c" by (rule fillRect_shape[OF w])
  then have "c\<lparr>cpix := cpix (fillRect c x0 y0 rw rh col)\<rparr> = fillRect c x0 y0 rw rh col" by (simp add: same_shape_def)
  then show ?thesis by (simp add: c_fill_def fill_fillRect[OF w])
qed

lemma status_palette [simp]:
  "grey4 (put32 colBackground)" "grey4 (put32 colText)" "grey4 (put32 colSecondary)"
proof -
  have "colBackground = cBG" "colText = cFG" "colSecondary = cDim"
    by (simp_all add: colBackground_def cBG_def colText_def cFG_def colSecondary_def cDim_def)
  then show "grey4 (put32 colBackground)" "grey4 (put32 colText)" "grey4 (put32 colSecondary)" by simp_all
qed

lemma drawProgress_painted:
  assumes "wf_canvas c"
  shows "\<exists>d. drawProgress pct c = Some d \<and> painted c d"
proof -
  have f: "\<exists>d. c_fill x y w h col b = Some d \<and> painted c d" if "painted c b" "grey4 (put32 col)" for x y w h col b
    using that draws_wf[OF that(1) assms] fillRect_into[OF assms that(2,1)] by (simp add: c_fill_Some)
  show ?thesis
  proof (cases "cw c - progressLeft - progressRight < 2 * progressBorder + 2")
    case True
    then show ?thesis by (simp add: drawProgress_def)
  next
    case False
    let ?bw = "cw c - progressLeft - progressRight" and ?y = "ch c - 70 - progressGap - progressHeight"
    let ?in = "?bw - 2 * progressBorder"
    obtain c1 where c1: "c_fill progressLeft ?y ?bw progressHeight colSecondary c = Some c1" "painted c c1"
      using f[OF draws_refl status_palette(3)] by blast
    obtain c2 where c2: "c_fill (progressLeft + progressBorder) (?y + progressBorder) ?in (progressHeight - 2 * progressBorder) colBackground c1 = Some c2" "painted c c2"
      using f[OF c1(2) status_palette(1)] by blast
    show ?thesis unfolding drawProgress_def Let_def using False c1 c2(1) f[OF c2(2) status_palette(2)] c2(2) by simp
  qed
qed

lemma status_text_painted: "wf_canvas b \<Longrightarrow> painted b c \<Longrightarrow> painted b (status_text F y ls c)"
  by (induction F y ls c rule: status_text.induct) (auto intro: drawText_into)

lemma PaintStatus_ok:
  assumes "wf_canvas c"
  shows "\<exists>d. PaintStatus F ls tick pct c = Some d \<and> same_shape d c \<and> grey d"
proof -
  let ?c1 = "fillRect c 0 0 (cw c) (ch c) colBackground"
  have s1: "same_shape ?c1 c" by (rule fillRect_shape[OF assms])
  have g1: "grey ?c1"
    unfolding grey_def using s1 fillRect_pixel4[OF assms] by (auto simp: same_shape_def visible_def inRect_def)
  have w1: "wf_canvas ?c1" using s1 assms by (simp add: same_shape_wf)
  let ?c3 = "status_text F 160 ls (drawText F ?c1 40 40 6 colBanner ''DC-1 INSTALLER'')"
  have p3: "painted ?c1 ?c3" using w1 by (intro status_text_painted drawText_painted)
  obtain c4 where c4: "drawProgress pct ?c3 = Some c4" "painted ?c3 c4"
    using drawProgress_painted[OF draws_wf[OF p3 w1]] by blast
  have p4: "painted ?c1 c4" using p3 c4(2) by (rule draws_trans)
  let ?d = "drawText F c4 40 (ch c - 70) 3 colSecondary (''TICK '' @ utoa tick)"
  have p: "painted ?c1 ?d" using w1 p4 by (rule drawText_into)
  have "PaintStatus F ls tick pct c = Some ?d"
    unfolding PaintStatus_def Let_def using c4(1) by (simp add: c_fill_Some[OF assms])
  moreover have "same_shape ?d c" using p s1 by (auto simp: draws_def intro: same_shape_trans)
  moreover have "grey ?d" by (rule draws_grey[OF p g1])
  ultimately show ?thesis by blast
qed

section \<open>Properties\<close>

text \<open>C20: The installer powers the panel only after the watchdog is taken care of and the display chain is ready.
  Whatever the kernel and the hardware answer, every write to the panel's power sequence is preceded by the
  decision about the second stage that pets the watchdog (it was started, or one of its files is missing), by a
  successful write that keeps the intermediate display client away, by a bound GCE, and by the enumerated DSI
  device; and the display is only acquired after the panel was powered, its probe released and the DRM node seen.\<close>

theorem installer_order:
  assumes "run_state (Run env F ticks) [] = (res, tr)"
  shows "guarded powers second_stage_decided tr \<and> guarded powers panel_ready tr \<and>
    guarded (\<lambda>oper. oper = IDisplay) card_ready tr"
  using emits_run[OF emits_Run assms] by (auto simp: display_order_def)

text \<open>The status screen never panics and is always a grey image.  For every status text, tick and panel, the
  painter draws inside the buffer and keeps its geometry, every visible pixel is grey, between one and
  eight non-empty lines are shown, and the progress shown is a percentage.\<close>

theorem status_screen_ok:
  assumes "wf_canvas c"
  shows "(\<exists>d. PaintStatus F (StatusLines status) tick (case ProgressPct status of None \<Rightarrow> -1 | Some p \<Rightarrow> p) c = Some d \<and>
      same_shape d c \<and> (\<forall>x y. visible (cw d) (ch d) x y \<longrightarrow> (\<exists>v. pixel4 d x y = [v, v, v, 0xff]))) \<and>
    1 \<le> length (StatusLines status) \<and> length (StatusLines status) \<le> 8 \<and> [] \<notin> set (StatusLines status) \<and>
    (case ProgressPct status of None \<Rightarrow> True | Some p \<Rightarrow> 0 \<le> p \<and> p \<le> 100)"
proof -
  have "case ProgressPct status of None \<Rightarrow> True | Some p \<Rightarrow> 0 \<le> p \<and> p \<le> 100"
    using ProgressPct_range by (auto split: option.splits)
  then show ?thesis using PaintStatus_ok[OF assms] StatusLines_ok[of status] unfolding grey_def grey4_def by blast
qed

theorem installer_order_witness:
  "guarded powers panel_ready (snd (run_state (Run (\<lambda>_ _. IBool True) (\<lambda>_. None) 1) []))"
  using installer_order[OF prod.collapse[symmetric], of "\<lambda>_ _. IBool True" "\<lambda>_. None" 1] by blast

theorem status_screen_ok_witness:
  "PaintStatus (\<lambda>_. None) (StatusLines ''WRITING'') 0 (case ProgressPct ''WRITING'' of None \<Rightarrow> -1 | Some p \<Rightarrow> p) (newCanvas 2 2 8) \<noteq> None"
proof -
  have w: "wf_canvas (newCanvas 2 2 8)" by (simp add: newCanvas_def wf_canvas_def)
  show ?thesis using status_screen_ok[OF w, of "\<lambda>_. None" "''WRITING''" 0] by auto
qed

end
