(* ===== verification/Touch.thy ===== *)
theory Touch
  imports Ask
begin

text \<open>
  \<^verbatim>\<open>installer/gotools/internal/ask/touch.go\<close>: the evdev tap detector, the choice of the device and its
  axes, and the scaling of a tap to the panel; and what the dialogs guarantee on the taps it delivers.
\<close>

section \<open>Tap detection\<close>

definition evSyn :: u16 where "evSyn = 0x00"
definition evKey :: u16 where "evKey = 0x01"
definition evAbs :: u16 where "evAbs = 0x03"
definition absX :: u16 where "absX = 0x00"
definition absY :: u16 where "absY = 0x01"
definition absMTPositionX :: u16 where "absMTPositionX = 0x35"
definition absMTPositionY :: u16 where "absMTPositionY = 0x36"
definition absMTTrackingID :: u16 where "absMTTrackingID = 0x39"
definition absMax :: nat where "absMax = 0x3f"
definition btnTouch :: u16 where "btnTouch = 0x14a"

definition timevalSize :: nat where "timevalSize = 16"
definition eventSize :: nat where "eventSize = timevalSize + 8"

record touchState =
  tsX :: int
  tsY :: int
  tsDown :: bool
  tsWasDown :: bool

type_synonym event = "u16 \<times> u16 \<times> int"

definition feed :: "touchState \<Rightarrow> event \<Rightarrow> touchState \<times> bool" where
  "feed t ev =
     (case ev of (typ, code, val) \<Rightarrow>
        if typ = evAbs then
          (if code = absMTPositionX \<or> code = absX then (t\<lparr>tsX := val\<rparr>, False)
           else if code = absMTPositionY \<or> code = absY then (t\<lparr>tsY := val\<rparr>, False)
           else if code = absMTTrackingID then (t\<lparr>tsDown := 0 \<le> val\<rparr>, False)
           else (t, False))
        else if typ = evKey then
          (if code = btnTouch then (t\<lparr>tsDown := val \<noteq> 0\<rparr>, False) else (t, False))
        else if typ = evSyn then
          (if tsWasDown t \<and> \<not> tsDown t then (t\<lparr>tsWasDown := tsDown t\<rparr>, True)
           else (t\<lparr>tsWasDown := tsDown t\<rparr>, False))
        else (t, False))"

definition decodeEvent :: "bytes \<Rightarrow> event" where
  "decodeEvent b =
     (get16 (drop timevalSize b), get16 (drop (timevalSize + 2) b), sint (get32 (drop (timevalSize + 4) b)))"

definition hasBit :: "bytes \<Rightarrow> nat \<Rightarrow> bool" where
  "hasBit bits b = (drop_bit (b mod 8) (bits ! (b div 8)) AND 1 = 1)"

section \<open>The device\<close>

text \<open>What opening and querying a device node gives: the axis bitmap and the axis descriptions.\<close>

record input_dev =
  idOpens :: bool
  idBits :: "bytes option"
  idAbs :: "nat \<Rightarrow> bytes option"

record touch =
  minX :: int
  maxX :: int
  minY :: int
  maxY :: int
  tst :: touchState

definition le32 :: "bytes \<Rightarrow> u32" where
  "le32 b = get32 b"

definition absRange :: "input_dev \<Rightarrow> nat \<Rightarrow> (int \<times> int) option" where
  "absRange d axis =
     (case idAbs d axis of
        None \<Rightarrow> None
      | Some ai \<Rightarrow>
          (let lo = sint (le32 (drop 4 ai)); hi = sint (le32 (drop 8 ai))
           in Some (lo, if hi \<le> lo then lo + 1 else hi)))"

definition openTouchDev :: "input_dev \<Rightarrow> touch option" where
  "openTouchDev d =
     (if \<not> idOpens d then None
      else (case idBits d of
        None \<Rightarrow> None
      | Some bits \<Rightarrow>
          (let axes = (if hasBit bits (unat absMTPositionX) \<and> hasBit bits (unat absMTPositionY)
                       then Some (unat absMTPositionX, unat absMTPositionY)
                       else if hasBit bits (unat absX) \<and> hasBit bits (unat absY) then Some (unat absX, unat absY)
                       else None) in
           (case axes of
              None \<Rightarrow> None
            | Some (ax, ay) \<Rightarrow>
                (case absRange d ax of
                   None \<Rightarrow> None
                 | Some (lx, hx) \<Rightarrow>
                     (case absRange d ay of
                        None \<Rightarrow> None
                      | Some (ly, hy) \<Rightarrow>
                          Some \<lparr>minX = lx, maxX = hx, minY = ly, maxY = hy,
                                tst = \<lparr>tsX = 0, tsY = 0, tsDown = False, tsWasDown = False\<rparr>\<rparr>))))))"

fun first_touch :: "(string \<Rightarrow> input_dev) \<Rightarrow> nat list \<Rightarrow> touch option" where
  "first_touch devs [] = None"
| "first_touch devs (i # is) =
     (case openTouchDev (devs (''/dev/input/event'' @ dec i)) of Some t \<Rightarrow> Some t | None \<Rightarrow> first_touch devs is)"

definition openTouch :: "string \<Rightarrow> (string \<Rightarrow> input_dev) \<Rightarrow> touch option" where
  "openTouch dc1_input devs =
     (if dc1_input \<noteq> [] then openTouchDev (devs dc1_input) else first_touch devs [0..<32])"

text \<open>\<^verbatim>\<open>rawTap\<close> and \<^verbatim>\<open>tap\<close> on the event records that arrive.  A record cut short is an error of the read.\<close>

datatype 'a tap_result = Tapped 'a | TapError | NoTapYet

fun raw_tap :: "touchState \<Rightarrow> bytes incoming \<Rightarrow> (touchState \<times> bytes incoming) tap_result" where
  "raw_tap st ReadFails = TapError"
| "raw_tap st Silent = NoTapYet"
| "raw_tap st (Arrives b bs) =
     (case feed st (decodeEvent b) of (st', fin) \<Rightarrow> if fin then Tapped (st', bs) else raw_tap st' bs)"

definition rawTap :: "touch \<Rightarrow> bytes incoming \<Rightarrow> ((int \<times> int) \<times> touch \<times> bytes incoming) tap_result" where
  "rawTap t bs =
     (case raw_tap (tst t) bs of
        Tapped (st, rest) \<Rightarrow> Tapped ((tsX st, tsY st), t\<lparr>tst := st\<rparr>, rest) | TapError \<Rightarrow> TapError | NoTapYet \<Rightarrow> NoTapYet)"

definition scale_tap :: "touch \<Rightarrow> int \<Rightarrow> int \<Rightarrow> int \<times> int \<Rightarrow> int \<times> int" where
  "scale_tap t w h p =
     (quot ((fst p - minX t) * w) (maxX t - minX t), quot ((snd p - minY t) * h) (maxY t - minY t))"

definition tap :: "touch \<Rightarrow> int \<Rightarrow> int \<Rightarrow> bytes incoming \<Rightarrow> ((int \<times> int) \<times> touch \<times> bytes incoming) tap_result" where
  "tap t w h bs =
     (case rawTap t bs of
        Tapped (p, t', rest) \<Rightarrow> Tapped (scale_tap t w h p, t', rest) | TapError \<Rightarrow> TapError | NoTapYet \<Rightarrow> NoTapYet)"

section \<open>All taps of a recording\<close>

fun reported :: "touchState \<Rightarrow> event list \<Rightarrow> (int \<times> int) list" where
  "reported st [] = []"
| "reported st (ev # evs) =
     (case feed st ev of (st', fin) \<Rightarrow> (if fin then [(tsX st', tsY st')] else []) @ reported st' evs)"

fun feeds :: "touchState \<Rightarrow> event list \<Rightarrow> touchState" where
  "feeds st [] = st"
| "feeds st (ev # evs) = feeds (fst (feed st ev)) evs"

lemma reported_append: "reported st (xs @ ys) = reported st xs @ reported (feeds st xs) ys"
  by (induction xs arbitrary: st) (auto split: prod.splits)

text \<open>The abstract detector works on whole frames: what a frame says about the position and the contact
  is the last thing it says about it.\<close>

definition last_or :: "'a \<Rightarrow> 'a list \<Rightarrow> 'a" where
  "last_or d xs = (if xs = [] then d else last xs)"

definition frame_x :: "event list \<Rightarrow> int list" where
  "frame_x evs = map (\<lambda>(t, c, v). v) (filter (\<lambda>(t, c, v). t = evAbs \<and> (c = absMTPositionX \<or> c = absX)) evs)"

definition frame_y :: "event list \<Rightarrow> int list" where
  "frame_y evs = map (\<lambda>(t, c, v). v) (filter (\<lambda>(t, c, v). t = evAbs \<and> (c = absMTPositionY \<or> c = absY)) evs)"

definition contact :: "event \<Rightarrow> bool list" where
  "contact ev = (case ev of (t, c, v) \<Rightarrow>
     if t = evAbs \<and> c = absMTTrackingID then [0 \<le> v] else if t = evKey \<and> c = btnTouch then [v \<noteq> 0] else [])"

definition frame_down :: "event list \<Rightarrow> bool list" where
  "frame_down evs = concat (map contact evs)"

fun frame_taps :: "int \<Rightarrow> int \<Rightarrow> bool \<Rightarrow> event list list \<Rightarrow> (int \<times> int) list" where
  "frame_taps x y down [] = []"
| "frame_taps x y down (fr # frs) =
     (let x' = last_or x (frame_x fr); y' = last_or y (frame_y fr); down' = last_or down (frame_down fr) in
      (if down \<and> \<not> down' then [(x', y')] else []) @ frame_taps x' y' down' frs)"

definition in_frame :: "event \<Rightarrow> bool" where
  "in_frame ev = (fst ev \<noteq> evSyn)"

lemma last_or_append: "last_or d (xs @ ys) = last_or (last_or d xs) ys"
  by (simp add: last_or_def)

lemma touch_codes [simp]:
  "absX \<noteq> absY" "absX \<noteq> absMTPositionY" "absMTPositionX \<noteq> absY" "absMTPositionX \<noteq> absMTPositionY"
  "absMTTrackingID \<noteq> absX" "absMTTrackingID \<noteq> absY" "absMTTrackingID \<noteq> absMTPositionX" "absMTTrackingID \<noteq> absMTPositionY"
  "evAbs \<noteq> evKey" "evAbs \<noteq> evSyn" "evKey \<noteq> evSyn" "evSyn \<noteq> evAbs" "evSyn \<noteq> evKey" "evKey \<noteq> evAbs"
  by (simp_all add: absX_def absY_def absMTPositionX_def absMTPositionY_def absMTTrackingID_def evAbs_def evKey_def evSyn_def)

lemmas touch_codes_sym [simp] = touch_codes[THEN not_sym]

lemma frame_feeds:
  assumes "\<forall>ev\<in>set fr. in_frame ev"
  shows "feeds st fr = st\<lparr>tsX := last_or (tsX st) (frame_x fr), tsY := last_or (tsY st) (frame_y fr),
      tsDown := last_or (tsDown st) (frame_down fr)\<rparr> \<and> reported st fr = []"
  using assms
proof (induction fr arbitrary: st)
  case Nil
  show ?case by (simp add: last_or_def frame_x_def frame_y_def frame_down_def)
next
  case (Cons ev fr)
  obtain t c v where ev: "ev = (t, c, v)" by (cases ev)
  have t: "t \<noteq> evSyn" using Cons.prems ev by (simp add: in_frame_def)
  have f: "feed st ev = (st\<lparr>tsX := last_or (tsX st) (frame_x [ev]), tsY := last_or (tsY st) (frame_y [ev]),
      tsDown := last_or (tsDown st) (frame_down [ev])\<rparr>, False)"
    using t unfolding ev feed_def frame_x_def frame_y_def frame_down_def contact_def last_or_def by auto
  have fx: "frame_x (ev # fr) = frame_x [ev] @ frame_x fr" "frame_y (ev # fr) = frame_y [ev] @ frame_y fr"
    "frame_down (ev # fr) = frame_down [ev] @ frame_down fr" by (simp_all add: frame_x_def frame_y_def frame_down_def)
  show ?case using Cons.IH[of "fst (feed st ev)"] Cons.prems
    unfolding feeds.simps reported.simps f fx last_or_append by simp
qed

lemma taps_of_frames:
  assumes "\<forall>fr\<in>set frs. \<forall>ev\<in>set fr. in_frame ev" "tsWasDown st = tsDown st"
  shows "reported st (concat (map (\<lambda>fr. fr @ [(evSyn, c, v)]) frs)) = frame_taps (tsX st) (tsY st) (tsDown st) frs"
  using assms
proof (induction frs arbitrary: st)
  case (Cons fr frs)
  note f = frame_feeds[of fr st]
  let ?st = "feeds st fr"
  have r: "reported st fr = []" using f Cons.prems by simp
  have s: "feed ?st (evSyn, c, v) = (?st\<lparr>tsWasDown := tsDown ?st\<rparr>, tsWasDown ?st \<and> \<not> tsDown ?st)"
    by (simp add: feed_def)
  have w: "tsWasDown ?st = tsDown st" "tsX ?st = last_or (tsX st) (frame_x fr)" "tsY ?st = last_or (tsY st) (frame_y fr)"
    "tsDown ?st = last_or (tsDown st) (frame_down fr)" using f Cons.prems by simp_all
  have ih: "reported (?st\<lparr>tsWasDown := tsDown ?st\<rparr>) (concat (map (\<lambda>fr. fr @ [(evSyn, c, v)]) frs)) =
      frame_taps (tsX ?st) (tsY ?st) (tsDown ?st) frs"
    using Cons.IH[of "?st\<lparr>tsWasDown := tsDown ?st\<rparr>"] Cons.prems(1) by simp
  show ?case using ih r s w by (simp add: reported_append Let_def)
qed simp

section \<open>Scaling\<close>

lemma absRange_ordered: "absRange d axis = Some (lo, hi) \<Longrightarrow> lo < hi"
  by (auto simp: absRange_def Let_def split: option.splits if_splits)

lemma openTouchDev_ordered: "openTouchDev d = Some t \<Longrightarrow> minX t < maxX t \<and> minY t < maxY t"
  by (auto simp: openTouchDev_def Let_def dest: absRange_ordered split: if_splits option.splits prod.splits)

lemma first_touch_ordered: "first_touch devs is = Some t \<Longrightarrow> minX t < maxX t \<and> minY t < maxY t"
  by (induction "is") (auto dest: openTouchDev_ordered split: option.splits)

lemma openTouch_ordered: "openTouch dc devs = Some t \<Longrightarrow> minX t < maxX t \<and> minY t < maxY t"
  by (auto simp: openTouch_def dest: openTouchDev_ordered first_touch_ordered split: if_splits)

lemma scaled_range:
  fixes lo hi v w :: int
  assumes "lo < hi" "lo \<le> v" "v \<le> hi" "0 \<le> w"
  shows "0 \<le> quot ((v - lo) * w) (hi - lo) \<and> quot ((v - lo) * w) (hi - lo) \<le> w"
proof -
  have p: "0 \<le> (v - lo) * w" "(v - lo) * w \<le> w * (hi - lo)" using assms by (auto simp: mult.commute intro!: mult_left_mono)
  then have q: "quot ((v - lo) * w) (hi - lo) = (v - lo) * w div (hi - lo)" using assms(1) by (simp add: quot_nonneg)
  have "(v - lo) * w div (hi - lo) \<le> w * (hi - lo) div (hi - lo)" using p(2) assms(1) by (intro zdiv_mono1) auto
  moreover have "0 \<le> (v - lo) * w div (hi - lo)" using p(1) assms(1) by (intro pos_imp_zdiv_nonneg_iff[THEN iffD2]) auto
  ultimately show ?thesis using q assms(1) by simp
qed

lemma scale_tap_range:
  assumes "minX t < maxX t" "minY t < maxY t" "0 \<le> w" "0 \<le> h"
    "minX t \<le> fst p" "fst p \<le> maxX t" "minY t \<le> snd p" "snd p \<le> maxY t"
  shows "fst (scale_tap t w h p) \<in> {0..w}" "snd (scale_tap t w h p) \<in> {0..h}"
  using scaled_range[OF assms(1,5,6,3)] scaled_range[OF assms(2,7,8,4)] by (simp_all add: scale_tap_def)

section \<open>Properties\<close>

text \<open>C35: Every frame a dialog puts on the panel is a complete grey image.  Whatever the request, the taps and
  the font, each frame has the size of the buffer and every visible pixel has three equal colour octets and
  an opaque fourth one, and the canvas keeps its geometry.\<close>

theorem dialogs_greyscale:
  assumes "wf_canvas (cv u)" "ask_run F args taps u = (res, u')"
  shows "same_shape (cv u') (cv u) \<and>
    (\<exists>new. frames u' = frames u @ new \<and>
      (\<forall>f\<in>set new. length f = length (cpix (cv u)) \<and>
        (\<forall>x y. visible (cw (cv u)) (ch (cv u)) x y \<longrightarrow> (\<exists>v. pixel4 ((cv u)\<lparr>cpix := f\<rparr>) x y = [v, v, v, 0xff]))))"
proof -
  have "good_frames (cv u) u u'" using ask_run_frames[OF assms(1), of F args taps] assms(2) by simp
  then show ?thesis unfolding good_frames_def grey_def grey4_def by simp
qed

text \<open>Text entry is bounded and does not panic.  On the taps a detected touchscreen delivers inside its
  axis range, scaled to a panel of at least 10 by 11 pixels, the keyboard never panics, and an accepted
  answer has at most 63 characters, all printable if the initial text was.\<close>

theorem text_answer_bounds:
  assumes "openTouch dc devs = Some t" "10 \<le> cw (cv u)" "11 \<le> ch (cv u)"
      and "\<forall>p\<in>set_incoming raws. minX t \<le> fst p \<and> fst p \<le> maxX t \<and> minY t \<le> snd p \<and> snd p \<le> maxY t"
      and "text_dialog F title initial secret (map_incoming (scale_tap t (cw (cv u)) (ch (cv u))) raws) u = (res, u')"
  shows "res \<noteq> Panicked \<and>
    (\<forall>s. res = Answered (Some s) \<longrightarrow> length s \<le> 63 \<and> (secret \<or> printable initial \<longrightarrow> printable s))"
proof -
  let ?taps = "map_incoming (scale_tap t (cw (cv u)) (ch (cv u))) raws"
  have o: "minX t < maxX t" "minY t < maxY t" using openTouch_ordered[OF assms(1)] by auto
  have taps: "\<forall>(x, y)\<in>set_incoming ?taps. 0 \<le> x"
  proof
    fix q
    assume "q \<in> set_incoming ?taps"
    then obtain p where p: "p \<in> set_incoming raws" "q = scale_tap t (cw (cv u)) (ch (cv u)) p"
      by (auto simp: incoming.set_map)
    have "fst q \<in> {0..cw (cv u)}" unfolding p(2)
      using assms(2-4) p(1) by (intro scale_tap_range(1)[OF o]) auto
    then show "case q of (x, y) \<Rightarrow> 0 \<le> x" by (auto split: prod.splits)
  qed
  have ini: "text_ok (secret \<or> printable initial) (if secret then [] else take maxText initial)"
    by (auto simp: text_ok_def maxText_def printable_def dest: in_set_takeD)
  have "fst (res, u') \<noteq> Panicked \<and> (\<forall>s. fst (res, u') = Answered (Some s) \<longrightarrow> text_ok (secret \<or> printable initial) s)"
    unfolding assms(5)[symmetric] text_dialog_def
    by (rule text_loop_safe[OF assms(2,3) taps]) (use ini in simp)
  then show ?thesis by (auto simp: text_ok_def)
qed

text \<open>Menus answer exactly what was tapped.  Every answer is the index of an option whose button, on its
  page, contains one of the taps; and every option can be chosen, by flipping to its page and tapping it.\<close>

theorem menu_exact:
  assumes "82 \<le> cw (cv u)"
  shows "(\<forall>taps i. fst (menu F title opts taps u) = Answered i \<longrightarrow>
            0 \<le> i \<and> i < int (length opts) \<and>
            (\<exists>(x, y)\<in>set_incoming taps. \<exists>p\<ge>0. p * 6 \<le> i \<and> inRect x y 40 (220 + (i - p * 6) * 154) (cw (cv u) - 80) 130)) \<and>
         (\<forall>k. 0 \<le> k \<and> k < int (length opts) \<longrightarrow>
            fst (menu F title opts (recorded (replicate (nat (k div 6)) more_tap @ [option_tap k]) rest) u) = Answered k)"
proof (intro conjI allI impI)
  fix taps i
  assume a: "fst (menu F title opts taps u) = Answered i"
  have g: "mgX (newMenuGeom w n) = 40" "mgW (newMenuGeom w n) = w - 80" "mgH (newMenuGeom w n) = 130"
    "buttonY (newMenuGeom w n) j = 220 + j * 154" "0 < pages (newMenuGeom w n)" for w n j
    by (simp_all add: newMenuGeom_def buttonY_def Let_def)
  from menu_loop_answer[OF a[unfolded menu_def]] g
  show "0 \<le> i" "i < int (length opts)"
    "\<exists>(x, y)\<in>set_incoming taps. \<exists>p\<ge>0. p * 6 \<le> i \<and> inRect x y 40 (220 + (i - p * 6) * 154) (cw (cv u) - 80) 130" by auto
next
  fix k :: int
  assume "0 \<le> k \<and> k < int (length opts)"
  then show "fst (menu F title opts (recorded (replicate (nat (k div 6)) more_tap @ [option_tap k]) rest) u) = Answered k"
    unfolding menu_def using assms by (intro menu_loop_reach) auto
qed

text \<open>C24: The tap detector implements its frame specification.  On a recording of complete frames, the taps
  reported event by event are those of the abstract detector that sees only, per frame, the last position
  and the last contact state: a tap is reported when the contact was down at the end of one frame and is up
  at the end of the next, at the position of that frame.\<close>

theorem touch_refines_frames:
  assumes "\<forall>fr\<in>set frs. \<forall>ev\<in>set fr. fst ev \<noteq> evSyn" "tsWasDown st = tsDown st"
  shows "reported st (concat (map (\<lambda>fr. fr @ [(evSyn, c, v)]) frs)) = frame_taps (tsX st) (tsY st) (tsDown st) frs"
  using assms by (intro taps_of_frames) (simp_all add: in_frame_def)

text \<open>A small panel, a touchscreen with both axes and a recording of one touch.\<close>

definition no_font :: font where "no_font s = None"

definition small_ui :: ui where
  "small_ui = \<lparr>cv = newCanvas 2 2 8, frames = []\<rparr>"

definition wide_ui :: ui where
  "wide_ui = \<lparr>cv = \<lparr>cw = 1200, ch = 1600, cstride = 4864, cpix = []\<rparr>, frames = []\<rparr>"

definition sample_input :: "string \<Rightarrow> input_dev" where
  "sample_input path = \<lparr>idOpens = True, idBits = Some [3, 0, 0, 0, 0, 0, 0, 0],
     idAbs = (\<lambda>_. Some (put32 0 @ put32 0 @ put32 16384 @ put32 0 @ put32 0 @ put32 0))\<rparr>"

theorem dialogs_greyscale_witness:
  "same_shape (cv (snd (ask_run no_font [''info'', ''T''] (Arrives (1, 1) ReadFails) small_ui))) (cv small_ui)"
proof -
  have "wf_canvas (cv small_ui)" by (simp add: small_ui_def newCanvas_def wf_canvas_def)
  from dialogs_greyscale[OF this prod.collapse[symmetric], of no_font "[''info'', ''T'']" "Arrives (1, 1) ReadFails"] show ?thesis by blast
qed

theorem text_answer_bounds_witness:
  "fst (text_dialog no_font ''T'' ''abc'' False (Arrives (1199, 1599) Silent) wide_ui) \<noteq> Panicked"
proof -
  have t: "openTouch [] sample_input = Some \<lparr>minX = 0, maxX = 16384, minY = 0, maxY = 16384,
      tst = \<lparr>tsX = 0, tsY = 0, tsDown = False, tsWasDown = False\<rparr>\<rparr>" by code_simp
  have s: "scale_tap \<lparr>minX = 0, maxX = 16384, minY = 0, maxY = 16384,
      tst = \<lparr>tsX = 0, tsY = 0, tsDown = False, tsWasDown = False\<rparr>\<rparr> 1200 1600 (16383, 16383) = (1199, 1599)"
    by code_simp
  show ?thesis
    using text_answer_bounds[OF t, of wide_ui "Arrives (16383, 16383) Silent" no_font "''T''" "''abc''" False, OF _ _ _ prod.collapse[symmetric]] s
    by (simp add: wide_ui_def)
qed

theorem menu_exact_witness:
  "fst (menu no_font ''T'' [''a'', ''b''] (Arrives (option_tap 1) Silent) wide_ui) = Answered 1"
  using menu_exact[of wide_ui no_font "''T''" "[''a'', ''b'']" Silent] by (simp add: wide_ui_def)

theorem touch_refines_frames_witness:
  "reported \<lparr>tsX = 0, tsY = 0, tsDown = False, tsWasDown = False\<rparr>
     ([(evAbs, absX, 5), (evAbs, absY, 6), (evKey, btnTouch, 1)] @ [(evSyn, 0, 0)] @ [(evKey, btnTouch, 0)] @ [(evSyn, 0, 0)])
   = frame_taps 0 0 False [[(evAbs, absX, 5), (evAbs, absY, 6), (evKey, btnTouch, 1)], [(evKey, btnTouch, 0)]]"
  using touch_refines_frames[of "[[(evAbs, absX, 5), (evAbs, absY, 6), (evKey, btnTouch, 1)], [(evKey, btnTouch, 0)]]"
     "\<lparr>tsX = 0, tsY = 0, tsDown = False, tsWasDown = False\<rparr>" 0 0] by simp

end
