(* ===== verification/Dialog.thy ===== *)
theory Dialog
  imports Installerinit Touch
begin

text \<open>
  The dialog protocol between \<^verbatim>\<open>dc1-ask\<close> and PID 1: the server (\<^verbatim>\<open>installerinit/dialog.go\<close> and the
  closure \<^verbatim>\<open>run\<close> of \<^verbatim>\<open>installerinit.go\<close>), the in-process screen (\<^verbatim>\<open>ask/screen.go\<close>), the client
  (\<^verbatim>\<open>ask/dialog.go\<close> and \<^verbatim>\<open>Main\<close> of \<^verbatim>\<open>ask/ask.go\<close>), and the mutex the server shares with the status
  painter.  A request is what the JSON decoder made of the connection, \<open>None\<close> for a decoding error,
  together with what reading the touchscreen gives while it is served: records, and then an error of the read or,
  as long as nobody taps, nothing, and the dialog waits with the mutex held.
\<close>

section \<open>Server and client\<close>

record dialog_server =
  paintMu :: bool
  panel :: ui

record request =
  rqArgs :: "string list option"
  rqEvents :: "bytes incoming"

datatype served = Reply int string string | Dropped | Blocked | Waiting

lemma raw_tap_shorter: "raw_tap st bs = Tapped (st', rest) \<Longrightarrow> length (arrived rest) < length (arrived bs)"
  by (induction bs arbitrary: st) (auto split: prod.splits if_splits dest: less_SucI)

text \<open>The taps a screen bound to the panel delivers.\<close>

function bound_taps :: "touch \<Rightarrow> int \<Rightarrow> int \<Rightarrow> bytes incoming \<Rightarrow> taps" where
  "bound_taps t w h bs =
     (case tap t w h bs of
        Tapped (p, t', rest) \<Rightarrow> Arrives p (bound_taps t' w h rest) | TapError \<Rightarrow> ReadFails | NoTapYet \<Rightarrow> Silent)"
  by pat_completeness auto
termination
  by (relation "measure (\<lambda>(t, w, h, bs). length (arrived bs))")
    (auto simp: tap_def rawTap_def dest: raw_tap_shorter split: tap_result.splits prod.splits)

declare bound_taps.simps [simp del]

definition Screen_Run :: "font \<Rightarrow> touch \<Rightarrow> string list \<Rightarrow> bytes incoming \<Rightarrow> ui \<Rightarrow> run_result \<times> ui" where
  "Screen_Run F t args evs u = ask_run F args (bound_taps t (cw (cv u)) (ch (cv u)) evs) u"

definition dialog_run ::
  "font \<Rightarrow> string \<Rightarrow> (string \<Rightarrow> input_dev) \<Rightarrow> string list \<Rightarrow> bytes incoming \<Rightarrow> dialog_server \<Rightarrow> served \<times> dialog_server" where
  "dialog_run F dc1_input devs args evs srv =
     (case openTouch dc1_input devs of
        None \<Rightarrow> (Reply 2 [] ''dc1-ask: no touchscreen'', srv)
      | Some t \<Rightarrow>
          if paintMu srv then (Blocked, srv)
          else (case Screen_Run F t args evs (panel srv) of
                  (Exits rc outS errS, u) \<Rightarrow> (Reply rc outS errS, srv\<lparr>panel := u\<rparr>)
                | (StillWaiting, u) \<Rightarrow> (Waiting, \<lparr>paintMu = True, panel = u\<rparr>)
                | (RunPanics, u) \<Rightarrow> (Dropped, \<lparr>paintMu = True, panel = u\<rparr>)))"

definition serveOne ::
  "font \<Rightarrow> string \<Rightarrow> (string \<Rightarrow> input_dev) \<Rightarrow> request \<Rightarrow> dialog_server \<Rightarrow> served \<times> dialog_server" where
  "serveOne F dc1_input devs q srv =
     (case rqArgs q of None \<Rightarrow> (Dropped, srv) | Some args \<Rightarrow> dialog_run F dc1_input devs args (rqEvents q) srv)"

text \<open>Connections are served one after the other, so one that blocks or waits for a tap leaves the later ones without
  service so far.\<close>

fun accept_loop ::
  "font \<Rightarrow> string \<Rightarrow> (string \<Rightarrow> input_dev) \<Rightarrow> request list \<Rightarrow> dialog_server \<Rightarrow> served list \<times> dialog_server" where
  "accept_loop F dc1_input devs [] srv = ([], srv)"
| "accept_loop F dc1_input devs (q # qs) srv =
     (case serveOne F dc1_input devs q srv of (r, srv') \<Rightarrow>
        if r = Blocked \<or> r = Waiting then (r # replicate (length qs) Blocked, srv')
        else (case accept_loop F dc1_input devs qs srv' of (rs, srv'') \<Rightarrow> (r # rs, srv'')))"

definition serveDialogs ::
  "font \<Rightarrow> string \<Rightarrow> (string \<Rightarrow> input_dev) \<Rightarrow> string option \<Rightarrow> request list \<Rightarrow> dialog_server \<Rightarrow> served list \<times> dialog_server" where
  "serveDialogs F dc1_input devs listen_err qs srv =
     (case listen_err of Some _ \<Rightarrow> (map (\<lambda>_. Dropped) qs, srv) | None \<Rightarrow> accept_loop F dc1_input devs qs srv)"

text \<open>The client: what \<^verbatim>\<open>dc1-ask\<close> does, given what the server makes of its request.\<close>

definition dialog_client :: "served \<Rightarrow> (int \<times> string \<times> string) option" where
  "dialog_client sv = (case sv of Reply rc outS errS \<Rightarrow> Some (rc, outS, errS) | _ \<Rightarrow> None)"

datatype ask_result = AskProbe "string list" | AskTouchprobe "string list" | AskExit int string string | AskHangs

definition ask_Main :: "(string list \<Rightarrow> served) \<Rightarrow> string list \<Rightarrow> ask_result" where
  "ask_Main server args =
     (if args \<noteq> [] \<and> hd args = ''probe'' then AskProbe (tl args)
      else if args \<noteq> [] \<and> hd args = ''touchprobe'' then AskTouchprobe (tl args)
      else if length args < 2 then AskExit 2 [] (''usage: dc1-ask menu|text|secret|info|probe|touchprobe TITLE ...'' @ nl)
      else if server args = Blocked \<or> server args = Waiting then AskHangs
      else (case dialog_client (server args) of
              Some (rc, outS, errS) \<Rightarrow> AskExit rc outS errS
            | None \<Rightarrow> AskExit 2 [] (''dc1-ask: no display'' @ nl)))"

text \<open>The status loop's view of the mutex.\<close>

definition lock_env :: "dialog_server \<Rightarrow> ienv \<Rightarrow> ienv" where
  "lock_env srv env = (\<lambda>tr oper. if oper = ITryLock then IBool (\<not> paintMu srv) else env tr oper)"

section \<open>The taps of a screen\<close>

definition reported_taps :: "touch \<Rightarrow> bytes incoming \<Rightarrow> (int \<times> int) list" where
  "reported_taps t evs = reported (tst t) (map decodeEvent (arrived evs))"

lemma raw_tap_reported:
  "(case raw_tap st bs of
      Tapped (st', rest) \<Rightarrow> reported st (map decodeEvent (arrived bs)) = (tsX st', tsY st') # reported st' (map decodeEvent (arrived rest)) \<and>
        read_fails rest = read_fails bs
    | TapError \<Rightarrow> reported st (map decodeEvent (arrived bs)) = [] \<and> read_fails bs
    | NoTapYet \<Rightarrow> reported st (map decodeEvent (arrived bs)) = [] \<and> \<not> read_fails bs)"
proof (induction bs arbitrary: st)
  case (Arrives b bs)
  obtain st1 fin where f: "feed st (decodeEvent b) = (st1, fin)" by (cases "feed st (decodeEvent b)")
  show ?case
  proof (cases fin)
    case False
    then have "raw_tap st (Arrives b bs) = raw_tap st1 bs"
      "reported st (map decodeEvent (arrived (Arrives b bs))) = reported st1 (map decodeEvent (arrived bs))"
      using f by simp_all
    then show ?thesis using Arrives.IH[of st1] by (simp only: read_fails.simps)
  qed (simp add: f)
qed simp_all

lemma rawTap_reported:
  "(case rawTap t bs of
      Tapped (p, t', rest) \<Rightarrow> reported_taps t bs = p # reported_taps t' rest \<and> read_fails rest = read_fails bs \<and> (\<exists>st. t' = t\<lparr>tst := st\<rparr>)
    | TapError \<Rightarrow> reported_taps t bs = [] \<and> read_fails bs
    | NoTapYet \<Rightarrow> reported_taps t bs = [] \<and> \<not> read_fails bs)"
  using raw_tap_reported[of "tst t" bs]
  by (auto simp: rawTap_def reported_taps_def split: tap_result.splits prod.splits)

lemma scale_tap_state [simp]: "scale_tap (t\<lparr>tst := st\<rparr>) w h = scale_tap t w h"
  by (simp add: scale_tap_def fun_eq_iff)

lemma bound_taps_reported:
  "arrived (bound_taps t w h bs) = map (scale_tap t w h) (reported_taps t bs) \<and>
   read_fails (bound_taps t w h bs) = read_fails bs"
proof (induction t w h bs rule: bound_taps.induct)
  case (1 t w h bs)
  show ?case
  proof (cases "rawTap t bs")
    case (Tapped r)
    obtain p t' rest where r: "r = (p, t', rest)" by (cases r)
    have e: "tap t w h bs = Tapped (scale_tap t w h p, t', rest)" by (simp add: tap_def Tapped r)
    show ?thesis using rawTap_reported[of t bs] 1[OF e refl refl] by (auto simp: bound_taps.simps[of t w h bs] e Tapped r)
  qed (use rawTap_reported[of t bs] in \<open>simp_all add: bound_taps.simps[of t] tap_def\<close>)
qed

definition in_range :: "touch \<Rightarrow> int \<times> int \<Rightarrow> bool" where
  "in_range t p \<longleftrightarrow> minX t \<le> fst p \<and> fst p \<le> maxX t \<and> minY t \<le> snd p \<and> snd p \<le> maxY t"

section \<open>Which requests are answered, and how\<close>

text \<open>A request settles when it shows no dialog, when reading the touchscreen fails, or when one of the taps is on the
  button that leaves its dialog.\<close>

definition settles :: "touch \<Rightarrow> int \<Rightarrow> int \<Rightarrow> string list \<Rightarrow> bytes incoming \<Rightarrow> bool" where
  "settles t w h args evs \<longleftrightarrow>
     (case args of
        mode # title # rest \<Rightarrow>
          mode \<notin> {''menu'', ''text'', ''secret'', ''info''} \<or> mode = ''menu'' \<and> rest = [] \<or> read_fails evs \<or>
          list_ex (\<lambda>p. exit_button mode w h (scale_tap t w h p)) (reported_taps t evs)
      | _ \<Rightarrow> False)"

text \<open>The answer the command line contract asks for; 2 on a usable request only if the read failed.\<close>

definition fitting :: "string list \<Rightarrow> bytes incoming \<Rightarrow> int \<Rightarrow> string \<Rightarrow> bool" where
  "fitting args evs rc outS \<longleftrightarrow>
     (case args of
        mode # title # rest \<Rightarrow>
          if mode \<notin> {''menu'', ''text'', ''secret'', ''info''} \<or> mode = ''menu'' \<and> rest = [] then rc = 2 \<and> outS = []
          else rc = 2 \<and> outS = [] \<and> read_fails evs \<or>
            (if mode = ''menu'' then rc = 0 \<and> (\<exists>i. 0 \<le> i \<and> i < int (length rest) \<and> outS = dec_int i @ nl)
             else if mode = ''info'' then rc = 0 \<and> outS = []
             else rc = 1 \<and> outS = [] \<or> rc = 0 \<and> (\<exists>a. length a \<le> 63 \<and> outS = a @ nl))
      | _ \<Rightarrow> False)"

lemma ask_run_settles:
  assumes "args = mode # title # rest" "wf_canvas (cv u)" "10 \<le> cw (cv u)" "11 \<le> ch (cv u)"
      and "\<forall>p\<in>set_incoming taps. 0 \<le> fst p" "read_fails taps = read_fails evs"
      and "mode \<in> {''menu'', ''text'', ''secret'', ''info''} \<Longrightarrow> \<not> (mode = ''menu'' \<and> rest = []) \<Longrightarrow> \<not> read_fails evs \<Longrightarrow>
             \<exists>p\<in>set_incoming taps. exit_button mode (cw (cv u)) (ch (cv u)) p"
  shows "\<exists>rc outS errS u'. ask_run F args taps u = (Exits rc outS errS, u') \<and> fitting args evs rc outS"
proof -
  consider "mode \<notin> {''menu'', ''text'', ''secret'', ''info''} \<or> mode = ''menu'' \<and> rest = []" | "mode = ''menu''" "rest \<noteq> []"
    | "mode = ''text'' \<or> mode = ''secret''" | "mode = ''info''" by blast
  then show ?thesis
  proof cases
    case 1
    then show ?thesis by (auto simp: ask_run_def fitting_def assms(1))
  next
    case 2
    obtain r u' where m: "menu F title rest taps u = (r, u')" by fastforce
    then have "(\<exists>i. 0 \<le> i \<and> i < int (length rest) \<and> r = Answered i) \<or> r = TapFailed \<and> read_fails evs"
      using menu_leaves[OF 2(2), of F title taps u "ch (cv u)"] assms(6,7) 2 by (auto simp: unanswered_def)
    then show ?thesis using m 2 by (auto simp: ask_run_def fitting_def assms(1))
  next
    case 3
    let ?i = "if mode = ''text'' \<and> rest \<noteq> [] then hd rest else []"
    obtain r u' where t: "text_dialog F title ?i (mode = ''secret'') taps u = (r, u')" by fastforce
    have mode: "mode \<noteq> ''menu''" "mode \<noteq> ''info''" using 3 by auto
    let ?e = "\<lparr>buf = (if mode = ''secret'' then [] else take maxText ?i), layer = 0, shifted = 0\<rparr> :: editor"
    have r: "r = fst (text_loop F (kbGeometry (cw (cv u)) (ch (cv u))) title (mode = ''secret'') ?e taps u)"
      using t unfolding text_dialog_def by simp
    have "text_ok False (buf ?e)" by (simp add: text_ok_def maxText_def)
    moreover have "\<forall>(x, y)\<in>set_incoming taps. 0 \<le> x" using assms(5) by auto
    ultimately have len: "length a \<le> 63" if "r = Answered (Some a)" for a
      using text_loop_safe[OF assms(3,4), of taps False ?e F title "mode = ''secret''" u] that unfolding r text_ok_def by blast
    have "(\<exists>a. r = Answered a) \<or> unanswered r (exit_button mode (cw (cv u)) (ch (cv u))) taps"
      unfolding r by (rule text_loop_leaves[OF assms(3-5,2) refl mode])
    then have "(\<exists>a. r = Answered a) \<or> r = TapFailed \<and> read_fails evs"
      using assms(6,7) 3 mode by (auto simp: unanswered_def)
    then consider "r = Answered None" | a where "r = Answered (Some a)" "length a \<le> 63" | "r = TapFailed" "read_fails evs"
      using len by (metis option.exhaust)
    then show ?thesis using t 3 mode by cases (auto simp: ask_run_def fitting_def assms(1))
  next
    case 4
    obtain r u' where i: "info F title rest taps u = (r, u')" by fastforce
    then have "r = Answered () \<or> r = TapFailed \<and> read_fails evs"
      using info_leaves[of F title rest taps u] assms(6,7) 4 by (auto simp: unanswered_def)
    then show ?thesis using i 4 by (auto simp: ask_run_def fitting_def assms(1))
  qed
qed

lemma Screen_Run_settles:
  assumes "openTouch dc devs = Some t" "wf_canvas (cv u)" "10 \<le> cw (cv u)" "11 \<le> ch (cv u)"
      and "list_all (in_range t) (reported_taps t evs)" "settles t (cw (cv u)) (ch (cv u)) args evs"
  shows "\<exists>rc outS errS u'. Screen_Run F t args evs u = (Exits rc outS errS, u') \<and> fitting args evs rc outS"
proof -
  let ?taps = "bound_taps t (cw (cv u)) (ch (cv u)) evs"
  obtain mode title rest where a: "args = mode # title # rest" using assms(6) by (auto simp: settles_def split: list.splits)
  have o: "minX t < maxX t" "minY t < maxY t" using openTouch_ordered[OF assms(1)] by auto
  have s: "set_incoming ?taps = scale_tap t (cw (cv u)) (ch (cv u)) ` set (reported_taps t evs)"
    using bound_taps_reported by (simp add: set_incoming_arrived)
  have "fst (scale_tap t (cw (cv u)) (ch (cv u)) p) \<in> {0..cw (cv u)}" if "in_range t p" for p
    using that assms(3,4) by (intro scale_tap_range(1)[OF o]) (auto simp: in_range_def)
  then have n: "\<forall>p\<in>set_incoming ?taps. 0 \<le> fst p" using assms(5) unfolding s by (auto simp: list_all_iff)
  show ?thesis unfolding Screen_Run_def
    by (rule ask_run_settles[OF a assms(2-4) n])
      (use assms(6) a s bound_taps_reported in \<open>auto simp: settles_def list_ex_iff\<close>)
qed

section \<open>The server\<close>

lemma Screen_Run_shape: "wf_canvas (cv u) \<Longrightarrow> same_shape (cv (snd (Screen_Run F t args evs u))) (cv u)"
  using ask_run_frames unfolding Screen_Run_def good_frames_def by blast

definition server_ok :: "dialog_server \<Rightarrow> bool" where
  "server_ok srv \<longleftrightarrow> \<not> paintMu srv \<and> wf_canvas (cv (panel srv)) \<and> 10 \<le> cw (cv (panel srv)) \<and> 11 \<le> ch (cv (panel srv))"

definition proper :: "touch \<Rightarrow> int \<Rightarrow> int \<Rightarrow> request \<Rightarrow> bool" where
  "proper t w h q \<longleftrightarrow> (case rqArgs q of None \<Rightarrow> False | Some args \<Rightarrow> settles t w h args (rqEvents q)) \<and>
     list_all (in_range t) (reported_taps t (rqEvents q))"

definition answered :: "request \<Rightarrow> served \<Rightarrow> bool" where
  "answered q r \<longleftrightarrow> (case (rqArgs q, r) of (Some args, Reply rc outS _) \<Rightarrow> fitting args (rqEvents q) rc outS | _ \<Rightarrow> False)"

lemma serveOne_answers:
  assumes "openTouch dc devs = Some t" "server_ok srv" "proper t (cw (cv (panel srv))) (ch (cv (panel srv))) q"
  shows "\<exists>r srv'. serveOne F dc devs q srv = (r, srv') \<and> answered q r \<and> server_ok srv' \<and> same_shape (cv (panel srv')) (cv (panel srv))"
proof -
  obtain args where a: "rqArgs q = Some args" using assms(3) by (auto simp: proper_def split: option.splits)
  have p: "list_all (in_range t) (reported_taps t (rqEvents q))"
      "settles t (cw (cv (panel srv))) (ch (cv (panel srv))) args (rqEvents q)"
    using assms(3) a by (simp_all add: proper_def)
  have s: "\<not> paintMu srv" "wf_canvas (cv (panel srv))" "10 \<le> cw (cv (panel srv))" "11 \<le> ch (cv (panel srv))"
    using assms(2) by (simp_all add: server_ok_def)
  obtain rc outS errS u where r: "Screen_Run F t args (rqEvents q) (panel srv) = (Exits rc outS errS, u)" "fitting args (rqEvents q) rc outS"
    using Screen_Run_settles[OF assms(1) s(2-4) p] by blast
  have sh: "same_shape (cv u) (cv (panel srv))" using Screen_Run_shape[OF s(2), of F t args "rqEvents q"] r(1) by simp
  have "wf_canvas (cv u)" using sh s(2) same_shape_wf by blast
  then have "server_ok (srv\<lparr>panel := u\<rparr>)" using sh s by (simp add: server_ok_def same_shape_def)
  moreover have "serveOne F dc devs q srv = (Reply rc outS errS, srv\<lparr>panel := u\<rparr>)"
    by (simp add: serveOne_def a dialog_run_def assms(1) s(1) r(1))
  moreover have "answered q (Reply rc outS errS)" using r(2) a by (simp add: answered_def)
  moreover have "same_shape (cv (panel (srv\<lparr>panel := u\<rparr>))) (cv (panel srv))" using sh by simp
  ultimately show ?thesis by blast
qed

lemma accept_loop_answers:
  assumes "openTouch dc devs = Some t" "server_ok srv" "\<forall>q\<in>set qs. proper t w h q" "cw (cv (panel srv)) = w" "ch (cv (panel srv)) = h"
  shows "list_all2 answered qs (fst (accept_loop F dc devs qs srv)) \<and> server_ok (snd (accept_loop F dc devs qs srv))"
  using assms(2-)
proof (induction qs arbitrary: srv)
  case (Cons q qs)
  obtain r srv' where r: "serveOne F dc devs q srv = (r, srv')" "answered q r" "server_ok srv'" "same_shape (cv (panel srv')) (cv (panel srv))"
    using serveOne_answers[OF assms(1) Cons.prems(1), of q F] Cons.prems(2-4) by auto
  have "r \<noteq> Blocked" "r \<noteq> Waiting" using r(2) by (auto simp: answered_def split: option.splits)
  then show ?case using Cons.IH[OF r(3)] Cons.prems(2-4) r by (auto simp: split_beta same_shape_def)
qed simp

text \<open>As long as nobody taps, a dialog waits, and the mutex stays held.\<close>

lemma serveOne_waits:
  assumes "openTouch dc devs = Some t" "\<not> paintMu srv" "rqEvents q = Silent" "rqArgs q = Some (''info'' # title # ls)"
  shows "fst (serveOne F dc devs q srv) = Waiting \<and> paintMu (snd (serveOne F dc devs q srv))"
proof -
  have "bound_taps t w h Silent = Silent" for w h by (simp add: bound_taps.simps tap_def rawTap_def)
  then show ?thesis using assms
    by (simp add: serveOne_def dialog_run_def Screen_Run_def ask_run_def info_def Let_def split: prod.splits)
qed

text \<open>A held mutex: every later request blocks and the status screen is not repainted.\<close>

lemma serveOne_locked:
  assumes "openTouch dc devs = Some t" "paintMu srv" "rqArgs q \<noteq> None"
  shows "serveOne F dc devs q srv = (Blocked, srv)"
  using assms by (auto simp: serveOne_def dialog_run_def)

lemma accept_loop_locked:
  assumes "openTouch dc devs = Some t" "paintMu srv" "\<forall>q\<in>set qs. rqArgs q \<noteq> None"
  shows "accept_loop F dc devs qs srv = (replicate (length qs) Blocked, srv)"
  using assms by (cases qs) (auto simp: serveOne_locked)

definition blits :: "iop \<Rightarrow> bool" where
  "blits oper = (case oper of IBlit _ \<Rightarrow> True | _ \<Rightarrow> False)"

lemma status_loop_locked:
  assumes "paintMu srv"
  shows "only (\<lambda>e. \<not> blits (fst e)) (status_loop (lock_env srv env) F surface tick n)"
proof (induction n arbitrary: tick)
  case (Suc n)
  have d: "only (\<lambda>e. \<not> blits (fst e)) (i_do (lock_env srv env) oper)" if "\<not> blits oper" for oper
    unfolding i_do_def using that by (intro only_intros) simp
  have p: "only (\<lambda>e. \<not> blits (fst e)) (paint_once (lock_env srv env) F c tick status)" for c status
    unfolding paint_once_def using assms
    by (intro only_act_bind) (simp_all add: lock_env_def i_true_def blits_def)
  have y: "only (\<lambda>e. \<not> blits (fst e)) (i_say (lock_env srv env) m)" for m
    unfolding i_say_def by (rule d) (simp add: blits_def)
  show ?case unfolding status_loop.simps
    by (intro only_intros p y d Suc.IH) (simp_all add: blits_def)
qed simp

lemma serveOne_panics:
  assumes "openTouch dc devs = Some t" "\<not> paintMu srv" "rqArgs q = Some args" "length args < 2"
  shows "serveOne F dc devs q srv = (Dropped, srv\<lparr>paintMu := True\<rparr>)"
proof -
  have "Screen_Run F t args (rqEvents q) (panel srv) = (RunPanics, panel srv)"
    using assms(4) by (cases args; cases "tl args") (auto simp: Screen_Run_def ask_run_def)
  then show ?thesis using assms by (simp add: serveOne_def dialog_run_def)
qed

section \<open>Properties\<close>


text \<open>C36: A request that panics wedges the server.  A decodable request with fewer than two arguments panics
  in the dispatch; the panic is recovered, but the mutex stays locked: the connection is closed without an
  answer, every later request blocks for ever, its \<^verbatim>\<open>dc1-ask\<close> client hangs instead of exiting with 2, and the
  status loop never puts another frame on the panel.\<close>

theorem dialog_panic_wedges:
  assumes "openTouch dc devs = Some t" "\<not> paintMu srv" "rqArgs q = Some args" "length args < 2"
      and "\<forall>q'\<in>set qs. rqArgs q' \<noteq> None"
  shows "fst (serveDialogs F dc devs None (q # qs) srv) = Dropped # replicate (length qs) Blocked \<and>
    map (\<lambda>sv. ask_Main (\<lambda>_. sv) [''info'', title]) (tl (fst (serveDialogs F dc devs None (q # qs) srv))) = replicate (length qs) AskHangs \<and>
    only (\<lambda>e. \<not> blits (fst e))
      (status_loop (lock_env (snd (serveDialogs F dc devs None (q # qs) srv)) env) F (Some c) tick n)"
proof -
  have s: "serveDialogs F dc devs None (q # qs) srv = (Dropped # replicate (length qs) Blocked, srv\<lparr>paintMu := True\<rparr>)"
    by (simp add: serveDialogs_def serveOne_panics[OF assms(1-4)] accept_loop_locked[OF assms(1) _ assms(5)])
  have h: "ask_Main (\<lambda>_. Blocked) [''info'', title] = AskHangs" by (simp add: ask_Main_def)
  show ?thesis unfolding s using h status_loop_locked[of "srv\<lparr>paintMu := True\<rparr>"] by (simp add: map_replicate_const)
qed

text \<open>A panel, a touchscreen and one request of each kind.\<close>

definition sample_server :: dialog_server where
  "sample_server = \<lparr>paintMu = False, panel = \<lparr>cv = newCanvas 10 11 40, frames = []\<rparr>\<rparr>"

lemma sample_touch: "openTouch [] sample_input = Some \<lparr>minX = 0, maxX = 16384, minY = 0, maxY = 16384,
    tst = \<lparr>tsX = 0, tsY = 0, tsDown = False, tsWasDown = False\<rparr>\<rparr>"
  by code_simp

text \<open>One touch and release, at a position in raw units, as the records of the device.\<close>

definition event_record :: "u16 \<Rightarrow> u16 \<Rightarrow> u32 \<Rightarrow> bytes" where
  "event_record typ code val = replicate 16 0 @ put16 typ @ put16 code @ put32 val"

definition touch_records :: "u32 \<Rightarrow> u32 \<Rightarrow> bytes list" where
  "touch_records x y =
     [event_record evAbs absX x, event_record evAbs absY y, event_record evKey btnTouch 1, event_record evSyn 0 0,
      event_record evKey btnTouch 0, event_record evSyn 0 0]"

definition big_server :: dialog_server where
  "big_server = \<lparr>paintMu = False, panel = \<lparr>cv = newCanvas 1200 1600 4800, frames = []\<rparr>\<rparr>"


theorem dialog_panic_wedges_witness:
  "fst (serveDialogs no_font [] sample_input None
     [\<lparr>rqArgs = Some [''info''], rqEvents = Silent\<rparr>, \<lparr>rqArgs = Some [''info'', ''T''], rqEvents = Silent\<rparr>] sample_server) = [Dropped, Blocked]"
  using dialog_panic_wedges[OF sample_touch, of sample_server "\<lparr>rqArgs = Some [''info''], rqEvents = Silent\<rparr>" "[''info'']"
    "[\<lparr>rqArgs = Some [''info'', ''T''], rqEvents = Silent\<rparr>]" no_font "''T''" "\<lambda>_ _. IOk" "newCanvas 0 0 0" 0 0]
  by (simp add: sample_server_def)

end
