(* ===== verification/Applets.thy ===== *)
theory Applets
  imports Installd Dialog Go_Flag
begin

text \<open>
  The multi-call binary (\<^verbatim>\<open>installer/gotools/main.go\<close>): which applet a process runs, and with which arguments; and
  the outermost program of the installer daemon (\<^verbatim>\<open>Main\<close> of \<^verbatim>\<open>installd.go\<close>): its flags and the loop that serves
  one connection after the other.  What the listener accepts is a list, one entry per return of
  \<^verbatim>\<open>Accept\<close>, together with what the system does during that session.
\<close>

section \<open>Dispatch\<close>

datatype applet =
    BootctlApplet | RebootFastbootApplet | AskApplet | DebugApplet | InstalldApplet | InstallerInitApplet | SystemInitApplet

definition applets :: "(string \<times> applet) list" where
  "applets =
     [(''bootctl'', BootctlApplet), (''dc1-reboot-fastboot'', RebootFastbootApplet), (''dc1-ask'', AskApplet),
      (''dc1-debug'', DebugApplet), (''dc1-installd'', InstalldApplet), (''init'', InstallerInitApplet),
      (''system-init'', SystemInitApplet), (''dc1-installer-init'', InstallerInitApplet)]"

datatype dispatched = RunApplet applet "string list" | NoApplet | UnknownApplet string | NoArgs

text \<open>The link name first, then an explicit subcommand; a process without any argument string panics.\<close>

definition dispatch :: "string list \<Rightarrow> dispatched" where
  "dispatch argv =
     (case argv of
        [] \<Rightarrow> NoArgs
      | a0 # args \<Rightarrow>
          (case map_of applets (Base a0) of
             Some ap \<Rightarrow> RunApplet ap args
           | None \<Rightarrow>
               (case args of
                  [] \<Rightarrow> NoApplet
                | name # rest \<Rightarrow>
                    (case map_of applets name of Some ap \<Rightarrow> RunApplet ap rest | None \<Rightarrow> UnknownApplet name))))"

definition exit_status :: "(applet \<Rightarrow> string list \<Rightarrow> int) \<Rightarrow> string list \<Rightarrow> int" where
  "exit_status run_applet argv = (case dispatch argv of RunApplet ap args \<Rightarrow> run_applet ap args | _ \<Rightarrow> 2)"

section \<open>The daemon\<close>

record id_opts =
  id_listen :: string
  id_finalize :: string
  id_once :: bool

definition id_flags :: flag_decls where
  "id_flags = [(''listen'', StringFlag), (''finalize'', StringFlag), (''once'', BoolFlag)]"

fun id_set :: "id_opts \<Rightarrow> string \<times> flag_val \<Rightarrow> id_opts" where
  "id_set q (n, SVal v) = (if n = ''listen'' then q\<lparr>id_listen := v\<rparr> else q\<lparr>id_finalize := v\<rparr>)"
| "id_set q (n, BVal b) = q\<lparr>id_once := b\<rparr>"

definition finalizePath :: string where "finalizePath = ''/etc/installer/finalize.sh''"

definition id_parse :: "string list \<Rightarrow> id_opts option" where
  "id_parse args =
     (case parse_flags id_flags args of
        Inl _ \<Rightarrow> None
      | Inr (sets, _) \<Rightarrow> Some (foldl id_set \<lparr>id_listen = ''172.16.42.1:5555'', id_finalize = finalizePath, id_once = False\<rparr> sets))"

datatype 'd accepted = AcceptError | Connection "'d inst_env" "bytes list" io_error

text \<open>The loop: the conversations of the served connections, and the status when it returns.  It returns
  only with \<^verbatim>\<open>-once\<close>; without a status it waits in \<^verbatim>\<open>Accept\<close>, or for ever in a session that hangs.\<close>

fun listen_loop :: "'d Target \<Rightarrow> string \<Rightarrow> bool \<Rightarrow> 'd accepted list \<Rightarrow> 'd sess \<Rightarrow> reply list list \<times> 'd sess \<times> int option" where
  "listen_loop T fin once [] st = ([], st, None)"
| "listen_loop T fin once (AcceptError # xs) st = listen_loop T fin once xs st"
| "listen_loop T fin once (Connection env conn e # xs) st =
     (let st' = serve T env fin conn e (st\<lparr>replies := []\<rparr>) in
      if hung st' then ([replies st'], st', None)
      else if once then ([replies st'], st', Some 0)
      else (case listen_loop T fin once xs st' of (logs, r) \<Rightarrow> (replies st' # logs, r)))"

definition installd_Main :: "'d Target \<Rightarrow> bool \<Rightarrow> string list \<Rightarrow> 'd accepted list \<Rightarrow> 'd sess \<Rightarrow> reply list list \<times> 'd sess \<times> int option" where
  "installd_Main T listens args xs st =
     (case id_parse args of
        None \<Rightarrow> ([], st, Some 2)
      | Some q \<Rightarrow> if \<not> listens then ([], st, Some 1) else listen_loop T (id_finalize q) (id_once q) xs st)"

section \<open>Every client is served\<close>

fun is_client :: "'d accepted \<Rightarrow> bool" where
  "is_client AcceptError = False"
| "is_client (Connection _ _ _) = True"

text \<open>A complete conversation: progress lines and one verdict at the end.\<close>

definition conversation :: "reply list \<Rightarrow> bool" where
  "conversation log \<longleftrightarrow> (\<exists>ls v. log = map Say ls @ [v] \<and> is_verdict v)"

definition installed :: "reply list \<Rightarrow> bool" where
  "installed log \<longleftrightarrow> (\<exists>n s. last log = Ok n s)"

definition refused_busy :: "reply list \<Rightarrow> bool" where
  "refused_busy log \<longleftrightarrow> Fail Busy \<in> set log"

text \<open>Past the lock no stage answers that another install is running.\<close>

lemma busy_simps:
  "refused_busy (xs @ ys) \<longleftrightarrow> refused_busy xs \<or> refused_busy ys" "refused_busy (x # xs) \<longleftrightarrow> x = Fail Busy \<or> refused_busy xs"
  "\<not> refused_busy []"
  by (auto simp: refused_busy_def)

lemma not_busy_finalize: "refused_busy (replies (serve_finalize env fin target hdr res st)) \<longleftrightarrow> refused_busy (replies st)"
  by (auto simp: serve_finalize_def refused_busy_def Let_def split: prod.splits)

lemma not_busy_write: "refused_busy (replies (serve_write T env fin target hdr body e st)) \<Longrightarrow> refused_busy (replies st)"
  using not_busy_finalize[of env fin target hdr]
  by (auto simp: serve_write_def refused_busy_def Let_def split: prod.splits sum.splits write_error.splits)

lemma not_busy_locked:
  assumes "refused_busy (replies (serve_locked T env fin conn e st))"
  shows "refused_busy (replies st)"
proof -
  have t: "refused_busy (replies st1)" if "refused_busy (replies (serve_target T env fin hdr body e st1))" for hdr body st1
    using that by (auto simp: serve_target_def Let_def busy_simps split: sum.splits if_splits dest!: not_busy_write)
  have a: "refused_busy (replies st)" if "serve_answers env hdr st = (st1, ok)" "refused_busy (replies st1)" for hdr st1 ok
    using that by (auto simp: serve_answers_def Let_def refused_busy_def split: if_splits prod.splits)
  show ?thesis
  proof (cases "ParseHeader (concat conn)")
    case (Inl x)
    then show ?thesis using assms by (simp add: serve_locked_def busy_simps)
  next
    case (Inr p)
    obtain hdr body where p: "p = (hdr, body)" by (cases p)
    obtain st1 ok where s: "serve_answers env hdr st = (st1, ok)" by fastforce
    show ?thesis using assms Inr p s a[OF s] t[of hdr "[body]" st1] by (cases ok) (simp_all add: serve_locked_def)
  qed
qed

lemma serve_conversation:
  assumes "\<not> hung st" "\<not> lock st"
  shows "let st' = serve (disk_ops sched) env fin conn e (st\<lparr>replies := []\<rparr>) in
     conversation (replies st') \<and> \<not> hung st' \<and> \<not> lock st' \<and> (rebootDue st' \<longleftrightarrow> rebootDue st \<or> installed (replies st')) \<and>
     (refused_busy (replies st') \<longleftrightarrow> \<not> mkdirOK env)"
proof -
  let ?s = "st\<lparr>replies := []\<rparr>"
  let ?r = "serve (disk_ops sched) env fin conn e ?s"
  have c: "concludes ?s ?r" using dt.serve_concludes[of ?s sched env fin conn e] assms(1) by simp
  then have v: "conversation (replies ?r)" "\<not> hung ?r" "\<not> lock ?r" "rebootDue ?r \<longleftrightarrow> rebootDue st \<or> installed (replies ?r)"
    using assms by (auto simp: concludes_def conversation_def installed_def)
  have "\<not> refused_busy (replies ?r)" if m: "mkdirOK env"
  proof
    assume "refused_busy (replies ?r)"
    then have "refused_busy (replies (serve_locked (disk_ops sched) env fin conn e ((say ''HOST CONNECTED'' ?s)\<lparr>lock := True\<rparr>)))"
      using m assms(2) by (simp add: serve_def Let_def split: if_splits)
    from not_busy_locked[OF this] show False by (simp add: refused_busy_def)
  qed
  moreover have "refused_busy (replies ?r)" if "\<not> mkdirOK env"
    using that by (simp add: serve_def Let_def refused_busy_def)
  ultimately show ?thesis using v by (auto simp: Let_def)
qed

definition served_well :: "'d accepted \<Rightarrow> reply list \<Rightarrow> bool" where
  "served_well x log \<longleftrightarrow> conversation log \<and>
     (case x of AcceptError \<Rightarrow> False | Connection env _ _ \<Rightarrow> refused_busy log \<longleftrightarrow> \<not> mkdirOK env)"

lemma listen_loop_serves:
  assumes "\<not> hung st" "\<not> lock st"
  shows "case listen_loop (disk_ops sched) fin once xs st of (logs, st', res) \<Rightarrow>
     list_all2 served_well (if once then take 1 (filter is_client xs) else filter is_client xs) logs \<and>
     \<not> hung st' \<and> \<not> lock st' \<and> (rebootDue st' \<longleftrightarrow> rebootDue st \<or> list_ex installed logs) \<and>
     res = (if once \<and> filter is_client xs \<noteq> [] then Some 0 else None)"
  using assms
proof (induction xs arbitrary: st)
  case (Cons x xs)
  show ?case
  proof (cases x)
    case AcceptError
    then show ?thesis using Cons.IH[OF Cons.prems] unfolding AcceptError listen_loop.simps by (simp only: filter.simps is_client.simps if_False)
  next
    case (Connection env conn e)
    let ?r = "serve (disk_ops sched) env fin conn e (st\<lparr>replies := []\<rparr>)"
    have c: "conversation (replies ?r)" "\<not> hung ?r" "\<not> lock ?r" "rebootDue ?r \<longleftrightarrow> rebootDue st \<or> installed (replies ?r)"
      "refused_busy (replies ?r) \<longleftrightarrow> \<not> mkdirOK env"
      using serve_conversation[OF Cons.prems, of sched env fin conn e] by (simp_all add: Let_def)
    then have s: "served_well (Connection env conn e) (replies ?r)" by (simp add: served_well_def)
    show ?thesis
      using c s Connection Cons.IH[OF c(2,3)] by (cases once) (auto simp: Let_def split: prod.splits)
  qed
qed simp

section \<open>Properties\<close>

text \<open>C23: The daemon serves its clients in turn.  On a block device with any faults, started with a free lock, the
  daemon gives every connection it accepts a complete conversation that ends in one verdict, in the order of
  the connections and whatever the earlier ones sent.  A connection is refused as busy exactly if the lock
  directory cannot be created at that moment, as when an install over the other transport holds it, and never
  because of an earlier session of the daemon itself, which always releases the lock; the reboot is
  scheduled exactly if some conversation ended in OK.  With \<^verbatim>\<open>-once\<close> it returns after the first.\<close>

theorem daemon_serves_all:
  assumes "\<not> hung st" "\<not> lock st" "id_parse args = Some q"
      and "installd_Main (disk_ops sched) True args xs st = (logs, st', res)"
  shows "list_all2 served_well (if id_once q then take 1 (filter is_client xs) else filter is_client xs) logs \<and>
    \<not> hung st' \<and> \<not> lock st' \<and> (rebootDue st' \<longleftrightarrow> rebootDue st \<or> list_ex installed logs) \<and>
    res = (if id_once q \<and> filter is_client xs \<noteq> [] then Some 0 else None)"
  using listen_loop_serves[OF assms(1,2), where sched = sched and fin = "id_finalize q" and once = "id_once q" and xs = xs] assms(3,4)
  by (simp add: installd_Main_def)

definition two_clients :: "disk accepted list" where
  "two_clients = [Connection (sample_env True) [[1, 2]] IOError, AcceptError, Connection (sample_env True) sample_conn EOF]"

theorem daemon_serves_all_witness:
  "list_all2 served_well [Connection (sample_env True) [[1, 2]] IOError, Connection (sample_env True) sample_conn EOF]
     (fst (installd_Main (disk_ops broken) True [''-finalize'', ''/f''] two_clients sample_sess)) \<and>
   \<not> lock (fst (snd (installd_Main (disk_ops broken) True [''-finalize'', ''/f''] two_clients sample_sess)))"
proof -
  obtain logs st' res where r: "installd_Main (disk_ops broken) True [''-finalize'', ''/f''] two_clients sample_sess = (logs, st', res)"
    by (metis prod.collapse)
  have "id_parse [''-finalize'', ''/f''] = Some \<lparr>id_listen = ''172.16.42.1:5555'', id_finalize = ''/f'', id_once = False\<rparr>" by code_simp
  moreover have "\<not> hung sample_sess" "\<not> lock sample_sess" by (simp_all add: sample_sess_def)
  ultimately show ?thesis using daemon_serves_all[OF _ _ _ r] r by (simp add: two_clients_def)
qed

text \<open>Every applet can be reached: by a link of its name in any directory, and as a subcommand of a binary that
  is not named like an applet; both pass on the arguments behind it.\<close>

theorem dispatch_reaches:
  assumes "(name, ap) \<in> set applets"
  shows "dispatch (name # args) = RunApplet ap args \<and> dispatch ((d @ CHR ''/'' # name) # args) = RunApplet ap args \<and>
    (map_of applets (Base prog) = None \<longrightarrow> dispatch (prog # name # args) = RunApplet ap args)"
proof -
  have d: "distinct (map fst applets)" by code_simp
  have "list_all (\<lambda>n. n \<noteq> [] \<and> CHR ''/'' \<notin> set n) (map fst applets)" by code_simp
  then have n: "name \<noteq> []" "CHR ''/'' \<notin> set name" using assms by (auto simp: list_all_iff)
  have "map_of applets name = Some ap" using d assms by simp
  then show ?thesis using Base_plain[OF n] by (simp add: dispatch_def)
qed

end
