(* ===== verification/Decide.thy ===== *)
theory Decide
  imports Partition Imagewrite Go_Flag
begin

text \<open>
  \<^verbatim>\<open>installer/gotools/internal/systeminit/decide.go\<close>: the pure decisions of the boot init, and
  the real \<^verbatim>\<open>ProbeRoots\<close> of \<^verbatim>\<open>ops.go\<close> on the contents of the resolved partition.
\<close>

section \<open>Broadcast lines and the deadman lease\<close>

definition logPrefix :: string where "logPrefix = ''[dc1-boot] ''"
definition lineMax :: nat where "lineMax = 512"
definition msgMax :: nat where "msgMax = lineMax - 16"

definition Line :: "string \<Rightarrow> string" where
  "Line msg = logPrefix @ (if msgMax < length msg then take msgMax msg else msg) @ [LF]"

definition deadmanPath :: string where "deadmanPath = ''/tmp/wd-deadman''"
definition leasePath :: string where "leasePath = ''/tmp/wd-lease''"
definition leaseSeconds :: int where "leaseSeconds = 1800"

text \<open>Times are nanoseconds since the epoch; the zero time is \<open>None\<close>.\<close>

definition LeaseFresh :: "bool \<Rightarrow> int \<Rightarrow> int option \<Rightarrow> bool" where
  "LeaseFresh haveLease mtime now =
     (if \<not> haveLease then False
      else (case now of
              None \<Rightarrow> True
            | Some n \<Rightarrow> if n < mtime then True else n - mtime \<le> leaseSeconds * 10 ^ 9))"

section \<open>Root selection\<close>

definition rootFSType :: string where "rootFSType = ''ext4''"
definition rootLabel :: string where "rootLabel = ''jagar-root''"
definition rootMount :: string where "rootMount = ''/mnt/root''"

record Candidate =
  candDevice :: string
  FSType :: string
  Label :: string

definition describeFS :: "string \<Rightarrow> string" where
  "describeFS t = (if t = [] then ''not a recognised ext filesystem'' else t)"

datatype root_error =
    SeveralLabelled nat | NothingToProbe | NotExt4 string string | WrongLabel string string | NoneLabelled nat

definition SelectRoot :: "Candidate list \<Rightarrow> root_error + string" where
  "SelectRoot cands =
     (let found = filter (\<lambda>c. FSType c = rootFSType \<and> Label c = rootLabel) cands in
      if length found = 1 then Inr (candDevice (found ! 0))
      else if length found > 1 then Inl (SeveralLabelled (length found))
      else if length cands = 0 then Inl NothingToProbe
      else if length cands = 1 \<and> FSType (cands ! 0) \<noteq> rootFSType
      then Inl (NotExt4 (candDevice (cands ! 0)) (describeFS (FSType (cands ! 0))))
      else if length cands = 1 then Inl (WrongLabel (candDevice (cands ! 0)) (Label (cands ! 0)))
      else Inl (NoneLabelled (length cands)))"

section \<open>The ext superblock\<close>

definition SuperblockOffset :: nat where "SuperblockOffset = 1024"
definition SuperblockSize :: nat where "SuperblockSize = 1024"
definition sbMagic :: nat where "sbMagic = 0x38"
definition sbFeatureCompat :: nat where "sbFeatureCompat = 0x5c"
definition sbFeatureIncompat :: nat where "sbFeatureIncompat = 0x60"
definition sbVolumeName :: nat where "sbVolumeName = 0x78"
definition sbVolumeNameLen :: nat where "sbVolumeNameLen = 16"
definition extMagic :: u16 where "extMagic = 0xef53"
definition featCompatHasJournal :: u32 where "featCompatHasJournal = 0x0004"
definition featIncompatExtents :: u32 where "featIncompatExtents = 0x0040"
definition featIncompat64Bit :: u32 where "featIncompat64Bit = 0x0080"

definition ProbeSuperblock :: "bytes \<Rightarrow> string \<times> string" where
  "ProbeSuperblock sb =
     (if length sb < SuperblockSize then ([], [])
      else if get16 (drop sbMagic sb) \<noteq> extMagic then ([], [])
      else (let compat = get32 (drop sbFeatureCompat sb);
                incompat = get32 (drop sbFeatureIncompat sb);
                fstype = (if incompat AND (featIncompatExtents OR featIncompat64Bit) \<noteq> 0 then rootFSType
                          else if compat AND featCompatHasJournal \<noteq> 0 then ''ext3'' else ''ext2'');
                raw = slice sbVolumeName (sbVolumeName + sbVolumeNameLen) sb
            in (fstype, string_of (takeWhile (\<lambda>b. b \<noteq> 0) raw))))"

definition rootWaitSeconds :: nat where "rootWaitSeconds = 60"

definition WaitingNotice :: "nat \<Rightarrow> string option" where
  "WaitingNotice second =
     (if second = 10 \<or> second = 30 \<or> second = 50
      then Some (''still waiting for userdata partition ('' @ dec second @ ''s)'') else None)"

definition fsckPaths :: "string list" where
  "fsckPaths = [''/sbin/e2fsck'', ''/usr/sbin/e2fsck'', ''/bin/e2fsck'']"

definition FsckAcceptable :: "int \<Rightarrow> bool" where
  "FsckAcceptable rc = (0 \<le> rc \<and> rc \<le> 1)"

section \<open>The USB gadget as data\<close>

definition udcCandidates :: "string list" where
  "udcCandidates = [''musb-hdrc.4.auto'', ''musb-hdrc.1.auto'', ''musb-hdrc.0.auto'', ''11201000.usb'', ''11200000.usb'']"

datatype gadget_kind = GMkdir | GWrite | GSymlink

record gadgetStep =
  Kind :: gadget_kind
  Path :: string
  Value :: string

definition gstep :: "gadget_kind \<Rightarrow> string \<Rightarrow> string \<Rightarrow> gadgetStep" where
  "gstep k p v = \<lparr>Kind = k, Path = p, Value = v\<rparr>"

definition gadgetSteps :: "string \<Rightarrow> gadgetStep list" where
  "gadgetSteps g =
    [gstep GWrite (g @ ''/idVendor'') (''0x18d1'' @ [LF]),
     gstep GWrite (g @ ''/idProduct'') (''0x4ee7'' @ [LF]),
     gstep GMkdir (g @ ''/strings/0x409'') [],
     gstep GWrite (g @ ''/strings/0x409/manufacturer'') (''daylight'' @ [LF]),
     gstep GWrite (g @ ''/strings/0x409/product'') (''dc1-system'' @ [LF]),
     gstep GWrite (g @ ''/strings/0x409/serialnumber'') (''dc1-system'' @ [LF]),
     gstep GMkdir (g @ ''/configs/c.1'') [],
     gstep GMkdir (g @ ''/configs/c.1/strings/0x409'') [],
     gstep GWrite (g @ ''/configs/c.1/strings/0x409/configuration'') (''acm'' @ [LF]),
     gstep GMkdir (g @ ''/functions/acm.0'') [],
     gstep GMkdir (g @ ''/functions/acm.1'') [],
     gstep GSymlink (g @ ''/configs/c.1/acm.0'') (g @ ''/functions/acm.0''),
     gstep GSymlink (g @ ''/configs/c.1/acm.1'') (g @ ''/functions/acm.1'')]"

section \<open>The command line\<close>

record Config =
  Helper :: string
  TTY :: string
  DryRun :: bool
  Once :: bool
  Self :: string

definition helperWatchdog :: string where "helperWatchdog = ''watchdog''"
definition helperKmsg :: string where "helperKmsg = ''kmsg''"
definition helperShell :: string where "helperShell = ''shell''"
definition helperEnv :: string where "helperEnv = ''DC1_SYSTEM_INIT_HELPER''"

definition initAllowed :: "int \<Rightarrow> bool" where "initAllowed pid = (pid = 1)"

definition helperAllowed :: "int \<Rightarrow> string \<Rightarrow> bool" where
  "helperAllowed ppid marker = (ppid = 1 \<and> marker = ''1'')"

datatype args_error = FlagError flag_error | ShellNeedsTTY | UnknownHelper string | TTYOnlyForShell

definition si_flags :: flag_decls where
  "si_flags = [(''helper'', StringFlag), (''tty'', StringFlag), (''n'', BoolFlag), (''dry-run'', BoolFlag), (''once'', BoolFlag)]"

fun set_flag :: "Config \<Rightarrow> string \<times> flag_val \<Rightarrow> Config" where
  "set_flag cfg (n, SVal v) = (if n = ''helper'' then cfg\<lparr>Helper := v\<rparr> else cfg\<lparr>TTY := v\<rparr>)"
| "set_flag cfg (n, BVal b) = (if n = ''once'' then cfg\<lparr>Once := b\<rparr> else cfg\<lparr>DryRun := b\<rparr>)"

text \<open>\<^verbatim>\<open>ParseArgs\<close> after the flags have been assigned.\<close>

definition checkArgs :: "Config \<Rightarrow> args_error + Config" where
  "checkArgs cfg =
     (if Helper cfg \<in> {[], helperWatchdog, helperKmsg} then
        (if TTY cfg \<noteq> [] then Inl TTYOnlyForShell else Inr cfg)
      else if Helper cfg = helperShell then
        (if TTY cfg = [] then Inl ShellNeedsTTY else Inr cfg)
      else Inl (UnknownHelper (Helper cfg)))"

definition ParseArgs :: "string list \<Rightarrow> args_error + Config" where
  "ParseArgs args =
     (case parse_flags si_flags args of
        Inl e \<Rightarrow> Inl (FlagError e)
      | Inr (sets, _) \<Rightarrow>
          checkArgs (foldl set_flag \<lparr>Helper = [], TTY = [], DryRun = False, Once = False, Self = []\<rparr> sets))"

definition selfPath :: "string option \<Rightarrow> string" where
  "selfPath exe = (case exe of None \<Rightarrow> ''/bin/dc1tools'' | Some p \<Rightarrow> if p = [] then ''/bin/dc1tools'' else p)"

definition Plan :: "string list" where
  "Plan =
    [''mount proc on /proc, sysfs on /sys, devtmpfs on /dev'',
     ''spawn the watchdog petter: sole owner of /dev/watchdog, survives switch_root'',
     ''resolve userdata by GPT PARTNAME, then require ext4 labelled '' @ rootLabel,
     ''run e2fsck -p if it is staged (exit 0 or 1 is success)'',
     ''mount that device at '' @ rootMount @ '' and require an executable /sbin/init in it'',
     ''move /dev /proc /sys into it, then exec busybox switch_root '' @ rootMount @ '' /sbin/init'',
     ''on ANY failure: write no storage, configure USB rescue, arm the deadman lease, console shells'']"

section \<open>Probing the resolved partition\<close>

datatype probe_error = ProbeResolve part_error | ProbeStat | ProbeNotBlock | ProbeOpen

record blockfile =
  bfStat :: bool
  bfBlock :: bool
  bfOpens :: bool
  bfContent :: bytes

definition ProbeRoots :: "string \<Rightarrow> sysfs \<Rightarrow> (string \<Rightarrow> blockfile) \<Rightarrow> probe_error + Candidate list" where
  "ProbeRoots devdir fs files =
     (case ResolveUserdata devdir fs of
        Inl e \<Rightarrow> Inl (ProbeResolve e)
      | Inr r \<Rightarrow>
          (let f = files (Device r) in
           if \<not> bfStat f then Inl ProbeStat
           else if \<not> bfBlock f then Inl ProbeNotBlock
           else if \<not> bfOpens f then Inl ProbeOpen
           else let p = (if length (bfContent f) < SuperblockOffset + SuperblockSize then ([], [])
                         else ProbeSuperblock (slice SuperblockOffset (SuperblockOffset + SuperblockSize) (bfContent f)))
                in Inr [\<lparr>candDevice = Device r, FSType = fst p, Label = snd p\<rparr>]))"

section \<open>Lemmas\<close>

lemma SelectRoot_iff:
  "SelectRoot cands = Inr dev \<longleftrightarrow>
     (\<exists>c. filter (\<lambda>c. FSType c = rootFSType \<and> Label c = rootLabel) cands = [c] \<and> candDevice c = dev)"
proof
  assume "SelectRoot cands = Inr dev"
  then have "length (filter (\<lambda>c. FSType c = rootFSType \<and> Label c = rootLabel) cands) = 1"
    "candDevice (filter (\<lambda>c. FSType c = rootFSType \<and> Label c = rootLabel) cands ! 0) = dev"
    by (auto simp: SelectRoot_def Let_def split: if_splits)
  then show "\<exists>c. filter (\<lambda>c. FSType c = rootFSType \<and> Label c = rootLabel) cands = [c] \<and> candDevice c = dev"
    by (auto simp: length_Suc_conv)
qed (auto simp: SelectRoot_def Let_def)

lemma ProbeSuperblock_zero: "length sb \<ge> 0x40 \<Longrightarrow> slice 0x38 0x3a sb = [0, 0] \<Longrightarrow> ProbeSuperblock sb = ([], [])"
proof -
  assume l: "length sb \<ge> 0x40" and z: "slice 0x38 0x3a sb = [0, 0]"
  have "get16 (drop sbMagic sb) = get16 [0, 0]"
    using l z le16.get_take[of "drop 0x38 sb"] by (simp add: sbMagic_def slice_def)
  also have "\<dots> = 0" by (simp add: get16_def numeral_2_eq_2)
  finally show ?thesis by (simp add: ProbeSuperblock_def extMagic_def)
qed

lemma scrubbed_superblock:
  assumes "MiB \<le> length c" "take MiB c = replicate MiB 0"
  shows "ProbeSuperblock (slice SuperblockOffset (SuperblockOffset + SuperblockSize) c) = ([], [])"
proof (rule ProbeSuperblock_zero)
  have m: "2048 \<le> MiB" by (simp add: MiB_def)
  have "slice 1024 2048 c = slice 1024 2048 (take MiB c)"
    using m by (simp add: slice_def drop_take min_def)
  also have "\<dots> = replicate 1024 0" using m by (simp add: assms(2) slice_def)
  finally have s: "slice SuperblockOffset (SuperblockOffset + SuperblockSize) c = replicate 1024 0"
    by (simp add: SuperblockOffset_def SuperblockSize_def)
  show "0x40 \<le> length (slice SuperblockOffset (SuperblockOffset + SuperblockSize) c)" unfolding s by simp
  show "slice 0x38 0x3a (slice SuperblockOffset (SuperblockOffset + SuperblockSize) c) = [0, 0]"
    unfolding s by (simp add: slice_def numeral_2_eq_2)
qed

end
