(* ===== verification/Systeminit.thy ===== *)
theory Systeminit
  imports Trace Decide Rebootfastboot
begin

text \<open>
  \<^verbatim>\<open>installer/gotools/internal/systeminit/systeminit.go\<close>: PID 1 of the boot initramfs, its watchdog
  petter, its log and shell helpers and the rescue state, as programs over the \<^verbatim>\<open>Ops\<close> interface of
  \<^verbatim>\<open>ops.go\<close>.  Loops that run for ever on the device take the number of passes that are observed
  (\<open>None\<close> is the result of a loop that is still running); the theorems hold for every number.
\<close>

section \<open>The interface\<close>

record FileInfo =
  Dev :: nat
  Mode :: u32
  MTime :: int

definition Executable :: "FileInfo \<Rightarrow> bool" where
  "Executable f = (Mode f AND 73 \<noteq> 0)"

datatype boot_failure =
    NoBusybox | NoUserdata nat string | BadRoot root_error | FsckFailed int | MountFailed string string
  | NotSeparate | NoInit string | SwitchFailed

datatype smsg = Msg string | RescueMsg boot_failure

datatype sop =
    OSay smsg | OOpenKmsg | OMkdir string | OMount string string string string | OUnmount string
  | OMoveMount string string | OSymlink string string | OWriteSys string string | OTouch string
  | OStat string | OOpenRead string | OOpenWrite string | OCopy | OClose | OPet
  | OSpawn string "string list" "string list" string | OWait int bool | OExec string "string list"
  | OProbeRoots | OArmFastboot | ONow | OSleep nat

datatype sresp = ROk | RErr bool string | RStat FileInfo | RPid int | RWait int int
  | RProbe "Candidate list" | RNow "int option"

type_synonym senv = "(sop, sresp) env"
type_synonym 'a sprog = "(sop, sresp, 'a) prog"

definition failed :: "sresp \<Rightarrow> bool" where
  "failed r = (case r of RErr _ _ \<Rightarrow> True | _ \<Rightarrow> False)"

definition err_text :: "sresp \<Rightarrow> string" where
  "err_text r = (case r of RErr _ t \<Rightarrow> t | _ \<Rightarrow> [])"

definition is_exist :: "sresp \<Rightarrow> bool" where
  "is_exist r = (case r of RErr x _ \<Rightarrow> x | _ \<Rightarrow> False)"

definition stat_of :: "sresp \<Rightarrow> FileInfo option" where
  "stat_of r = (case r of RStat f \<Rightarrow> Some f | _ \<Rightarrow> None)"

definition executable_at :: "sresp \<Rightarrow> bool" where
  "executable_at r = (case stat_of r of None \<Rightarrow> False | Some f \<Rightarrow> Executable f)"

definition pid_of :: "sresp \<Rightarrow> int" where
  "pid_of r = (case r of RPid p \<Rightarrow> p | _ \<Rightarrow> 0)"

definition wait_of :: "sresp \<Rightarrow> (int \<times> int) option" where
  "wait_of r = (case r of RWait p s \<Rightarrow> Some (p, s) | _ \<Rightarrow> None)"

definition probe_of :: "sresp \<Rightarrow> string + Candidate list" where
  "probe_of r = (case r of RProbe cs \<Rightarrow> Inr cs | _ \<Rightarrow> Inl (err_text r))"

definition mtime_of :: "sresp \<Rightarrow> int" where
  "mtime_of r = (case stat_of r of None \<Rightarrow> 0 | Some f \<Rightarrow> MTime f)"

definition now_of :: "sresp \<Rightarrow> int option" where
  "now_of r = (case r of RNow t \<Rightarrow> t | _ \<Rightarrow> None)"

section \<open>Constants\<close>

definition busyboxPath :: string where "busyboxPath = ''/bin/busybox''"
definition gadgetRoot :: string where "gadgetRoot = ''/sys/kernel/config/usb_gadget/g1''"
definition kmsgTTY :: string where "kmsgTTY = ''/dev/ttyGS0''"
definition shellTTY :: string where "shellTTY = ''/dev/ttyGS1''"
definition rescueConsoles :: "string list" where
  "rescueConsoles = [''/dev/tty1'', ''/dev/ttyS0'', ''/dev/console'']"
definition kernelMounts :: "string list" where "kernelMounts = [''/dev'', ''/proc'', ''/sys'']"

section \<open>The programs\<close>

definition sd_say :: "senv \<Rightarrow> string \<Rightarrow> unit sprog" where
  "sd_say env msg = do { act env (OSay (Msg (Line msg))); unit_prog }"

definition do_op :: "senv \<Rightarrow> sop \<Rightarrow> unit sprog" where
  "do_op env oper = do { act env oper; unit_prog }"

definition spawnHelper :: "senv \<Rightarrow> Config \<Rightarrow> string \<Rightarrow> unit sprog" where
  "spawnHelper env cfg role = do {
     r \<leftarrow> act env (OSpawn (Self cfg)
            ([Self cfg, ''system-init'', ''-helper'', role] @
             (if role = helperShell then [''-tty'', shellTTY] else []))
            [helperEnv @ ''=1''] []);
     if failed r then sd_say env (''init: could not start the '' @ role @ '' helper: '' @ err_text r)
     else unit_prog }"

fun find_wait :: "senv \<Rightarrow> nat \<Rightarrow> nat \<Rightarrow> (boot_failure + Candidate list) sprog" where
  "find_wait env left second = do {
     r \<leftarrow> act env OProbeRoots;
     (case probe_of r of
        Inr cands \<Rightarrow> ret (Inr cands)
      | Inl e \<Rightarrow>
          if rootWaitSeconds \<le> second then ret (Inl (NoUserdata second e))
          else (case left of
            0 \<Rightarrow> ret (Inl (NoUserdata second e))
          | Suc l \<Rightarrow> do {
              (case WaitingNotice second of Some m \<Rightarrow> sd_say env m | None \<Rightarrow> unit_prog);
              act env (OSleep 1);
              find_wait env l (Suc second) })) }"

declare find_wait.simps [simp del]

definition findRoot :: "senv \<Rightarrow> (boot_failure + string) sprog" where
  "findRoot env = do {
     r \<leftarrow> find_wait env (rootWaitSeconds - 1) 1;
     (case r of
        Inl e \<Rightarrow> ret (Inl e)
      | Inr cands \<Rightarrow>
          (case SelectRoot cands of
             Inl e \<Rightarrow> ret (Inl (BadRoot e))
           | Inr dev \<Rightarrow> do {
               sd_say env (''init: userdata resolved: '' @ dev @ '' (ext4, labelled '' @ rootLabel @ '')'');
               ret (Inr dev) })) }"

fun find_fsck :: "senv \<Rightarrow> string list \<Rightarrow> string sprog" where
  "find_fsck env [] = ret []"
| "find_fsck env (p # ps) = do {
     r \<leftarrow> act env (OStat p);
     if executable_at r then ret p else find_fsck env ps }"

definition fsck :: "senv \<Rightarrow> string \<Rightarrow> boot_failure option sprog" where
  "fsck env dev = do {
     bin \<leftarrow> find_fsck env fsckPaths;
     if bin = [] then do {
       sd_say env ''init: e2fsck not in initramfs; skipping fsck (ext4 journal + install-time hash verification)'';
       ret None }
     else do {
       p \<leftarrow> act env (OSpawn bin [bin, ''-p'', dev] [] []);
       if failed p then do {
         sd_say env (''init: could not run '' @ bin @ '' ('' @ err_text p @ ''); continuing without a fsck'');
         ret None }
       else do {
         w \<leftarrow> act env (OWait (pid_of p) True);
         (case wait_of w of
            Some (_, rc) \<Rightarrow>
              if \<not> FsckAcceptable rc then ret (Some (FsckFailed rc))
              else do { sd_say env (''init: e2fsck clean (rc='' @ dec_int rc @ '')''); ret None }
          | None \<Rightarrow> do {
              sd_say env (''init: could not run '' @ bin @ '' ('' @ err_text w @ ''); continuing without a fsck'');
              ret None }) } } }"

definition mountRoot :: "senv \<Rightarrow> string \<Rightarrow> boot_failure option sprog" where
  "mountRoot env dev = do {
     f \<leftarrow> fsck env dev;
     (case f of
        Some e \<Rightarrow> ret (Some e)
      | None \<Rightarrow> do {
          m \<leftarrow> act env (OMount dev rootMount rootFSType []);
          if failed m then ret (Some (MountFailed dev (err_text m)))
          else do {
            old \<leftarrow> act env (OStat ''/'');
            new \<leftarrow> act env (OStat rootMount);
            if stat_of old = None \<or> stat_of new = None \<or>
               map_option Dev (stat_of old) = map_option Dev (stat_of new)
            then do { act env (OUnmount rootMount); ret (Some NotSeparate) }
            else do {
              i \<leftarrow> act env (OStat (rootMount @ ''/sbin/init''));
              if \<not> executable_at i
              then do { act env (OUnmount rootMount); ret (Some (NoInit dev)) }
              else ret None } } }) }"

definition gadget_step :: "senv \<Rightarrow> gadgetStep \<Rightarrow> unit sprog" where
  "gadget_step env s = (case Kind s of
      GMkdir \<Rightarrow> do_op env (OMkdir (Path s))
    | GWrite \<Rightarrow> do_op env (OWriteSys (Path s) (Value s))
    | GSymlink \<Rightarrow> do_op env (OSymlink (Path s) (Value s)))"

fun bind_udc :: "senv \<Rightarrow> string list \<Rightarrow> unit sprog" where
  "bind_udc env [] = sd_say env ''gadget: UDC bind failed''"
| "bind_udc env (u # us) = do {
     r \<leftarrow> act env (OWriteSys (gadgetRoot @ ''/UDC'') u);
     if \<not> failed r then sd_say env (''gadget: bound UDC '' @ u) else bind_udc env us }"

definition gadget :: "senv \<Rightarrow> unit sprog" where
  "gadget env = do {
     r \<leftarrow> act env (OMkdir gadgetRoot);
     if failed r \<and> \<not> is_exist r then sd_say env ''gadget: no configfs usb_gadget''
     else do {
       foreach (gadget_step env) (gadgetSteps gadgetRoot);
       bind_udc env udcCandidates } }"

section \<open>The watchdog petter\<close>

fun open_watchdog :: "senv \<Rightarrow> nat \<Rightarrow> bool sprog" where
  "open_watchdog env 0 = ret False"
| "open_watchdog env (Suc n) = do {
     r \<leftarrow> act env (OOpenWrite ''/dev/watchdog'');
     if failed r then do { act env (OSleep 1); open_watchdog env n } else ret True }"

definition leaseHolds :: "senv \<Rightarrow> bool sprog" where
  "leaseHolds env = do {
     st \<leftarrow> act env (OStat leasePath);
     now \<leftarrow> act env ONow;
     ret (LeaseFresh (\<not> failed st) (mtime_of st) (now_of now)) }"

fun parked :: "senv \<Rightarrow> Config \<Rightarrow> nat \<Rightarrow> int option sprog" where
  "parked env cfg 0 = ret None"
| "parked env cfg (Suc n) = do {
     act env (OSleep 3600);
     if Once cfg then do { act env OClose; ret (Some 0) } else parked env cfg n }"

definition lease_check :: "senv \<Rightarrow> bool sprog" where
  "lease_check env = do {
     d \<leftarrow> act env (OStat deadmanPath);
     if failed d then ret True else leaseHolds env }"

fun petter_loop :: "senv \<Rightarrow> Config \<Rightarrow> nat \<Rightarrow> int option sprog" where
  "petter_loop env cfg 0 = ret None"
| "petter_loop env cfg (Suc n) = do {
     holds \<leftarrow> lease_check env;
     if \<not> holds then do {
       sd_say env ''watchdog: deadman lease expired -- arming fastboot and ceasing to pet; the reset will land in LK fastboot'';
       a \<leftarrow> act env OArmFastboot;
       (if failed a then sd_say env (''watchdog: '' @ err_text a @ '' -- the reset will be a plain one'') else unit_prog);
       parked env cfg (Suc n) }
     else do {
       w \<leftarrow> act env OPet;
       (if failed w then sd_say env (''watchdog: pet failed: '' @ err_text w) else unit_prog);
       if Once cfg then do { act env OClose; ret (Some 0) }
       else do { act env (OSleep 10); petter_loop env cfg n } } }"

definition petter :: "senv \<Rightarrow> Config \<Rightarrow> nat \<Rightarrow> int option sprog" where
  "petter env cfg passes = do {
     ok \<leftarrow> open_watchdog env 10;
     if \<not> ok then do {
       sd_say env ''watchdog: no /dev/watchdog -- if LK armed its timer, the board resets'';
       ret (Some 0) }
     else do {
       sd_say env ''watchdog: petter running (sole owner, survives switch_root)'';
       petter_loop env cfg passes } }"

section \<open>Log and shell helpers\<close>

fun streamKmsg :: "senv \<Rightarrow> Config \<Rightarrow> nat \<Rightarrow> int option sprog" where
  "streamKmsg env cfg 0 = ret None"
| "streamKmsg env cfg (Suc n) = do {
     w \<leftarrow> act env (OOpenWrite kmsgTTY);
     (if failed w then unit_prog
      else do {
        k \<leftarrow> act env (OOpenRead ''/dev/kmsg'');
        (if failed k then unit_prog else do { act env OCopy; do_op env OClose });
        do_op env OClose });
     if Once cfg then ret (Some 0) else do { act env (OSleep 1); streamKmsg env cfg n } }"

fun respawnShell :: "senv \<Rightarrow> Config \<Rightarrow> string \<Rightarrow> nat \<Rightarrow> int option sprog" where
  "respawnShell env cfg tty 0 = ret None"
| "respawnShell env cfg tty (Suc n) = do {
     p \<leftarrow> act env (OSpawn busyboxPath [busyboxPath, ''sh''] [] tty);
     (if failed p then unit_prog else do_op env (OWait (pid_of p) True));
     if Once cfg then ret (Some 0) else do { act env (OSleep 1); respawnShell env cfg tty n } }"

definition runHelper :: "senv \<Rightarrow> Config \<Rightarrow> nat \<Rightarrow> int option sprog" where
  "runHelper env cfg passes = do {
     act env OOpenKmsg;
     if Helper cfg = helperWatchdog then petter env cfg passes
     else if Helper cfg = helperKmsg then streamKmsg env cfg passes
     else if Helper cfg = helperShell then respawnShell env cfg (TTY cfg) passes
     else ret (Some 2) }"

section \<open>Rescue and boot\<close>

fun console_pass :: "senv \<Rightarrow> (string \<times> int) list \<Rightarrow> int list sprog" where
  "console_pass env [] = ret []"
| "console_pass env ((tty, kid) # ks) = do {
     running \<leftarrow> (if 0 < kid then do {
                    w \<leftarrow> act env (OWait kid False);
                    ret (case wait_of w of Some (p, _) \<Rightarrow> p = 0 | None \<Rightarrow> False) }
                  else ret False);
     kid' \<leftarrow> (if running then ret kid
              else do {
                p \<leftarrow> act env (OSpawn busyboxPath [busyboxPath, ''sh''] [] tty);
                ret (if failed p then 0 else pid_of p) });
     rest \<leftarrow> console_pass env ks;
     ret (kid' # rest) }"

fun reap :: "senv \<Rightarrow> nat \<Rightarrow> unit sprog" where
  "reap env 0 = unit_prog"
| "reap env (Suc n) = do {
     w \<leftarrow> act env (OWait (-1) False);
     (case wait_of w of
        Some (p, _) \<Rightarrow> if p \<le> 0 then unit_prog else reap env n
      | None \<Rightarrow> unit_prog) }"

fun rescue_loop :: "senv \<Rightarrow> Config \<Rightarrow> nat \<Rightarrow> nat \<Rightarrow> int list \<Rightarrow> int option sprog" where
  "rescue_loop env cfg strays 0 kids = ret None"
| "rescue_loop env cfg strays (Suc n) kids = do {
     kids' \<leftarrow> console_pass env (zip rescueConsoles kids);
     reap env strays;
     if Once cfg then ret (Some 1)
     else do { act env (OSleep 2); rescue_loop env cfg strays n kids' } }"

definition rescue_arm :: "senv \<Rightarrow> boot_failure \<Rightarrow> unit sprog" where
  "rescue_arm env why = do {
     act env (OSay (RescueMsg why));
     sd_say env ''nothing was written; fix the problem or reflash from fastboot'';
     act env (OTouch leasePath);
     act env (OTouch deadmanPath);
     sd_say env (''watchdog: deadman armed -- renew with: touch '' @ leasePath @ '' (else the board resets)'') }"

definition rescue :: "senv \<Rightarrow> Config \<Rightarrow> nat \<Rightarrow> nat \<Rightarrow> boot_failure \<Rightarrow> int option sprog" where
  "rescue env cfg strays passes why = do {
     rescue_arm env why;
     act env (OMkdir ''/sys/kernel/config'');
     act env (OMount ''configfs'' ''/sys/kernel/config'' ''configfs'' []);
     gadget env;
     spawnHelper env cfg helperKmsg;
     spawnHelper env cfg helperShell;
     rescue_loop env cfg strays passes (map (\<lambda>_. 0) rescueConsoles) }"

fun move_mounts :: "senv \<Rightarrow> string list \<Rightarrow> nat \<Rightarrow> nat sprog" where
  "move_mounts env [] moved = ret moved"
| "move_mounts env (m # ms) moved = do {
     r \<leftarrow> act env (OMoveMount m (rootMount @ m));
     if failed r then do {
       sd_say env (''init: moving '' @ m @ '' into the new root failed: '' @ err_text r);
       ret moved }
     else move_mounts env ms (Suc moved) }"

fun rollback :: "senv \<Rightarrow> nat \<Rightarrow> unit sprog" where
  "rollback env 0 = unit_prog"
| "rollback env (Suc k) = do {
     act env (OMoveMount (rootMount @ kernelMounts ! k) (kernelMounts ! k));
     rollback env k }"

datatype boot_result = Replaced | Rescued "int option"

definition handoff :: "senv \<Rightarrow> Config \<Rightarrow> nat \<Rightarrow> nat \<Rightarrow> string \<Rightarrow> boot_result sprog" where
  "handoff env cfg strays passes dev = do {
     sd_say env (''init: switching root from verified device '' @ dev);
     moved \<leftarrow> move_mounts env kernelMounts 0;
     replaced \<leftarrow> (if moved = length kernelMounts then do {
                    x \<leftarrow> act env (OExec busyboxPath [''switch_root'', rootMount, ''/sbin/init'']);
                    if failed x then do {
                      sd_say env (''init: switch_root exec FAILED: '' @ err_text x);
                      ret False }
                    else ret True }
                  else ret False);
     if replaced then ret Replaced
     else do {
       rollback env moved;
       r \<leftarrow> rescue env cfg strays passes SwitchFailed;
       ret (Rescued r) } }"

definition early_mounts :: "senv \<Rightarrow> unit sprog" where
  "early_mounts env = do {
     sd_say env ''init: system initramfs starting'';
     foreach (\<lambda>d. do_op env (OMkdir d)) [''/proc'', ''/sys'', ''/dev'', ''/tmp'', ''/mnt'', rootMount];
     act env (OMount ''proc'' ''/proc'' ''proc'' []);
     act env (OMount ''sysfs'' ''/sys'' ''sysfs'' []);
     act env (OMount ''devtmpfs'' ''/dev'' ''devtmpfs'' ''mode=0755'');
     act env OOpenKmsg;
     sd_say env ''init: proc/sys/dev mounted'' }"

definition boot_storage :: "senv \<Rightarrow> Config \<Rightarrow> nat \<Rightarrow> nat \<Rightarrow> boot_result sprog" where
  "boot_storage env cfg strays passes = do {
     st \<leftarrow> act env (OStat busyboxPath);
     if \<not> executable_at st then do { r \<leftarrow> rescue env cfg strays passes NoBusybox; ret (Rescued r) }
     else do {
       d \<leftarrow> findRoot env;
       (case d of
          Inl e \<Rightarrow> do { r \<leftarrow> rescue env cfg strays passes e; ret (Rescued r) }
        | Inr dev \<Rightarrow> do {
            m \<leftarrow> mountRoot env dev;
            (case m of
               Some e \<Rightarrow> do { r \<leftarrow> rescue env cfg strays passes e; ret (Rescued r) }
             | None \<Rightarrow> handoff env cfg strays passes dev) }) } }"

definition boot :: "senv \<Rightarrow> Config \<Rightarrow> nat \<Rightarrow> nat \<Rightarrow> boot_result sprog" where
  "boot env cfg strays passes = do {
     early_mounts env;
     spawnHelper env cfg helperWatchdog;
     boot_storage env cfg strays passes }"

section \<open>The applet\<close>

text \<open>Who the process is: its own identifier, its parent, the marker variable and the path the kernel
  reports for the executable.\<close>

record process =
  Getpid :: int
  Getppid :: int
  Marker :: string
  Exe :: "string option"

datatype main_result =
    Exited int "string list" "string list" | HelperRan "int option" | Booted boot_result

definition plan_lines :: "string list" where
  "plan_lines = map (\<lambda>(i, step). ''  '' @ dec i @ ''. '' @ step) (enumerate 1 Plan)"

definition si_Main :: "senv \<Rightarrow> process \<Rightarrow> nat \<Rightarrow> nat \<Rightarrow> string list \<Rightarrow> main_result sprog" where
  "si_Main env pr strays passes args =
     (case ParseArgs args of
        Inl e \<Rightarrow> ret (Exited 2 [] [''system-init: ''])
      | Inr parsed \<Rightarrow>
          (let cfg = parsed\<lparr>Self := selfPath (Exe pr)\<rparr> in
           if DryRun cfg then ret (Exited 0 (''system-init: would, in order:'' # plan_lines) [])
           else if Helper cfg = [] \<and> \<not> initAllowed (Getpid pr) then
             ret (Exited 1 [] ([''system-init: refusing to run: PID '' @ dec_int (Getpid pr) @ '', not 1.'',
                                ''As PID 1 it would, in order:''] @ plan_lines @
                               [''Run with -n for the same list as a normal exit.'']))
           else if Helper cfg \<noteq> [] \<and> \<not> helperAllowed (Getppid pr) (Marker pr) then
             ret (Exited 1 [] [''system-init: -helper '' @ Helper cfg @ '' is spawned by PID 1, not run by hand (parent is PID ''
                                @ dec_int (Getppid pr) @ '')''])
           else if Helper cfg \<noteq> [] then do { r \<leftarrow> runHelper env cfg passes; ret (HelperRan r) }
           else do { r \<leftarrow> boot env cfg strays passes; ret (Booted r) }))"

section \<open>Which operations the parts use\<close>

definition is_exec :: "sop \<Rightarrow> bool" where "is_exec oper = (case oper of OExec _ _ \<Rightarrow> True | _ \<Rightarrow> False)"
definition is_probe :: "sop \<Rightarrow> bool" where "is_probe oper = (case oper of OProbeRoots \<Rightarrow> True | _ \<Rightarrow> False)"
definition is_move :: "sop \<Rightarrow> bool" where "is_move oper = (case oper of OMoveMount _ _ \<Rightarrow> True | _ \<Rightarrow> False)"
definition is_say :: "sop \<Rightarrow> bool" where "is_say oper = (case oper of OSay _ \<Rightarrow> True | _ \<Rightarrow> False)"

lemma op_class_simps [simp]:
  "is_exec (OExec p a)" "\<not> is_exec (OSay m)" "\<not> is_exec OOpenKmsg" "\<not> is_exec (OMkdir d)"
  "\<not> is_exec (OMount a1 a2 a3 a4)" "\<not> is_exec (OUnmount d)" "\<not> is_exec (OMoveMount d d')"
  "\<not> is_exec (OSymlink d d')" "\<not> is_exec (OWriteSys d d')" "\<not> is_exec (OTouch d)" "\<not> is_exec (OStat d)"
  "\<not> is_exec (OSpawn d ar ev ty)" "\<not> is_exec (OWait n b)" "\<not> is_exec OProbeRoots" "\<not> is_exec (OSleep t)"
  "is_probe OProbeRoots" "\<not> is_probe (OSay m)" "\<not> is_probe OOpenKmsg" "\<not> is_probe (OMkdir d)"
  "\<not> is_probe (OMount a1 a2 a3 a4)" "\<not> is_probe (OUnmount d)" "\<not> is_probe (OMoveMount d d')"
  "\<not> is_probe (OSymlink d d')" "\<not> is_probe (OWriteSys d d')" "\<not> is_probe (OTouch d)" "\<not> is_probe (OStat d)"
  "\<not> is_probe (OSpawn d ar ev ty)" "\<not> is_probe (OWait n b)" "\<not> is_probe (OExec p a)" "\<not> is_probe (OSleep t)"
  "is_move (OMoveMount d d')" "\<not> is_move (OSay m)" "\<not> is_move OOpenKmsg" "\<not> is_move (OMkdir d)"
  "\<not> is_move (OMount a1 a2 a3 a4)" "\<not> is_move (OUnmount d)" "\<not> is_move (OExec p a)"
  "\<not> is_move (OSymlink d d')" "\<not> is_move (OWriteSys d d')" "\<not> is_move (OTouch d)" "\<not> is_move (OStat d)"
  "\<not> is_move (OSpawn d ar ev ty)" "\<not> is_move (OWait n b)" "\<not> is_move OProbeRoots" "\<not> is_move (OSleep t)"
  "is_say (OSay m)"
  by (simp_all add: is_exec_def is_probe_def is_move_def is_say_def)

text \<open>The operations rescue is made of: none that executes, probes storage or moves a mount.\<close>

definition harmless :: "sop \<times> sresp \<Rightarrow> bool" where
  "harmless e \<longleftrightarrow> \<not> is_exec (fst e) \<and> \<not> is_probe (fst e) \<and> \<not> is_move (fst e)"

lemma harmless_pair [simp]: "harmless (oper, r) \<longleftrightarrow> \<not> is_exec oper \<and> \<not> is_probe oper \<and> \<not> is_move oper"
  by (simp add: harmless_def)

lemma only_say: "(\<And>m r. P (OSay m, r)) \<Longrightarrow> only P (sd_say env msg)"
  unfolding sd_say_def by (intro only_intros)

lemma only_do_op: "(\<And>r. P (oper, r)) \<Longrightarrow> only P (do_op env oper)"
  unfolding do_op_def by (intro only_intros)

lemma only_spawnHelper:
  "(\<And>m r. P (OSay m, r)) \<Longrightarrow> (\<And>p a e t r. P (OSpawn p a e t, r)) \<Longrightarrow> only P (spawnHelper env cfg role)"
  unfolding spawnHelper_def by (intro only_intros only_say)

lemmas sd_only = only_intros only_say only_do_op only_spawnHelper

lemma only_bind_udc: "only harmless (bind_udc env us)"
proof (induction us)
  case (Cons u us)
  then show ?case unfolding bind_udc.simps by (intro sd_only) simp_all
qed (simp, intro sd_only, simp)

lemma only_gadget: "only harmless (gadget env)"
proof -
  have "only harmless (gadget_step env s)" for s
    unfolding gadget_step_def by (cases "Kind s") (simp_all add: only_do_op)
  then show ?thesis unfolding gadget_def by (intro sd_only only_bind_udc) simp_all
qed

lemma only_console_pass: "only harmless (console_pass env ks)"
proof (induction ks)
  case (Cons k ks)
  then show ?case by (cases k) (simp only: console_pass.simps, intro sd_only, simp_all)
qed simp

lemma only_reap: "only harmless (reap env n)"
proof (induction n)
  case (Suc n)
  then show ?case unfolding reap.simps by (intro sd_only) simp_all
qed simp

lemma only_rescue_loop: "only harmless (rescue_loop env cfg strays n kids)"
proof (induction n arbitrary: kids)
  case (Suc n)
  then show ?case unfolding rescue_loop.simps by (intro sd_only only_console_pass only_reap) simp_all
qed simp

lemma only_rescue: "only harmless (rescue env cfg strays passes why)"
  unfolding rescue_def rescue_arm_def
  by (intro sd_only only_gadget only_rescue_loop) simp_all

lemma only_find_fsck: "only harmless (find_fsck env ps)"
proof (induction ps)
  case (Cons p ps)
  then show ?case unfolding find_fsck.simps by (intro sd_only) simp_all
qed simp

lemma only_fsck: "only harmless (fsck env dev)"
  unfolding fsck_def by (intro sd_only only_find_fsck) simp_all

lemma only_mountRoot: "only harmless (mountRoot env dev)"
  unfolding mountRoot_def by (intro sd_only only_fsck) simp_all

lemma only_early_mounts: "only harmless (early_mounts env)"
  unfolding early_mounts_def by (intro sd_only) simp_all

section \<open>What the parts establish\<close>

lemma emits_rescue_arm:
  "emits (rescue_arm env why) (\<lambda>_ new. \<exists>m1 m2. map fst new =
     [OSay (RescueMsg why), OSay m1, OTouch leasePath, OTouch deadmanPath, OSay m2])"
  unfolding rescue_arm_def sd_say_def by (simp, intro emits_act_bind emits_return) simp

lemma emits_rescue:
  "emits (rescue env cfg strays passes why)
     (\<lambda>_ new. (\<forall>e\<in>set new. harmless e) \<and>
        (\<exists>m1 m2 rest. map fst new =
           [OSay (RescueMsg why), OSay m1, OTouch leasePath, OTouch deadmanPath, OSay m2] @ rest))"
proof -
  have "emits (rescue env cfg strays passes why)
     (\<lambda>_ new. (\<exists>m1 m2 rest. map fst new =
           [OSay (RescueMsg why), OSay m1, OTouch leasePath, OTouch deadmanPath, OSay m2] @ rest))"
    unfolding rescue_def
  proof (rule emits_bind[OF emits_rescue_arm])
    fix a :: unit and new :: "(sop, sresp) events"
    let ?rest = "do { act env (OMkdir ''/sys/kernel/config'');
       act env (OMount ''configfs'' ''/sys/kernel/config'' ''configfs'' []); gadget env;
       spawnHelper env cfg helperKmsg; spawnHelper env cfg helperShell;
       rescue_loop env cfg strays passes (map (\<lambda>_. 0) rescueConsoles) }"
    assume n: "\<exists>m1 m2. map fst new = [OSay (RescueMsg why), OSay m1, OTouch leasePath, OTouch deadmanPath, OSay m2]"
    have "only harmless ?rest" by (intro sd_only only_gadget only_rescue_loop) simp_all
    then show "emits ?rest (\<lambda>b new'. \<exists>m1 m2 rest. map fst (new @ new') =
           [OSay (RescueMsg why), OSay m1, OTouch leasePath, OTouch deadmanPath, OSay m2] @ rest)"
      by (intro emits_weaken[OF onlyD]) (use n in auto)
  qed
  from emits_only[OF this only_rescue] show ?thesis by (rule emits_weaken) auto
qed

lemma probe_of_Inr: "probe_of r = Inr cs \<Longrightarrow> r = RProbe cs"
  by (cases r) (auto simp: probe_of_def)

definition waited :: "nat \<Rightarrow> (boot_failure + Candidate list) \<Rightarrow> (sop, sresp) events \<Rightarrow> bool" where
  "waited n r new \<longleftrightarrow> length (filter (is_probe \<circ> fst) new) \<le> n \<and>
     (\<forall>e\<in>set new. is_probe (fst e) \<or> is_say (fst e) \<or> fst e = OSleep 1) \<and>
     (\<forall>cands. r = Inr cands \<longrightarrow> (OProbeRoots, RProbe cands) \<in> set new) \<and>
     (\<forall>e. r = Inl e \<longrightarrow> (\<exists>s t. e = NoUserdata s t))"

lemma is_say_not: "is_say oper \<Longrightarrow> \<not> is_probe oper \<and> \<not> is_exec oper \<and> \<not> is_move oper"
  by (cases oper) (simp_all add: is_say_def)

lemma is_move_not: "is_move oper \<Longrightarrow> \<not> is_probe oper \<and> \<not> is_exec oper"
  by (cases oper) (simp_all add: is_move_def)

lemma is_probe_not: "is_probe oper \<Longrightarrow> \<not> is_exec oper"
  by (cases oper) (simp_all add: is_probe_def)

lemma waited_again:
  assumes "waited n r new'" "\<forall>e\<in>set new. is_say (fst e)"
  shows "waited (Suc n) r ((OProbeRoots, p) # new @ (OSleep 1, s) # new')"
proof -
  have "filter (is_probe \<circ> fst) new = []" using assms(2) is_say_not by (auto simp: filter_empty_conv)
  then show ?thesis using assms by (auto simp: waited_def)
qed

lemma emits_find_wait: "emits (find_wait env left second) (waited (Suc left))"
proof (induction left arbitrary: second)
  case 0
  show ?case
    apply (subst find_wait.simps)
    apply (intro emits_act_bind emits_sum emits_if)
      apply (auto intro!: emits_return simp: waited_def dest: probe_of_Inr)
    done
next
  case (Suc left)
  show ?case
  proof (subst find_wait.simps, intro emits_act_bind emits_sum emits_if)
    fix r e
    show "emits (ret (Inl (NoUserdata second e))) (\<lambda>b new'. waited (Suc (Suc left)) b ((OProbeRoots, r) # new'))"
      by (rule emits_return) (simp add: waited_def)
  next
    fix r e
    let ?notice = "case WaitingNotice second of Some m \<Rightarrow> sd_say env m | None \<Rightarrow> unit_prog"
    have n: "emits ?notice (\<lambda>_ new. \<forall>e\<in>set new. is_say (fst e))"
      by (rule onlyD) (intro sd_only, simp)
    have "emits (do { ?notice; act env (OSleep 1); find_wait env left (Suc second) })
        (\<lambda>b new'. waited (Suc (Suc left)) b ((OProbeRoots, r) # new'))"
      by (rule emits_bind[OF n], rule emits_act_bind, rule emits_weaken[OF Suc.IH])
         (simp add: waited_again[simplified])
    then show "emits (case Suc left of 0 \<Rightarrow> ret (Inl (NoUserdata second e))
        | Suc l \<Rightarrow> do { ?notice; act env (OSleep 1); find_wait env l (Suc second) })
        (\<lambda>b new'. waited (Suc (Suc left)) b ((OProbeRoots, r) # new'))" by simp
  next
    fix r cs
    assume "probe_of r = Inr cs"
    then show "emits (ret (Inr cs)) (\<lambda>b new'. waited (Suc (Suc left)) b ((OProbeRoots, r) # new'))"
      by (auto intro!: emits_return simp: waited_def dest: probe_of_Inr)
  qed
qed

definition located :: "(boot_failure + string) \<Rightarrow> (sop, sresp) events \<Rightarrow> bool" where
  "located r new \<longleftrightarrow> length (filter (is_probe \<circ> fst) new) \<le> 60 \<and>
     (\<forall>e\<in>set new. is_probe (fst e) \<or> is_say (fst e) \<or> fst e = OSleep 1) \<and>
     (\<forall>dev. r = Inr dev \<longrightarrow> (\<exists>cands. (OProbeRoots, RProbe cands) \<in> set new \<and> SelectRoot cands = Inr dev)) \<and>
     (\<forall>e. r = Inl (BadRoot e) \<longrightarrow> (\<exists>cands. (OProbeRoots, RProbe cands) \<in> set new \<and> SelectRoot cands = Inl e))"

lemma emits_findRoot: "emits (findRoot env) located"
  unfolding findRoot_def
proof (rule emits_bind[OF emits_find_wait], intro emits_sum)
  fix a :: "boot_failure + Candidate list" and new y
  assume "waited (Suc (rootWaitSeconds - 1)) a new" "a = Inl y"
  then show "emits (ret (Inl y)) (\<lambda>r new'. located r (new @ new'))"
    by (intro emits_return) (auto simp: waited_def located_def rootWaitSeconds_def)
next
  fix a :: "boot_failure + Candidate list" and new cands e
  assume "waited (Suc (rootWaitSeconds - 1)) a new" "a = Inr cands" "SelectRoot cands = Inl e"
  then show "emits (ret (Inl (BadRoot e))) (\<lambda>r new'. located r (new @ new'))"
    by (intro emits_return) (auto simp: waited_def located_def rootWaitSeconds_def)
next
  fix a :: "boot_failure + Candidate list" and new cands dev
  assume "waited (Suc (rootWaitSeconds - 1)) a new" "a = Inr cands" "SelectRoot cands = Inr dev"
  then show "emits (do { sd_say env (''init: userdata resolved: '' @ dev @ '' (ext4, labelled '' @ rootLabel @ '')''); ret (Inr dev) })
    (\<lambda>r new'. located r (new @ new'))"
    unfolding sd_say_def
    by (simp, intro emits_act_bind emits_return) (auto simp: waited_def located_def rootWaitSeconds_def)
qed

definition mounted :: "string \<Rightarrow> (sop, sresp) events \<Rightarrow> bool" where
  "mounted dev new \<longleftrightarrow>
     (\<exists>r. (OMount dev rootMount rootFSType [], r) \<in> set new \<and> \<not> failed r) \<and>
     (\<exists>a b. (OStat ''/'', RStat a) \<in> set new \<and> (OStat rootMount, RStat b) \<in> set new \<and> Dev a \<noteq> Dev b) \<and>
     (\<exists>i. (OStat (rootMount @ ''/sbin/init''), RStat i) \<in> set new \<and> Executable i)"

definition mount_attempt :: "string \<Rightarrow> boot_failure option \<Rightarrow> (sop, sresp) events \<Rightarrow> bool" where
  "mount_attempt dev f new \<longleftrightarrow> (\<forall>e\<in>set new. harmless e) \<and> (f = None \<longrightarrow> mounted dev new) \<and>
     (f \<noteq> None \<longrightarrow> (\<exists>r. (OMount dev rootMount rootFSType [], r) \<in> set new \<and> \<not> failed r) \<longrightarrow>
        OUnmount rootMount \<in> fst ` set new)"

lemma stat_of_Some: "stat_of r = Some f \<longleftrightarrow> r = RStat f"
  by (cases r) (auto simp: stat_of_def)

lemma executable_at_iff: "executable_at r \<longleftrightarrow> (\<exists>f. r = RStat f \<and> Executable f)"
  by (cases r) (auto simp: executable_at_def stat_of_def)

lemma no_root_mount_fsck:
  "only (\<lambda>e. harmless e \<and> (\<forall>d. fst e \<noteq> OMount d rootMount rootFSType [])) (fsck env dev)"
proof -
  have "only (\<lambda>e. harmless e \<and> (\<forall>d. fst e \<noteq> OMount d rootMount rootFSType [])) (find_fsck env ps)" for ps
  proof (induction ps)
    case (Cons p ps)
    then show ?case unfolding find_fsck.simps by (intro sd_only) simp_all
  qed simp
  then show ?thesis unfolding fsck_def by (intro sd_only) simp_all
qed

lemma emits_mountRoot: "emits (mountRoot env dev) (mount_attempt dev)"
  unfolding mountRoot_def
proof (rule emits_bind[OF onlyD[OF no_root_mount_fsck]], intro emits_option emits_act_bind emits_if)
  fix f :: "boot_failure option" and new :: "(sop, sresp) events" and y
  assume n: "\<forall>e\<in>set new. harmless e \<and> (\<forall>d. fst e \<noteq> OMount d rootMount rootFSType [])"
  then show "emits (ret (Some y)) (\<lambda>b new'. mount_attempt dev b (new @ new'))"
    by (intro emits_return) (force simp: mount_attempt_def)
  fix m
  show "failed m \<Longrightarrow> emits (ret (Some (MountFailed dev (err_text m))))
     (\<lambda>b new'. mount_attempt dev b (new @ (OMount dev rootMount rootFSType [], m) # new'))"
    using n by (intro emits_return) (force simp: mount_attempt_def)
  fix ra rb ru
  show "emits (ret (Some NotSeparate)) (\<lambda>b new'. mount_attempt dev b (new @ (OMount dev rootMount rootFSType [], m) #
     (OStat ''/'', ra) # (OStat rootMount, rb) # (OUnmount rootMount, ru) # new'))"
    using n by (intro emits_return) (auto simp: mount_attempt_def)
  fix i
  show "emits (ret (Some (NoInit dev))) (\<lambda>b new'. mount_attempt dev b (new @ (OMount dev rootMount rootFSType [], m) #
     (OStat ''/'', ra) # (OStat rootMount, rb) # (OStat (rootMount @ ''/sbin/init''), i) # (OUnmount rootMount, ru) # new'))"
    using n by (intro emits_return) (auto simp: mount_attempt_def)
  assume c: "\<not> failed m" "\<not> (stat_of ra = None \<or> stat_of rb = None \<or> map_option Dev (stat_of ra) = map_option Dev (stat_of rb))"
    "\<not> \<not> executable_at i"
  then obtain fa fb where "ra = RStat fa" "rb = RStat fb" "Dev fa \<noteq> Dev fb"
    by (cases ra; cases rb) (auto simp: stat_of_def)
  then show "emits (ret None) (\<lambda>b new'. mount_attempt dev b (new @ (OMount dev rootMount rootFSType [], m) #
     (OStat ''/'', ra) # (OStat rootMount, rb) # (OStat (rootMount @ ''/sbin/init''), i) # new'))"
    using n c by (intro emits_return) (auto simp: mount_attempt_def mounted_def executable_at_iff)
qed

definition fwd :: "string \<Rightarrow> sop" where "fwd m = OMoveMount m (rootMount @ m)"
definition bwd :: "string \<Rightarrow> sop" where "bwd m = OMoveMount (rootMount @ m) m"

definition moved_ok :: "string list \<Rightarrow> (sop, sresp) events \<Rightarrow> bool" where
  "moved_ok ms new \<longleftrightarrow> (\<forall>m\<in>set ms. \<exists>r. (fwd m, r) \<in> set new \<and> \<not> failed r)"

text \<open>Moves in order, all of the first \<open>n\<close> successful and the next one, if there is one, failed.\<close>

definition answered_moves :: "string list \<Rightarrow> nat \<Rightarrow> (sop, sresp) events \<Rightarrow> bool" where
  "answered_moves ms n evs \<longleftrightarrow> (\<exists>rs. length rs = min (length ms) (Suc n) \<and>
     evs = zip (map fwd (take (Suc n) ms)) rs \<and> (\<forall>i<length rs. failed (rs ! i) \<longleftrightarrow> i = n))"

lemma answered_moves_Nil: "answered_moves [] 0 []"
  by (simp add: answered_moves_def)

lemma answered_moves_fail: "failed r \<Longrightarrow> answered_moves (m # ms) 0 [(fwd m, r)]"
  by (auto simp: answered_moves_def intro: exI[of _ "[r]"])

lemma answered_moves_ok:
  assumes "\<not> failed r" "answered_moves ms n evs"
  shows "answered_moves (m # ms) (Suc n) ((fwd m, r) # evs)"
proof -
  obtain rs where "length rs = min (length ms) (Suc n)" "evs = zip (map fwd (take (Suc n) ms)) rs"
      "\<forall>i<length rs. failed (rs ! i) \<longleftrightarrow> i = n" using assms(2) by (auto simp: answered_moves_def)
  then show ?thesis unfolding answered_moves_def
    using assms(1) by (intro exI[of _ "r # rs"]) (auto simp: nth_Cons split: nat.splits)
qed

definition moving :: "string list \<Rightarrow> nat \<Rightarrow> nat \<Rightarrow> (sop, sresp) events \<Rightarrow> bool" where
  "moving ms k n new \<longleftrightarrow> k \<le> n \<and> n \<le> k + length ms \<and>
     (\<forall>e\<in>set new. is_move (fst e) \<or> is_say (fst e)) \<and>
     answered_moves ms (n - k) (filter (is_move \<circ> fst) new) \<and>
     (n = k + length ms \<longrightarrow> moved_ok ms new)"

lemma emits_move_mounts: "emits (move_mounts env ms k) (moving ms k)"
proof (induction ms arbitrary: k)
  case Nil
  show ?case unfolding move_mounts.simps by (rule emits_return) (simp add: moving_def moved_ok_def answered_moves_Nil)
next
  case (Cons m ms)
  show ?case
    unfolding move_mounts.simps
  proof (intro emits_act_bind emits_if)
    fix r
    assume "failed r"
    then show "emits (do { sd_say env (''init: moving '' @ m @ '' into the new root failed: '' @ err_text r); ret k })
       (\<lambda>n new'. moving (m # ms) k n ((OMoveMount m (rootMount @ m), r) # new'))"
      unfolding sd_say_def
      using answered_moves_fail[of r m ms]
      by (simp, intro emits_act_bind emits_return) (simp add: moving_def fwd_def is_say_not)
  next
    fix r
    assume "\<not> failed r"
    then show "emits (move_mounts env ms (Suc k)) (\<lambda>n new'. moving (m # ms) k n ((OMoveMount m (rootMount @ m), r) # new'))"
      by (intro emits_weaken[OF Cons.IH])
         (use answered_moves_ok[of r ms] in \<open>auto simp: moving_def fwd_def moved_ok_def Suc_diff_Suc[symmetric] Suc_le_eq\<close>)
  qed
qed

lemma emits_rollback:
  "k \<le> length kernelMounts \<Longrightarrow> emits (rollback env k) (\<lambda>_ new. map fst new = map bwd (rev (take k kernelMounts)))"
proof (induction k)
  case 0
  show ?case unfolding rollback.simps by (rule emits_return) simp
next
  case (Suc k)
  then have t: "take (Suc k) kernelMounts = take k kernelMounts @ [kernelMounts ! k]"
    by (simp add: take_Suc_conv_app_nth)
  show ?case
    unfolding rollback.simps t
    by (rule emits_act_bind, rule emits_weaken[OF Suc.IH]) (use Suc.prems in \<open>simp_all add: bwd_def\<close>)
qed

definition in_rescue :: "boot_failure \<Rightarrow> (sop, sresp) events \<Rightarrow> bool" where
  "in_rescue why new \<longleftrightarrow> (\<exists>pre m1 m2 rest. map fst new =
     pre @ [OSay (RescueMsg why), OSay m1, OTouch leasePath, OTouch deadmanPath, OSay m2] @ rest)"

definition switch_root_op :: sop where
  "switch_root_op = OExec busyboxPath [''switch_root'', rootMount, ''/sbin/init'']"

text \<open>The rollback: exactly the moves that succeeded are undone, in the reverse order, before rescue speaks.\<close>

definition rolled_back :: "(sop, sresp) events \<Rightarrow> bool" where
  "rolled_back new \<longleftrightarrow> (\<exists>k\<le>length kernelMounts. \<exists>fs bs pre r post.
     new = pre @ (OSay (RescueMsg SwitchFailed), r) # post \<and> (\<forall>e\<in>set post. \<not> is_move (fst e)) \<and>
     filter (is_move \<circ> fst) pre = fs @ bs \<and> answered_moves kernelMounts k fs \<and>
     map fst bs = map bwd (rev (take k kernelMounts)))"

definition handed_off :: "boot_result \<Rightarrow> (sop, sresp) events \<Rightarrow> bool" where
  "handed_off res new \<longleftrightarrow>
     (\<forall>e\<in>set new. \<not> is_probe (fst e)) \<and> guarded is_exec (moved_ok kernelMounts) new \<and>
     (\<forall>e\<in>set new. is_exec (fst e) \<longrightarrow> fst e = switch_root_op) \<and>
     (res = Replaced \<longrightarrow> (\<exists>p r. new = p @ [(switch_root_op, r)] \<and> \<not> failed r)) \<and>
     (res \<noteq> Replaced \<longrightarrow> in_rescue SwitchFailed new \<and> rolled_back new)"

lemma moved_ok_more: "moved_ok ms xs \<Longrightarrow> moved_ok ms (xs @ ys)"
  by (auto simp: moved_ok_def)

lemma handoff_rescued:
  assumes pre: "\<forall>e\<in>set pre. \<not> is_probe (fst e)" "guarded is_exec (moved_ok kernelMounts) pre"
      "\<forall>e\<in>set pre. is_exec (fst e) \<longrightarrow> fst e = switch_root_op"
      "answered_moves kernelMounts k (filter (is_move \<circ> fst) pre)" and k: "k \<le> length kernelMounts"
  shows "emits (do { rollback env k; r \<leftarrow> rescue env cfg strays passes SwitchFailed; ret (Rescued r) })
           (\<lambda>res new. handed_off res (pre @ new))"
proof (rule emits_bind[OF emits_rollback[OF k]], rule emits_bind[OF emits_rescue], rule emits_return)
  fix rb rs :: "(sop, sresp) events" and r
  assume rb: "map fst rb = map bwd (rev (take k kernelMounts))"
    and rs: "(\<forall>e\<in>set rs. harmless e) \<and> (\<exists>m1 m2 rest. map fst rs =
       [OSay (RescueMsg SwitchFailed), OSay m1, OTouch leasePath, OTouch deadmanPath, OSay m2] @ rest)"
  have mv: "\<forall>x\<in>fst ` set rb. is_move x \<and> \<not> is_probe x \<and> \<not> is_exec x"
    using rb by (metis (no_types, lifting) bwd_def ex_map_conv list.set_map op_class_simps(31,22,7))
  have fr: "filter (is_move \<circ> fst) rb = rb" using mv by (intro filter_True) auto
  obtain rr rs' where rs': "rs = (OSay (RescueMsg SwitchFailed), rr) # rs'"
    using rs by (cases rs) auto
  have "rolled_back (pre @ rb @ rs)"
    unfolding rolled_back_def
  proof (intro exI[of _ k] conjI exI)
    show "pre @ rb @ rs = (pre @ rb) @ (OSay (RescueMsg SwitchFailed), rr) # rs'" by (simp add: rs')
    show "\<forall>e\<in>set rs'. \<not> is_move (fst e)" using rs rs' by (auto simp: harmless_def)
    show "filter (is_move \<circ> fst) (pre @ rb) = filter (is_move \<circ> fst) pre @ rb" using fr by simp
  qed (use k pre(4) rb in auto)
  have g: "guarded is_exec (moved_ok kernelMounts) (pre @ rb @ rs)"
    unfolding guarded_def
  proof (intro allI impI)
    fix p e q assume e: "pre @ rb @ rs = p @ e # q" "is_exec (fst e)"
    have "e \<notin> set (rb @ rs)" using e(2) mv rs by (auto simp: harmless_def)
    then obtain us where "pre = p @ e # us"
      using e(1) by (auto simp: append_eq_append_conv2 append_eq_Cons_conv Cons_eq_append_conv)
    then show "moved_ok kernelMounts p" using pre(2) e(2) unfolding guarded_def by blast
  qed
  have "in_rescue SwitchFailed (pre @ rb @ rs)"
    using rs unfolding in_rescue_def by (metis append.assoc map_append)
  moreover note \<open>rolled_back (pre @ rb @ rs)\<close>
  moreover have "\<forall>e\<in>set (pre @ rb @ rs). \<not> is_probe (fst e) \<and> (is_exec (fst e) \<longrightarrow> fst e = switch_root_op)"
    using pre(1,3) mv rs by (auto simp: harmless_def)
  ultimately show "handed_off (Rescued r) (pre @ rb @ rs @ [])"
    using g unfolding handed_off_def append_Nil2 by blast
qed

lemma emits_handoff: "emits (handoff env cfg strays passes dev) handed_off"
  unfolding handoff_def sd_say_def bind_assoc
proof (rule emits_act_bind, simp only: bind_left_identity, rule emits_bind[OF emits_move_mounts])
  fix s0 moved and new :: "(sop, sresp) events"
  let ?p0 = "(OSay (Msg (Line (''init: switching root from verified device '' @ dev))), s0) # new"
  assume mv: "moving kernelMounts 0 moved new"
  have k: "moved \<le> length kernelMounts"
      and fm: "answered_moves kernelMounts moved (filter (is_move \<circ> fst) new)"
    using mv by (simp_all add: moving_def)
  have no: "\<forall>e\<in>set new. \<not> is_probe (fst e) \<and> \<not> is_exec (fst e)"
    using mv is_say_not is_move_not unfolding moving_def by blast
  have g0: "guarded is_exec (moved_ok kernelMounts) ?p0" by (rule guarded_none) (use no in auto)
  show "emits (do {
      replaced \<leftarrow> (if moved = length kernelMounts then do {
                    x \<leftarrow> act env (OExec busyboxPath [''switch_root'', rootMount, ''/sbin/init'']);
                    if failed x then do { act env (OSay (Msg (Line (''init: switch_root exec FAILED: '' @ err_text x)))); ret False }
                    else ret True } else ret False);
      if replaced then ret Replaced
      else do { rollback env moved; r \<leftarrow> rescue env cfg strays passes SwitchFailed; ret (Rescued r) } })
    (\<lambda>b new'. handed_off b ((OSay (Msg (Line (''init: switching root from verified device '' @ dev))), s0) # new @ new'))"
  proof (cases "moved = length kernelMounts")
    case False
    have "emits (do { rollback env moved; r \<leftarrow> rescue env cfg strays passes SwitchFailed; ret (Rescued r) })
           (\<lambda>res new'. handed_off res (?p0 @ new'))"
      by (rule handoff_rescued) (use no g0 fm k in auto)
    then show ?thesis using False by simp
  next
    case True
    have ok: "moved_ok kernelMounts ?p0" using mv True by (auto simp: moving_def moved_ok_def)
    have ex: "emits (if failed x then do { rollback env moved; r \<leftarrow> rescue env cfg strays passes SwitchFailed; ret (Rescued r) }
        else ret Replaced) (\<lambda>b new'. handed_off b (?p0 @ (switch_root_op, x) # (if failed x then [(OSay (Msg (Line (''init: switch_root exec FAILED: '' @ err_text x))), y)] else []) @ new'))" for x y
    proof (cases "failed x")
      case f: True
      let ?p1 = "?p0 @ [(switch_root_op, x), (OSay (Msg (Line (''init: switch_root exec FAILED: '' @ err_text x))), y)]"
      have "guarded is_exec (moved_ok kernelMounts) ?p1"
        by (rule guarded_later[OF ok _ g0]) (rule moved_ok_more)
      then have "emits (do { rollback env moved; r \<leftarrow> rescue env cfg strays passes SwitchFailed; ret (Rescued r) })
           (\<lambda>res new'. handed_off res (?p1 @ new'))"
        by (intro handoff_rescued) (use no fm k in \<open>auto simp: switch_root_op_def\<close>)
      then show ?thesis using f by simp
    next
      case nf: False
      have "guarded is_exec (moved_ok kernelMounts) (?p0 @ [(switch_root_op, x)])"
        by (rule guarded_later[OF ok _ g0]) (rule moved_ok_more)
      moreover have "?p0 @ [(switch_root_op, x)] = ?p0 @ [(switch_root_op, x)] \<and> \<not> failed x" using nf by simp
      ultimately have "handed_off Replaced (?p0 @ [(switch_root_op, x)])"
        using no unfolding handed_off_def by (auto simp: switch_root_op_def)
      then show ?thesis using nf by (simp add: emits_return)
    qed
    show ?thesis
      using True
      apply (simp only: if_True bind_assoc refl)
      apply (rule emits_act_bind)
      subgoal for x
        using ex[of x] by (cases "failed x") (auto intro!: emits_act_bind simp: switch_root_op_def)
      done
  qed
qed

definition ready :: "(sop, sresp) events \<Rightarrow> bool" where
  "ready pre \<longleftrightarrow> (\<exists>cands dev. (OProbeRoots, RProbe cands) \<in> set pre \<and> SelectRoot cands = Inr dev \<and>
     mounted dev pre \<and> moved_ok kernelMounts pre)"

definition booted :: "boot_result \<Rightarrow> (sop, sresp) events \<Rightarrow> bool" where
  "booted res new \<longleftrightarrow>
     guarded is_exec ready new \<and> (\<forall>e\<in>set new. is_exec (fst e) \<longrightarrow> fst e = switch_root_op) \<and>
     length (filter (is_probe \<circ> fst) new) \<le> 60 \<and>
     (res = Replaced \<longrightarrow> (\<exists>p r. new = p @ [(switch_root_op, r)] \<and> \<not> failed r)) \<and>
     (res \<noteq> Replaced \<longrightarrow> (\<exists>why. in_rescue why new))"

lemma mounted_more: "mounted dev xs \<Longrightarrow> mounted dev (xs @ ys)" "mounted dev xs \<Longrightarrow> mounted dev (ys @ xs)"
  unfolding mounted_def set_append by blast+

lemma ready_more: "ready xs \<Longrightarrow> ready (ys @ xs)"
proof -
  assume "ready xs"
  then obtain cands dev where "(OProbeRoots, RProbe cands) \<in> set xs" "SelectRoot cands = Inr dev"
    "mounted dev xs" "moved_ok kernelMounts xs" unfolding ready_def by blast
  moreover have "moved_ok kernelMounts (ys @ xs)" using calculation(4) by (auto simp: moved_ok_def)
  ultimately show ?thesis unfolding ready_def using mounted_more(2)[of dev xs ys] by auto
qed

lemma in_rescue_more: "in_rescue why xs \<Longrightarrow> in_rescue why (ys @ xs)"
  unfolding in_rescue_def by (metis append.assoc map_append)

lemma booted_prefix:
  assumes "\<forall>e\<in>set pre. harmless e" "booted res new"
  shows "booted res (pre @ new)"
proof -
  have "guarded is_exec ready pre" by (rule guarded_none) (use assms(1) in \<open>simp add: harmless_def\<close>)
  then have "guarded is_exec ready (pre @ new)"
    using assms(2) by (intro guarded_append ready_more) (simp_all add: booted_def)
  moreover have "filter (is_probe \<circ> fst) pre = []" using assms(1) by (auto simp: filter_empty_conv harmless_def)
  moreover have "res = Replaced \<longrightarrow> (\<exists>p r. pre @ new = p @ [(switch_root_op, r)] \<and> \<not> failed r)"
    using assms(2) unfolding booted_def by (metis append.assoc)
  moreover have "res \<noteq> Replaced \<longrightarrow> (\<exists>why. in_rescue why (pre @ new))"
    using assms(2) in_rescue_more unfolding booted_def by blast
  moreover have "\<forall>e\<in>set (pre @ new). is_exec (fst e) \<longrightarrow> fst e = switch_root_op"
    using assms unfolding booted_def harmless_def by auto
  ultimately show ?thesis using assms(2) unfolding booted_def by simp
qed

lemma booted_rescue:
  assumes "\<forall>e\<in>set pre. \<not> is_exec (fst e)" "length (filter (is_probe \<circ> fst) pre) \<le> 60"
  shows "emits (do { r \<leftarrow> rescue env cfg strays passes why; ret (Rescued r) }) (\<lambda>res new. booted res (pre @ new))"
proof (rule emits_bind[OF emits_rescue], rule emits_return)
  fix r and rs :: "(sop, sresp) events"
  assume rs: "(\<forall>e\<in>set rs. harmless e) \<and> (\<exists>m1 m2 rest. map fst rs =
       [OSay (RescueMsg why), OSay m1, OTouch leasePath, OTouch deadmanPath, OSay m2] @ rest)"
  have "filter (is_probe \<circ> fst) rs = []" using rs by (auto simp: filter_empty_conv harmless_def)
  moreover have "guarded is_exec ready (pre @ rs)"
    by (rule guarded_none) (use assms(1) rs in \<open>auto simp: harmless_def\<close>)
  moreover have "in_rescue why rs" using rs unfolding in_rescue_def by (metis append_Nil)
  moreover have "\<forall>e\<in>set (pre @ rs). \<not> is_exec (fst e)" using assms(1) rs by (auto simp: harmless_def)
  ultimately show "booted (Rescued r) (pre @ rs @ [])"
    using assms(2) in_rescue_more[of why rs pre] unfolding booted_def by auto
qed

lemma booted_handoff:
  assumes pre: "\<forall>e\<in>set pre. \<not> is_exec (fst e)" "length (filter (is_probe \<circ> fst) pre) \<le> 60"
    and root: "(OProbeRoots, RProbe cands) \<in> set pre" "SelectRoot cands = Inr dev" "mounted dev pre"
  shows "emits (handoff env cfg strays passes dev) (\<lambda>res new. booted res (pre @ new))"
proof (rule emits_weaken[OF emits_handoff])
  fix res and new :: "(sop, sresp) events"
  assume h: "handed_off res new"
  have "guarded is_exec ready (pre @ new)"
    unfolding guarded_def
  proof (intro allI impI)
    fix p e q assume e: "pre @ new = p @ e # q" "is_exec (fst e)"
    have "e \<notin> set pre" using e(2) pre(1) by auto
    then obtain us where us: "p = pre @ us" "new = us @ e # q"
      using e(1) by (auto simp: append_eq_append_conv2 append_eq_Cons_conv Cons_eq_append_conv)
    then have "moved_ok kernelMounts us" using h e(2) unfolding handed_off_def guarded_def by blast
    then have "moved_ok kernelMounts p" using us(1) by (auto simp: moved_ok_def)
    then show "ready p" using root mounted_more(1)[OF root(3), of us] us(1) unfolding ready_def by auto
  qed
  moreover have "filter (is_probe \<circ> fst) new = []" using h by (auto simp: filter_empty_conv handed_off_def)
  moreover have "res = Replaced \<longrightarrow> (\<exists>p r. pre @ new = p @ [(switch_root_op, r)] \<and> \<not> failed r)"
    using h unfolding handed_off_def by (metis append.assoc)
  moreover have "res \<noteq> Replaced \<longrightarrow> (\<exists>why. in_rescue why (pre @ new))"
    using h in_rescue_more unfolding handed_off_def by blast
  moreover have "\<forall>e\<in>set (pre @ new). is_exec (fst e) \<longrightarrow> fst e = switch_root_op"
    using pre(1) h unfolding handed_off_def by auto
  ultimately show "booted res (pre @ new)" using pre(2) unfolding booted_def by simp
qed

lemma emits_boot_storage: "emits (boot_storage env cfg strays passes) booted"
  unfolding boot_storage_def
proof (rule emits_act_bind, rule emits_if)
  fix st
  show "emits (do { r \<leftarrow> rescue env cfg strays passes NoBusybox; ret (Rescued r) })
      (\<lambda>b new'. booted b ((OStat busyboxPath, st) # new'))"
    using booted_rescue[of "[(OStat busyboxPath, st)]" env cfg strays passes NoBusybox] by simp
next
  fix st
  show "emits (do { d \<leftarrow> findRoot env;
       (case d of
          Inl e \<Rightarrow> do { r \<leftarrow> rescue env cfg strays passes e; ret (Rescued r) }
        | Inr dev \<Rightarrow> do { m \<leftarrow> mountRoot env dev;
            (case m of
               Some e \<Rightarrow> do { r \<leftarrow> rescue env cfg strays passes e; ret (Rescued r) }
             | None \<Rightarrow> handoff env cfg strays passes dev) }) })
      (\<lambda>b new'. booted b ((OStat busyboxPath, st) # new'))"
  proof (rule emits_bind[OF emits_findRoot], rule emits_sum)
    fix d :: "boot_failure + string" and new :: "(sop, sresp) events" and e
    assume l: "located d new"
    have pre: "\<forall>x\<in>set ((OStat busyboxPath, st) # new). \<not> is_exec (fst x)"
        "length (filter (is_probe \<circ> fst) ((OStat busyboxPath, st) # new)) \<le> 60"
    proof -
      have "\<not> is_exec (fst x)" if "x \<in> set new" for x
      proof -
        have "is_probe (fst x) \<or> is_say (fst x) \<or> fst x = OSleep 1" using l that unfolding located_def by blast
        then show ?thesis using is_say_not[of "fst x"] by (auto simp: is_probe_not)
      qed
      then show "\<forall>x\<in>set ((OStat busyboxPath, st) # new). \<not> is_exec (fst x)" by simp
      show "length (filter (is_probe \<circ> fst) ((OStat busyboxPath, st) # new)) \<le> 60"
        using l unfolding located_def by simp
    qed
    show "emits (do { r \<leftarrow> rescue env cfg strays passes e; ret (Rescued r) })
        (\<lambda>b new'. booted b ((OStat busyboxPath, st) # new @ new'))"
      using booted_rescue[OF pre, of env cfg strays passes e] by simp
    fix dev
    assume d: "d = Inr dev"
    obtain cands where c: "(OProbeRoots, RProbe cands) \<in> set new" "SelectRoot cands = Inr dev"
      using l d unfolding located_def by blast
    show "emits (do { m \<leftarrow> mountRoot env dev;
            (case m of
               Some e \<Rightarrow> do { r \<leftarrow> rescue env cfg strays passes e; ret (Rescued r) }
             | None \<Rightarrow> handoff env cfg strays passes dev) })
        (\<lambda>b new'. booted b ((OStat busyboxPath, st) # new @ new'))"
    proof (rule emits_bind[OF emits_mountRoot], rule emits_option)
      fix m :: "boot_failure option" and mn :: "(sop, sresp) events" and e
      assume ma: "mount_attempt dev m mn"
      let ?pre = "((OStat busyboxPath, st) # new) @ mn"
      have hm: "\<forall>e\<in>set mn. harmless e" using ma by (simp add: mount_attempt_def)
      have f: "filter (is_probe \<circ> fst) mn = []" using hm by (auto simp: filter_empty_conv harmless_def)
      have pre': "\<forall>x\<in>set ?pre. \<not> is_exec (fst x)" "length (filter (is_probe \<circ> fst) ?pre) \<le> 60"
        using pre hm f by (auto simp: harmless_def)
      show "emits (do { r \<leftarrow> rescue env cfg strays passes e; ret (Rescued r) })
          (\<lambda>b new'. booted b ((OStat busyboxPath, st) # new @ mn @ new'))"
        using booted_rescue[OF pre', of env cfg strays passes e] by simp
      assume "m = None"
      then have "mounted dev ?pre" using ma mounted_more(2) unfolding mount_attempt_def by blast
      from booted_handoff[OF pre' _ c(2) this, of env cfg strays passes] c(1)
      show "emits (handoff env cfg strays passes dev) (\<lambda>b new'. booted b ((OStat busyboxPath, st) # new @ mn @ new'))"
        by simp
    qed
  qed
qed

definition watchdog_op :: "Config \<Rightarrow> sop" where
  "watchdog_op cfg = OSpawn (Self cfg) [Self cfg, ''system-init'', ''-helper'', helperWatchdog] [helperEnv @ ''=1''] []"

lemma emits_spawn_watchdog:
  "emits (spawnHelper env cfg helperWatchdog) (\<lambda>_ new. watchdog_op cfg \<in> fst ` set new)"
proof -
  have "helperWatchdog \<noteq> helperShell" by (simp add: helperWatchdog_def helperShell_def)
  then show ?thesis
    unfolding spawnHelper_def sd_say_def
    by (intro emits_act_bind emits_if) (auto simp: watchdog_op_def intro!: emits_act_bind emits_return)
qed

lemma emits_boot:
  "emits (boot env cfg strays passes)
     (\<lambda>res new. booted res new \<and> guarded is_probe (\<lambda>pre. watchdog_op cfg \<in> fst ` set pre) new)"
  unfolding boot_def
proof (rule emits_bind[OF onlyD[OF only_early_mounts]],
    rule emits_bind[OF emits_only[OF emits_spawn_watchdog only_spawnHelper[where P = harmless]]])
  fix n1 n2 :: "(sop, sresp) events"
  assume n1: "\<forall>e\<in>set n1. harmless e" and n2: "watchdog_op cfg \<in> fst ` set n2 \<and> (\<forall>e\<in>set n2. harmless e)"
  show "emits (boot_storage env cfg strays passes)
     (\<lambda>res new'. booted res (n1 @ n2 @ new') \<and>
        guarded is_probe (\<lambda>pre. watchdog_op cfg \<in> fst ` set pre) (n1 @ n2 @ new'))"
  proof (rule emits_weaken[OF emits_boot_storage])
    fix res and new :: "(sop, sresp) events"
    assume b: "booted res new"
    have h: "\<forall>e\<in>set (n1 @ n2). harmless e" using n1 n2 by auto
    have "guarded is_probe (\<lambda>pre. watchdog_op cfg \<in> fst ` set pre) (n1 @ n2)"
      by (rule guarded_none) (use h in \<open>auto simp: harmless_def\<close>)
    then have "guarded is_probe (\<lambda>pre. watchdog_op cfg \<in> fst ` set pre) ((n1 @ n2) @ new)"
      using n2 by (intro guarded_later[where xs = "n1 @ n2"]) auto
    then show "booted res (n1 @ n2 @ new) \<and> guarded is_probe (\<lambda>pre. watchdog_op cfg \<in> fst ` set pre) (n1 @ n2 @ new)"
      using booted_prefix[OF h b] by simp
  qed
qed simp_all

section \<open>The petter and the lease\<close>

definition pet_ok :: "(sop, sresp) events \<Rightarrow> bool" where
  "pet_ok pre \<longleftrightarrow>
     (\<exists>p d. pre = p @ [(OStat deadmanPath, d)] \<and> failed d) \<or>
     (\<exists>p d st now. pre = p @ [(OStat deadmanPath, d), (OStat leasePath, st), (ONow, now)] \<and>
        LeaseFresh (\<not> failed st) (mtime_of st) (now_of now))"

definition quiet_after_arm :: "(sop, sresp) events \<Rightarrow> bool" where
  "quiet_after_arm new \<longleftrightarrow> (\<forall>pre r post. new = pre @ (OArmFastboot, r) # post \<longrightarrow> (\<forall>e\<in>set post. fst e \<noteq> OPet))"

definition petting :: "(sop, sresp) events \<Rightarrow> bool" where
  "petting new \<longleftrightarrow> guarded (\<lambda>oper. oper = OPet) pet_ok new \<and> quiet_after_arm new"

lemma pet_ok_more: "pet_ok p \<Longrightarrow> pet_ok (q @ p)"
  unfolding pet_ok_def by (metis append.assoc)

lemma quiet_append:
  assumes "\<forall>e\<in>set xs. fst e \<noteq> OArmFastboot" "quiet_after_arm ys"
  shows "quiet_after_arm (xs @ ys)"
  unfolding quiet_after_arm_def
proof (intro allI impI)
  fix pre r post
  assume e: "xs @ ys = pre @ (OArmFastboot, r) # post"
  have "(OArmFastboot, r) \<notin> set xs" using assms(1) by auto
  then obtain us where "ys = us @ (OArmFastboot, r) # post"
    using e by (auto simp: append_eq_append_conv2 append_eq_Cons_conv Cons_eq_append_conv)
  then show "\<forall>e\<in>set post. fst e \<noteq> OPet" using assms(2) unfolding quiet_after_arm_def by blast
qed

lemma petting_append:
  assumes "petting xs" "\<forall>e\<in>set xs. fst e \<noteq> OArmFastboot" "petting ys"
  shows "petting (xs @ ys)"
  using assms guarded_append[of _ pet_ok xs ys] quiet_append pet_ok_more unfolding petting_def by blast

lemma petting_plain:
  "\<forall>e\<in>set xs. fst e \<noteq> OPet \<Longrightarrow> petting xs"
  unfolding petting_def quiet_after_arm_def by (auto intro: guarded_none)

lemma only_parked: "only (\<lambda>e. fst e \<noteq> OPet \<and> fst e \<noteq> OArmFastboot) (parked env cfg n)"
proof (induction n)
  case (Suc n)
  then show ?case unfolding parked.simps by (intro sd_only) simp_all
qed simp

lemma petting_arm:
  assumes "\<forall>e\<in>set pre. fst e \<noteq> OPet \<and> fst e \<noteq> OArmFastboot" "\<forall>e\<in>set post. fst e \<noteq> OPet \<and> fst e \<noteq> OArmFastboot"
  shows "petting (pre @ (OArmFastboot, r) # post)"
  by (rule petting_plain) (use assms in auto)

definition checked :: "bool \<Rightarrow> (sop, sresp) events \<Rightarrow> bool" where
  "checked holds new \<longleftrightarrow> (\<forall>e\<in>set new. fst e \<noteq> OPet \<and> fst e \<noteq> OArmFastboot) \<and> (holds \<longrightarrow> pet_ok new)"

lemma emits_lease_check: "emits (lease_check env) checked"
  unfolding lease_check_def leaseHolds_def
proof (intro emits_act_bind emits_if)
  fix d
  show "failed d \<Longrightarrow> emits (ret True) (\<lambda>b new'. checked b ((OStat deadmanPath, d) # new'))"
    by (rule emits_return) (auto simp: checked_def pet_ok_def)
next
  fix d st now
  show "emits (ret (LeaseFresh (\<not> failed st) (mtime_of st) (now_of now)))
      (\<lambda>b new'. checked b ((OStat deadmanPath, d) # (OStat leasePath, st) # (ONow, now) # new'))"
    by (rule emits_return) (auto simp: checked_def pet_ok_def)
qed

lemma petting_pet:
  assumes "checked True new" "\<forall>e\<in>set says. is_say (fst e)"
  shows "petting (new @ (OPet, r) # says)" "\<forall>e\<in>set (new @ (OPet, r) # says). fst e \<noteq> OArmFastboot"
proof -
  have s: "\<forall>e\<in>set says. fst e \<noteq> OPet \<and> fst e \<noteq> OArmFastboot" using assms(2) by (force simp: is_say_def)
  have n: "\<forall>e\<in>set new. fst e \<noteq> OPet \<and> fst e \<noteq> OArmFastboot" using assms(1) by (simp add: checked_def)
  show a: "\<forall>e\<in>set (new @ (OPet, r) # says). fst e \<noteq> OArmFastboot" using s n by auto
  have "guarded (\<lambda>oper. oper = OPet) pet_ok (new @ (OPet, r) # says)"
    unfolding guarded_def
  proof (intro allI impI)
    fix p e q assume e: "new @ (OPet, r) # says = p @ e # q" "fst e = OPet"
    then have "e \<notin> set new" "e \<notin> set says" using n s by auto
    then have "p = new" using e(1)
      by (auto simp: append_eq_append_conv2 append_eq_Cons_conv Cons_eq_append_conv)
    then show "pet_ok p" using assms(1) by (simp add: checked_def)
  qed
  moreover have "quiet_after_arm (new @ (OPet, r) # says)" 
    using a unfolding quiet_after_arm_def by (metis fst_conv in_set_conv_decomp)
  ultimately show "petting (new @ (OPet, r) # says)" by (simp add: petting_def)
qed

lemma emits_petter_loop: "emits (petter_loop env cfg n) (\<lambda>_. petting)"
proof (induction n)
  case 0
  show ?case unfolding petter_loop.simps by (rule emits_return) (simp add: petting_plain)
next
  case (Suc n)
  show ?case
    unfolding petter_loop.simps
  proof (rule emits_bind[OF emits_lease_check], rule emits_if)
    fix holds and new :: "(sop, sresp) events"
    assume c: "checked holds new"
    let ?m = "do { sd_say env ''watchdog: deadman lease expired -- arming fastboot and ceasing to pet; the reset will land in LK fastboot'';
       a \<leftarrow> act env OArmFastboot;
       (if failed a then sd_say env (''watchdog: '' @ err_text a @ '' -- the reset will be a plain one'') else unit_prog);
       parked env cfg (Suc n) }"
    have "only (\<lambda>e. fst e \<noteq> OPet) ?m"
      by (intro sd_only only_weaken[OF only_parked]) auto
    then show "emits ?m (\<lambda>b new'. petting (new @ new'))"
      by (rule emits_weaken[OF onlyD], intro petting_plain) (use c in \<open>simp add: checked_def ball_Un\<close>)
  next
    fix holds and new :: "(sop, sresp) events"
    assume c: "checked holds new" "\<not> \<not> holds"
    then have ct: "checked True new" by simp
    show "emits (do { w \<leftarrow> act env OPet;
       (if failed w then sd_say env (''watchdog: pet failed: '' @ err_text w) else unit_prog);
       if Once cfg then do { act env OClose; ret (Some 0) }
       else do { act env (OSleep 10); petter_loop env cfg n } }) (\<lambda>b new'. petting (new @ new'))"
    proof (rule emits_act_bind)
      fix w
      have s: "emits (if failed w then sd_say env (''watchdog: pet failed: '' @ err_text w) else unit_prog)
          (\<lambda>_ new. \<forall>e\<in>set new. is_say (fst e))"
        by (rule onlyD) (intro sd_only, simp)
      show "emits (do { (if failed w then sd_say env (''watchdog: pet failed: '' @ err_text w) else unit_prog);
         if Once cfg then do { act env OClose; ret (Some 0) }
         else do { act env (OSleep 10); petter_loop env cfg n } }) (\<lambda>b new'. petting (new @ (OPet, w) # new'))"
      proof (rule emits_bind[OF s], rule emits_if)
        fix u :: unit and says :: "(sop, sresp) events"
        assume sy: "\<forall>e\<in>set says. is_say (fst e)"
        note pp = petting_pet[OF ct sy, of w]
        have "petting ((new @ (OPet, w) # says) @ [(OClose, r)])" for r
          by (rule petting_append[OF pp]) (simp add: petting_plain)
        then show "emits (do { act env OClose; ret (Some 0) }) (\<lambda>b new'. petting (new @ (OPet, w) # says @ new'))"
          by (intro emits_act_bind emits_return) simp
        have "petting xs \<Longrightarrow> petting ((new @ (OPet, w) # says) @ (OSleep 10, r) # xs)" for r xs
          using petting_append[OF petting_plain[of "[(OSleep 10, r)]"], of xs] by (intro petting_append[OF pp]) simp
        then show "emits (do { act env (OSleep 10); petter_loop env cfg n }) (\<lambda>b new'. petting (new @ (OPet, w) # says @ new'))"
          by (intro emits_act_bind emits_weaken[OF Suc.IH]) simp
      qed
    qed
  qed
qed

lemma emits_petter: "emits (petter env cfg n) (\<lambda>_. petting)"
  unfolding petter_def
proof (rule emits_bind)
  have "only (\<lambda>e. fst e \<noteq> OPet \<and> fst e \<noteq> OArmFastboot) (open_watchdog env k)" for k
  proof (induction k)
    case (Suc k)
    then show ?case unfolding open_watchdog.simps by (intro sd_only) simp_all
  qed simp
  from onlyD[OF this] show "emits (open_watchdog env 10) (\<lambda>_ new. \<forall>e\<in>set new. fst e \<noteq> OPet \<and> fst e \<noteq> OArmFastboot)" .
next
  fix ok and new :: "(sop, sresp) events"
  assume n: "\<forall>e\<in>set new. fst e \<noteq> OPet \<and> fst e \<noteq> OArmFastboot"
  have p: "petting (new @ xs)" if "petting xs" for xs
    by (rule petting_append) (use n that in \<open>auto intro: petting_plain\<close>)
  have q: "petting (new @ (OSay m, r) # xs)" if "petting xs" for m r xs
    using p[OF petting_append[OF petting_plain[of "[(OSay m, r)]"] _ that]] by simp
  show "emits (if \<not> ok then do { sd_say env ''watchdog: no /dev/watchdog -- if LK armed its timer, the board resets''; ret (Some 0) }
     else do { sd_say env ''watchdog: petter running (sole owner, survives switch_root)''; petter_loop env cfg n' })
     (\<lambda>b new'. petting (new @ new'))" for n'
    unfolding sd_say_def
    by (simp, intro conjI impI emits_act_bind emits_return emits_weaken[OF emits_petter_loop])
       (use q[OF petting_plain[of "[]"]] q in simp_all)
qed

section \<open>Properties\<close>

text \<open>C9: The handoff is guarded.  Whatever the kernel, the storage and the other processes answer, init
  executes a program at most as the switch_root of the new root, and only after a probe returned
  candidates of which exactly one is ext4 labelled jagar-root, that device was mounted on /mnt/root, the
  mount point was seen to be another filesystem than /, the new root has an executable /sbin/init, and
  /dev, /proc and /sys were moved into it.  If the process was not replaced, it ended in rescue, with the
  lease and the deadman armed.\<close>

theorem boot_handoff_guarded:
  assumes "run_state (boot env cfg strays passes) [] = (res, tr)"
  shows "(\<forall>pre p a r post. tr = pre @ (OExec p a, r) # post \<longrightarrow>
            p = ''/bin/busybox'' \<and> a = [''switch_root'', ''/mnt/root'', ''/sbin/init''] \<and>
            (\<exists>cands dev. (OProbeRoots, RProbe cands) \<in> set pre \<and> SelectRoot cands = Inr dev \<and> mounted dev pre \<and>
               (\<forall>m\<in>{''/dev'', ''/proc'', ''/sys''}. \<exists>r. (OMoveMount m (''/mnt/root'' @ m), r) \<in> set pre \<and> \<not> failed r))) \<and>
         (res = Replaced \<longrightarrow> is_exec (fst (last tr))) \<and>
         (res \<noteq> Replaced \<longrightarrow> OTouch leasePath \<in> fst ` set tr \<and> OTouch deadmanPath \<in> fst ` set tr)"
proof -
  have b: "booted res tr" using emits_run[OF emits_boot assms] by simp
  show ?thesis
  proof (intro conjI allI impI)
    fix pre p a r post
    assume t: "tr = pre @ (OExec p a, r) # post"
    have "OExec p a = switch_root_op" using b t unfolding booted_def by (metis fst_conv in_set_conv_decomp op_class_simps(1))
    then show "p = ''/bin/busybox''" "a = [''switch_root'', ''/mnt/root'', ''/sbin/init'']"
      by (simp_all add: switch_root_op_def busyboxPath_def rootMount_def)
    have "ready pre" using b t unfolding booted_def guarded_def by (metis fst_conv op_class_simps(1))
    then show "\<exists>cands dev. (OProbeRoots, RProbe cands) \<in> set pre \<and> SelectRoot cands = Inr dev \<and> mounted dev pre \<and>
               (\<forall>m\<in>{''/dev'', ''/proc'', ''/sys''}. \<exists>r. (OMoveMount m (''/mnt/root'' @ m), r) \<in> set pre \<and> \<not> failed r)"
      by (simp add: ready_def moved_ok_def kernelMounts_def fwd_def rootMount_def)
  next
    assume "res = Replaced"
    then show "is_exec (fst (last tr))" using b by (auto simp: booted_def switch_root_op_def)
  next
    assume "res \<noteq> Replaced"
    then obtain why pre m1 m2 rest where "map fst tr =
        pre @ [OSay (RescueMsg why), OSay m1, OTouch leasePath, OTouch deadmanPath, OSay m2] @ rest"
      using b unfolding booted_def in_rescue_def by blast
    then have "set (map fst tr) = set (pre @ [OSay (RescueMsg why), OSay m1, OTouch leasePath, OTouch deadmanPath, OSay m2] @ rest)"
      by (rule arg_cong)
    then show "OTouch leasePath \<in> fst ` set tr" "OTouch deadmanPath \<in> fst ` set tr" by auto
  qed
qed

text \<open>The watchdog is petted before storage is touched, and the wait for storage is bounded.  In every
  run of init the helper that owns the watchdog was started before the first probe of the partitions, and
  there are at most 60 probes.\<close>

theorem boot_watchdog_first:
  assumes "run_state (boot env cfg strays passes) [] = (res, tr)"
  shows "(\<forall>pre r post. tr = pre @ (OProbeRoots, r) # post \<longrightarrow>
            OSpawn (Self cfg) [Self cfg, ''system-init'', ''-helper'', ''watchdog''] [''DC1_SYSTEM_INIT_HELPER=1''] []
              \<in> fst ` set pre) \<and>
         length (filter (\<lambda>e. fst e = OProbeRoots) tr) \<le> 60"
proof -
  have b: "booted res tr" "guarded is_probe (\<lambda>pre. watchdog_op cfg \<in> fst ` set pre) tr"
    using emits_run[OF emits_boot assms] by simp_all
  have w: "watchdog_op cfg = OSpawn (Self cfg) [Self cfg, ''system-init'', ''-helper'', ''watchdog''] [''DC1_SYSTEM_INIT_HELPER=1''] []"
    by (simp add: watchdog_op_def helperWatchdog_def helperEnv_def)
  have "is_probe \<circ> fst = (\<lambda>e :: sop \<times> sresp. fst e = OProbeRoots)"
    by (auto simp: fun_eq_iff is_probe_def split: sop.splits)
  then show ?thesis using b w unfolding booted_def guarded_def by (metis fst_conv op_class_simps(16))
qed

text \<open>C34: Kernel filesystems are rolled back.  When the handoff fails, there is a number \<open>k\<close> such that the moves of
  \<^verbatim>\<open>/dev\<close>, \<^verbatim>\<open>/proc\<close> and \<^verbatim>\<open>/sys\<close> into the new root were tried in this order, the first \<open>k\<close> succeeded and the next one,
  if any, failed and was the last; exactly those \<open>k\<close> mounts are moved back, in the reverse order, before
  rescue starts, and nothing is moved afterwards.\<close>

theorem handoff_rolls_back:
  assumes "run_state (handoff env cfg strays passes dev) [] = (res, tr)" "res \<noteq> Replaced"
  shows "\<exists>k\<le>3. \<exists>rs bs pre r post. tr = pre @ (OSay (RescueMsg SwitchFailed), r) # post \<and>
     filter (is_move \<circ> fst) pre =
       zip (map (\<lambda>m. OMoveMount m (''/mnt/root'' @ m)) (take (Suc k) [''/dev'', ''/proc'', ''/sys''])) rs @ bs \<and>
     length rs = min 3 (Suc k) \<and> (\<forall>i<length rs. failed (rs ! i) \<longleftrightarrow> i = k) \<and>
     map fst bs = map (\<lambda>m. OMoveMount (''/mnt/root'' @ m) m) (rev (take k [''/dev'', ''/proc'', ''/sys''])) \<and>
     (\<forall>e\<in>set post. \<not> is_move (fst e))"
proof -
  have "handed_off res tr" using emits_run[OF emits_handoff assms(1)] by simp
  then have "rolled_back tr" using assms(2) unfolding handed_off_def by blast
  moreover have l: "length kernelMounts = 3" by (simp add: kernelMounts_def)
  ultimately obtain k fs bs pre r post where t: "k \<le> 3" "tr = pre @ (OSay (RescueMsg SwitchFailed), r) # post"
      "\<forall>e\<in>set post. \<not> is_move (fst e)" "filter (is_move \<circ> fst) pre = fs @ bs" "answered_moves kernelMounts k fs"
      "map fst bs = map bwd (rev (take k kernelMounts))"
    unfolding rolled_back_def l by blast
  obtain rs where "length rs = min 3 (Suc k)" "fs = zip (map fwd (take (Suc k) kernelMounts)) rs"
      "\<forall>i<length rs. failed (rs ! i) \<longleftrightarrow> i = k"
    using t(5) unfolding answered_moves_def l by blast
  with t show ?thesis
    unfolding kernelMounts_def fwd_def[abs_def] bwd_def[abs_def] rootMount_def by blast
qed

text \<open>C10: The deadman works.  In every run of the petter a pet is issued only right after a check that found
  no deadman file or a fresh lease; and once the fastboot boot mode was armed, because a check found the
  lease expired, the watchdog is never petted again.\<close>

theorem petter_respects_lease:
  assumes "run_state (petter env cfg passes) [] = (res, tr)"
  shows "(\<forall>pre r post. tr = pre @ (OPet, r) # post \<longrightarrow>
           (\<exists>p d. pre = p @ [(OStat deadmanPath, d)] \<and> failed d) \<or>
           (\<exists>p d st now. pre = p @ [(OStat deadmanPath, d), (OStat leasePath, st), (ONow, now)] \<and>
              LeaseFresh (\<not> failed st) (mtime_of st) (now_of now))) \<and>
         (\<forall>pre r post. tr = pre @ (OArmFastboot, r) # post \<longrightarrow> OPet \<notin> fst ` set post)"
proof -
  have p: "petting tr" using emits_run[OF emits_petter assms] by simp
  have a: "pet_ok pre" if "tr = pre @ (OPet, r) # post" for pre r post
  proof -
    have g: "guarded (\<lambda>oper. oper = OPet) pet_ok tr" using p by (simp add: petting_def)
    from g[unfolded guarded_def, rule_format, OF that] show ?thesis by simp
  qed
  have q: "OPet \<notin> fst ` set post" if "tr = pre @ (OArmFastboot, r) # post" for pre r post
  proof -
    have "quiet_after_arm tr" using p by (simp add: petting_def)
    from this[unfolded quiet_after_arm_def, rule_format, OF that]
    have "\<forall>e\<in>set post. fst e \<noteq> OPet" by (rule ballI)
    then show ?thesis by auto
  qed
  show ?thesis
  proof (intro conjI allI impI)
    fix pre r post
    show "tr = pre @ (OArmFastboot, r) # post \<Longrightarrow> OPet \<notin> fst ` set post" by (rule q)
    assume "tr = pre @ (OPet, r) # post"
    from a[OF this] show "(\<exists>p d. pre = p @ [(OStat deadmanPath, d)] \<and> failed d) \<or>
           (\<exists>p d st now. pre = p @ [(OStat deadmanPath, d), (OStat leasePath, st), (ONow, now)] \<and>
              LeaseFresh (\<not> failed st) (mtime_of st) (now_of now))"
      unfolding pet_ok_def .
  qed
qed

text \<open>Root selection is exact.  A device is selected if and only if exactly one candidate is ext4
  labelled jagar-root, and it is that candidate's device; there is no fallback.\<close>

theorem select_root_exact:
  "SelectRoot cands = Inr dev \<longleftrightarrow>
     (\<exists>c. filter (\<lambda>c. FSType c = ''ext4'' \<and> Label c = ''jagar-root'') cands = [c] \<and> candDevice c = dev)"
  by (simp add: SelectRoot_iff rootFSType_def rootLabel_def)

text \<open>The applet acts only where it belongs.  If any operation was performed at all, the command line
  was accepted, it was no dry run, and the process is PID 1 or a helper that PID 1 started and marked.\<close>

theorem si_main_refuses:
  assumes "run_state (si_Main env pr strays passes args) [] = (res, tr)" "tr \<noteq> []"
  shows "\<exists>cfg. ParseArgs args = Inr cfg \<and> \<not> DryRun cfg \<and>
           (if Helper cfg = [] then Getpid pr = 1 else Getppid pr = 1 \<and> Marker pr = ''1'')"
proof (cases "ParseArgs args")
  case (Inl e)
  then show ?thesis using assms by (simp add: si_Main_def)
next
  case (Inr cfg)
  then show ?thesis using assms
    by (auto simp: si_Main_def Let_def initAllowed_def helperAllowed_def split: if_splits)
qed

text \<open>The three roles on the command line, and the result of a process that runs one of them.\<close>

definition runs_helper :: "senv \<Rightarrow> process \<Rightarrow> nat \<Rightarrow> string \<Rightarrow> main_result sprog" where
  "runs_helper env pr passes role = do {
     r \<leftarrow> runHelper env \<lparr>Helper = role, TTY = (if role = ''shell'' then shellTTY else []), DryRun = False,
                           Once = False, Self = selfPath (Exe pr)\<rparr> passes;
     ret (HelperRan r) }"

lemma ParseArgs_helper:
  assumes "role \<in> {''watchdog'', ''kmsg''}"
  shows "ParseArgs [''-helper'', role] =
    Inr \<lparr>Helper = role, TTY = [], DryRun = False, Once = False, Self = []\<rparr>"
  using assms
  by (auto simp: ParseArgs_def parse_flags.simps(1) parse_flags_string si_flags_def checkArgs_def
        helperWatchdog_def helperKmsg_def helperShell_def)

lemma ParseArgs_shell:
  "ParseArgs [''-helper'', ''shell'', ''-tty'', t] =
    (if t = [] then Inl ShellNeedsTTY else Inr \<lparr>Helper = ''shell'', TTY = t, DryRun = False, Once = False, Self = []\<rparr>)"
  by (auto simp: ParseArgs_def parse_flags.simps(1) parse_flags_string si_flags_def checkArgs_def
        helperWatchdog_def helperKmsg_def helperShell_def)

text \<open>Helper processes come up in their role.  The argument list with which init spawns a helper is
  parsed by the spawned process to exactly that role, with the terminal for the shell, and with the marker
  init sets and init as its parent it runs that helper.\<close>

theorem helper_command_line:
  assumes "role \<in> {''watchdog'', ''kmsg'', ''shell''}"
      and "hd (snd (run_state (spawnHelper env cfg role) [])) = (OSpawn path argv extra tty, r)"
      and "Getppid pr = 1" "Marker pr = ''1''"
  shows "extra = [''DC1_SYSTEM_INIT_HELPER=1''] \<and> argv ! 1 = ''system-init'' \<and>
         si_Main env' pr strays passes (drop 2 argv) = runs_helper env' pr passes role"
proof -
  have h: "argv = [Self cfg, ''system-init'', ''-helper'', role] @ (if role = helperShell then [''-tty'', shellTTY] else [])"
    "extra = [helperEnv @ ''=1'']"
    using assms(2) unfolding spawnHelper_def sd_say_def act_def by (auto split: if_splits)
  have s: "shellTTY \<noteq> []" by (simp add: shellTTY_def)
  consider "role \<in> {''watchdog'', ''kmsg''}" | "role = ''shell''" using assms(1) by blast
  then have "si_Main env' pr strays passes (drop 2 argv) = runs_helper env' pr passes role"
  proof cases
    case 1
    then have "drop 2 argv = [''-helper'', role]" using h by (auto simp: helperShell_def)
    then show ?thesis using 1 assms(3,4)
      by (auto simp: si_Main_def ParseArgs_helper runs_helper_def helperAllowed_def)
  next
    case 2
    then have "drop 2 argv = [''-helper'', ''shell'', ''-tty'', shellTTY]" using h by (simp add: helperShell_def)
    then show ?thesis using 2 s assms(3,4)
      by (simp add: si_Main_def ParseArgs_shell runs_helper_def helperAllowed_def)
  qed
  with h show ?thesis by (simp add: helperEnv_def)
qed

text \<open>A machine on which everything succeeds, and the configuration of a run that observes one pass.\<close>

definition good_env :: senv where
  "good_env tr oper = (case oper of
     OStat p \<Rightarrow> if p = deadmanPath then RErr False ''absent''
                else RStat \<lparr>Dev = (if p = ''/'' then 1 else 2), Mode = 493, MTime = 0\<rparr>
   | OProbeRoots \<Rightarrow> RProbe [\<lparr>candDevice = ''/dev/sda1'', FSType = ''ext4'', Label = ''jagar-root''\<rparr>]
   | OSpawn _ _ _ _ \<Rightarrow> RPid 7
   | OWait p _ \<Rightarrow> RWait p 0
   | ONow \<Rightarrow> RNow None
   | _ \<Rightarrow> ROk)"

text \<open>The same machine, but the third move of a kernel filesystem fails.\<close>

definition busy_env :: senv where
  "busy_env tr oper = (if oper = OMoveMount ''/sys'' ''/mnt/root/sys'' then RErr False ''busy'' else good_env tr oper)"

definition sample_cfg :: Config where
  "sample_cfg = \<lparr>Helper = [], TTY = [], DryRun = False, Once = True, Self = ''/bin/dc1tools''\<rparr>"

theorem boot_handoff_guarded_witness:
  "fst (run_state (boot good_env sample_cfg 0 1) []) = Replaced \<and>
   is_exec (fst (last (snd (run_state (boot good_env sample_cfg 0 1) []))))"
proof -
  have "fst (run_state (boot good_env sample_cfg 0 1) []) = Replaced" by code_simp
  then show ?thesis using boot_handoff_guarded[OF prod.collapse[symmetric], of good_env sample_cfg 0 1] by blast
qed

theorem boot_watchdog_first_witness:
  "length (filter (\<lambda>e. fst e = OProbeRoots) (snd (run_state (boot good_env sample_cfg 0 1) []))) \<le> 60"
  using boot_watchdog_first[OF prod.collapse[symmetric], of good_env sample_cfg 0 1] by blast

theorem handoff_rolls_back_witness:
  "fst (run_state (handoff busy_env sample_cfg 0 1 ''/dev/sda1'') []) \<noteq> Replaced \<and>
   (\<exists>k\<le>3. \<exists>rs bs pre r post. snd (run_state (handoff busy_env sample_cfg 0 1 ''/dev/sda1'') []) =
      pre @ (OSay (RescueMsg SwitchFailed), r) # post \<and>
    filter (is_move \<circ> fst) pre =
       zip (map (\<lambda>m. OMoveMount m (''/mnt/root'' @ m)) (take (Suc k) [''/dev'', ''/proc'', ''/sys''])) rs @ bs \<and>
    (\<forall>i<length rs. failed (rs ! i) \<longleftrightarrow> i = k) \<and>
    map fst bs = map (\<lambda>m. OMoveMount (''/mnt/root'' @ m) m) (rev (take k [''/dev'', ''/proc'', ''/sys''])))"
proof -
  have "fst (run_state (handoff busy_env sample_cfg 0 1 ''/dev/sda1'') []) \<noteq> Replaced" by code_simp
  then show ?thesis using handoff_rolls_back[OF prod.collapse[symmetric], of busy_env sample_cfg 0 1 "''/dev/sda1''"] by blast
qed

theorem petter_respects_lease_witness:
  "OPet \<in> fst ` set (snd (run_state (petter good_env sample_cfg 1) [])) \<and>
   OStat deadmanPath \<in> fst ` set (snd (run_state (petter good_env sample_cfg 1) []))"
proof -
  have p: "OPet \<in> fst ` set (snd (run_state (petter good_env sample_cfg 1) []))" by code_simp
  then obtain pre r post where s: "snd (run_state (petter good_env sample_cfg 1) []) = pre @ (OPet, r) # post"
    by (auto simp: in_set_conv_decomp)
  have "OStat deadmanPath \<in> fst ` set pre"
    using petter_respects_lease[OF prod.collapse[symmetric], of good_env sample_cfg 1] s by fastforce
  with p s show ?thesis by auto
qed

theorem si_main_refuses_witness:
  "\<exists>cfg. ParseArgs [''-once''] = Inr cfg \<and> \<not> DryRun cfg"
proof -
  have "snd (run_state (si_Main good_env \<lparr>Getpid = 1, Getppid = 0, Marker = [], Exe = None\<rparr> 0 1 [''-once'']) []) \<noteq> []" by code_simp
  then show ?thesis
    using si_main_refuses[OF prod.collapse[symmetric], of good_env "\<lparr>Getpid = 1, Getppid = 0, Marker = [], Exe = None\<rparr>" 0 1 "[''-once'']"] by blast
qed

theorem helper_command_line_witness:
  "si_Main good_env \<lparr>Getpid = 9, Getppid = 1, Marker = ''1'', Exe = None\<rparr> 0 1
     [''-helper'', ''watchdog''] = runs_helper good_env \<lparr>Getpid = 9, Getppid = 1, Marker = ''1'', Exe = None\<rparr> 1 ''watchdog''"
proof -
  have "hd (snd (run_state (spawnHelper good_env sample_cfg ''watchdog'') [])) =
     (OSpawn ''/bin/dc1tools'' [''/bin/dc1tools'', ''system-init'', ''-helper'', ''watchdog''] [''DC1_SYSTEM_INIT_HELPER=1''] [], RPid 7)" by code_simp
  from helper_command_line[of "''watchdog''", OF _ this, of "\<lparr>Getpid = 9, Getppid = 1, Marker = ''1'', Exe = None\<rparr>" good_env 0 1]
  show ?thesis by (simp add: numeral_2_eq_2)
qed

end
