(* ===== verification/Md5.thy ===== *)
theory Md5
  imports Sha256
begin

text \<open>
  MD5 (RFC 1321), the second digest of the partition checksums of the debug toolkit.  Words are
  little-endian; the padding is the one of SHA-256 with the length field in the other byte order.
\<close>

definition K_md5 :: "u32 list" where
  "K_md5 =
  [3614090360, 3905402710, 606105819, 3250441966,
   4118548399, 1200080426, 2821735955, 4249261313,
   1770035416, 2336552879, 4294925233, 2304563134,
   1804603682, 4254626195, 2792965006, 1236535329,
   4129170786, 3225465664, 643717713, 3921069994,
   3593408605, 38016083, 3634488961, 3889429448,
   568446438, 3275163606, 4107603335, 1163531501,
   2850285829, 4243563512, 1735328473, 2368359562,
   4294588738, 2272392833, 1839030562, 4259657740,
   2763975236, 1272893353, 4139469664, 3200236656,
   681279174, 3936430074, 3572445317, 76029189,
   3654602809, 3873151461, 530742520, 3299628645,
   4096336452, 1126891415, 2878612391, 4237533241,
   1700485571, 2399980690, 4293915773, 2240044497,
   1873313359, 4264355552, 2734768916, 1309151649,
   4149444226, 3174756917, 718787259, 3951481745]"

definition S_md5 :: "nat list" where
  "S_md5 = concat (replicate 4 [7, 12, 17, 22] @ replicate 4 [5, 9, 14, 20] @
                   replicate 4 [4, 11, 16, 23] @ replicate 4 [6, 10, 15, 21])"

definition rotl32 :: "nat \<Rightarrow> u32 \<Rightarrow> u32" where
  "rotl32 n w = rotr32 (32 - n) w"

text \<open>The index of the message word and the mixing function of one of the 64 rounds.\<close>

definition md5_mix :: "nat \<Rightarrow> u32 \<Rightarrow> u32 \<Rightarrow> u32 \<Rightarrow> u32 \<times> nat" where
  "md5_mix i b c d =
     (if i < 16 then ((b AND c) OR (NOT b AND d), i)
      else if i < 32 then ((d AND b) OR (NOT d AND c), (5 * i + 1) mod 16)
      else if i < 48 then (b XOR c XOR d, (3 * i + 5) mod 16)
      else (c XOR (b OR NOT d), 7 * i mod 16))"

fun md5_round :: "u32 list \<Rightarrow> u32 \<times> u32 \<times> u32 \<times> u32 \<Rightarrow> nat \<Rightarrow> u32 \<times> u32 \<times> u32 \<times> u32" where
  "md5_round m (a, b, c, d) i =
     (case md5_mix i b c d of (f, g) \<Rightarrow>
        (d, b + rotl32 (S_md5 ! i) (a + f + K_md5 ! i + m ! g), b, c))"

fun le_words :: "bytes \<Rightarrow> u32 list" where
  "le_words (a # b # c # d # rest) = get32 [a, b, c, d] # le_words rest"
| "le_words _ = []"

definition md5_block :: "u32 \<times> u32 \<times> u32 \<times> u32 \<Rightarrow> bytes \<Rightarrow> u32 \<times> u32 \<times> u32 \<times> u32" where
  "md5_block st blk =
     (case (st, foldl (md5_round (le_words blk)) st [0..<64]) of
        ((a, b, c, d), (a', b', c', d')) \<Rightarrow> (a + a', b + b', c + c', d + d'))"

definition md5_pad :: "bytes \<Rightarrow> bytes" where
  "md5_pad m = m @ 128 # replicate ((119 - length m mod 64) mod 64) 0 @ put64 (word_of_nat (8 * length m))"

function md5_blocks :: "u32 \<times> u32 \<times> u32 \<times> u32 \<Rightarrow> bytes \<Rightarrow> u32 \<times> u32 \<times> u32 \<times> u32" where
  "md5_blocks st bs = (if bs = [] then st else md5_blocks (md5_block st (take 64 bs)) (drop 64 bs))"
  by pat_completeness auto
termination by (relation "measure (length \<circ> snd)") auto

declare md5_blocks.simps [simp del]

definition md5 :: "bytes \<Rightarrow> bytes" where
  "md5 m = (case md5_blocks (1732584193, 4023233417, 2562383102, 271733878) (md5_pad m) of
              (a, b, c, d) \<Rightarrow> put32 a @ put32 b @ put32 c @ put32 d)"

definition md5_hex :: "bytes \<Rightarrow> string" where
  "md5_hex m = hex_encode (md5 m)"

lemma length_md5 [simp]: "length (md5 m) = 16"
  by (simp add: md5_def split: prod.splits)

text \<open>A test vector of the RFC.\<close>

lemma md5_empty: "md5_hex [] = ''d41d8cd98f00b204e9800998ecf8427e''"
  by code_simp

end
