(* ===== verification/Debugtools.thy ===== *)
theory Debugtools
  imports Trace Partition Md5 Go_Text
begin

text \<open>
  \<^verbatim>\<open>installer/gotools/internal/debugtools/debugtools.go\<close>: the dc1-debug applet, its reports, its log
  collectors and its on-panel menu, as programs over a trace of the system calls they make.  The
  partition resolvers are those of \<^verbatim>\<open>internal/partition\<close>, applied to the sysfs view at the time of the
  call.  Sector counts are assumed below \<open>2 ^ 54\<close>, as the kernel's are, so that a byte count does not
  wrap; \<^verbatim>\<open>strconv.ParseFloat\<close> followed by the conversion to an integer is an argument.
\<close>

section \<open>The world\<close>

datatype dop =
    DReadFile string | DSysfs | DStream string | DMkdirAll string | DWriteFile string bytes | DSyslog
  | DOpen string | DReadAt string nat nat | DReadFull string nat | DReadDir string
  | DMount string string | DForward "string list" | DStdout string | DStderr string

datatype dresp =
    DErr string | DOk | DBytes bytes | DSys sysfs | DDir "(string \<times> bool) list" | DAnswer int string string

type_synonym dworld = "(dop, dresp) env"
type_synonym 'a dprog = "(dop, dresp, 'a) prog"

definition d_err :: "dresp \<Rightarrow> string option" where
  "d_err r = (case r of DErr t \<Rightarrow> Some t | _ \<Rightarrow> None)"

definition d_bytes :: "dresp \<Rightarrow> string + bytes" where
  "d_bytes r = (case r of DBytes b \<Rightarrow> Inr b | DErr t \<Rightarrow> Inl t | _ \<Rightarrow> Inl [])"

definition d_sysfs :: "dresp \<Rightarrow> sysfs" where
  "d_sysfs r = (case r of DSys fs \<Rightarrow> fs | _ \<Rightarrow> [])"

section \<open>Configuration\<close>

definition maxHashBytes :: int where "maxHashBytes = 256 * 2 ^ 20"
definition expdbReadCap :: int where "expdbReadCap = 16 * 2 ^ 20"
definition dbg_lkBase :: nat where "dbg_lkBase = 0x7ffbf000"
definition lkPages :: nat where "lkPages = 64"
definition pageSz :: nat where "pageSz = 4096"
definition defaultHashNames :: string where "defaultHashNames = ''boot_a boot_b lk dtbo misc expdb''"
definition menuLinesPerPage :: nat where "menuLinesPerPage = 12"
definition lkViewLines :: nat where "lkViewLines = 60"

record dbg_env =
  sysBlock :: string
  devDir :: string
  devMem :: string
  pstoreDir :: string
  outDir :: string
  cmdline_path :: string
  meminfo_path :: string
  uptime_path :: string
  osrelease_path :: string

text \<open>What the binary and the library contribute: the stamped version, the sort of the inventory, the
  rendering of an operating-system error for a device, and the float parser.\<close>

record dbg = dbg_env +
  Version :: string
  sortSlice :: "Entry list \<Rightarrow> Entry list"
  osReason :: "string \<Rightarrow> string"
  parseFloat :: "string \<Rightarrow> int option"

definition getenv :: "(string \<Rightarrow> string) \<Rightarrow> string \<Rightarrow> string \<Rightarrow> string" where
  "getenv os k def = (if os k \<noteq> [] then os k else def)"

definition envFromOs :: "(string \<Rightarrow> string) \<Rightarrow> dbg_env" where
  "envFromOs os = \<lparr>
     sysBlock = getenv os ''DC1_SYSBLOCK'' ''/sys/class/block'',
     devDir = getenv os ''DC1_DEVDIR'' ''/dev'',
     devMem = getenv os ''DC1_DEVMEM'' ''/dev/mem'',
     pstoreDir = getenv os ''DC1_PSTORE_DIR'' ''/sys/fs/pstore'',
     outDir = getenv os ''DC1_DEBUG_DIR'' ''/tmp/debug'',
     cmdline_path = getenv os ''DC1_CMDLINE'' ''/proc/cmdline'',
     meminfo_path = getenv os ''DC1_MEMINFO'' ''/proc/meminfo'',
     uptime_path = getenv os ''DC1_UPTIME'' ''/proc/uptime'',
     osrelease_path = getenv os ''DC1_OSRELEASE'' ''/proc/sys/kernel/osrelease''\<rparr>"

definition usage :: string where
  "usage = concat (map (\<lambda>l. l @ nl)
    [''usage: dc1-debug [command]'', [], ''commands:'',
     ''  menu                on-screen debug menu (default; needs the touch UI)'',
     ''  info                device + installer report'',
     ''  hash [PART...]      md5+sha256 of partitions (default: '' @ defaultHashNames @ '')'',
     ''  logs [all|dmesg|lk|pstore|expdb]'',
     ''                      collect logs under /tmp/debug'',
     ''  version             print the installer version this image was built from'', [],
     ''Everything here is read-only on partitions and memory. Files land in'',
     ''/tmp/debug (RAM); nothing is flashed, nothing selects a slot.''])"

section \<open>Utilities\<close>

definition readFile :: "dworld \<Rightarrow> string \<Rightarrow> string dprog" where
  "readFile w path = do {
     r \<leftarrow> act w (DReadFile path);
     ret (case d_bytes r of Inr b \<Rightarrow> string_of b | Inl _ \<Rightarrow> []) }"

definition one_line :: "string \<Rightarrow> string \<Rightarrow> string" where
  "one_line text def = (let s = trim_space text in if s = [] then def else hd (split_on LF s))"

definition oneLine :: "dworld \<Rightarrow> string \<Rightarrow> string \<Rightarrow> string dprog" where
  "oneLine w path def = do { t \<leftarrow> readFile w path; ret (one_line t def) }"

definition mkdirOut :: "dworld \<Rightarrow> string \<Rightarrow> (string + string) dprog" where
  "mkdirOut w dir = do {
     r \<leftarrow> act w (DMkdirAll dir);
     ret (case d_err r of Some t \<Rightarrow> Inl t | None \<Rightarrow> Inr dir) }"

fun pt_step :: "bytes \<times> bool \<Rightarrow> byte \<Rightarrow> bytes \<times> bool" where
  "pt_step (out, brk) c =
     (if c = 10 then (out @ [10], False)
      else if 0x20 \<le> c \<and> c \<le> 0x7e then ((if brk \<and> 0 < length out then out @ [10] else out) @ [c], False)
      else (out, True))"

definition printableText :: "bytes \<Rightarrow> string" where
  "printableText b = string_of (fst (foldl pt_step ([], False) b))"

definition tailLines :: "string \<Rightarrow> nat \<Rightarrow> string" where
  "tailLines s n =
     (let ls = split_on LF (trim_right [LF] s) in
      join_with nl (if n < length ls then drop (length ls - n) ls else ls))"

definition truncateLine :: "string \<Rightarrow> nat \<Rightarrow> string" where
  "truncateLine s n = (if length s \<le> n then s else take n s @ ''...'')"

section \<open>Device report\<close>

fun first_value :: "string list \<Rightarrow> string \<Rightarrow> string" where
  "first_value [] key = []"
| "first_value (tok # toks) key =
     (case cut_prefix tok (key @ ''='') of Some v \<Rightarrow> v | None \<Rightarrow> first_value toks key)"

definition cmdlineValue :: "string \<Rightarrow> string \<Rightarrow> string" where
  "cmdlineValue cmdline key = first_value (Go_Strings.fields cmdline) key"

fun mem_line :: "int \<times> int \<Rightarrow> string \<Rightarrow> int \<times> int" where
  "mem_line (tot, free) line =
     (case cut CHR '':'' line of
        None \<Rightarrow> (tot, free)
      | Some (k, v) \<Rightarrow>
          (let f = Go_Strings.fields v in
           if f = [] \<or> last f \<noteq> ''kB'' then (tot, free)
           else (case parse_int64 (hd f) of
                   None \<Rightarrow> (tot, free)
                 | Some n \<Rightarrow>
                     if trim_space k = ''MemTotal'' then (n div 2 ^ 10, free)
                     else if trim_space k = ''MemFree'' then (tot, n div 2 ^ 10)
                     else (tot, free))))"

definition meminfoMiB :: "string \<Rightarrow> int \<times> int" where
  "meminfoMiB text = foldl mem_line (0, 0) (split_on LF text)"

definition uptimeSeconds :: "(string \<Rightarrow> int option) \<Rightarrow> string \<Rightarrow> int option" where
  "uptimeSeconds pf text = (case cut CHR '' '' text of None \<Rightarrow> None | Some (f, _) \<Rightarrow> pf f)"

definition inv_line :: "Entry \<Rightarrow> string" where
  "inv_line p = ''  '' @ pad_right 16 (entryName p) @ '' '' @ pad_right 8 (entryDevice p) @ '' '' @
                pad_left 6 (dec_int (wrap64 (entrySectors p * 512) div 2 ^ 20)) @ nl"

text \<open>The report as a function of what was read, and the program that reads it.\<close>

definition info_text :: "'a dbg_scheme \<Rightarrow> string \<Rightarrow> string \<Rightarrow> string \<Rightarrow> string \<Rightarrow> Entry list \<Rightarrow> string \<times> bool" where
  "info_text e rel cmd mem up invt =
     (let slot = cmdlineValue cmd ''androidboot.slot_suffix'';
          reason = cmdlineValue cmd ''androidboot.bootreason'';
          head = ''DC-1 INSTALLER DEBUG'' @ nl @
            (if Version e = ''unknown'' then ''version: unknown (no build stamp)'' @ nl
             else ''version: '' @ Version e @ nl) @
            ''kernel:  '' @ one_line rel ''unknown'' @ nl @
            (if slot \<noteq> [] then ''slot:    '' @ slot @ nl else ''slot:    unknown'' @ nl) @
            (if reason \<noteq> [] then ''bootreason: '' @ reason @ nl else []) @
            (case meminfoMiB mem of (tot, free) \<Rightarrow>
               if 0 < tot then ''mem:     '' @ dec_int tot @ '' MiB total, '' @ dec_int free @ '' MiB free'' @ nl else []) @
            (case uptimeSeconds (parseFloat e) up of Some s \<Rightarrow> ''uptime:  '' @ dec_int s @ '' s'' @ nl | None \<Rightarrow> []) @
            nl @ ''partitions (MiB):'' @ nl
      in if invt = [] then (head @ ''  (none found)'' @ nl, False)
         else (head @ concat (map inv_line invt) @ ''  ('' @ dec (length invt) @ '' partitions)'' @ nl, True))"

definition infoReport :: "dworld \<Rightarrow> 'a dbg_scheme \<Rightarrow> (string \<times> bool) dprog" where
  "infoReport w e = do {
     rel \<leftarrow> readFile w (osrelease_path e);
     cmd \<leftarrow> readFile w (cmdline_path e);
     mem \<leftarrow> readFile w (meminfo_path e);
     up \<leftarrow> readFile w (uptime_path e);
     fs \<leftarrow> act w DSysfs;
     ret (info_text e rel cmd mem up (Inventory (sortSlice e) (devDir e) (d_sysfs fs))) }"

section \<open>Partition checksums\<close>

definition part_text :: "(string \<Rightarrow> string) \<Rightarrow> part_error \<Rightarrow> string" where
  "part_text why er =
     (case er of
        NotUnique n k \<Rightarrow> ''expected exactly 1 PARTNAME='' @ n @ '', found '' @ dec k
      | SizeUnreadable dev \<Rightarrow> ''reading size of '' @ dev @ '': '' @ why dev
      | SizeBad dev \<Rightarrow> ''bad size for '' @ dev @ '': '' @ why dev
      | TooSmall n dev k \<Rightarrow> n @ '' ('' @ dev @ '') is only '' @ dec_int k @ '' sectors; refusing (mapping moved?)''
      | TooLarge dev k \<Rightarrow> dev @ '' is '' @ dec k @ '' sectors'')"

definition hashDev :: "dworld \<Rightarrow> string \<Rightarrow> (string + string \<times> string) dprog" where
  "hashDev w dev = do {
     r \<leftarrow> act w (DStream dev);
     ret (case d_bytes r of Inl t \<Rightarrow> Inl t | Inr b \<Rightarrow> Inr (md5_hex b, sha256_hex b)) }"

record hash_line =
  hlName :: string
  hlDev :: string
  hlMib :: string
  hlMd5 :: string
  hlSha :: string

fun hash_names :: "dworld \<Rightarrow> 'a dbg_scheme \<Rightarrow> string list \<Rightarrow> string \<Rightarrow> bool \<Rightarrow> hash_line list
    \<Rightarrow> (string \<times> bool \<times> hash_line list) dprog" where
  "hash_names w e [] b ok ls = ret (b, ok, ls)"
| "hash_names w e (name # names) b ok ls = do {
     fs \<leftarrow> act w DSysfs;
     (case ResolveNamed (devDir e) (d_sysfs fs) name of
        Inl er \<Rightarrow> hash_names w e names (b @ name @ '': not found ('' @ part_text (osReason e) er @ '')'' @ nl) False ls
      | Inr r \<Rightarrow>
          if maxHashBytes < Bytes r then
            hash_names w e names
              (b @ name @ '': skipped ('' @ dec_int (Bytes r) @ '' bytes exceeds '' @ dec_int (maxHashBytes div 2 ^ 20) @ '' MiB cap)'' @ nl)
              ok ls
          else do {
            h \<leftarrow> hashDev w (Device r);
            (case h of
               Inl t \<Rightarrow> hash_names w e names (b @ name @ '': read failed ('' @ t @ '')'' @ nl) False ls
             | Inr (d5, d256) \<Rightarrow>
                 hash_names w e names b ok
                   (ls @ [\<lparr>hlName = name, hlDev = Device r, hlMib = dec_int (Bytes r div 2 ^ 20), hlMd5 = d5, hlSha = d256\<rparr>])) }) }"

definition hash_text :: "hash_line \<Rightarrow> string" where
  "hash_text l = hlName l @ '' ('' @ hlDev l @ '', '' @ hlMib l @ '' MiB)'' @ nl @
                 ''  md5:    '' @ hlMd5 l @ nl @ ''  sha256: '' @ hlSha l @ nl"

definition hashReport :: "dworld \<Rightarrow> 'a dbg_scheme \<Rightarrow> string list \<Rightarrow> (string \<times> bool) dprog" where
  "hashReport w e names = do {
     res \<leftarrow> hash_names w e names (''PARTITION CHECKSUMS (read-only)'' @ nl) True [];
     (case res of (b, ok, ls) \<Rightarrow>
       (let body = b @ concat (map hash_text ls) in do {
          d \<leftarrow> mkdirOut w (outDir e);
          (case d of
             Inl _ \<Rightarrow> ret (body, ok)
           | Inr dir \<Rightarrow> do {
               r \<leftarrow> act w (DWriteFile (path_join dir ''partition-hashes.txt'') (bytes_of body));
               ret (case d_err r of
                      None \<Rightarrow> (body @ ''saved: '' @ path_join dir ''partition-hashes.txt'' @ nl, ok)
                    | Some _ \<Rightarrow> (body, ok)) }) })) }"

section \<open>Log collectors\<close>

text \<open>A collector returns the text it prints and the error, if it failed.\<close>

definition kmsgReadAll :: "dworld \<Rightarrow> (string + bytes) dprog" where
  "kmsgReadAll w = do {
     r \<leftarrow> act w DSyslog;
     ret (case d_bytes r of Inl t \<Rightarrow> Inl (''syslog(2) READ_ALL: '' @ t) | Inr b \<Rightarrow> Inr b) }"

definition collectDmesg :: "dworld \<Rightarrow> string \<Rightarrow> (string \<times> string option) dprog" where
  "collectDmesg w dir = do {
     d \<leftarrow> kmsgReadAll w;
     (case d of
        Inl t \<Rightarrow> ret (''dmesg: unavailable'', Some t)
      | Inr data \<Rightarrow> do {
          r \<leftarrow> act w (DWriteFile (path_join dir ''dmesg.txt'') data);
          ret (case d_err r of
                 None \<Rightarrow> (''dmesg: '' @ dec (count_char LF (trim_space (string_of data)) + 1) @ '' lines -> '' @ path_join dir ''dmesg.txt'', None)
               | Some t \<Rightarrow> (''dmesg: unavailable'', Some t)) }) }"

definition readLKRing :: "dworld \<Rightarrow> string \<Rightarrow> (string + bytes) dprog" where
  "readLKRing w path = do {
     f \<leftarrow> act w (DOpen path);
     (case d_err f of
        Some t \<Rightarrow> ret (Inl (''open '' @ path @ '': '' @ t))
      | None \<Rightarrow> do {
          r \<leftarrow> act w (DReadAt path dbg_lkBase (lkPages * pageSz));
          ret (case d_bytes r of
                 Inl t \<Rightarrow> Inl (''read '' @ path @ '' at 0x7ffbf000: '' @ t)
               | Inr b \<Rightarrow> if length b = lkPages * pageSz then Inr b else Inl (''read '' @ path @ '' at 0x7ffbf000: EOF'')) }) }"

definition save_raw :: "dworld \<Rightarrow> string \<Rightarrow> string \<Rightarrow> string \<Rightarrow> bytes \<Rightarrow> string option dprog" where
  "save_raw w dir bin txt raw = do {
     r \<leftarrow> act w (DWriteFile (path_join dir bin) raw);
     (case d_err r of
        Some t \<Rightarrow> ret (Some t)
      | None \<Rightarrow> do {
          r \<leftarrow> act w (DWriteFile (path_join dir txt) (bytes_of (printableText raw)));
          ret (d_err r) }) }"

definition saveLK :: "dworld \<Rightarrow> string \<Rightarrow> bytes \<Rightarrow> (string \<times> string option) dprog" where
  "saveLK w dir raw = do {
     r \<leftarrow> save_raw w dir ''lk-log.bin'' ''lk-log.txt'' raw;
     ret (case r of
            Some t \<Rightarrow> ([], Some t)
          | None \<Rightarrow> (''lk log: '' @ dec (length raw) @ '' bytes -> '' @ path_join dir ''lk-log.bin'' @ nl @ ''last lines:'' @ nl @
                     tailLines (printableText raw) 15, None)) }"

definition collectLK :: "dworld \<Rightarrow> 'a dbg_scheme \<Rightarrow> string \<Rightarrow> (string \<times> string option) dprog" where
  "collectLK w e dir = do {
     r \<leftarrow> readLKRing w (devMem e);
     (case r of Inl t \<Rightarrow> ret ([], Some t) | Inr raw \<Rightarrow> saveLK w dir raw) }"

definition dir_of :: "dresp \<Rightarrow> string + (string \<times> bool) list" where
  "dir_of r = (case r of DDir es \<Rightarrow> Inr es | DErr t \<Rightarrow> Inl t | _ \<Rightarrow> Inr [])"

fun pstore_copy :: "dworld \<Rightarrow> string \<Rightarrow> string \<Rightarrow> (string \<times> bool) list \<Rightarrow> string list dprog" where
  "pstore_copy w from to [] = ret []"
| "pstore_copy w from to ((name, regular) # es) =
     (if \<not> regular then pstore_copy w from to es
      else do {
        r \<leftarrow> act w (DReadFile (path_join from name));
        (case d_bytes r of
           Inl _ \<Rightarrow> pstore_copy w from to es
         | Inr data \<Rightarrow> do {
             r \<leftarrow> act w (DWriteFile (path_join to name) data);
             (case d_err r of
                Some _ \<Rightarrow> pstore_copy w from to es
              | None \<Rightarrow> do { ns \<leftarrow> pstore_copy w from to es; ret (name # ns) }) }) })"

definition collectPstore :: "dworld \<Rightarrow> string \<Rightarrow> string \<Rightarrow> (string \<times> string option) dprog" where
  "collectPstore w pd dir = do {
     first \<leftarrow> act w (DReadDir pd);
     (if (case dir_of first of Inr es \<Rightarrow> es = [] | Inl _ \<Rightarrow> True) \<and> pd = ''/sys/fs/pstore''
      then do { act w (DMount ''pstore'' pd); unit_prog } else unit_prog);
     r \<leftarrow> act w (DReadDir pd);
     (case dir_of r of
        Inl t \<Rightarrow> ret ([], Some (''read '' @ pd @ '': '' @ t))
      | Inr es \<Rightarrow> do {
          m \<leftarrow> act w (DMkdirAll (path_join dir ''pstore''));
          (case d_err m of
             Some t \<Rightarrow> ret ([], Some t)
           | None \<Rightarrow> do {
               names \<leftarrow> pstore_copy w pd (path_join dir ''pstore'') es;
               ret (if names = [] then (''pstore: no records (capture is unverified on this hardware)'', None)
                    else (''pstore: '' @ dec (length names) @ '' records -> '' @ path_join dir ''pstore'' @ '' ('' @
                          join_with '', '' (sort_strings names) @ '')'', None)) }) }) }"

definition collectExpdb :: "dworld \<Rightarrow> 'a dbg_scheme \<Rightarrow> string \<Rightarrow> (string \<times> string option) dprog" where
  "collectExpdb w e dir = do {
     fs \<leftarrow> act w DSysfs;
     (case ResolveNamed (devDir e) (d_sysfs fs) ''expdb'' of
        Inl er \<Rightarrow> ret ([], Some (part_text (osReason e) er))
      | Inr r \<Rightarrow>
          (let n = (if expdbReadCap < Bytes r then expdbReadCap else Bytes r) in do {
             f \<leftarrow> act w (DOpen (Device r));
             (case d_err f of
                Some t \<Rightarrow> ret ([], Some t)
              | None \<Rightarrow> do {
                  b \<leftarrow> act w (DReadFull (Device r) (nat n));
                  (case d_bytes b of
                     Inl t \<Rightarrow> ret ([], Some t)
                   | Inr raw \<Rightarrow>
                       if int (length raw) \<noteq> n then ret ([], Some ''unexpected EOF'')
                       else do {
                         s \<leftarrow> save_raw w dir ''expdb.bin'' ''expdb.txt'' raw;
                         ret (case s of
                                Some t \<Rightarrow> ([], Some t)
                              | None \<Rightarrow>
                                  (''expdb: '' @ dec_int n @ '' bytes'' @
                                   (if expdbReadCap < Bytes r
                                    then '' (truncated at '' @ dec_int n @ '' of '' @ dec_int (Bytes r) @ '' bytes)'' else []) @
                                   '' -> '' @ path_join dir ''expdb.bin'' @ nl @ ''last lines:'' @ nl @
                                   tailLines (printableText raw) 15, None)) }) }) })) }"

definition run_collector :: "string \<Rightarrow> string \<Rightarrow> (string \<times> string option) dprog \<Rightarrow> string \<times> bool \<Rightarrow> (string \<times> bool) dprog" where
  "run_collector which name fn st =
     (if which \<noteq> ''all'' \<and> which \<noteq> name then ret st
      else do {
        r \<leftarrow> fn;
        ret (case r of
               (rep, Some t) \<Rightarrow> (fst st @ rep @ nl @ ''  ('' @ name @ '' failed: '' @ t @ '')'' @ nl, snd st)
             | (rep, None) \<Rightarrow> (fst st @ rep @ nl, True)) })"

definition logsCollect :: "dworld \<Rightarrow> 'a dbg_scheme \<Rightarrow> string \<Rightarrow> (string \<times> bool) dprog" where
  "logsCollect w e which = do {
     d \<leftarrow> mkdirOut w (outDir e);
     (case d of
        Inl t \<Rightarrow> ret (''LOG COLLECTION (read-only)'' @ nl @ ''cannot create '' @ outDir e @ '': '' @ t @ nl, False)
      | Inr dir \<Rightarrow> do {
          st \<leftarrow> run_collector which ''dmesg'' (collectDmesg w dir) (''LOG COLLECTION (read-only)'' @ nl, False);
          st \<leftarrow> run_collector which ''lk'' (collectLK w e dir) st;
          st \<leftarrow> run_collector which ''pstore'' (collectPstore w (pstoreDir e) dir) st;
          st \<leftarrow> run_collector which ''expdb'' (collectExpdb w e dir) st;
          ret (if which \<notin> set [''all'', [], ''dmesg'', ''lk'', ''pstore'', ''expdb'']
               then (fst st @ ''unknown log source '' @ quote which @ nl, False)
               else if which = ''all''
               then (fst st @ ''logs saved under '' @ dir @ '' (RAM -- lost on reboot)'' @ nl @
                     ''fetch over USB: scp from 172.16.42.1'' @ nl, snd st)
               else st) }) }"

section \<open>The menu\<close>

definition forward :: "dworld \<Rightarrow> string list \<Rightarrow> (int \<times> string) option dprog" where
  "forward w args = do {
     r \<leftarrow> act w (DForward args);
     ret (case r of DAnswer rc out err \<Rightarrow> Some (rc, out) | _ \<Rightarrow> None) }"

definition showInfo :: "dworld \<Rightarrow> string \<Rightarrow> string list \<Rightarrow> bool dprog" where
  "showInfo w title ls = do {
     r \<leftarrow> forward w ([''info'', title] @ ls);
     ret (case r of None \<Rightarrow> False | Some (rc, _) \<Rightarrow> rc \<noteq> 2) }"

fun show_from :: "dworld \<Rightarrow> string \<Rightarrow> string list \<Rightarrow> nat \<Rightarrow> nat list \<Rightarrow> bool dprog" where
  "show_from w title ls pages [] = ret True"
| "show_from w title ls pages (p # ps) = do {
     ok \<leftarrow> showInfo w (title @ '' ('' @ dec (p + 1) @ ''/'' @ dec pages @ '')'')
            (slice (p * menuLinesPerPage)
               (if length ls < (p + 1) * menuLinesPerPage then length ls else (p + 1) * menuLinesPerPage) ls);
     if \<not> ok then ret False else show_from w title ls pages ps }"

definition showPages :: "dworld \<Rightarrow> string \<Rightarrow> string \<Rightarrow> bool dprog" where
  "showPages w title report =
     (let ls = split_on LF (trim_right [LF] report);
          n = (length ls + menuLinesPerPage - 1) div menuLinesPerPage;
          pages = (if n = 0 then 1 else n)
      in show_from w title ls pages [0..<pages])"

definition no_display :: "dworld \<Rightarrow> int option dprog" where
  "no_display w = do { act w (DStderr (''dc1-debug: no display'' @ nl)); ret (Some 2) }"

text \<open>A submenu: the answer of the dialog, or nothing when the interface is gone.\<close>

definition menu_ask :: "dworld \<Rightarrow> string list \<Rightarrow> (int \<times> string) option dprog" where
  "menu_ask w args = do {
     r \<leftarrow> forward w (''menu'' # args);
     ret (case r of None \<Rightarrow> None | Some (rc, out) \<Rightarrow> if rc = 2 then None else Some (rc, trim_space out)) }"

definition menu_info :: "dworld \<Rightarrow> 'a dbg_scheme \<Rightarrow> int option dprog" where
  "menu_info w e = do {
     rep \<leftarrow> infoReport w e;
     ok \<leftarrow> showPages w ''DEVICE INFO'' (fst rep);
     ret (if ok then None else Some 2) }"

definition menu_hash :: "dworld \<Rightarrow> 'a dbg_scheme \<Rightarrow> int option dprog" where
  "menu_hash w e = do {
     r \<leftarrow> menu_ask w [''PARTITION CHECKSUMS'', ''Hash boot_a boot_b lk dtbo misc expdb'', ''(read-only; nothing is flashed)'', ''Back''];
     (case r of
        None \<Rightarrow> no_display w
      | Some (_, out) \<Rightarrow>
          if out \<noteq> ''0'' then ret None
          else do {
            rep \<leftarrow> hashReport w e (Go_Strings.fields defaultHashNames);
            ok \<leftarrow> showPages w ''PARTITION CHECKSUMS'' (fst rep);
            if \<not> ok then ret (Some 2)
            else if snd rep then ret None
            else do {
              showInfo w ''SOME PARTITIONS MISSING''
                [''Not every requested partition'', ''could be read.'', ''Details are on the previous screen.''];
              ret None } }) }"

definition menu_logs :: "dworld \<Rightarrow> 'a dbg_scheme \<Rightarrow> int option dprog" where
  "menu_logs w e = do {
     r \<leftarrow> menu_ask w [''COLLECT LOGS'', ''Collect dmesg, LK log, pstore,'', ''expdb into /tmp/debug'', ''Back''];
     (case r of
        None \<Rightarrow> no_display w
      | Some (_, out) \<Rightarrow>
          if out \<noteq> ''0'' then ret None
          else do {
            rep \<leftarrow> logsCollect w e ''all'';
            ok \<leftarrow> showPages w ''LOGS COLLECTED'' (fst rep);
            ret (if ok then None else Some 2) }) }"

definition menu_lk :: "dworld \<Rightarrow> 'a dbg_scheme \<Rightarrow> int option dprog" where
  "menu_lk w e = do {
     r \<leftarrow> readLKRing w (devMem e);
     (case r of
        Inl t \<Rightarrow> do {
          ok \<leftarrow> showInfo w ''LK LOG UNAVAILABLE''
            [''Could not read the current-boot'', ''ring via /dev/mem.'', [], truncateLine t 60];
          ret (if ok then None else Some 2) }
      | Inr raw \<Rightarrow> do {
          d \<leftarrow> mkdirOut w (outDir e);
          (case d of Inr dir \<Rightarrow> do { saveLK w dir raw; unit_prog } | Inl _ \<Rightarrow> unit_prog);
          ok \<leftarrow> showPages w ''LK BOOT LOG''
            (tailLines (printableText raw) lkViewLines @ nl @ nl @ ''full ring: /tmp/debug/lk-log.txt'' @
             nl @ ''(refresh the saved copy: Collect logs)'');
          ret (if ok then None else Some 2) }) }"

text \<open>The loop; the outer option is \<open>None\<close> while it is still running after the observed passes.\<close>

fun menuMain :: "dworld \<Rightarrow> 'a dbg_scheme \<Rightarrow> nat \<Rightarrow> int option dprog" where
  "menuMain w e 0 = ret None"
| "menuMain w e (Suc n) = do {
     r \<leftarrow> menu_ask w [''DC-1 DEBUG'', ''Device info'', ''Partition checksums'', ''Collect logs'', ''LK boot log'', ''Back''];
     (case r of
        None \<Rightarrow> no_display w
      | Some (rc, out) \<Rightarrow>
          if rc \<noteq> 0 then ret (Some 1)
          else do {
            stop \<leftarrow> (if out = ''0'' then menu_info w e
                     else if out = ''1'' then menu_hash w e
                     else if out = ''2'' then menu_logs w e
                     else if out = ''3'' then menu_lk w e
                     else ret (Some 0));
            (case stop of Some rc \<Rightarrow> ret (Some rc) | None \<Rightarrow> menuMain w e n) }) }"

definition print_report :: "dworld \<Rightarrow> string \<times> bool \<Rightarrow> int option dprog" where
  "print_report w rep = do { act w (DStdout (fst rep)); ret (Some (if snd rep then 0 else 1)) }"

definition dbg_Main :: "dworld \<Rightarrow> 'a dbg_scheme \<Rightarrow> string list \<Rightarrow> nat \<Rightarrow> int option dprog" where
  "dbg_Main w e args passes =
     (let cmd = (case args of [] \<Rightarrow> ''menu'' | c # _ \<Rightarrow> c); rest = tl args in
      if cmd = ''menu'' then menuMain w e passes
      else if cmd = ''info'' then do { rep \<leftarrow> infoReport w e; act w (DStdout (fst rep)); ret (Some 0) }
      else if cmd = ''hash'' then do {
        rep \<leftarrow> hashReport w e (if rest = [] then Go_Strings.fields defaultHashNames else rest);
        print_report w rep }
      else if cmd = ''logs'' then do {
        rep \<leftarrow> logsCollect w e (if rest = [] then ''all'' else hd rest);
        print_report w rep }
      else if cmd = ''version'' then do { act w (DStdout (Version e @ nl)); ret (Some 0) }
      else if cmd \<in> set [''-h'', ''--help'', ''help''] then do { act w (DStdout usage); ret (Some 0) }
      else do { act w (DStderr (''dc1-debug: unknown command '' @ quote cmd @ nl @ usage)); ret (Some 2) })"

section \<open>What the toolkit touches\<close>

definition plain_name :: "string \<Rightarrow> bool" where
  "plain_name n \<longleftrightarrow> n \<noteq> [] \<and> n \<noteq> ''.'' \<and> n \<noteq> ''..'' \<and> CHR ''/'' \<notin> set n"

text \<open>The contract of a single operation: writes and directories are confined to the output directory,
  the only mount is the pstore, streamed partitions were resolved and are below the cap, and the other
  raw reads are bounded.\<close>

definition harmless_op :: "dworld \<Rightarrow> 'a dbg_scheme \<Rightarrow> dop \<times> dresp \<Rightarrow> bool" where
  "harmless_op w e ev =
     (case fst ev of
        DWriteFile p b \<Rightarrow> has_prefix p ''/tmp/debug/''
      | DMkdirAll p \<Rightarrow> p = ''/tmp/debug'' \<or> p = ''/tmp/debug/pstore''
      | DMount src p \<Rightarrow> src = ''pstore'' \<and> p = ''/sys/fs/pstore''
      | DStream d \<Rightarrow> (\<exists>h name r. ResolveNamed (devDir e) (d_sysfs (w h DSysfs)) name = Inr r \<and> Device r = d \<and> Bytes r \<le> 256 * 2 ^ 20)
      | DReadFull d n \<Rightarrow> n \<le> 16 * 2 ^ 20
      | DReadAt p off n \<Rightarrow> p = devMem e \<and> off = 0x7ffbf000 \<and> n = 2 ^ 18
      | _ \<Rightarrow> True)"

lemma harmless_op_simps [simp]:
  "harmless_op w e (DWriteFile p b, r) \<longleftrightarrow> has_prefix p ''/tmp/debug/''"
  "harmless_op w e (DMkdirAll p, r) \<longleftrightarrow> p = ''/tmp/debug'' \<or> p = ''/tmp/debug/pstore''"
  "harmless_op w e (DMount src p, r) \<longleftrightarrow> src = ''pstore'' \<and> p = ''/sys/fs/pstore''"
  "harmless_op w e (DStream d, r) \<longleftrightarrow>
     (\<exists>h name r. ResolveNamed (devDir e) (d_sysfs (w h DSysfs)) name = Inr r \<and> Device r = d \<and> Bytes r \<le> 256 * 2 ^ 20)"
  "harmless_op w e (DReadFull d n, r) \<longleftrightarrow> n \<le> 16 * 2 ^ 20"
  "harmless_op w e (DReadAt p off n, r) \<longleftrightarrow> p = devMem e \<and> off = 0x7ffbf000 \<and> n = 2 ^ 18"
  "harmless_op w e (DReadFile p, r)" "harmless_op w e (DSysfs, r)" "harmless_op w e (DSyslog, r)"
  "harmless_op w e (DOpen p, r)" "harmless_op w e (DReadDir p, r)" "harmless_op w e (DForward a, r)"
  "harmless_op w e (DStdout t, r)" "harmless_op w e (DStderr t, r)"
  by (simp_all add: harmless_op_def)

lemma out_paths [simp]:
  "path_join ''/tmp/debug'' ''partition-hashes.txt'' = ''/tmp/debug/partition-hashes.txt''"
  "path_join ''/tmp/debug'' ''dmesg.txt'' = ''/tmp/debug/dmesg.txt''"
  "path_join ''/tmp/debug'' ''lk-log.bin'' = ''/tmp/debug/lk-log.bin''"
  "path_join ''/tmp/debug'' ''lk-log.txt'' = ''/tmp/debug/lk-log.txt''"
  "path_join ''/tmp/debug'' ''expdb.bin'' = ''/tmp/debug/expdb.bin''"
  "path_join ''/tmp/debug'' ''expdb.txt'' = ''/tmp/debug/expdb.txt''"
  "path_join ''/tmp/debug'' ''pstore'' = ''/tmp/debug/pstore''"
  by code_simp+

lemma pstore_path: "plain_name n \<Longrightarrow> path_join ''/tmp/debug/pstore'' n = ''/tmp/debug/pstore/'' @ n"
  using path_join_plain[of "[''tmp'', ''debug'', ''pstore'']" n] by (simp add: plain_name_def)

lemma has_prefix_debug: "has_prefix (''/tmp/debug/'' @ x) ''/tmp/debug/''"
  by (rule has_prefix_append)

lemma only_mkdirOut:
  assumes "\<And>r. P (DMkdirAll d, r)" "\<And>t. only P (f (Inl t))" "only P (f (Inr d))"
  shows "only P (mkdirOut w d \<bind> f)"
proof -
  have "mkdirOut w d \<bind> f = act w (DMkdirAll d) \<bind> (\<lambda>r. f (case d_err r of Some t \<Rightarrow> Inl t | None \<Rightarrow> Inr d))"
    by (simp add: mkdirOut_def)
  then show ?thesis using assms by (auto intro!: only_act_bind split: option.splits)
qed

text \<open>Every part keeps the contract; \<open>harmless\<close> collects what is shown about the parts.\<close>

named_theorems toolkit \<open>the parts of the toolkit keep the contract\<close>

lemma readFile_ok [toolkit]: "only (harmless_op w e) (readFile w p)"
  unfolding readFile_def by (intro only_intros) simp

lemma infoReport_ok [toolkit]: "only (harmless_op w e) (infoReport w e')"
  unfolding infoReport_def by (intro only_intros toolkit) simp

lemma hash_names_ok [toolkit]: "only (harmless_op w e) (hash_names w e names b ok ls)"
proof (induction names arbitrary: b ok ls)
  case (Cons name names)
  have h: "only (harmless_op w e) (hashDev w (Device r) \<bind> f)"
    if "ResolveNamed (devDir e) (d_sysfs (w h DSysfs)) name = Inr r" "\<not> maxHashBytes < Bytes r"
       "\<And>x. only (harmless_op w e) (f x)" for r h f
  proof -
    have "\<exists>h name ra. ResolveNamed (devDir e) (d_sysfs (w h DSysfs)) name = Inr ra \<and> Device ra = Device r \<and> Bytes ra \<le> 256 * 2 ^ 20"
      using that(1,2) by (intro exI[of _ h] exI[of _ name] exI[of _ r]) (simp add: maxHashBytes_def)
    then show ?thesis unfolding hashDev_def using that(3) by (intro only_intros) simp_all
  qed
  show ?case
    unfolding hash_names.simps
    by (rule only_act_bind)
       (auto intro!: Cons.IH h only_sum split: sum.splits if_splits)
qed simp

lemma hashReport_ok [toolkit]: "outDir e = ''/tmp/debug'' \<Longrightarrow> only (harmless_op w e) (hashReport w e names)"
  unfolding hashReport_def Let_def
  by (rule only_bind, rule hash_names_ok, (rule only_prod)+, rule only_mkdirOut)
     (auto intro!: only_intros simp: has_prefix_def)

lemma save_raw_ok [toolkit]:
  assumes "has_prefix (path_join d b) ''/tmp/debug/''" "has_prefix (path_join d t) ''/tmp/debug/''"
  shows "only (harmless_op w e) (save_raw w d b t raw)"
  unfolding save_raw_def using assms by (intro only_intros) simp_all

lemma collectors_ok [toolkit]:
  "only (harmless_op w e) (collectDmesg w ''/tmp/debug'')"
  "only (harmless_op w e) (readLKRing w (devMem e))"
  "only (harmless_op w e) (saveLK w ''/tmp/debug'' raw)"
  "only (harmless_op w e) (collectLK w e ''/tmp/debug'')"
  "only (harmless_op w e) (collectExpdb w e ''/tmp/debug'')"
proof -
  show "only (harmless_op w e) (collectDmesg w ''/tmp/debug'')"
    unfolding collectDmesg_def kmsgReadAll_def by (intro only_intros) (simp_all add: has_prefix_def)
  show r: "only (harmless_op w e) (readLKRing w (devMem e))"
    unfolding readLKRing_def by (intro only_intros) (simp_all add: dbg_lkBase_def lkPages_def pageSz_def)
  show s: "only (harmless_op w e) (saveLK w ''/tmp/debug'' raw)" for raw
    unfolding saveLK_def by (intro only_intros toolkit) (simp_all add: has_prefix_def)
  show "only (harmless_op w e) (collectLK w e ''/tmp/debug'')"
    unfolding collectLK_def by (intro only_intros r s)
  show "only (harmless_op w e) (collectExpdb w e ''/tmp/debug'')"
    unfolding collectExpdb_def Let_def by (intro only_intros toolkit) (auto simp: expdbReadCap_def has_prefix_def)
qed

lemma pstore_copy_ok:
  assumes "\<forall>(n, reg)\<in>set es. plain_name n"
  shows "only (harmless_op w e) (pstore_copy w from ''/tmp/debug/pstore'' es)"
  using assms
proof (induction es)
  case (Cons x es)
  obtain n reg where x: "x = (n, reg)" by (cases x)
  have p: "path_join ''/tmp/debug/pstore'' n = ''/tmp/debug/'' @ ''pstore/'' @ n"
    using Cons.prems x by (simp add: pstore_path)
  have "has_prefix (path_join ''/tmp/debug/pstore'' n) ''/tmp/debug/''" unfolding p by (rule has_prefix_debug)
  moreover have "only (harmless_op w e) (pstore_copy w from ''/tmp/debug/pstore'' es)" using Cons by simp
  ultimately show ?case unfolding x pstore_copy.simps by (intro only_intros) simp_all
qed simp

lemma collectPstore_ok:
  assumes "\<And>h d es. w h (DReadDir d) = DDir es \<Longrightarrow> \<forall>(n, reg)\<in>set es. plain_name n"
  shows "only (harmless_op w e) (collectPstore w pd ''/tmp/debug'')"
proof -
  have es: "\<forall>(n, reg)\<in>set es. plain_name n" if "dir_of (w h (DReadDir pd)) = Inr es" for h es
    using that assms[of h pd es] by (auto simp: dir_of_def split: dresp.splits)
  have m: "only (harmless_op w e)
     (if b \<and> pd = ''/sys/fs/pstore'' then do { act w (DMount ''pstore'' pd); unit_prog } else unit_prog)" for b
    by (auto intro!: only_intros)
  have r: "only (harmless_op w e) (act w (DReadDir pd) \<bind> (\<lambda>r. case dir_of r of
        Inl t \<Rightarrow> ret ([], Some (''read '' @ pd @ '': '' @ t))
      | Inr es \<Rightarrow> do {
          m \<leftarrow> act w (DMkdirAll (path_join ''/tmp/debug'' ''pstore''));
          (case d_err m of
             Some t \<Rightarrow> ret ([], Some t)
           | None \<Rightarrow> do {
               names \<leftarrow> pstore_copy w pd (path_join ''/tmp/debug'' ''pstore'') es;
               ret (g names) }) }))" for g
    by (intro only_act_bind) (auto intro!: only_intros pstore_copy_ok dest: es split: sum.splits)
  show ?thesis unfolding collectPstore_def by (intro only_bind m r) (intro only_act, simp)
qed

lemma run_collector_ok: "only P fn \<Longrightarrow> only P (run_collector which name fn st)"
  unfolding run_collector_def by (intro only_intros)

lemma dialogs_ok [toolkit]:
  "only (harmless_op w e) (forward w args)"
  "only (harmless_op w e) (showInfo w title ls)"
  "only (harmless_op w e) (showPages w title report)"
  "only (harmless_op w e) (menu_ask w args)"
  "only (harmless_op w e) (no_display w)"
proof -
  show f: "only (harmless_op w e) (forward w args)" for args
    unfolding forward_def by (intro only_intros) simp
  show i: "only (harmless_op w e) (showInfo w title ls)" for title ls
    unfolding showInfo_def by (intro only_intros f)
  have "only (harmless_op w e) (show_from w title ls n ps)" for ls n ps
    by (induction ps) (auto intro!: only_intros i)
  then show "only (harmless_op w e) (showPages w title report)" by (simp add: showPages_def Let_def)
  show "only (harmless_op w e) (menu_ask w args)" unfolding menu_ask_def by (intro only_intros f)
  show "only (harmless_op w e) (no_display w)" unfolding no_display_def by (intro only_intros) simp
qed

lemma logsCollect_ok:
  assumes "outDir e = ''/tmp/debug''" "\<And>h d es. w h (DReadDir d) = DDir es \<Longrightarrow> \<forall>(n, reg)\<in>set es. plain_name n"
  shows "only (harmless_op w e) (logsCollect w e which)"
  unfolding logsCollect_def assms(1)
  by (rule only_mkdirOut)
     (auto intro!: only_bind run_collector_ok collectors_ok collectPstore_ok assms(2))

lemma menus_ok:
  assumes "outDir e = ''/tmp/debug''" "\<And>h d es. w h (DReadDir d) = DDir es \<Longrightarrow> \<forall>(n, reg)\<in>set es. plain_name n"
  shows "only (harmless_op w e) (menu_info w e)" "only (harmless_op w e) (menu_hash w e)"
    "only (harmless_op w e) (menu_logs w e)" "only (harmless_op w e) (menu_lk w e)"
proof -
  show "only (harmless_op w e) (menu_info w e)"
    unfolding menu_info_def by (intro only_intros toolkit)
  show "only (harmless_op w e) (menu_hash w e)"
    unfolding menu_hash_def by (intro only_intros toolkit assms(1))
  show "only (harmless_op w e) (menu_logs w e)"
    unfolding menu_logs_def by (intro only_intros toolkit logsCollect_ok assms)
  have k: "only (harmless_op w e) (mkdirOut w (outDir e) \<bind> (\<lambda>d.
       (case d of Inr dir \<Rightarrow> do { saveLK w dir raw; unit_prog } | Inl _ \<Rightarrow> unit_prog) \<bind> (\<lambda>_. f)))"
    if "only (harmless_op w e) f" for raw and f :: "int option dprog"
    unfolding assms(1) using that by (intro only_mkdirOut) (auto intro!: only_intros collectors_ok)
  show "only (harmless_op w e) (menu_lk w e)"
    unfolding menu_lk_def
    by (rule only_bind, rule collectors_ok, rule only_sum)
       (intro only_intros toolkit, intro k only_bind toolkit only_return)
qed

lemma menuMain_ok:
  assumes "outDir e = ''/tmp/debug''" "\<And>h d es. w h (DReadDir d) = DDir es \<Longrightarrow> \<forall>(n, reg)\<in>set es. plain_name n"
  shows "only (harmless_op w e) (menuMain w e n)"
proof (induction n)
  case (Suc n)
  then show ?case unfolding menuMain.simps by (intro only_intros toolkit menus_ok assms)
qed simp

lemma dbg_Main_ok:
  assumes "outDir e = ''/tmp/debug''" "\<And>h d es. w h (DReadDir d) = DDir es \<Longrightarrow> \<forall>(n, reg)\<in>set es. plain_name n"
  shows "only (harmless_op w e) (dbg_Main w e args n)"
  unfolding dbg_Main_def Let_def print_report_def
  by (intro only_if only_bind toolkit menuMain_ok logsCollect_ok assms only_return only_act) simp_all

section \<open>The printable view\<close>

text \<open>The reference: an octet is kept when it is printable or a line feed, and a line break is put before
  a printable octet that follows a dropped one, unless nothing was kept before it.\<close>

definition kept :: "byte \<Rightarrow> bool" where
  "kept c \<longleftrightarrow> c = 10 \<or> (0x20 \<le> c \<and> c \<le> 0x7e)"

definition break_before :: "bytes \<Rightarrow> nat \<Rightarrow> bool" where
  "break_before b i \<longleftrightarrow> b ! i \<noteq> 10 \<and> 0 < i \<and> \<not> kept (b ! (i - 1)) \<and> (\<exists>j<i. kept (b ! j))"

definition printable_ref :: "bytes \<Rightarrow> bytes" where
  "printable_ref b = concat (map (\<lambda>i. if kept (b ! i) then (if break_before b i then [10] else []) @ [b ! i] else []) [0..<length b])"

lemma printable_ref_snoc:
  "printable_ref (b @ [c]) = printable_ref b @
     (if kept c then (if c \<noteq> 10 \<and> b \<noteq> [] \<and> \<not> kept (last b) \<and> (\<exists>x\<in>set b. kept x) then [10] else []) @ [c] else [])"
proof -
  have n: "(b @ [c]) ! i = b ! i" if "i < length b" for i using that by (simp add: nth_append)
  have br: "break_before (b @ [c]) i = break_before b i" if "i < length b" for i
  proof -
    have "(\<exists>j<i. kept ((b @ [c]) ! j)) = (\<exists>j<i. kept (b ! j))" using that n by (metis less_trans)
    then show ?thesis using that n[of i] n[of "i - 1"] by (auto simp: break_before_def)
  qed
  have l: "break_before (b @ [c]) (length b) \<longleftrightarrow> c \<noteq> 10 \<and> b \<noteq> [] \<and> \<not> kept (last b) \<and> (\<exists>x\<in>set b. kept x)"
  proof (cases "b = []")
    case False
    have "(\<exists>j<length b. kept ((b @ [c]) ! j)) = (\<exists>x\<in>set b. kept x)" using n by (metis in_set_conv_nth)
    then show ?thesis using False by (auto simp: break_before_def nth_append last_conv_nth)
  qed (simp add: break_before_def)
  have m: "map (\<lambda>i. if kept ((b @ [c]) ! i) then (if break_before (b @ [c]) i then [10] else []) @ [(b @ [c]) ! i] else []) [0..<length b]
      = map (\<lambda>i. if kept (b ! i) then (if break_before b i then [10] else []) @ [b ! i] else []) [0..<length b]"
    using n br by (intro map_cong) auto
  have u: "[0..<length (b @ [c])] = [0..<length b] @ [length b]" by simp
  show ?thesis unfolding printable_ref_def u map_append concat_append m using l by simp
qed

lemma printable_ref_Nil: "printable_ref b = [] \<longleftrightarrow> (\<forall>x\<in>set b. \<not> kept x)"
  by (induction b rule: rev_induct) (auto simp: printable_ref_snoc, simp_all add: printable_ref_def)

lemma pt_fold: "foldl pt_step ([], False) b = (printable_ref b, b \<noteq> [] \<and> \<not> kept (last b))"
proof (induction b rule: rev_induct)
  case Nil
  show ?case by (simp add: printable_ref_def)
next
  case (snoc c b)
  then show ?case using printable_ref_Nil[of b] by (auto simp: printable_ref_snoc kept_def)
qed

section \<open>Pages\<close>

lemma page_slice:
  "slice (p * k) (if length ls < (p + 1) * k then length ls else (p + 1) * k) ls = take k (drop (p * k) ls)"
  by (auto simp: slice_def min_def)

lemma concat_pages: "concat (map (\<lambda>p. take k (drop (p * k) ls)) [0..<m]) = take (m * k) ls"
  by (induction m) (simp_all add: add.commute flip: take_add)

text \<open>The lines of the information dialogs in a trace.\<close>

definition shown :: "(dop, dresp) events \<Rightarrow> string list list" where
  "shown tr = concat (map (\<lambda>ev. case fst ev of DForward (m # t # ls) \<Rightarrow> [ls] | _ \<Rightarrow> []) tr)"

lemma shown_append [simp]: "shown (xs @ ys) = shown xs @ shown ys" "shown [] = []"
  by (simp_all add: shown_def)

lemma emits_showInfo:
  "emits (showInfo w t ls) (\<lambda>ok new. \<exists>r. new = [(DForward ([''info'', t] @ ls), r)])"
  unfolding showInfo_def forward_def by (auto intro!: emits_act_bind emits_return)

lemma emits_show_from:
  "emits (show_from w title ls n ps) (\<lambda>ok new.
     (\<exists>k\<le>length ps. shown new = map (\<lambda>p. take menuLinesPerPage (drop (p * menuLinesPerPage) ls)) (take k ps) \<and>
        (ok \<longrightarrow> k = length ps)) \<and> length new = length (shown new))"
proof (induction ps)
  case Nil
  show ?case by (simp add: emits_return)
next
  case (Cons p ps)
  let ?c = "take menuLinesPerPage (drop (p * menuLinesPerPage) ls)"
  show ?case
    unfolding show_from.simps page_slice
  proof (rule emits_bind[OF emits_showInfo])
    fix ok :: bool and new :: "(dop, dresp) events"
    assume "\<exists>r. new = [(DForward ([''info'', title @ '' ('' @ dec (p + 1) @ ''/'' @ dec n @ '')''] @ ?c), r)]"
    then have s: "shown new = [?c]" "length new = 1" by (auto simp: shown_def)
    show "emits (if \<not> ok then ret False else show_from w title ls n ps) (\<lambda>ok new'.
       (\<exists>k\<le>length (p # ps). shown (new @ new') = map (\<lambda>p. take menuLinesPerPage (drop (p * menuLinesPerPage) ls)) (take k (p # ps)) \<and>
          (ok \<longrightarrow> k = length (p # ps))) \<and> length (new @ new') = length (shown (new @ new')))"
    proof (rule emits_if)
      show "emits (ret False) (\<lambda>ok new'.
       (\<exists>k\<le>length (p # ps). shown (new @ new') = map (\<lambda>p. take menuLinesPerPage (drop (p * menuLinesPerPage) ls)) (take k (p # ps)) \<and>
          (ok \<longrightarrow> k = length (p # ps))) \<and> length (new @ new') = length (shown (new @ new')))"
        by (rule emits_return) (use s in \<open>auto intro!: exI[of _ 1]\<close>)
    next
      show "emits (show_from w title ls n ps) (\<lambda>ok new'.
       (\<exists>k\<le>length (p # ps). shown (new @ new') = map (\<lambda>p. take menuLinesPerPage (drop (p * menuLinesPerPage) ls)) (take k (p # ps)) \<and>
          (ok \<longrightarrow> k = length (p # ps))) \<and> length (new @ new') = length (shown (new @ new')))"
      proof (rule emits_weaken[OF Cons.IH], elim conjE exE)
        fix okk new' k
        assume "k \<le> length ps" "shown new' = map (\<lambda>p. take menuLinesPerPage (drop (p * menuLinesPerPage) ls)) (take k ps)"
          "okk \<longrightarrow> k = length ps" "length new' = length (shown new')"
        then show "(\<exists>k\<le>length (p # ps). shown (new @ new') = map (\<lambda>p. take menuLinesPerPage (drop (p * menuLinesPerPage) ls)) (take k (p # ps)) \<and>
          (okk \<longrightarrow> k = length (p # ps))) \<and> length (new @ new') = length (shown (new @ new'))"
          using s by (auto intro!: exI[of _ "Suc k"])
      qed
    qed
  qed
qed

section \<open>The command line of the kernel\<close>

definition whitelisted :: "string \<Rightarrow> bool" where
  "whitelisted t \<longleftrightarrow> has_prefix t ''androidboot.slot_suffix='' \<or> has_prefix t ''androidboot.bootreason=''"

definition is_token :: "string \<Rightarrow> bool" where
  "is_token t \<longleftrightarrow> t \<noteq> [] \<and> (\<forall>c\<in>set t. \<not> is_space c)"

lemma fields_token:
  assumes "is_token t"
  shows "Go_Strings.fields t = [t]"
proof -
  obtain c cs where t: "t = c # cs" using assms by (cases t) (auto simp: is_token_def)
  have c: "\<not> is_space c" "\<forall>d\<in>set cs. \<not> is_space d" using assms t by (auto simp: is_token_def)
  have "takeWhile (\<lambda>d. \<not> is_space d) cs = cs" "dropWhile (\<lambda>d. \<not> is_space d) cs = []"
    using c(2) by (simp_all add: dropWhile_eq_Nil_conv takeWhile_none)
  moreover have "Go_Strings.fields [] = []" by (subst Go_Strings.fields.simps) simp
  ultimately show ?thesis using c(1) t by (subst Go_Strings.fields.simps) (simp del: dropWhile_eq_Nil_conv)
qed

lemma fields_token_space:
  assumes "is_token t"
  shows "Go_Strings.fields (t @ CHR '' '' # s) = t # Go_Strings.fields s"
proof -
  obtain c cs where t: "t = c # cs" using assms by (cases t) (auto simp: is_token_def)
  have sp: "is_space CHR '' ''" by (simp add: is_space_def)
  have c: "\<not> is_space c" "\<forall>d\<in>set cs. \<not> is_space d" using assms t by (auto simp: is_token_def)
  have "takeWhile (\<lambda>d. \<not> is_space d) (cs @ CHR '' '' # s) = cs"
    "dropWhile (\<lambda>d. \<not> is_space d) (cs @ CHR '' '' # s) = CHR '' '' # s"
    using c(2) sp by (simp_all add: takeWhile_append dropWhile_append)
  then have "Go_Strings.fields (t @ CHR '' '' # s) = t # Go_Strings.fields (CHR '' '' # s)"
    using c(1) t by (subst Go_Strings.fields.simps) simp
  moreover have "Go_Strings.fields (CHR '' '' # s) = Go_Strings.fields s"
    using sp by (subst (1 2) Go_Strings.fields.simps) simp
  ultimately show ?thesis by simp
qed

lemma fields_join: "\<forall>t\<in>set ts. is_token t \<Longrightarrow> Go_Strings.fields (join_with '' '' ts) = ts"
  by (induction "'' ''" ts rule: join_with.induct)
     (auto simp: fields_token fields_token_space Go_Strings.fields.simps[of "[]"])

lemma first_value_filter:
  assumes "\<And>t. has_prefix t (key @ ''='') \<Longrightarrow> W t"
  shows "first_value (filter W ts) key = first_value ts key"
  using assms by (induction ts) (auto simp: cut_prefix_def)

lemma cmdlineValue_filter:
  assumes "\<forall>t\<in>set ts. is_token t" "key \<in> {''androidboot.slot_suffix'', ''androidboot.bootreason''}"
  shows "cmdlineValue (join_with '' '' ts) key = cmdlineValue (join_with '' '' (filter whitelisted ts)) key"
proof -
  have "first_value (filter whitelisted ts) key = first_value ts key"
    using assms(2) by (intro first_value_filter) (auto simp: whitelisted_def)
  then show ?thesis using assms(1) by (simp add: cmdlineValue_def fields_join)
qed

section \<open>Properties\<close>

text \<open>C25: The toolkit is read-only.  Whatever command is given and whatever the system answers, with the
  default output directory every file it writes is below /tmp/debug, it creates no other directory, its
  only mount is the pstore at its own mount point, it hashes only devices that the resolver found under
  the given name with at most 256 MiB, and its raw reads are the LK ring and at most 16 MiB of expdb.\<close>

theorem debug_read_only:
  assumes "run_state (dbg_Main w e args passes) [] = (res, tr)" "outDir e = ''/tmp/debug''"
      and "\<And>h d es. w h (DReadDir d) = DDir es \<Longrightarrow> \<forall>(n, reg)\<in>set es. plain_name n"
  shows "\<forall>(oper, r)\<in>set tr. case oper of
        DWriteFile p b \<Rightarrow> has_prefix p ''/tmp/debug/''
      | DMkdirAll p \<Rightarrow> p = ''/tmp/debug'' \<or> p = ''/tmp/debug/pstore''
      | DMount src p \<Rightarrow> src = ''pstore'' \<and> p = ''/sys/fs/pstore''
      | DStream d \<Rightarrow> (\<exists>h name r. ResolveNamed (devDir e) (d_sysfs (w h DSysfs)) name = Inr r \<and> Device r = d \<and> Bytes r \<le> 256 * 2 ^ 20)
      | DReadFull d n \<Rightarrow> n \<le> 16 * 2 ^ 20
      | DReadAt p off n \<Rightarrow> p = devMem e \<and> off = 0x7ffbf000 \<and> n = 2 ^ 18
      | _ \<Rightarrow> True"
proof -
  have "\<forall>ev\<in>set tr. harmless_op w e ev"
    using emits_run[OF onlyD[OF dbg_Main_ok[of e w args passes, OF assms(2,3)]] assms(1)] by auto
  then show ?thesis unfolding harmless_op_def by auto
qed

text \<open>The printable view of a log is the reference view: exactly the printable octets and line feeds in
  order, with one line break in place of each run of other octets between two of them.\<close>

theorem printable_text_reference: "printableText b = string_of (printable_ref b)"
  by (simp add: printableText_def pt_fold)

text \<open>The device report depends on the kernel command line only through the slot suffix and the boot
  reason: dropping every other parameter, the serial number among them, does not change it.\<close>

theorem info_hides_cmdline:
  assumes "\<forall>t\<in>set ts. is_token t"
  shows "info_text e rel (join_with '' '' ts) mem up invt = info_text e rel (join_with '' '' (filter whitelisted ts)) mem up invt"
  using cmdlineValue_filter[OF assms, of "''androidboot.slot_suffix''"] cmdlineValue_filter[OF assms, of "''androidboot.bootreason''"]
  by (simp add: info_text_def)

text \<open>Reports are paged completely.  A report is shown in dialogs of at most twelve lines, at most one
  per started dozen of lines, and if the interface stays, the dialogs together show all its lines in order.\<close>

theorem show_pages_complete:
  assumes "run_state (showPages w title report) [] = (ok, tr)"
  shows "(\<forall>ls\<in>set (shown tr). length ls \<le> 12) \<and>
         length tr \<le> (length (split_on LF (trim_right [LF] report)) + 11) div 12 \<and>
         (ok \<longrightarrow> concat (shown tr) = split_on LF (trim_right [LF] report))"
proof -
  define ls where "ls = split_on LF (trim_right [LF] report)"
  have ne: "0 < length ls" by (simp add: ls_def)
  define n where "n = (length ls + 11) div 12"
  have n: "0 < n" "length ls \<le> n * 12" using ne unfolding n_def by presburger+
  have e: "(length ls + menuLinesPerPage - 1) div menuLinesPerPage = n"
    by (simp add: n_def menuLinesPerPage_def)
  have "showPages w title report = show_from w title ls n [0..<n]"
    using n unfolding showPages_def Let_def ls_def[symmetric] e by simp
  then have "(\<exists>k\<le>n. shown tr = map (\<lambda>p. take 12 (drop (p * 12) ls)) (take k [0..<n]) \<and> (ok \<longrightarrow> k = n)) \<and>
      length tr = length (shown tr)"
    using emits_run[OF emits_show_from[of w title ls n "[0..<n]"], of "[]" ok tr] assms
    unfolding menuLinesPerPage_def by simp
  then obtain k where k: "k \<le> n" "shown tr = map (\<lambda>p. take 12 (drop (p * 12) ls)) (take k [0..<n])" "ok \<longrightarrow> k = n"
      "length tr = length (shown tr)" by blast
  have "concat (shown tr) = take (k * 12) ls" using k(1,2) by (simp add: concat_pages)
  then show ?thesis using k n unfolding ls_def[symmetric] n_def[symmetric] by auto
qed

text \<open>A world whose panel accepts every dialog and whose files are empty.\<close>

definition panel_world :: dworld where
  "panel_world h oper = (case oper of DForward _ \<Rightarrow> DAnswer 0 ''0'' [] | DReadDir _ \<Rightarrow> DDir [] | DSysfs \<Rightarrow> DSys sample_sysfs
     | DReadFile _ \<Rightarrow> DBytes [] | DStream _ \<Rightarrow> DBytes [] | _ \<Rightarrow> DOk)"

definition sample_dbg :: dbg where
  "sample_dbg = dbg_env.extend (envFromOs (\<lambda>_. []))
     \<lparr>Version = ''unknown'', sortSlice = (\<lambda>es. es), osReason = (\<lambda>_. []), parseFloat = (\<lambda>_. None)\<rparr>"

theorem debug_read_only_witness:
  "DWriteFile ''/etc/passwd'' [] \<notin> fst ` set (snd (run_state (dbg_Main panel_world sample_dbg [''logs'', ''pstore''] 1) []))"
proof
  have o: "outDir sample_dbg = ''/tmp/debug''"
    by (simp add: sample_dbg_def envFromOs_def getenv_def dbg_env.defs)
  assume "DWriteFile ''/etc/passwd'' [] \<in> fst ` set (snd (run_state (dbg_Main panel_world sample_dbg [''logs'', ''pstore''] 1) []))"
  then have "has_prefix ''/etc/passwd'' ''/tmp/debug/''"
    using debug_read_only[OF prod.collapse[symmetric] o, of panel_world "[''logs'', ''pstore'']" 1]
    by (fastforce simp: panel_world_def)
  then show False by (simp add: has_prefix_def)
qed

theorem info_hides_cmdline_witness:
  "info_text sample_dbg [] ''androidboot.serialno=X androidboot.slot_suffix=_a'' [] [] [] =
   info_text sample_dbg [] ''androidboot.slot_suffix=_a'' [] [] []"
  using info_hides_cmdline[of "[''androidboot.serialno=X'', ''androidboot.slot_suffix=_a'']" sample_dbg "[]" "[]" "[]" "[]"]
  by (simp add: is_token_def is_space_def whitelisted_def has_prefix_def)

theorem show_pages_complete_witness:
  "concat (shown (snd (run_state (showPages panel_world ''T'' ''a'') []))) = [''a'']"
proof -
  have "fst (run_state (showPages panel_world ''T'' ''a'') [])" by code_simp
  then show ?thesis using show_pages_complete[OF prod.collapse[symmetric], of panel_world "''T''" "''a''"]
    by (simp add: split_on_last LF_def trim_right_id)
qed

end
