(* ===== verification/Drm.thy ===== *)
theory Drm
  imports Trace Panel Go_Text
begin

unbundle bit_operations_syntax

text \<open>
  \<^verbatim>\<open>installer/gotools/internal/drm/drm.go\<close>: the ioctl encodings derived from the layout of the argument
  structures, and the acquisition of the panel as a program over the kernel interface: open the card, take
  DRM master, find a connected connector, allocate, map and commit one buffer.  An ioctl is the operation
  with the fields the code passes in; its answer holds the fields the kernel wrote.
\<close>

section \<open>Structure layouts and ioctl numbers\<close>

datatype ftype = U8 | U16 | U32 | U64 | Arr ftype nat | Struct "ftype list"

fun alignof :: "ftype \<Rightarrow> nat" where
  "alignof U8 = 1"
| "alignof U16 = 2"
| "alignof U32 = 4"
| "alignof U64 = 8"
| "alignof (Arr t n) = alignof t"
| "alignof (Struct ts) = foldr max (map alignof ts) 1"

definition round_up :: "nat \<Rightarrow> nat \<Rightarrow> nat" where
  "round_up n a = (n + a - 1) div a * a"

fun sizeof :: "ftype \<Rightarrow> nat" where
  "sizeof U8 = 1"
| "sizeof U16 = 2"
| "sizeof U32 = 4"
| "sizeof U64 = 8"
| "sizeof (Arr t n) = n * sizeof t"
| "sizeof (Struct ts) = round_up (foldl (\<lambda>off t. round_up off (alignof t) + sizeof t) 0 ts) (foldr max (map alignof ts) 1)"

definition ioc :: "u64 \<Rightarrow> u64 \<Rightarrow> u64 \<Rightarrow> u64 \<Rightarrow> u64" where
  "ioc dir typ nr sz = (push_bit 30 dir OR push_bit 16 sz OR push_bit 8 typ OR push_bit 0 nr)"

definition iowr :: "u64 \<Rightarrow> nat \<Rightarrow> u64" where
  "iowr nr sz = ioc (2 OR 1) 0x64 nr (of_nat sz)"

definition ioNone :: "u64 \<Rightarrow> u64" where
  "ioNone nr = ioc 0 0x64 nr 0"

definition drmModeCardRes :: ftype where
  "drmModeCardRes = Struct (replicate 4 U64 @ replicate 4 U32 @ replicate 4 U32)"

definition drmModeInfo_layout :: ftype where
  "drmModeInfo_layout = Struct ([U32] @ replicate 4 U16 @ [U16] @ replicate 4 U16 @ [U16] @ [U32] @ [U32, U32] @ [Arr U8 32])"

definition drmModeGetConnector :: ftype where
  "drmModeGetConnector = Struct (replicate 4 U64 @ replicate 3 U32 @ replicate 3 U32 @ [U32] @ replicate 4 U32 @ [U32])"

definition drmModeCreateDumb :: ftype where
  "drmModeCreateDumb = Struct (replicate 4 U32 @ replicate 2 U32 @ [U64])"

definition drmModeFBCmd2 :: ftype where
  "drmModeFBCmd2 = Struct (replicate 5 U32 @ [Arr U32 4, Arr U32 4, Arr U32 4, Arr U64 4])"

definition drmModeMapDumb :: ftype where
  "drmModeMapDumb = Struct [U32, U32, U64]"

definition drmModeCRTC :: ftype where
  "drmModeCRTC = Struct ([U64, U32] @ replicate 2 U32 @ replicate 2 U32 @ replicate 2 U32 @ [drmModeInfo_layout])"

definition drmIoctlSetMaster :: u64 where "drmIoctlSetMaster = ioNone 0x1e"
definition drmIoctlModeGetRes :: u64 where "drmIoctlModeGetRes = iowr 0xa0 (sizeof drmModeCardRes)"
definition drmIoctlModeGetConn :: u64 where "drmIoctlModeGetConn = iowr 0xa7 (sizeof drmModeGetConnector)"
definition drmIoctlModeCreateDumb :: u64 where "drmIoctlModeCreateDumb = iowr 0xb2 (sizeof drmModeCreateDumb)"
definition drmIoctlModeAddFB2 :: u64 where "drmIoctlModeAddFB2 = iowr 0xb8 (sizeof drmModeFBCmd2)"
definition drmIoctlModeMapDumb :: u64 where "drmIoctlModeMapDumb = iowr 0xb3 (sizeof drmModeMapDumb)"
definition drmIoctlModeSetCRTC :: u64 where "drmIoctlModeSetCRTC = iowr 0xa2 (sizeof drmModeCRTC)"

lemma struct_sizes:
  "sizeof drmModeCardRes = 64" "sizeof drmModeGetConnector = 80" "sizeof drmModeCreateDumb = 32" "sizeof drmModeFBCmd2 = 104"
  "sizeof drmModeMapDumb = 16" "sizeof drmModeCRTC = 104" "sizeof drmModeInfo_layout = 68"
  by code_simp+

text \<open>The numbers of the kernel headers, as \<^verbatim>\<open>drm_test.go\<close> pins them.\<close>

lemma ioctl_encodings:
  "drmIoctlSetMaster = 0x641e" "drmIoctlModeGetRes = 0xc04064a0" "drmIoctlModeGetConn = 0xc05064a7"
  "drmIoctlModeCreateDumb = 0xc02064b2" "drmIoctlModeAddFB2 = 0xc06864b8" "drmIoctlModeMapDumb = 0xc01064b3"
  "drmIoctlModeSetCRTC = 0xc06864a2"
  by code_simp+

section \<open>The kernel interface\<close>

record drmModeInfo =
  Clock :: u32
  HDisplay :: u16
  HSyncStart :: u16
  HSyncEnd :: u16
  HTotal :: u16
  HSkew :: u16
  VDisplay :: u16
  VSyncStart :: u16
  VSyncEnd :: u16
  VTotal :: u16
  VScan :: u16
  VRefresh :: u32
  mFlags :: u32
  mType :: u32
  mName :: bytes

definition zero_mode :: drmModeInfo where
  "zero_mode = \<lparr>Clock = 0, HDisplay = 0, HSyncStart = 0, HSyncEnd = 0, HTotal = 0, HSkew = 0, VDisplay = 0, VSyncStart = 0,
     VSyncEnd = 0, VTotal = 0, VScan = 0, VRefresh = 0, mFlags = 0, mType = 0, mName = replicate 32 0\<rparr>"

text \<open>The arguments are the fields passed in: counts of room for \<^verbatim>\<open>GETRESOURCES\<close> (connectors, CRTCs) and, after
  the connector, for \<^verbatim>\<open>GETCONNECTOR\<close> (modes); width, height and depth of a buffer; and so on.\<close>

datatype kop =
    KOpen | KSetMaster | KGetRes u32 u32 | KGetConn u32 u32 | KCreateDumb u32 u32 u32
  | KAddFB2 u32 u32 u32 u32 u32 | KMapDumb u32 | KMmap u64 u64 | KSetCRTC u32 u32 u32 drmModeInfo | KMunmap | KClose

datatype kresp =
    KErr nat | KOk | KRes u32 u32 "u32 list" "u32 list" | KConn u32 u32 "drmModeInfo list" | KDumb u32 u32 u64
  | KFb u32 | KOff u64

type_synonym kenv = "(kop, kresp) env"
type_synonym 'a kprog = "(kop, kresp, 'a) prog"

definition k_err :: "kresp \<Rightarrow> nat option" where
  "k_err r = (case r of KErr n \<Rightarrow> Some n | _ \<Rightarrow> None)"

definition k_res :: "kresp \<Rightarrow> u32 \<times> u32 \<times> u32 list \<times> u32 list" where
  "k_res r = (case r of KRes a b c d \<Rightarrow> (a, b, c, d) | _ \<Rightarrow> (0, 0, [], []))"

definition k_conn :: "kresp \<Rightarrow> u32 \<times> u32 \<times> drmModeInfo list" where
  "k_conn r = (case r of KConn n c ms \<Rightarrow> (n, c, ms) | _ \<Rightarrow> (0, 0, []))"

definition k_dumb :: "kresp \<Rightarrow> u32 \<times> u32 \<times> u64" where
  "k_dumb r = (case r of KDumb h p n \<Rightarrow> (h, p, n) | _ \<Rightarrow> (0, 0, 0))"

definition k_fb :: "kresp \<Rightarrow> u32" where
  "k_fb r = (case r of KFb f \<Rightarrow> f | _ \<Rightarrow> 0)"

definition k_off :: "kresp \<Rightarrow> u64" where
  "k_off r = (case r of KOff f \<Rightarrow> f | _ \<Rightarrow> 0)"

text \<open>An array of eight elements after the kernel wrote a prefix of it.\<close>

definition array8 :: "'a \<Rightarrow> 'a list \<Rightarrow> 'a list" where
  "array8 z xs = take 8 (xs @ replicate 8 z)"

section \<open>Acquiring the panel\<close>

record Surface =
  sCanvas :: canvas
  sMem :: bytes
  crtcID :: u32
  connID :: u32
  fbID :: u32
  sMode :: drmModeInfo

datatype acquired = Acquired Surface | AcqErr string | AcqPanic

definition k_fail :: "kenv \<Rightarrow> string \<Rightarrow> acquired kprog" where
  "k_fail env t = do { act env KClose; ret (AcqErr t) }"

definition errno_text :: "string \<Rightarrow> nat \<Rightarrow> string" where
  "errno_text pre n = pre @ '': errno '' @ dec n"

definition setMaster :: "kenv \<Rightarrow> nat option kprog" where
  "setMaster env = do {
     r \<leftarrow> act env KSetMaster;
     ret (if k_err r = Some 22 then None else k_err r) }"

datatype conn_search = ConnFound u32 drmModeInfo | ConnNone | ConnPanic

text \<open>The connectors in order; an index beyond the array panics.\<close>

fun find_conn :: "kenv \<Rightarrow> u32 list \<Rightarrow> nat list \<Rightarrow> conn_search kprog" where
  "find_conn env conns [] = ret ConnNone"
| "find_conn env conns (i # is) =
     (if 8 \<le> i then ret ConnPanic
      else do {
        r \<leftarrow> act env (KGetConn (conns ! i) 0);
        if k_err r \<noteq> None \<or> fst (k_conn r) = 0 then find_conn env conns is
        else do {
          r2 \<leftarrow> act env (KGetConn (conns ! i) (if 8 < fst (k_conn r) then 8 else fst (k_conn r)));
          if k_err r2 \<noteq> None then find_conn env conns is
          else (case k_conn r2 of (n, connection, ms) \<Rightarrow>
            if connection = 1 \<and> 0 < n then ret (ConnFound (conns ! i) (array8 zero_mode ms ! 0))
            else find_conn env conns is) } })"

definition modeset :: "kenv \<Rightarrow> Surface \<Rightarrow> nat option kprog" where
  "modeset env s = do { r \<leftarrow> act env (KSetCRTC (crtcID s) (connID s) (fbID s) (sMode s)); ret (k_err r) }"

definition Surface_Close :: "kenv \<Rightarrow> unit kprog" where
  "Surface_Close env = do { act env KMunmap; act env KClose; unit_prog }"

definition acquire_buffer :: "kenv \<Rightarrow> u32 \<Rightarrow> u32 \<Rightarrow> drmModeInfo \<Rightarrow> acquired kprog" where
  "acquire_buffer env crtc conn mode = do {
     d \<leftarrow> act env (KCreateDumb (ucast (HDisplay mode)) (ucast (VDisplay mode)) 32);
     (case k_err d of
        Some n \<Rightarrow> k_fail env (errno_text ''CREATE_DUMB 32bpp failed -- no display'' n)
      | None \<Rightarrow> (case k_dumb d of (hdl, pitch, sz) \<Rightarrow> do {
          f \<leftarrow> act env (KAddFB2 (ucast (HDisplay mode)) (ucast (VDisplay mode)) 0x34325258 hdl pitch);
          (case k_err f of
             Some n \<Rightarrow> k_fail env (errno_text ''ADDFB2'' n)
           | None \<Rightarrow> do {
               m \<leftarrow> act env (KMapDumb hdl);
               (case k_err m of
                  Some n \<Rightarrow> k_fail env (errno_text ''MAP_DUMB'' n)
                | None \<Rightarrow> do {
                    p \<leftarrow> act env (KMmap (k_off m) sz);
                    (case k_err p of
                       Some n \<Rightarrow> k_fail env (errno_text ''dumb buffer mmap'' n)
                     | None \<Rightarrow> (let s = \<lparr>sCanvas = \<lparr>cw = uint (HDisplay mode), ch = uint (VDisplay mode), cstride = uint pitch,
                                          cpix = replicate (unat sz) 0\<rparr>,
                                  sMem = replicate (unat sz) 0, crtcID = crtc, connID = conn, fbID = k_fb f, sMode = mode\<rparr>
                         in do {
                           c \<leftarrow> modeset env s;
                           (case c of
                              Some n \<Rightarrow> do { Surface_Close env; ret (AcqErr (errno_text ''SETCRTC failed -- panel stays dark'' n)) }
                            | None \<Rightarrow> ret (Acquired s)) })) }) }) })) }"

definition acquire_resources :: "kenv \<Rightarrow> acquired kprog" where
  "acquire_resources env = do {
     r \<leftarrow> act env (KGetRes 0 0);
     (case k_err r of
        Some n \<Rightarrow> k_fail env (errno_text ''GETRESOURCES'' n)
      | None \<Rightarrow> (case k_res r of (nconn, ncrtc, _, _) \<Rightarrow>
          if nconn = 0 \<or> ncrtc = 0 then k_fail env ''no DRM connector/crtc''
          else do {
            r2 \<leftarrow> act env (KGetRes (if 8 < nconn then 8 else nconn) (if 8 < ncrtc then 8 else ncrtc));
            (case k_err r2 of
               Some n \<Rightarrow> k_fail env (errno_text ''GETRESOURCES (fill)'' n)
             | None \<Rightarrow> (case k_res r2 of (nconn2, _, conns, crtcs) \<Rightarrow> do {
                 c \<leftarrow> find_conn env (array8 0 conns) [0..<unat nconn2];
                 (case c of
                    ConnPanic \<Rightarrow> ret AcqPanic
                  | ConnNone \<Rightarrow> k_fail env ''no connected DRM connector''
                  | ConnFound conn mode \<Rightarrow>
                      if conn = 0 then k_fail env ''no connected DRM connector''
                      else acquire_buffer env (array8 0 crtcs ! 0) conn mode) })) })) }"

definition Acquire :: "kenv \<Rightarrow> acquired kprog" where
  "Acquire env = do {
     f \<leftarrow> act env KOpen;
     (case k_err f of
        Some n \<Rightarrow> ret (AcqErr (errno_text ''no /dev/dri/card0'' n))
      | None \<Rightarrow> do {
          m \<leftarrow> setMaster env;
          (case m of
             Some n \<Rightarrow> k_fail env (''errno '' @ dec n)
           | None \<Rightarrow> acquire_resources env) }) }"

section \<open>One modeset, and nothing left open\<close>

definition is_modeset :: "kop \<Rightarrow> bool" where
  "is_modeset oper = (case oper of KSetCRTC _ _ _ _ \<Rightarrow> True | _ \<Rightarrow> False)"

definition maps :: "kop \<times> kresp \<Rightarrow> bool" where
  "maps e = (case fst e of KMmap _ _ \<Rightarrow> k_err (snd e) = None | _ \<Rightarrow> False)"

text \<open>Events before the buffer is mapped: they neither map, commit, unmap nor close anything.\<close>

definition early :: "kop \<times> kresp \<Rightarrow> bool" where
  "early e \<longleftrightarrow> \<not> is_modeset (fst e) \<and> \<not> maps e \<and> fst e \<noteq> KMunmap \<and> fst e \<noteq> KClose"

lemma early_simps [simp]:
  "early (KOpen, r)" "early (KSetMaster, r)" "early (KGetRes a b, r)" "early (KGetConn a b, r)" "early (KCreateDumb a b c, r)"
  "early (KAddFB2 a b c d e, r)" "early (KMapDumb a, r)" "k_err r \<noteq> None \<Longrightarrow> early (KMmap o1 n, r)"
  by (simp_all add: early_def is_modeset_def maps_def)

text \<open>How an acquisition ends: closed before anything was mapped, unmapped and closed after the one commit
  failed, or lit by the one commit that is its last event.\<close>

definition connected :: "u32 \<Rightarrow> drmModeInfo \<Rightarrow> (kop, kresp) events \<Rightarrow> bool" where
  "connected conn mode pre \<longleftrightarrow> (\<exists>room n ms. (KGetConn conn room, KConn n 1 ms) \<in> set pre \<and> 0 < n \<and> mode = array8 zero_mode ms ! 0)"

definition buffer_of :: "Surface \<Rightarrow> (kop, kresp) events \<Rightarrow> bool" where
  "buffer_of s pre \<longleftrightarrow> (\<exists>r. (KCreateDumb (ucast (HDisplay (sMode s))) (ucast (VDisplay (sMode s))) 32, r) \<in> set pre \<and>
     sCanvas s = \<lparr>cw = uint (HDisplay (sMode s)), ch = uint (VDisplay (sMode s)), cstride = uint (fst (snd (k_dumb r))),
        cpix = replicate (unat (snd (snd (k_dumb r)))) 0\<rparr> \<and>
     sMem s = cpix (sCanvas s))"

definition ends :: "acquired \<Rightarrow> (kop, kresp) events \<Rightarrow> bool" where
  "ends res new \<longleftrightarrow> (\<exists>pre. (\<forall>e\<in>set pre. early e) \<and>
     (case res of
        AcqPanic \<Rightarrow> new = pre
      | AcqErr t \<Rightarrow> (\<exists>r. new = pre @ [(KClose, r)]) \<or>
          (\<exists>m c u r. new = pre @ [m, c, (KMunmap, u), (KClose, r)] \<and> maps m \<and> is_modeset (fst c))
      | Acquired s \<Rightarrow> \<exists>m c. new = pre @ [m, (KSetCRTC (crtcID s) (connID s) (fbID s) (sMode s), c)] \<and> maps m \<and>
          k_err c = None \<and> connID s \<noteq> 0 \<and> connected (connID s) (sMode s) pre \<and> buffer_of s pre))"

lemma ends_Cons: "early e \<Longrightarrow> ends res new \<Longrightarrow> ends res (e # new)"
proof -
  assume e: "early e" and "ends res new"
  then obtain pre where p: "\<forall>e\<in>set pre. early e" "case res of
        AcqPanic \<Rightarrow> new = pre
      | AcqErr t \<Rightarrow> (\<exists>r. new = pre @ [(KClose, r)]) \<or>
          (\<exists>m c u r. new = pre @ [m, c, (KMunmap, u), (KClose, r)] \<and> maps m \<and> is_modeset (fst c))
      | Acquired s \<Rightarrow> \<exists>m c. new = pre @ [m, (KSetCRTC (crtcID s) (connID s) (fbID s) (sMode s), c)] \<and> maps m \<and>
          k_err c = None \<and> connID s \<noteq> 0 \<and> connected (connID s) (sMode s) pre \<and> buffer_of s pre"
    unfolding ends_def by blast
  have "connected c m pre \<Longrightarrow> connected c m (e # pre)" "buffer_of s pre \<Longrightarrow> buffer_of s (e # pre)" for c m s
    by (auto simp: connected_def buffer_of_def)
  with e p show ?thesis unfolding ends_def by (intro exI[of _ "e # pre"]) (auto split: acquired.splits)
qed

lemma ends_append: "\<forall>e\<in>set xs. early e \<Longrightarrow> ends res new \<Longrightarrow> ends res (xs @ new)"
  by (induction xs) (auto intro: ends_Cons)

lemma emits_k_fail: "emits (k_fail env t) ends"
  unfolding k_fail_def by (auto intro!: emits_act_bind emits_return exI[of _ "[]"] simp: ends_def)

definition search_ok :: "conn_search \<Rightarrow> (kop, kresp) events \<Rightarrow> bool" where
  "search_ok c new \<longleftrightarrow> (\<forall>e\<in>set new. early e) \<and>
     (case c of ConnFound conn mode \<Rightarrow> connected conn mode new | _ \<Rightarrow> True)"

lemma search_ok_Cons: "early e \<Longrightarrow> search_ok c new \<Longrightarrow> search_ok c (e # new)"
  by (auto simp: search_ok_def connected_def split: conn_search.splits)

lemma emits_find_conn: "emits (find_conn env conns is) search_ok"
proof (induction "is")
  case Nil
  show ?case by (simp add: emits_return search_ok_def)
next
  case (Cons i "is")
  have found: "search_ok (ConnFound (conns ! i) (array8 zero_mode (snd (snd (k_conn r2))) ! 0))
       [(KGetConn (conns ! i) 0, r), (KGetConn (conns ! i) room, r2)]"
    if "fst (snd (k_conn r2)) = 1" "0 < fst (k_conn r2)" for r r2 room
  proof -
    have "\<exists>n ms. r2 = KConn n 1 ms" using that by (cases r2) (auto simp: k_conn_def)
    then show ?thesis using that(2) by (auto simp: search_ok_def connected_def k_conn_def) blast
  qed
  have again1: "emits (find_conn env conns is) (\<lambda>c new. search_ok c (e # new))" if "early e" for e
    using that by (auto intro!: emits_weaken[OF Cons.IH] search_ok_Cons)
  have again2: "emits (find_conn env conns is) (\<lambda>c new. search_ok c (e # e' # new))" if "early e" "early e'" for e e'
    using that by (auto intro!: emits_weaken[OF Cons.IH] search_ok_Cons)
  have panic: "search_ok ConnPanic []" by (simp add: search_ok_def)
  show ?case unfolding find_conn.simps split_beta
    by (intro emits_if emits_act_bind emits_return found again1 again2 panic early_simps) simp_all
qed

lemma ends_lit:
  assumes "k_err p = None" "k_err c = None" "conn \<noteq> 0" "connected conn mode xs" "\<forall>e\<in>set xs. early e"
      and "s = \<lparr>sCanvas = \<lparr>cw = uint (HDisplay mode), ch = uint (VDisplay mode), cstride = uint (fst (snd (k_dumb d))),
                   cpix = replicate (unat (snd (snd (k_dumb d)))) 0\<rparr>,
                 sMem = replicate (unat (snd (snd (k_dumb d)))) 0, crtcID = crtc, connID = conn, fbID = k_fb f, sMode = mode\<rparr>"
  shows "ends (Acquired s) (xs @ [(KCreateDumb (ucast (HDisplay mode)) (ucast (VDisplay mode)) 32, d), (KAddFB2 a1 a2 a3 a4 a5, f),
     (KMapDumb hdl, m), (KMmap o1 sz, p), (KSetCRTC crtc conn (k_fb f) mode, c)])"
proof -
  let ?pre = "xs @ [(KCreateDumb (ucast (HDisplay mode)) (ucast (VDisplay mode)) 32, d), (KAddFB2 a1 a2 a3 a4 a5, f), (KMapDumb hdl, m)]"
  have "connected conn mode ?pre" using assms(4) by (auto simp: connected_def)
  moreover have "buffer_of s ?pre" by (auto simp: buffer_of_def assms(6))
  ultimately show ?thesis unfolding ends_def using assms by (intro exI[of _ ?pre]) (simp add: maps_def)
qed

lemma ends_dark:
  assumes "k_err p = None" "\<forall>e\<in>set xs. early e"
  shows "ends (AcqErr t) (xs @ [(KMmap o1 sz, p), (KSetCRTC a b c d, q), (KMunmap, u), (KClose, r)])"
  unfolding ends_def acquired.case using assms by (intro exI[of _ xs]) (simp add: maps_def is_modeset_def)

lemma emits_acquire_buffer:
  assumes "conn \<noteq> 0" "connected conn mode xs" "\<forall>e\<in>set xs. early e"
  shows "emits (acquire_buffer env crtc conn mode) (\<lambda>res new. ends res (xs @ new))"
proof -
  have f: "emits (k_fail env t) (\<lambda>res new. ends res (xs @ ys @ new))" if "\<forall>e\<in>set ys. early e" for t ys
    using that assms(3) by (auto intro!: emits_weaken[OF emits_k_fail] ends_append)
  note fails = f[of "[e1]" for e1, simplified] f[of "[e1, e2]" for e1 e2, simplified]
    f[of "[e1, e2, e3]" for e1 e2 e3, simplified] f[of "[e1, e2, e3, e4]" for e1 e2 e3 e4, simplified]
  have dark: "ends (AcqErr t) (xs @ [(KCreateDumb b1 b2 b3, d), (KAddFB2 a1 a2 a3 a4 a5, fb), (KMapDumb hdl, m),
      (KMmap o1 sz, p), (KSetCRTC c1 c2 c3 c4, q), (KMunmap, u), (KClose, r)])" if "k_err p = None"
    for t b1 b2 b3 d a1 a2 a3 a4 a5 fb hdl m o1 sz p c1 c2 c3 c4 q u r
    using ends_dark[OF that, of "xs @ [(KCreateDumb b1 b2 b3, d), (KAddFB2 a1 a2 a3 a4 a5, fb), (KMapDumb hdl, m)]"] assms(3) by auto
  show ?thesis unfolding acquire_buffer_def modeset_def Surface_Close_def Let_def split_beta
    by (auto intro!: emits_act_bind emits_option emits_return fails dark ends_lit[OF _ _ assms])
qed

lemma ends_connect: "\<forall>e\<in>set xs. early e \<Longrightarrow> emits (k_fail env t) (\<lambda>res new. ends res (xs @ new))"
  by (auto intro!: emits_weaken[OF emits_k_fail] ends_append)

lemma emits_acquire_resources: "emits (acquire_resources env) ends"
proof -
  have f1: "emits (k_fail env t) (\<lambda>res new. ends res (e1 # new))" if "early e1" for t e1
    using that ends_connect[of "[e1]"] by simp
  have f2: "emits (k_fail env t) (\<lambda>res new. ends res (e1 # e2 # new))" if "early e1" "early e2" for t e1 e2
    using that ends_connect[of "[e1, e2]"] by simp
  have s: "emits (find_conn env conns is \<bind> (\<lambda>c. case c of
              ConnPanic \<Rightarrow> ret AcqPanic
            | ConnNone \<Rightarrow> k_fail env ''no connected DRM connector''
            | ConnFound conn mode \<Rightarrow> if conn = 0 then k_fail env ''no connected DRM connector'' else acquire_buffer env crtc conn mode))
       (\<lambda>res new. ends res (e1 # e2 # new))" if e: "early e1" "early e2" for conns "is" crtc e1 e2
  proof (rule emits_bind[OF emits_find_conn])
    fix c and new :: "(kop, kresp) events"
    assume c: "search_ok c new"
    then have q: "\<forall>e\<in>set (e1 # e2 # new). early e" using e by (auto simp: search_ok_def)
    have k: "emits (k_fail env t) (\<lambda>res new'. ends res (e1 # e2 # new @ new'))" for t using ends_connect[OF q] by simp
    have b: "emits (acquire_buffer env crtc conn mode) (\<lambda>res new'. ends res (e1 # e2 # new @ new'))"
      if "c = ConnFound conn mode" "conn \<noteq> 0" for conn mode
    proof -
      have "connected conn mode (e1 # e2 # new)" using c that(1) by (auto simp: search_ok_def connected_def)
      from emits_acquire_buffer[OF that(2) this q] show ?thesis by simp
    qed
    have p: "ends AcqPanic (e1 # e2 # new)" using q by (auto simp: ends_def)
    show "emits (case c of
              ConnPanic \<Rightarrow> ret AcqPanic
            | ConnNone \<Rightarrow> k_fail env ''no connected DRM connector''
            | ConnFound conn mode \<Rightarrow> if conn = 0 then k_fail env ''no connected DRM connector'' else acquire_buffer env crtc conn mode)
       (\<lambda>res new'. ends res (e1 # e2 # new @ new'))"
      using k b p by (cases c) (auto intro: emits_return)
  qed
  show ?thesis unfolding acquire_resources_def split_beta
    by (intro emits_act_bind emits_option emits_if f1 f2 s early_simps)
qed

lemma emits_Acquire: "emits (Acquire env) (\<lambda>res new. (\<exists>n t. res = AcqErr t \<and> new = [(KOpen, KErr n)]) \<or> ends res new)"
proof -
  have f: "emits (k_fail env t) (\<lambda>res new. ends res (e1 # e2 # new))" if "early e1" "early e2" for t e1 e2
    using that ends_connect[of "[e1, e2]"] by simp
  have a: "emits (acquire_resources env) (\<lambda>res new. ends res (e1 # e2 # new))" if "early e1" "early e2" for e1 e2
    using that by (auto intro!: emits_weaken[OF emits_acquire_resources] ends_Cons)
  have o: "r = KErr n" if "k_err r = Some n" for r n using that by (cases r) (auto simp: k_err_def)
  show ?thesis unfolding Acquire_def setMaster_def
  proof (rule emits_act_bind, rule emits_option)
    fix r n
    assume "k_err r = Some n"
    then show "emits (ret (AcqErr (errno_text ''no /dev/dri/card0'' n)))
        (\<lambda>res new. (\<exists>n t. res = AcqErr t \<and> (KOpen, r) # new = [(KOpen, KErr n)]) \<or> ends res ((KOpen, r) # new))"
      using o by (auto intro!: emits_return)
  next
    fix r
    show "emits ((act env KSetMaster \<bind> (\<lambda>r. ret (if k_err r = Some 22 then None else k_err r))) \<bind>
         (\<lambda>m. case m of None \<Rightarrow> acquire_resources env | Some n \<Rightarrow> k_fail env (''errno '' @ dec n)))
        (\<lambda>res new. (\<exists>n t. res = AcqErr t \<and> (KOpen, r) # new = [(KOpen, KErr n)]) \<or> ends res ((KOpen, r) # new))"
    proof (rule emits_weaken[where R = "\<lambda>res new. ends res ((KOpen, r) # new)"])
      show "emits ((act env KSetMaster \<bind> (\<lambda>r. ret (if k_err r = Some 22 then None else k_err r))) \<bind>
         (\<lambda>m. case m of None \<Rightarrow> acquire_resources env | Some n \<Rightarrow> k_fail env (''errno '' @ dec n))) (\<lambda>res new. ends res ((KOpen, r) # new))"
      proof (rule emits_bind[where R = "\<lambda>m new. \<exists>q. new = [(KSetMaster, q)]"])
        show "emits (act env KSetMaster \<bind> (\<lambda>r. ret (if k_err r = Some 22 then None else k_err r))) (\<lambda>m new. \<exists>q. new = [(KSetMaster, q)])"
          by (auto intro!: emits_act_bind emits_return)
      qed (auto intro!: emits_option a f)
    qed simp
  qed
qed

text \<open>Counting over a history that ends in one of the three ways.\<close>

lemma early_filters:
  assumes "\<forall>e\<in>set pre. early e"
  shows "filter (\<lambda>e. is_modeset (fst e)) pre = []" "filter maps pre = []" "filter (\<lambda>e. fst e = KMunmap) pre = []"
    "filter (\<lambda>e. fst e = KClose) pre = []"
  using assms by (auto simp: filter_empty_conv early_def)

lemma maps_other: "maps m \<Longrightarrow> \<not> is_modeset (fst m) \<and> fst m \<noteq> KMunmap \<and> fst m \<noteq> KClose"
  by (auto simp: maps_def is_modeset_def split: kop.splits)

lemma modeset_other: "is_modeset (fst c) \<Longrightarrow> \<not> maps c \<and> fst c \<noteq> KMunmap \<and> fst c \<noteq> KClose"
  by (auto simp: maps_def is_modeset_def split: kop.splits)

lemma ends_counts:
  assumes "ends res tr"
  shows "length (filter (\<lambda>e. is_modeset (fst e)) tr) \<le> 1 \<and>
    (case res of
       AcqErr t \<Rightarrow> (\<exists>n. tr = [(KOpen, KErr n)]) \<or>
         (fst (last tr) = KClose \<and> length (filter (\<lambda>e. fst e = KClose) tr) = 1 \<and>
          length (filter maps tr) = length (filter (\<lambda>e. fst e = KMunmap) tr))
     | Acquired s \<Rightarrow> fst (last tr) = KSetCRTC (crtcID s) (connID s) (fbID s) (sMode s) \<and> k_err (snd (last tr)) = None \<and>
         filter (\<lambda>e. fst e = KClose \<or> fst e = KMunmap) tr = [] \<and> connected (connID s) (sMode s) tr \<and> buffer_of s tr
     | AcqPanic \<Rightarrow> filter maps tr = [])"
proof -
  obtain pre where p: "\<forall>e\<in>set pre. early e" "case res of
        AcqPanic \<Rightarrow> tr = pre
      | AcqErr t \<Rightarrow> (\<exists>r. tr = pre @ [(KClose, r)]) \<or>
          (\<exists>m c u r. tr = pre @ [m, c, (KMunmap, u), (KClose, r)] \<and> maps m \<and> is_modeset (fst c))
      | Acquired s \<Rightarrow> \<exists>m c. tr = pre @ [m, (KSetCRTC (crtcID s) (connID s) (fbID s) (sMode s), c)] \<and> maps m \<and>
          k_err c = None \<and> connID s \<noteq> 0 \<and> connected (connID s) (sMode s) pre \<and> buffer_of s pre"
    using assms unfolding ends_def by blast
  note f = early_filters[OF p(1)]
  have cm: "\<not> is_modeset KClose" "\<not> is_modeset KMunmap" "\<not> maps (KClose, r)" "\<not> maps (KMunmap, r)" for r
    by (simp_all add: is_modeset_def maps_def)
  have more: "connected c m pre \<Longrightarrow> connected c m (pre @ ys)" "buffer_of s pre \<Longrightarrow> buffer_of s (pre @ ys)" for c m s ys
    by (auto simp: connected_def buffer_of_def)
  have g: "filter (\<lambda>e. fst e = KClose \<or> fst e = KMunmap) pre = []" using p(1) by (auto simp: filter_empty_conv early_def)
  show ?thesis
  proof (cases res)
    case (Acquired s)
    then obtain m c where t: "tr = pre @ [m, (KSetCRTC (crtcID s) (connID s) (fbID s) (sMode s), c)]" "maps m" "k_err c = None"
      "connected (connID s) (sMode s) pre" "buffer_of s pre" using p(2) by auto
    show ?thesis using t(2,3) more(1)[OF t(4)] more(2)[OF t(5)] maps_other[OF t(2)] f g by (simp add: Acquired t(1))
  next
    case (AcqErr t)
    then consider r where "tr = pre @ [(KClose, r)]"
      | m c u r where "tr = pre @ [m, c, (KMunmap, u), (KClose, r)]" "maps m" "is_modeset (fst c)" using p(2) by auto
    then show ?thesis
    proof cases
      case 1
      then show ?thesis using f cm by (simp add: AcqErr)
    next
      case 2
      then show ?thesis using f cm maps_other[OF 2(2)] modeset_other[OF 2(3)] by (simp add: AcqErr)
    qed
  next
    case AcqPanic
    then show ?thesis using p f by simp
  qed
qed

lemma acquired_ends: "run_state (Acquire env) [] = (Acquired s, tr) \<Longrightarrow> ends (Acquired s) tr"
  using emits_run[OF emits_Acquire] by fastforce

lemma acquired_buffer: "run_state (Acquire env) [] = (Acquired s, tr) \<Longrightarrow> buffer_of s tr"
  and acquired_connected: "run_state (Acquire env) [] = (Acquired s, tr) \<Longrightarrow> connected (connID s) (sMode s) tr"
  using ends_counts[OF acquired_ends] by auto

text \<open>Every answer in the history is the kernel's, and never more than eight modes are asked for.\<close>

definition room_ok :: "kenv \<Rightarrow> kop \<times> kresp \<Rightarrow> bool" where
  "room_ok env e \<longleftrightarrow> (\<exists>h. snd e = env h (fst e)) \<and> (case fst e of KGetConn _ room \<Rightarrow> room \<le> 8 | _ \<Rightarrow> True)"

lemma room_ok_act: "(case oper of KGetConn _ room \<Rightarrow> room \<le> 8 | _ \<Rightarrow> True) \<Longrightarrow> only (room_ok env) (act env oper)"
  by (rule only_act) (auto simp: room_ok_def)

lemma only_find_conn: "only (room_ok env) (find_conn env conns is)"
  by (induction "is") (auto intro!: only_if only_bind room_ok_act only_prod simp: not_less split: prod.splits)

lemma only_Acquire: "only (room_ok env) (Acquire env)"
proof -
  have f: "only (room_ok env) (k_fail env t)" for t unfolding k_fail_def by (intro only_bind room_ok_act only_return) simp
  have b: "only (room_ok env) (acquire_buffer env crtc conn mode)" for crtc conn mode
    unfolding acquire_buffer_def modeset_def Surface_Close_def Let_def
    by (intro only_bind room_ok_act only_option only_prod f only_return) simp_all
  have c: "only (room_ok env) (case c of ConnPanic \<Rightarrow> ret AcqPanic | ConnNone \<Rightarrow> k_fail env t
      | ConnFound conn mode \<Rightarrow> if conn = 0 then k_fail env t else acquire_buffer env crtc conn mode)" for c t crtc
    by (cases c) (auto intro: f b)
  show ?thesis unfolding Acquire_def setMaster_def acquire_resources_def
    by (intro only_bind room_ok_act only_option only_prod only_if only_find_conn c f only_return) simp_all
qed

lemma Acquire_answers: "run_state (Acquire env) [] = (res, tr) \<Longrightarrow> e \<in> set tr \<Longrightarrow> room_ok env e"
  using emits_run[OF onlyD[OF only_Acquire]] by fastforce

section \<open>Properties\<close>

text \<open>C21: The panel is committed at most once, and nothing stays open after a failure.  Whatever the kernel
  answers, an acquisition performs at most one modeset.  When it reports an error, either the card could not be
  opened, or the card was closed exactly once, as the last thing, and every mapping was unmapped.  When it
  succeeds, the successful modeset is the last operation, nothing was unmapped or closed, the connector was
  reported connected with that mode, and the surface is the buffer created with the size of the mode.\<close>

theorem acquire_one_modeset:
  assumes "run_state (Acquire env) [] = (res, tr)"
  shows "length (filter (\<lambda>e. is_modeset (fst e)) tr) \<le> 1 \<and>
    (case res of
       AcqErr t \<Rightarrow> (\<exists>n. tr = [(KOpen, KErr n)]) \<or>
         (fst (last tr) = KClose \<and> length (filter (\<lambda>e. fst e = KClose) tr) = 1 \<and>
          length (filter maps tr) = length (filter (\<lambda>e. fst e = KMunmap) tr))
     | Acquired s \<Rightarrow> fst (last tr) = KSetCRTC (crtcID s) (connID s) (fbID s) (sMode s) \<and> k_err (snd (last tr)) = None \<and>
         filter (\<lambda>e. fst e = KClose \<or> fst e = KMunmap) tr = [] \<and> connected (connID s) (sMode s) tr \<and> buffer_of s tr
     | AcqPanic \<Rightarrow> filter maps tr = [])"
proof -
  have "(\<exists>n t. res = AcqErr t \<and> tr = [(KOpen, KErr n)]) \<or> ends res tr"
    using emits_run[OF emits_Acquire assms] by simp
  then show ?thesis
  proof
    assume "\<exists>n t. res = AcqErr t \<and> tr = [(KOpen, KErr n)]"
    then show ?thesis by (auto simp: is_modeset_def)
  next
    assume "ends res tr"
    then show ?thesis by (rule ends_counts)
  qed
qed

text \<open>An acquired surface can be painted and shown.  If the kernel answers buffer requests as its interface
  promises (rows of at least four octets per pixel, a size that holds all rows), every acquired surface of a
  mode with pixels has rows that fit its stride and a buffer that holds them, so the painters stay inside it, and
  a blit does not panic and shows the drawn image turned by 180 degrees.\<close>

theorem acquired_surface_shows:
  assumes "run_state (Acquire env) [] = (Acquired s, tr)"
      and "\<forall>w h b r. (KCreateDumb w h b, r) \<in> set tr \<longrightarrow>
             uint w * 4 \<le> uint (fst (snd (k_dumb r))) \<and> uint (fst (snd (k_dumb r))) * uint h \<le> uint (snd (snd (k_dumb r)))"
      and "0 < HDisplay (sMode s)" "same_shape shadow (sCanvas s)"
  shows "wf_canvas (sCanvas s) \<and>
    (\<exists>d. Blit (cw shadow) (ch shadow) (cstride shadow) (cpix shadow) (sMem s) = Some (cpix d) \<and> same_shape d (sCanvas s) \<and>
       (\<forall>x y. visible (cw shadow) (ch shadow) x y \<longrightarrow> pixel4 d x y = pixel4 shadow (cw shadow - 1 - x) (ch shadow - 1 - y)))"
proof -
  have "buffer_of s tr" using acquired_buffer[OF assms(1)] .
  then obtain r where r: "(KCreateDumb (ucast (HDisplay (sMode s))) (ucast (VDisplay (sMode s))) 32, r) \<in> set tr"
    "sCanvas s = \<lparr>cw = uint (HDisplay (sMode s)), ch = uint (VDisplay (sMode s)), cstride = uint (fst (snd (k_dumb r))),
        cpix = replicate (unat (snd (snd (k_dumb r)))) 0\<rparr>" "sMem s = cpix (sCanvas s)"
    unfolding buffer_of_def by blast
  have u: "uint (ucast v :: u32) = uint v" for v :: u16 by (simp add: uint_up_ucast is_up)
  have wf: "wf_canvas (sCanvas s)"
    using assms(2)[rule_format, OF r(1)] by (simp add: r(2) u wf_canvas_def)
  have "wf_canvas shadow" using wf assms(4) same_shape_wf by blast
  moreover have "same_shape (sCanvas s) shadow" "0 < cw shadow" "0 \<le> ch shadow"
    using assms(3,4) by (auto simp: same_shape_def r(2) word_less_def)
  ultimately obtain d where "Blit (cw shadow) (ch shadow) (cstride shadow) (cpix shadow) (cpix (sCanvas s)) = Some (cpix d)"
    "same_shape d shadow" "\<forall>x y. visible (cw shadow) (ch shadow) x y \<longrightarrow> pixel4 d x y = pixel4 shadow (cw shadow - 1 - x) (ch shadow - 1 - y)"
    using blit_rotates by blast
  then show ?thesis using wf r(3) same_shape_trans[OF _ assms(4)] by auto
qed

text \<open>C37: Connectors with more than eight modes cannot be lit.  The code caps the room for modes at eight; a kernel
  that fills no array shorter than the list (as its interface header documents) then leaves the first mode zero,
  and every surface that could be acquired has no pixels.\<close>

theorem acquire_unfilled_modes:
  assumes "8 < n" "\<forall>h conn room. room < n \<longrightarrow> env h (KGetConn conn room) = KConn n 1 []"
      and "run_state (Acquire env) [] = (Acquired s, tr)"
  shows "cw (sCanvas s) = 0 \<and> ch (sCanvas s) = 0"
proof -
  obtain room m ms where e: "(KGetConn (connID s) room, KConn m 1 ms) \<in> set tr" "sMode s = array8 zero_mode ms ! 0"
    using acquired_buffer[OF assms(3)] acquired_connected[OF assms(3)] unfolding connected_def by blast
  have h: "\<exists>h. KConn m 1 ms = env h (KGetConn (connID s) room)" "room \<le> 8"
    using Acquire_answers[OF assms(3) e(1)] by (simp_all add: room_ok_def)
  have "room < n" using h(2) assms(1) by simp
  then have "ms = []" using h(1) assms(2) by simp
  then have "sMode s = zero_mode" using e(2) by (simp add: array8_def)
  then show ?thesis using acquired_buffer[OF assms(3)] by (auto simp: buffer_of_def zero_mode_def)
qed

text \<open>A kernel with one panel of one mode, and one whose connector lists nine modes.\<close>

definition panel_mode :: drmModeInfo where
  "panel_mode = zero_mode\<lparr>HDisplay := 2, VDisplay := 1\<rparr>"

definition one_panel :: kenv where
  "one_panel h oper = (case oper of
      KGetRes a b \<Rightarrow> KRes 1 1 [7] [5] | KGetConn i room \<Rightarrow> KConn 1 1 (if room = 0 then [] else [panel_mode])
    | KCreateDumb w h b \<Rightarrow> KDumb 3 8 8 | KAddFB2 _ _ _ _ _ \<Rightarrow> KFb 9 | KMapDumb _ \<Rightarrow> KOff 0 | _ \<Rightarrow> KOk)"

definition nine_modes :: kenv where
  "nine_modes h oper = (case oper of
      KGetRes a b \<Rightarrow> KRes 1 1 [7] [5] | KGetConn i room \<Rightarrow> KConn 9 1 (if room < 9 then [] else replicate 9 panel_mode)
    | KCreateDumb w h b \<Rightarrow> KDumb 3 8 8 | KAddFB2 _ _ _ _ _ \<Rightarrow> KFb 9 | KMapDumb _ \<Rightarrow> KOff 0 | _ \<Rightarrow> KOk)"

definition lit :: "acquired \<Rightarrow> bool" where
  "lit r = (case r of Acquired _ \<Rightarrow> True | _ \<Rightarrow> False)"

definition surface_of :: "acquired \<Rightarrow> Surface" where
  "surface_of r = (case r of Acquired s \<Rightarrow> s | _ \<Rightarrow> undefined)"

lemma lit_run: "lit (fst (run_state m tr)) \<Longrightarrow> run_state m tr = (Acquired (surface_of (fst (run_state m tr))), snd (run_state m tr))"
  by (cases "run_state m tr"; cases "fst (run_state m tr)") (auto simp: lit_def surface_of_def)

theorem acquire_one_modeset_witness:
  "lit (fst (run_state (Acquire one_panel) [])) \<and> length (filter (\<lambda>e. is_modeset (fst e)) (snd (run_state (Acquire one_panel) []))) \<le> 1 \<and>
   k_err (snd (last (snd (run_state (Acquire one_panel) [])))) = None"
proof -
  have l: "lit (fst (run_state (Acquire one_panel) []))" by code_simp
  show ?thesis using acquire_one_modeset[OF lit_run[OF l]] l by simp
qed

theorem acquired_surface_shows_witness:
  "wf_canvas (sCanvas (surface_of (fst (run_state (Acquire one_panel) []))))"
proof -
  have l: "lit (fst (run_state (Acquire one_panel) []))" by code_simp
  have d: "\<forall>e\<in>set (snd (run_state (Acquire one_panel) [])). case e of
      (KCreateDumb w h b, r) \<Rightarrow> uint w * 4 \<le> uint (fst (snd (k_dumb r))) \<and> uint (fst (snd (k_dumb r))) * uint h \<le> uint (snd (snd (k_dumb r)))
    | _ \<Rightarrow> True" by code_simp
  have m: "0 < HDisplay (sMode (surface_of (fst (run_state (Acquire one_panel) []))))" by code_simp
  have "\<forall>w h b r. (KCreateDumb w h b, r) \<in> set (snd (run_state (Acquire one_panel) [])) \<longrightarrow>
      uint w * 4 \<le> uint (fst (snd (k_dumb r))) \<and> uint (fst (snd (k_dumb r))) * uint h \<le> uint (snd (snd (k_dumb r)))"
    using d by fastforce
  from acquired_surface_shows[OF lit_run[OF l] this m same_shape_refl] show ?thesis by blast
qed

theorem acquire_unfilled_modes_witness:
  "cw (sCanvas (surface_of (fst (run_state (Acquire nine_modes) [])))) = 0"
proof -
  have l: "lit (fst (run_state (Acquire nine_modes) []))" by code_simp
  have n: "\<forall>h conn room. room < 9 \<longrightarrow> nine_modes h (KGetConn conn room) = KConn 9 1 []" by (simp add: nine_modes_def)
  show ?thesis using acquire_unfilled_modes[OF _ n lit_run[OF l]] by simp
qed

end
