(* ===== verification/Probe.thy ===== *)
theory Probe
  imports Dialog
begin

text \<open>
  The two diagnostics of \<^verbatim>\<open>dc1-ask\<close> (\<^verbatim>\<open>ask/probe.go\<close>, \<^verbatim>\<open>ask/touchprobe.go\<close>): \<^verbatim>\<open>touchprobe\<close> prints the raw position of
  a number of taps, \<^verbatim>\<open>probe\<close> shows a marker at each corner of the panel and prints the raw position of the
  tap that follows.  The records of the touchscreen arrive until its read fails or stays silent, and then the
  exit status is \<open>None\<close>, the program is still waiting; the frames that are put on the panel are kept.  The texts of the errors of the operating system are
  parameters.
\<close>

section \<open>touchprobe\<close>

definition axes_text :: "touch \<Rightarrow> string" where
  "axes_text t =
     ''axes_x=('' @ dec_int (minX t) @ '','' @ dec_int (maxX t) @ '') axes_y=('' @ dec_int (minY t) @ '','' @ dec_int (maxY t) @ '')''"

definition tap_line :: "nat \<Rightarrow> int \<times> int \<Rightarrow> string" where
  "tap_line i p = ''TOUCHPROBE tap='' @ dec (i + 1) @ '' raw_x='' @ dec_int (fst p) @ '' raw_y='' @ dec_int (snd p) @ nl"

definition tap_failed :: "string \<Rightarrow> string" where
  "tap_failed why = ''dc1-ask: tap read failed: '' @ why @ nl"

text \<open>The loop with \<open>n\<close> taps to go, the number of the next tap and what it has printed.\<close>

fun touchprobe_loop :: "string \<Rightarrow> nat \<Rightarrow> nat \<Rightarrow> touch \<Rightarrow> bytes incoming \<Rightarrow> int option \<times> string \<times> string" where
  "touchprobe_loop why 0 i t evs = (Some 0, [], [])"
| "touchprobe_loop why (Suc n) i t evs =
     (case rawTap t evs of
        TapError \<Rightarrow> (Some 2, [], tap_failed why)
      | NoTapYet \<Rightarrow> (None, [], [])
      | Tapped (p, t', rest) \<Rightarrow>
          (case touchprobe_loop why n (i + 1) t' rest of (rc, outS, errS) \<Rightarrow> (rc, tap_line i p @ outS, errS)))"

definition tap_count :: "string list \<Rightarrow> int option" where
  "tap_count args =
     (case args of
        [] \<Rightarrow> Some 4
      | a # _ \<Rightarrow> (case parse_int64 a of Some v \<Rightarrow> if v < 1 then None else Some v | None \<Rightarrow> None))"

definition touchprobe ::
  "string \<Rightarrow> string \<Rightarrow> string \<Rightarrow> (string \<Rightarrow> input_dev) \<Rightarrow> string list \<Rightarrow> bytes incoming \<Rightarrow> int option \<times> string \<times> string" where
  "touchprobe open_why why dc1_input devices args evs =
     (case tap_count args of
        None \<Rightarrow> (Some 2, [], ''dc1-ask: touchprobe [N] (N taps, default 4)'' @ nl)
      | Some n \<Rightarrow>
          (case openTouch dc1_input devices of
             None \<Rightarrow> (Some 2, [], ''dc1-ask: no touchscreen: '' @ open_why @ nl)
           | Some t \<Rightarrow>
               (case touchprobe_loop why (nat n) 0 t evs of (rc, outS, errS) \<Rightarrow>
                  (rc, ''TOUCHPROBE '' @ axes_text t @ '' taps='' @ dec_int n @ nl @ outS, errS))))"

section \<open>probe\<close>

definition block :: int where "block = 220"

definition corners :: "canvas \<Rightarrow> (string \<times> int \<times> int) list" where
  "corners c =
     [(''tl'', 0, 0), (''tr'', cw c - block, 0), (''bl'', 0, ch c - block), (''br'', cw c - block, ch c - block)]"

definition chosen_corners :: "string list \<Rightarrow> canvas \<Rightarrow> (string \<times> int \<times> int) list" where
  "chosen_corners args c = (case args of [] \<Rightarrow> corners c | a # _ \<Rightarrow> filter (\<lambda>cn. fst cn = a) (corners c))"

definition marker_frame :: "font \<Rightarrow> canvas \<Rightarrow> nat \<Rightarrow> int \<times> int \<Rightarrow> canvas" where
  "marker_frame F c i m =
     (let c1 = fillRect c 0 0 (cw c) (ch c) cBG;
          c2 = fillRect c1 (fst m) (snd m) block block cFG
      in drawText F c2 (quot (cw c) 2 - 40) (quot (ch c) 2 - 60) 12 cAccent (dec (i + 1)))"

definition corner_line :: "string \<times> int \<times> int \<Rightarrow> int \<times> int \<Rightarrow> string" where
  "corner_line cn p =
     ''PROBE corner='' @ fst cn @ '' marker=('' @ dec_int (fst (snd cn)) @ '','' @ dec_int (snd (snd cn)) @ '') raw_x='' @
     dec_int (fst p) @ '' raw_y='' @ dec_int (snd p) @ nl"

fun probe_loop ::
  "font \<Rightarrow> string \<Rightarrow> (string \<times> int \<times> int) list \<Rightarrow> nat \<Rightarrow> touch \<Rightarrow> bytes incoming \<Rightarrow> canvas \<Rightarrow> (int option \<times> string \<times> string) \<times> canvas list" where
  "probe_loop F why [] i t evs c = ((Some 0, [], []), [fillRect c 0 0 (cw c) (ch c) cBG])"
| "probe_loop F why (cn # cns) i t evs c =
     (let c' = marker_frame F c i (snd cn) in
      case rawTap t evs of
        TapError \<Rightarrow> ((Some 2, [], tap_failed why), [c'])
      | NoTapYet \<Rightarrow> ((None, [], []), [c'])
      | Tapped (p, t', rest) \<Rightarrow>
          (case probe_loop F why cns (i + 1) t' rest c' of ((rc, outS, errS), fs) \<Rightarrow>
             ((rc, corner_line cn p @ outS, errS), c' # fs)))"

definition probe ::
  "font \<Rightarrow> string \<Rightarrow> string \<Rightarrow> (string \<Rightarrow> input_dev) \<Rightarrow> canvas option \<Rightarrow> string list \<Rightarrow> bytes incoming \<Rightarrow> (int option \<times> string \<times> string) \<times> canvas list" where
  "probe F why dc1_input devices surface args evs =
     (case surface of
        None \<Rightarrow> ((Some 2, [], ''dc1-ask: no display'' @ nl), [])
      | Some c \<Rightarrow>
          (case openTouch dc1_input devices of
             None \<Rightarrow> ((Some 2, [], ''dc1-ask: no touchscreen'' @ nl), [])
           | Some t \<Rightarrow>
               if chosen_corners args c = [] then ((Some 2, [], ''dc1-ask: unknown corner '' @ hd args @ nl), [])
               else (case probe_loop F why (chosen_corners args c) 0 t evs c of ((rc, outS, errS), fs) \<Rightarrow>
                       ((rc, ''PROBE scan='' @ dec_int (cw c) @ ''x'' @ dec_int (ch c) @ '' '' @ axes_text t @ nl @ outS, errS), fs))))"

section \<open>The raw positions\<close>

text \<open>How a loop that wants \<open>n\<close> taps ends, given the number of taps that arrived.\<close>

definition ending :: "nat \<Rightarrow> touch \<Rightarrow> bytes incoming \<Rightarrow> int option" where
  "ending n t evs = (if n \<le> length (reported_taps t evs) then Some 0 else if read_fails evs then Some 2 else None)"

lemma rawTap_cases:
  obtains (tapped) p t' rest where "rawTap t evs = Tapped (p, t', rest)" "reported_taps t evs = p # reported_taps t' rest"
      "read_fails rest = read_fails evs"
  | (fails) "rawTap t evs = TapError" "reported_taps t evs = []" "read_fails evs"
  | (waits) "rawTap t evs = NoTapYet" "reported_taps t evs = []" "\<not> read_fails evs"
  using rawTap_reported[of t evs] by (cases "rawTap t evs") auto

text \<open>What \<^verbatim>\<open>touchprobe\<close> prints for a list of positions, numbered from \<open>i + 1\<close>.\<close>

fun tap_lines :: "nat \<Rightarrow> (int \<times> int) list \<Rightarrow> string" where
  "tap_lines i [] = []"
| "tap_lines i (p # ps) = tap_line i p @ tap_lines (i + 1) ps"

lemma touchprobe_loop_exact:
  "touchprobe_loop why n i t evs =
     (ending n t evs, tap_lines i (take n (reported_taps t evs)), if ending n t evs = Some 2 then tap_failed why else [])"
proof (induction n arbitrary: i t evs)
  case (Suc n)
  show ?case
  proof (cases rule: rawTap_cases[of t evs])
    case (tapped p t' rest)
    then show ?thesis using Suc.IH[of "i + 1" t' rest] by (simp add: ending_def)
  qed (simp_all add: ending_def)
qed (simp add: ending_def)

lemma probe_loop_out:
  "fst (probe_loop F why cns i t evs c) =
     (ending (length cns) t evs, concat (map (\<lambda>(cn, p). corner_line cn p) (zip cns (reported_taps t evs))),
      if ending (length cns) t evs = Some 2 then tap_failed why else [])"
proof (induction cns arbitrary: i t evs c)
  case (Cons cn cns)
  show ?case
  proof (cases rule: rawTap_cases[of t evs])
    case (tapped p t' rest)
    then show ?thesis
      using Cons.IH[of "i + 1" t' rest "marker_frame F c i (snd cn)"]
      by (cases "probe_loop F why cns (i + 1) t' rest (marker_frame F c i (snd cn))") (auto simp: Let_def ending_def)
  qed (simp_all add: Let_def ending_def)
qed (simp add: ending_def)

lemma marker_shape:
  assumes "wf_canvas c"
  shows "wf_canvas (marker_frame F c i m) \<and> same_shape (marker_frame F c i m) c"
proof -
  have "painted c (marker_frame F c i m)"
    unfolding marker_frame_def Let_def using assms by (intro painting) (simp_all add: palette_grey)
  then show ?thesis using draws_wf[OF _ assms] by (auto simp: draws_def)
qed

lemma probe_loop_frames:
  assumes "wf_canvas c"
  shows "list_all (\<lambda>f. wf_canvas f \<and> same_shape f c) (snd (probe_loop F why cns i t evs c)) \<and>
     (length cns \<le> length (reported_taps t evs) \<longrightarrow>
        length (snd (probe_loop F why cns i t evs c)) = length cns + 1 \<and>
        (\<forall>x y. visible (cw c) (ch c) x y \<longrightarrow> pixel4 (last (snd (probe_loop F why cns i t evs c))) x y = put32 cBG))"
  using assms
proof (induction cns arbitrary: i t evs c)
  case Nil
  have "wf_canvas (fillRect c 0 0 (cw c) (ch c) cBG) \<and> same_shape (fillRect c 0 0 (cw c) (ch c) cBG) c"
    using fillRect_shape[OF Nil] Nil same_shape_wf by blast
  then show ?case using fillRect_pixel4[OF Nil] by (auto simp: visible_def inRect_def)
next
  case (Cons cn cns)
  let ?c = "marker_frame F c i (snd cn)"
  have m: "wf_canvas ?c" "same_shape ?c c" using marker_shape[OF Cons.prems] by auto
  show ?case
  proof (cases rule: rawTap_cases[of t evs])
    case (tapped p t' rest)
    obtain res fs where l: "probe_loop F why cns (i + 1) t' rest ?c = (res, fs)" by fastforce
    have "snd (probe_loop F why (cn # cns) i t evs c) = ?c # fs" using tapped l by (simp add: Let_def split: prod.splits)
    moreover have "same_shape f c" if "same_shape f ?c" for f using that m(2) by (simp add: same_shape_def)
    ultimately show ?thesis
      using Cons.IH[OF m(1), of "i + 1" t' rest] l m tapped
      by (auto simp: list_all_iff same_shape_def)
  qed (use m in \<open>simp_all add: Let_def\<close>)
qed

section \<open>Properties\<close>

text \<open>The probes print what the detector sees.  With a touchscreen, \<^verbatim>\<open>touchprobe\<close> prints exactly the first \<open>n\<close>
  raw positions of the recording, numbered from 1; it exits with 0 once there were that many and with 2 if
  the read failed before, and waits otherwise.\<close>

theorem touchprobe_exact:
  assumes "tap_count args = Some n" "openTouch dc1_input devices = Some t"
  shows "touchprobe open_why why dc1_input devices args evs =
    (ending (nat n) t evs,
     ''TOUCHPROBE '' @ axes_text t @ '' taps='' @ dec_int n @ nl @ tap_lines 0 (take (nat n) (reported_taps t evs)),
     if ending (nat n) t evs = Some 2 then tap_failed why else [])"
  using assms by (simp add: touchprobe_def touchprobe_loop_exact)

text \<open>Likewise \<^verbatim>\<open>probe\<close> pairs the chosen corners with the first raw positions; when it succeeds it has put one frame
  per corner and a last one on the panel, all of the shape of the surface, and the last one shows the
  background colour everywhere.\<close>

theorem probe_exact:
  assumes "wf_canvas c" "openTouch dc1_input devices = Some t" "chosen_corners args c \<noteq> []"
      and "probe F why dc1_input devices (Some c) args evs = ((rc, outS, errS), fs)"
  shows "rc = ending (length (chosen_corners args c)) t evs \<and>
    outS = ''PROBE scan='' @ dec_int (cw c) @ ''x'' @ dec_int (ch c) @ '' '' @ axes_text t @ nl @
      concat (map (\<lambda>(cn, p). corner_line cn p) (zip (chosen_corners args c) (reported_taps t evs))) \<and>
    list_all (\<lambda>f. wf_canvas f \<and> same_shape f c) fs \<and>
    (rc = Some 0 \<longrightarrow> length fs = length (chosen_corners args c) + 1 \<and>
       (\<forall>x y. visible (cw c) (ch c) x y \<longrightarrow> pixel4 (last fs) x y = put32 cBG))"
  using assms(2-4) probe_loop_out[of F why "chosen_corners args c" 0 t evs c]
    probe_loop_frames[OF assms(1), of F why "chosen_corners args c" 0 t evs]
  by (auto simp: probe_def ending_def Let_def split: prod.splits if_splits)

end
