(* ===== verification/Spec2Isabelle.thy ===== *)
theory Spec2Isabelle
  imports Hwtest Hw_Load Mkboot Applets Systeminit Debugtools Drm Probe
begin

text \<open>
  A verification development for the Go programs of the DC-1 port: the boot image packer, the on-device
  installer and its debug toolkit, the two programs that run as PID 1, and the hardware test suite.

  \<^bold>\<open>The system.\<close>  The host script \<^verbatim>\<open>installer/host/dc1-install.sh\<close> boots the tablet into an installer image
  packed by \<^verbatim>\<open>boot/mkboot\<close>.  PID 1 of that image (\<^verbatim>\<open>internal/installerinit\<close>) mounts the kernel filesystems,
  brings up the USB gadget, starts the second stage, opens the display gate and then repaints a status
  screen for ever, while a dialog server in the same process answers the \<^verbatim>\<open>dc1-ask\<close> client
  (\<^verbatim>\<open>internal/ask\<close>) on the panel.  The second stage runs the daemon \<^verbatim>\<open>internal/installd\<close>, which reads one
  DC1-INSTALL-V1 header (\<^verbatim>\<open>internal/wire\<close>), resolves the userdata partition (\<^verbatim>\<open>internal/partition\<close>), streams
  the image onto it (\<^verbatim>\<open>internal/imagewrite\<close>), runs a finalize script and reboots to fastboot;
  \<^verbatim>\<open>internal/rebootfastboot\<close> is the applet that does the last step with care, using the control block decoder
  \<^verbatim>\<open>internal/bootctl\<close>.  \<^verbatim>\<open>internal/debugtools\<close> collects reports and logs.  After flashing, PID 1 of the boot image
  (\<^verbatim>\<open>internal/systeminit\<close>) finds, checks and mounts the root filesystem and hands over to it, or ends in a rescue
  shell with a dead man's switch.  All of these but the packer are applets of one binary (\<^verbatim>\<open>main.go\<close>).
  On the installed system \<^verbatim>\<open>src/tools/hwtest\<close> measures the hardware: a run selects groups of checks, each of which reads
  files below a root, runs fixed queries and reports results; what could disturb the machine (CPU load, storage
  round trip, input grabs, microphone, network probe) needs its own flag.  All paths are below \<^verbatim>\<open>src/installer/gotools\<close> unless they say otherwise.

  \<^bold>\<open>Theories and sources.\<close>
  \<^item> \<open>Dc1_Prelude\<close>: bytes, little-endian codecs (locale \<open>le_codec\<close>, interpreted for 16, 32 and 64 bits), Go slices,
    64-bit wrap-around and truncating division.  \<open>Go_Strings\<close>, \<open>Go_Text\<close>, \<open>Go_Flag\<close>, \<open>Go_Io\<close>, \<open>Base64\<close>, \<open>Sha256\<close>,
    \<open>Md5\<close>: what the sources use of the Go library.
  \<^item> \<open>Mkboot\<close>: \<^verbatim>\<open>src/boot/mkboot/main.go\<close>; headers as records of words, files as a map.
  \<^item> \<open>Wire\<close>: \<^verbatim>\<open>wire.go\<close> and the header the host script renders (locale \<open>stream_reader\<close>).  \<open>Partition\<close>:
    \<^verbatim>\<open>partition.go\<close> and the twin resolver of \<^verbatim>\<open>rebootfastboot.go\<close> (locale \<open>partition_resolver\<close>, interpreted twice).
  \<^item> \<open>Imagewrite\<close>, \<open>Disk\<close>: \<^verbatim>\<open>imagewrite.go\<close> over an abstract device (locales \<open>disk_target\<close> and \<open>reliable_target\<close>)
    and its interpretation on a block device with an arbitrary schedule of faults.
  \<^item> \<open>Bootctl\<close>, \<open>Rebootfastboot\<close>, \<open>Installd\<close>: the packages of these names; the daemon's session is a record.
  \<^item> \<open>Trace\<close>: programs over an interface of operations, with the history of operations and answers as state;
    the environment is an arbitrary function of the history.  \<open>Decide\<close>, \<open>Systeminit\<close>: \<^verbatim>\<open>decide.go\<close>,
    \<^verbatim>\<open>systeminit.go\<close> and \<^verbatim>\<open>ProbeRoots\<close> of \<^verbatim>\<open>ops.go\<close>.  \<open>Debugtools\<close>: \<^verbatim>\<open>debugtools.go\<close>.
  \<^item> \<open>Canvas\<close>, \<open>Panel\<close>: the pixel layer (\<^verbatim>\<open>ask/draw.go\<close>, \<^verbatim>\<open>textfont.go\<close>, \<^verbatim>\<open>fill\<close> of \<^verbatim>\<open>installerinit/paint.go\<close>, \<^verbatim>\<open>Blit\<close>
    of \<^verbatim>\<open>drm.go\<close>, \<^verbatim>\<open>ask/fb.go\<close>; locale \<open>raster\<close>).  \<open>Ask\<close>, \<open>Touch\<close>: the dialogs, the keyboard and the
    tap detector.  \<open>Installerinit\<close>: gate, gadget, boot sequence, status screen.  \<open>Drm\<close>: \<^verbatim>\<open>drm.go\<close>,
    the ioctl encodings and the acquisition of the panel over arbitrary kernel answers.  \<open>Dialog\<close>: the dialog protocol
    and the mutex the server shares with the status painter.
  \<^item> \<open>Probe\<close>: the diagnostics \<^verbatim>\<open>ask/probe.go\<close> and \<^verbatim>\<open>touchprobe.go\<close>.  \<open>Applets\<close>: the dispatch of the binary, and
    \<^verbatim>\<open>Main\<close> of the daemon with its listening loop.
  \<^item> \<open>Go_Float\<close> (\<^verbatim>\<open>float64\<close> as rounded rationals), \<open>Net_Addr\<close> (addresses and \<^verbatim>\<open>wifiNetworkTarget\<close>).  \<open>Hw_Core\<close>:
    \<^verbatim>\<open>hwtest/report.go\<close>; results, clock readings, file reads, commands and prompts are operations of a trace, and
    two interpretations of the locale \<open>trace_property\<close> carry the consent proofs through every group.
    \<open>Hw_Platform\<close>, \<open>Hw_Load\<close>, \<open>Hw_Display\<close>, \<open>Hw_Power\<close>, \<open>Hw_Sensors\<close>, \<open>Hw_Connect\<close>, \<open>Hw_Storage\<close>, \<open>Hw_Audio\<close>,
    \<open>Hw_Input\<close>, \<open>Hw_Operator\<close>: one theory per source file, with the load and the operator tests apart.
    \<open>Hw_Session\<close>: the concurrent input session as a step relation.  \<open>Hwtest\<close>: \<^verbatim>\<open>main.go\<close>.
  \<^item> This theory: the property that spans the installer and the boot image.

  \<^bold>\<open>What is shown.\<close>
  \<^item> Installing: a success means that the device written to, which stands for the resolved userdata partition, holds
    exactly the digest-checked image in front of its old content, and the superblock is written last.  A failed write
    leaves the first MiB zero and the boot image selects no root, on a device with any faults, unless the last
    operation was a write of zeros that the device refused; even then nothing incomplete or unverified is
    mountable.  A failed finalize script leaves the complete image.  On a fault-free device a session of the host
    script succeeds.
  \<^item> Sessions: the device changes only after all checks; each session ends in one verdict; header and host script
    agree (round trip), and accepted headers are valid.
  \<^item> Rebooting: arming and disarming change only their bits and bytes, and the applet reaches fastboot for a
    bootloader that behaves as documented, unless the environment redirects it to another register file.
  \<^item> Boot: only a selected root that is mounted as a separate filesystem and has an init is executed, a failed handoff
    undoes exactly the moves that succeeded, the watchdog is petted only while the lease holds, the waiting loop ends, and the applet refuses to run elsewhere.
  \<^item> Installer PID 1: the panel is powered only after the second stage and the display chain are ready; every
    status frame and dialog frame is a complete grey image inside its buffer; menus and the keyboard answer what
    was tapped; the tap detector refines a detector on whole frames; the dialog server answers every request with a tap on
    the button that leaves its dialog, and waits without one.  The panel is
    committed at most once, a failed acquisition leaves nothing open, and a blit shows the drawn image.
  \<^item> Debug toolkit: it writes only below its directory; the text filter equals its reference definition.
  \<^item> The daemon gives every client in turn one conversation with one verdict, and refuses one as busy exactly if the
    lock directory cannot be created; every applet can be reached by
    its link and as a subcommand; the probes print exactly what the tap detector reports.
  \<^item> Hardware tests: nothing that needs a flag happens without it, whatever the machine answers; a relocated
    root is only read, and only below its resolved path; every selected group reports, in order, and the exit status
    agrees with the results.  The CPU load runs only between cool thermometers and is always stopped; the
    storage worker says OK only after a verified round trip; an input session never loses events silently in any
    interleaving; the touch and pen trackers never claim more than the hardware did; the wait for a USB
    host ends.
  \<^item> Packer: parsing a packed image gives back what was packed; verification is sound.
  \<^item> Five theorems describe behaviour that differs from what comments or interfaces say: the legacy command line of v4 headers, the
    unscrubbed partition after a failed finalize script, the daemon's reboot with a stale bootloader command,
    the mutex left locked by a panicking dialog, and the mode list the kernel does not fill.

  \<^bold>\<open>Bounds and fuel.\<close>  Loops that never end on the device (status loop, petter, rescue, log and shell helpers, the
  menu of the toolkit) take the number of passes to observe as a parameter; the theorems hold for every number.
  The wait for storage is bounded by the source at 60 probes.  The read-back loop has fuel one above the image
  size, which is enough because every pass delivers a byte or an error, and \<open>Disk\<close> proves that it never runs out
  on the block device.  The wait for a USB host polls at most 92 times; \<open>Hw_Connect\<close> proves that 91 are enough for
  45 seconds at half a second a poll on a clock that does not run backwards.  All other recursion terminates structurally or
  by a measure.  Panics are values.  A read of the touchscreen that has nothing to return blocks, and a dialog or probe that is still waiting is a value of its own.

  \<^bold>\<open>Parameters.\<close>  The font rasteriser (the mask of a rendered text), the gzip compressor, the float parser, the stamped
  version, the answers of the kernel and of other processes, and the touch events are arguments.  The behaviour
  of the bootloader is a named hypothesis that states its documentation.

  \<^bold>\<open>Not modelled.\<close>  The system calls behind the operation interfaces; the signal shield of \<^verbatim>\<open>pid1\<close>, which only changes
  signal dispositions; the rasteriser and its cache (\<^verbatim>\<open>textfont.face\<close>, a third-party package); the encoding of
  dialog messages and of the result list as JSON; the flag parser and the printed texts of the packer; the usage
  texts; the idle and grace delays of the daemon; the order in which Go visits a map where only a message
  depends on it (the first unknown group of \<^verbatim>\<open>hwtest\<close> is reported); and everything that is not Go.
\<close>

section \<open>The installer and the boot image agree on what is bootable\<close>

text \<open>A partition holds a root if its superblock is that of an ext4 filesystem labelled jagar-root.\<close>

definition holds_root :: "bytes \<Rightarrow> bool" where
  "holds_root c \<longleftrightarrow> 2048 \<le> length c \<and> ProbeSuperblock (slice 1024 2048 c) = (''ext4'', ''jagar-root'')"

lemma probe_selects:
  assumes "ResolveUserdata devdir sys_devs = Inr r"
      and "bfStat (files (Device r))" "bfBlock (files (Device r))" "bfOpens (files (Device r))"
  shows "\<exists>cands. ProbeRoots devdir sys_devs files = Inr cands \<and>
     (\<forall>p. SelectRoot cands = Inr p \<longleftrightarrow> p = Device r \<and> holds_root (bfContent (files (Device r))))"
proof -
  let ?c = "bfContent (files (Device r))"
  let ?p = "if length ?c < 2048 then ([], []) else ProbeSuperblock (slice 1024 2048 ?c)"
  have "ProbeRoots devdir sys_devs files = Inr [\<lparr>candDevice = Device r, FSType = fst ?p, Label = snd ?p\<rparr>]"
    using assms by (simp add: ProbeRoots_def SuperblockOffset_def SuperblockSize_def Let_def)
  moreover have "SelectRoot [\<lparr>candDevice = Device r, FSType = fst ?p, Label = snd ?p\<rparr>] = Inr p \<longleftrightarrow> p = Device r \<and> holds_root ?c" for p
    by (auto simp: SelectRoot_iff rootFSType_def rootLabel_def holds_root_def prod_eq_iff split: if_splits)
  ultimately show ?thesis by blast
qed

lemma zeroed_holds_none:
  assumes "take MiB c = replicate MiB 0"
  shows "\<not> holds_root c"
proof -
  have "MiB \<le> length c" using assms by (metis length_replicate length_take min.cobounded1)
  then show ?thesis
    using scrubbed_superblock[OF _ assms] by (simp add: holds_root_def SuperblockOffset_def SuperblockSize_def)
qed

lemma image_decides:
  assumes "MiB \<le> length img"
  shows "holds_root (img @ rest) \<longleftrightarrow> holds_root img"
proof -
  have "2048 \<le> length img" using assms by (simp add: MiB_def)
  then show ?thesis by (simp add: holds_root_def slice_def)
qed

lemma header_size: "ParseHeader s = Inr (hdr, body) \<Longrightarrow> int MiB \<le> Size hdr \<and> SHA256 hdr \<noteq> []"
  using ParseHeader_valid[of s hdr body] by (auto simp: valid_header_def MinImageBytes_def MiB_def)


lemma broken_session:
  "\<exists>x. last (replies (serve (disk_ops broken) (sample_env True) [] sample_conn EOF sample_sess)) = reply.Fail (WriteFailed x)"
proof -
  obtain target where t: "ResolveUserdata ''/dev'' sample_sysfs = Inr target" "int (length big_image) \<le> Bytes target"
    by (rule sample_target)
  have i: "take MiB (take (nat (int bigLen)) (concat [big_image])) \<noteq> replicate MiB 0"
    using sevens_not_zeros sample_room by (simp add: big_image_def min_def)
  obtain d1 rest said x where w: "Write (disk_ops broken) (dev sample_sess) [big_image] EOF (int bigLen) (sha256_hex big_image) =
      (d1, rest, said, Inl x)" using broken_fails[OF i] by blast
  have "x \<noteq> ReadBackHangs" using w dt.Write_never_hangs by metis
  then show ?thesis
    using t w sample_header
    by (cases x; simp add: serve_def serve_locked_def serve_answers_def serve_target_def serve_write_def
        Let_def host_header_def sample_env_def; simp add: sample_sess_def)
qed


end
